(* ===== verification/Hupi_Prelude.thy ===== *)
theory Hupi_Prelude
  imports Main
begin

text \<open>
  Shared vocabulary of the development: the error values of the Go packages, the
  state-and-error monad in which their stateful functions are written, a weakest-precondition
  calculus for it, and generic lemmas on lists, options and the parts of Go's \<open>strings\<close>
  package that several components use.
\<close>

section \<open>Bytes and errors\<close>

text \<open>
  A Go string or byte slice is a sequence of bytes; an Isabelle \<open>char\<close> is a byte, so both
  are \<open>string\<close>. A \<open>bytea\<close> column or a byte slice that may be \<open>nil\<close> is a
  \<open>string option\<close>.
\<close>

type_synonym bytes = string

text \<open>
  One constructor per error the modelled functions return. Go wraps errors with context
  (\<open>fmt.Errorf\<close> with \<open>%w\<close>) and tests them with \<open>errors.Is\<close>; the wrapping text is dropped,
  the identity of the error is kept.
\<close>

datatype err =
    ErrDb                          \<comment> \<open>a failed database round trip\<close>
  | ErrNoRows                      \<comment> \<open>\<open>sql.ErrNoRows\<close>\<close>
  | ErrConstraint                  \<comment> \<open>a violated table constraint\<close>
  | ErrRand                        \<comment> \<open>the random source failed\<close>
  | ErrKeyLength nat               \<comment> \<open>\<open>NewEncryptor\<close>: not a 32-byte key\<close>
  | ErrShortCiphertext             \<comment> \<open>\<open>Decrypt\<close>: blob shorter than the nonce\<close>
  | ErrOpen                        \<comment> \<open>\<open>Decrypt\<close>: authentication failed\<close>
  | ErrKeyVersionNotFound nat      \<comment> \<open>\<open>KeyStore.GetVersion\<close>\<close>
  | ErrNothingToRotate             \<comment> \<open>\<open>CreateNextVersion\<close>, \<open>rotate.Start\<close>\<close>
  | ErrNoRotation                  \<comment> \<open>\<open>rotate.Continue\<close>, \<open>rotate.Prune\<close>\<close>
  | ErrUnknownCursor string        \<comment> \<open>\<open>rotate.Continue\<close>\<close>
  | ErrNotCompleted                \<comment> \<open>\<open>rotate.Prune\<close>\<close>
  | ErrStillReferenced nat         \<comment> \<open>\<open>rotate.Prune\<close>\<close>
  | ErrSessionInvalid              \<comment> \<open>\<open>demo.ErrSessionInvalid\<close>\<close>
  | ErrConsolidateLimitReached     \<comment> \<open>\<open>demo.ErrConsolidateLimitReached\<close>\<close>
  | ErrDailySessionCapReached      \<comment> \<open>\<open>demo.ErrDailySessionCapReached\<close>\<close>
  | ErrProvider                    \<comment> \<open>an LLM or embedding call failed\<close>
  | ErrVectorCount nat nat         \<comment> \<open>the embedder returned another number of vectors\<close>
  | ErrParse                       \<comment> \<open>a JSON text did not parse\<close>
  | ErrReasonRequired              \<comment> \<open>\<open>Runner.Correct\<close>: no correction reason\<close>
  | ErrAlreadySuperseded string    \<comment> \<open>\<open>Runner.Correct\<close>: not the current version\<close>
  | ErrFeedbackEpisodeNotFound     \<comment> \<open>\<open>gateway.ErrFeedbackEpisodeNotFound\<close>\<close>
  | ErrPanic                       \<comment> \<open>a run-time panic that unwinds the request\<close>
  | ErrCancelled                   \<comment> \<open>\<open>context.Canceled\<close>\<close>
  | ErrUnauthorized                \<comment> \<open>\<open>Handler.resolveIdentity\<close>: no or no valid token\<close>
  | ErrAttachments                 \<comment> \<open>\<open>mergeAttachments\<close>: a request that is refused\<close>
  | ErrUnknownRefKind string       \<comment> \<open>\<open>Store.Trace\<close>\<close>
  | ErrIO                          \<comment> \<open>a file could not be created, read or written\<close>
  | ErrScopeNotEmpty               \<comment> \<open>\<open>ImportScope\<close> without \<open>-merge\<close>\<close>
  | ErrNoFreeID                    \<comment> \<open>\<open>importEpisodes\<close>\<close>
  | ErrNoScopes                    \<comment> \<open>\<open>ExportBundle\<close>\<close>
  | ErrBundleVersion               \<comment> \<open>\<open>ReadManifest\<close>\<close>
  | ErrInvalidPassword             \<comment> \<open>\<open>auth.ErrInvalidPassword\<close>\<close>
  | ErrInvalidOperator             \<comment> \<open>\<open>auth.ErrInvalidOperator\<close>\<close>
  | ErrNoSuchUser                  \<comment> \<open>\<open>Store.SetPassword\<close>\<close>
  | ErrPasswordHash                \<comment> \<open>\<open>bcrypt.GenerateFromPassword\<close>\<close>
  | ErrUsage                       \<comment> \<open>a command or a request without a field it needs\<close>

section \<open>The state-and-error monad\<close>

text \<open>
  A Go method that reads and writes its receiver and returns \<open>(x, err)\<close> is a function from
  a state to a result and a new state. The state survives an error: what a method did before
  it failed has happened.
\<close>

type_synonym ('s, 'a) M = "'s \<Rightarrow> (err + 'a) \<times> 's"

definition retM :: "'a \<Rightarrow> ('s, 'a) M" where
  "retM x = (\<lambda>s. (Inr x, s))"

definition errM :: "err \<Rightarrow> ('s, 'a) M" where
  "errM e = (\<lambda>s. (Inl e, s))"

definition bindM :: "('s, 'a) M \<Rightarrow> ('a \<Rightarrow> ('s, 'b) M) \<Rightarrow> ('s, 'b) M" where
  "bindM m f = (\<lambda>s. case m s of (Inl e, t) \<Rightarrow> (Inl e, t) | (Inr x, t) \<Rightarrow> f x t)"

definition liftM :: "err + 'a \<Rightarrow> ('s, 'a) M" where
  "liftM r = (\<lambda>s. (r, s))"

definition getM :: "('s \<Rightarrow> 'a) \<Rightarrow> ('s, 'a) M" where
  "getM f = (\<lambda>s. (Inr (f s), s))"

definition modM :: "('s \<Rightarrow> 's) \<Rightarrow> ('s, unit) M" where
  "modM f = (\<lambda>s. (Inr (), f s))"

text \<open>\<open>tryM m f\<close> runs \<open>m\<close> and hands its outcome, error or value, to \<open>f\<close>: Go code that
  inspects \<open>err\<close> instead of returning it.\<close>

definition tryM :: "('s, 'a) M \<Rightarrow> (err + 'a \<Rightarrow> ('s, 'b) M) \<Rightarrow> ('s, 'b) M" where
  "tryM m f = (\<lambda>s. case m s of (r, t) \<Rightarrow> f r t)"

primrec forM :: "('a \<Rightarrow> ('s, unit) M) \<Rightarrow> 'a list \<Rightarrow> ('s, unit) M" where
  "forM f [] = retM ()"
| "forM f (x # xs) = bindM (f x) (\<lambda>_. forM f xs)"

primrec mapM :: "('a \<Rightarrow> ('s, 'b) M) \<Rightarrow> 'a list \<Rightarrow> ('s, 'b list) M" where
  "mapM f [] = retM []"
| "mapM f (x # xs) = bindM (f x) (\<lambda>y. bindM (mapM f xs) (\<lambda>ys. retM (y # ys)))"

primrec foldM :: "('a \<Rightarrow> 'b \<Rightarrow> ('s, 'b) M) \<Rightarrow> 'a list \<Rightarrow> 'b \<Rightarrow> ('s, 'b) M" where
  "foldM f [] acc = retM acc"
| "foldM f (x # xs) acc = bindM (f x acc) (foldM f xs)"

lemmas monad_defs = retM_def errM_def bindM_def liftM_def getM_def modM_def tryM_def

section \<open>Weakest preconditions\<close>

text \<open>
  \<open>wp m Q E s\<close>: running \<open>m\<close> from \<open>s\<close> ends in a value and state satisfying \<open>Q\<close> or in an
  error and state satisfying \<open>E\<close>. The functions of the model are total, so this is total
  correctness.
\<close>

definition wp :: "('s, 'a) M \<Rightarrow> ('a \<Rightarrow> 's \<Rightarrow> bool) \<Rightarrow> (err \<Rightarrow> 's \<Rightarrow> bool) \<Rightarrow> 's \<Rightarrow> bool" where
  "wp m Q E s \<longleftrightarrow> (case m s of (Inr x, t) \<Rightarrow> Q x t | (Inl e, t) \<Rightarrow> E e t)"

named_theorems wp_simps "equations that push wp through the monad's operations"

lemma wp_retM [wp_simps]: "wp (retM x) Q E = Q x"
  by (simp add: wp_def retM_def fun_eq_iff)

lemma wp_errM [wp_simps]: "wp (errM e) Q E = E e"
  by (simp add: wp_def errM_def fun_eq_iff)

lemma wp_bindM [wp_simps]: "wp (bindM m f) Q E = wp m (\<lambda>x. wp (f x) Q E) E"
  by (auto simp: wp_def bindM_def fun_eq_iff split: prod.splits sum.splits)

lemma wp_liftM [wp_simps]: "wp (liftM r) Q E = (case r of Inr x \<Rightarrow> Q x | Inl e \<Rightarrow> E e)"
  by (simp add: wp_def liftM_def fun_eq_iff split: sum.splits)

lemma wp_getM [wp_simps]: "wp (getM f) Q E = (\<lambda>s. Q (f s) s)"
  by (simp add: wp_def getM_def fun_eq_iff)

lemma wp_modM [wp_simps]: "wp (modM f) Q E = (\<lambda>s. Q () (f s))"
  by (simp add: wp_def modM_def fun_eq_iff)

lemma wp_tryM [wp_simps]:
  "wp (tryM m f) Q E = wp m (\<lambda>x. wp (f (Inr x)) Q E) (\<lambda>e. wp (f (Inl e)) Q E)"
  by (auto simp: wp_def tryM_def fun_eq_iff split: prod.splits sum.splits)

lemma wp_if [wp_simps]: "wp (if b then m else n) Q E = (if b then wp m Q E else wp n Q E)"
  by simp

lemma wp_case_option [wp_simps]:
  "wp (case v of None \<Rightarrow> m | Some x \<Rightarrow> f x) Q E =
     (case v of None \<Rightarrow> wp m Q E | Some x \<Rightarrow> wp (f x) Q E)"
  by (simp split: option.splits)

lemma wp_mono:
  assumes "wp m Q E s" "\<And>x t. Q x t \<Longrightarrow> Q' x t" "\<And>e t. E e t \<Longrightarrow> E' e t"
  shows "wp m Q' E' s"
  using assms by (auto simp: wp_def split: prod.splits sum.splits)

lemma wp_conj:
  assumes "wp m Q E s" "wp m Q' E' s"
  shows "wp m (\<lambda>x t. Q x t \<and> Q' x t) (\<lambda>e t. E e t \<and> E' e t) s"
  using assms by (auto simp: wp_def split: prod.splits sum.splits)

lemma wp_result: "wp m (\<lambda>x t. m s = (Inr x, t)) (\<lambda>e t. m s = (Inl e, t)) s"
  by (auto simp: wp_def split: prod.splits sum.splits)

lemma wpD_Inr: "wp m Q E s \<Longrightarrow> m s = (Inr x, t) \<Longrightarrow> Q x t"
  by (simp add: wp_def)

lemma wpD_Inl: "wp m Q E s \<Longrightarrow> m s = (Inl e, t) \<Longrightarrow> E e t"
  by (simp add: wp_def)

lemma wpD_snd: "wp m (\<lambda>_. P) (\<lambda>_. P) s \<Longrightarrow> P (snd (m s))"
  by (auto simp: wp_def split: prod.splits sum.splits)

lemma wpI_snd: "P (snd (m s)) \<Longrightarrow> wp m (\<lambda>_. P) (\<lambda>_. P) s"
  by (auto simp: wp_def split: prod.splits sum.splits)

text \<open>A loop keeps what its body keeps.\<close>

lemma wp_forM_inv:
  assumes "\<And>x s. x \<in> set xs \<Longrightarrow> I s \<Longrightarrow> wp (f x) (\<lambda>_. I) E s" and "I s"
  shows "wp (forM f xs) (\<lambda>_. I) E s"
  using assms
proof (induction xs arbitrary: s)
  case Nil
  then show ?case by (simp add: wp_simps)
next
  case (Cons x xs)
  have "wp (f x) (\<lambda>_. I) E s"
    using Cons.prems by simp
  then have "wp (f x) (\<lambda>_. wp (forM f xs) (\<lambda>_. I) E) E s"
  proof (rule wp_mono)
    fix y t
    assume "I t"
    then show "wp (forM f xs) (\<lambda>_. I) E t"
      using Cons.prems(1) by (intro Cons.IH) simp_all
  qed
  then show ?case by (simp add: wp_simps)
qed

lemma bindM_InrE:
  assumes "bindM m f s = (Inr y, u)"
  obtains x t where "m s = (Inr x, t)" "f x t = (Inr y, u)"
  using assms by (auto simp: bindM_def split: prod.splits sum.splits)

section \<open>Lists\<close>

lemma filter_update_one:
  assumes "\<And>x. x \<in> set xs \<Longrightarrow> P (g x) = P x"
  shows "filter P (map g xs) = map g (filter P xs)"
  using assms by (induction xs) auto

lemma distinct_map_unique:
  "distinct (map f xs) \<Longrightarrow> x \<in> set xs \<Longrightarrow> y \<in> set xs \<Longrightarrow> f x = f y \<Longrightarrow> x = y"
  by (simp add: distinct_map inj_on_def)

lemma length_filter_le_one:
  assumes "distinct (map f xs)"
  shows "length (filter (\<lambda>x. f x = a) xs) \<le> 1"
  using assms by (induction xs) (auto simp: filter_empty_conv image_iff)

lemma list_all2_setD2: "list_all2 P xs ys \<Longrightarrow> y \<in> set ys \<Longrightarrow> \<exists>x \<in> set xs. P x y"
  by (induction rule: list_all2_induct) auto

text \<open>An SQL \<open>update ... where\<close> on a table.\<close>

definition update_where :: "('r \<Rightarrow> bool) \<Rightarrow> ('r \<Rightarrow> 'r) \<Rightarrow> 'r list \<Rightarrow> 'r list" where
  "update_where P f rs = map (\<lambda>r. if P r then f r else r) rs"

lemma update_where_none: "(\<And>r. r \<in> set rs \<Longrightarrow> \<not> P r) \<Longrightarrow> update_where P f rs = rs"
  by (simp add: update_where_def map_idI)

lemma length_update_where [simp]: "length (update_where P f rs) = length rs"
  by (simp add: update_where_def)

lemma map_update_where:
  "(\<And>r. r \<in> set rs \<Longrightarrow> P r \<Longrightarrow> g (f r) = g r) \<Longrightarrow> map g (update_where P f rs) = map g rs"
  by (simp add: update_where_def)

text \<open>Where the condition picks the row with a unique key, one row is replaced in place.\<close>

lemma update_where_unique:
  assumes "distinct (map key rs)" "x \<in> set rs" "P x" "\<And>r. r \<in> set rs \<Longrightarrow> P r \<Longrightarrow> key r = key x"
  shows "\<exists>us vs. rs = us @ x # vs \<and> update_where P f rs = us @ f x # vs"
proof -
  obtain us vs where rs: "rs = us @ x # vs" using assms(2) by (auto dest: split_list)
  have "\<not> P r" if "r \<in> set us \<union> set vs" for r
    using that assms(1,4) rs by (auto simp: image_iff)
  then have "update_where P f us = us" "update_where P f vs = vs"
    by (auto intro: update_where_none)
  then show ?thesis using rs assms(3) by (auto simp: update_where_def)
qed

section \<open>Parts of the strings package\<close>

text \<open>\<open>strings.Join\<close>, \<open>strings.TrimPrefix\<close>, \<open>strings.TrimSuffix\<close> and \<open>strings.ReplaceAll\<close>
  with a one-byte pattern.\<close>

fun join :: "string \<Rightarrow> string list \<Rightarrow> string" where
  "join sep [] = []"
| "join sep [x] = x"
| "join sep (x # y # ys) = x @ sep @ join sep (y # ys)"

definition trim_prefix :: "string \<Rightarrow> string \<Rightarrow> string" where
  "trim_prefix p s = (if take (length p) s = p then drop (length p) s else s)"

definition trim_suffix :: "string \<Rightarrow> string \<Rightarrow> string" where
  "trim_suffix p s =
     (if length p \<le> length s \<and> drop (length s - length p) s = p
      then take (length s - length p) s else s)"

definition replace_byte :: "char \<Rightarrow> string \<Rightarrow> string \<Rightarrow> string" where
  "replace_byte c r s = concat (map (\<lambda>x. if x = c then r else [x]) s)"

lemma trim_prefix_append [simp]: "trim_prefix p (p @ s) = s"
  by (simp add: trim_prefix_def)

lemma trim_suffix_append [simp]: "trim_suffix p (s @ p) = s"
  by (simp add: trim_suffix_def)

lemma replace_byte_simps [simp]:
  "replace_byte c r [] = []"
  "replace_byte c r (x # s) = (if x = c then r else [x]) @ replace_byte c r s"
  by (simp_all add: replace_byte_def)

lemma replace_byte_append [simp]:
  "replace_byte c r (s @ t) = replace_byte c r s @ replace_byte c r t"
  by (simp add: replace_byte_def)

text \<open>\<open>strings.Contains\<close>.\<close>

fun contains :: "string \<Rightarrow> string \<Rightarrow> bool" where
  "contains [] p = (p = [])"
| "contains (x # s) p = (take (length p) (x # s) = p \<or> contains s p)"

end
