(* ===== verification/Hupi_Db.thy ===== *)
theory Hupi_Db
  imports Complex_Main Hupi_Prelude "HOL-Library.List_Lexorder" "HOL-Library.Char_ord"
begin

text \<open>
  The state the Go packages share: the Postgres tables of \<open>schema/\<close> as lists of row records,
  the process state (key cache, random source, clock), and the database access layer: single
  statements and \<open>dbscope.Run\<close> transactions (\<open>internal/dbscope/dbscope.go\<close>), scopes and
  identities (\<open>internal/identity\<close>) and the audit log writer (\<open>internal/audit/audit.go\<close>).

  Every round trip to the database may fail, before the statement took effect or after it, as
  an arbitrary fault schedule decides; a failed transaction is rolled back, except when only
  the acknowledgement of its commit was lost.
\<close>

section \<open>Scopes and identities\<close>

record scope =
  Kind :: string
  Owner :: string

abbreviation Scope :: "string \<Rightarrow> string \<Rightarrow> scope" where
  "Scope k owner \<equiv> \<lparr>Kind = k, Owner = owner\<rparr>"

definition ScopeKindPrivate :: string where "ScopeKindPrivate = ''private''"
definition ScopeKindShared :: string where "ScopeKindShared = ''shared''"

definition DefaultUserID :: string where "DefaultUserID = ''user:default''"
definition DefaultScope :: scope where "DefaultScope = Scope ScopeKindPrivate DefaultUserID"

record ref =
  ref_kind :: string
  ref_scope :: scope
  ref_id :: string

record identity =
  UserID :: string
  TeamIDs :: "string list"

definition PrivateScope :: "identity \<Rightarrow> scope" where
  "PrivateScope i = Scope ScopeKindPrivate (UserID i)"

definition HasTeam :: "identity \<Rightarrow> string \<Rightarrow> bool" where
  "HasTeam i teamID = list_ex (\<lambda>t. t = teamID) (TeamIDs i)"

section \<open>Tables\<close>

type_synonym time = int        \<comment> \<open>microseconds, the resolution of \<open>timestamptz\<close>\<close>
type_synonym date = string     \<comment> \<open>YYYY-MM-DD\<close>

record episode =
  ep_id :: string
  ep_scope :: scope
  ep_ts :: time
  ep_type :: string
  ep_vendor :: "string option"
  ep_model :: "string option"
  ep_endpoint :: "string option"
  ep_context_tags :: "string list"
  ep_input_text :: "bytes option"
  ep_output_text :: "bytes option"
  ep_importance :: "rat option"
  ep_hash :: string
  ep_supersedes :: "string option"
  ep_externalized :: bool
  ep_truncated :: bool
  ep_memory_gate :: "string option"
  ep_retrieved_refs :: "ref list"
  ep_refers_to :: "string option"
  ep_rating :: "string option"
  ep_note :: "bytes option"
  ep_key_version :: nat
  ep_embedding :: "string option"
  ep_embedding_model :: "string option"

record summary =
  sum_id :: string
  sum_scope :: scope
  sum_period :: string
  sum_level :: string
  sum_status :: string
  sum_vendor :: "string option"
  sum_model :: "string option"
  sum_source_episode_ids :: "string list"
  sum_source_summary_periods :: "string list"
  sum_summary :: "bytes option"
  sum_entities_touched :: "string list"
  sum_grounding_checked :: bool
  sum_supersedes :: "string option"
  sum_correction_reason :: "string option"
  sum_created_at :: time
  sum_key_version :: nat
  sum_embedding :: "string option"
  sum_embedding_model :: "string option"

record key_fact =
  kf_id :: nat
  kf_scope :: scope
  kf_summary_id :: string
  kf_fact :: bytes
  kf_source_episode_ids :: "string list"
  kf_grounded :: bool
  kf_key_version :: nat
  kf_embedding :: "string option"
  kf_embedding_model :: "string option"

record entity =
  en_id :: string
  en_scope :: scope
  en_kind :: string
  en_name :: string
  en_first_seen :: date
  en_last_updated :: date
  en_attributes :: "bytes option"
  en_key_version :: nat
  en_embedding :: "string option"
  en_embedding_model :: "string option"

record relationship =
  rel_id :: string
  rel_scope :: scope
  rel_subject_id :: string
  rel_predicate :: string
  rel_object_id :: string
  rel_valid_from :: "date option"
  rel_valid_until :: "date option"
  rel_source_summary_id :: "string option"
  rel_created_at :: time

record scope_key =
  sk_scope :: scope
  sk_version :: nat
  sk_wrapped_dek :: bytes

datatype rotation_status = StatusInProgress | StatusCompleted | StatusFailed

record key_rotation =
  kr_scope :: scope
  kr_from_version :: nat
  kr_to_version :: nat
  kr_status :: rotation_status
  kr_cursor_table :: string
  kr_cursor_id :: string
  kr_started_at :: time
  kr_completed_at :: "time option"

datatype jval = JStr string | JInt int | JBool bool | JRaw string   \<comment> \<open>\<open>JRaw\<close>: a value that is encoded already\<close>

record audit_row =
  au_ts :: time
  au_event_type :: string
  au_actor :: string
  au_acting_scope :: scope
  au_workspace_scope :: scope
  au_target_ref :: "ref option"
  au_detail :: "(string \<times> jval) list"

record demo_session =
  ds_token_hash :: string
  ds_guest_user_id :: "string option"
  ds_created_at :: time
  ds_expires_at :: time
  ds_message_count :: nat
  ds_consolidate_count :: nat

record corpus_size =
  cs_scope :: scope
  cs_episode_count :: nat
  cs_summary_count :: nat
  cs_updated_at :: time

record user =
  us_id :: string
  us_email :: "string option"
  us_created_at :: time
  us_password_hash :: "string option"

record team =
  tm_id :: string
  tm_name :: string
  tm_created_at :: time

record operator =
  op_name :: string
  op_token_hash :: string
  op_created_at :: time
  op_revoked_at :: "time option"

record database =
  episodes :: "episode list"
  summaries :: "summary list"
  summary_key_facts :: "key_fact list"
  key_fact_seq :: nat              \<comment> \<open>the last value of the \<open>bigserial\<close> sequence\<close>
  entities :: "entity list"
  entity_relationships :: "relationship list"
  scope_keys :: "scope_key list"
  key_rotations :: "key_rotation list"
  audit_log :: "audit_row list"
  users :: "user list"
  demo_sessions :: "demo_session list"
  scope_corpus_sizes :: "corpus_size list"
  teams :: "team list"
  operators :: "operator list"

section \<open>The world a process runs in\<close>

datatype encryptor = Encryptor (dek_of: bytes)

datatype fault = NoFault | FaultBefore | FaultAfter

text \<open>
  \<open>tx\<close> is the state of the transaction the process has open: the acting and the workspace
  scope of its session and the database a rollback goes back to. Statements of the key store
  go through another connection and commit on their own, so they reach that snapshot as well.
\<close>

record world =
  db :: database
  tx :: "(scope \<times> scope \<times> database) option"
  kek :: bytes
  cache :: "scope \<times> nat \<rightharpoonup> encryptor"
  clock :: time
  faults :: "nat \<Rightarrow> fault"
  ticks :: nat
  rand :: "nat \<Rightarrow> char"
  rand_pos :: nat
  rand_ok :: "nat \<Rightarrow> bool"
  calls :: nat                     \<comment> \<open>provider requests sent so far\<close>

type_synonym 'a proc = "(world, 'a) M"

text \<open>\<open>io.ReadFull(rand.Reader, buf)\<close> and \<open>rand.Read(buf)\<close> for a buffer of \<open>n\<close> bytes.\<close>

definition rand_read :: "nat \<Rightarrow> bytes proc" where
  "rand_read n = (\<lambda>w.
     if rand_ok w (rand_pos w)
     then (Inr (map (\<lambda>i. rand w (rand_pos w + i)) [0..<n]), w\<lparr>rand_pos := rand_pos w + n\<rparr>)
     else (Inl ErrRand, w\<lparr>rand_pos := rand_pos w + 1\<rparr>))"

definition map_db :: "(database \<Rightarrow> database) \<Rightarrow> world \<Rightarrow> world" where
  "map_db f w = w\<lparr>db := f (db w)\<rparr>"

text \<open>A statement of the open transaction, or on its own.\<close>

definition tick :: "world \<Rightarrow> world" where
  "tick w = w\<lparr>ticks := ticks w + 1\<rparr>"

definition fault_now :: "world \<Rightarrow> fault" where
  "fault_now w = faults w (ticks w)"

definition query :: "(world \<Rightarrow> 'a) \<Rightarrow> 'a proc" where
  "query f = (\<lambda>w. if fault_now w = NoFault then (Inr (f w), tick w) else (Inl ErrDb, tick w))"

definition exec :: "(world \<Rightarrow> database \<Rightarrow> database) \<Rightarrow> unit proc" where
  "exec f = (\<lambda>w. case fault_now w of
       NoFault \<Rightarrow> (Inr (), map_db (f w) (tick w))
     | FaultBefore \<Rightarrow> (Inl ErrDb, tick w)
     | FaultAfter \<Rightarrow> (Inl ErrDb, map_db (f w) (tick w)))"

text \<open>A statement that changes rows and reports something of the state it ran in: \<open>returning\<close>,
  \<open>RowsAffected\<close>.\<close>

definition exec_ret :: "(world \<Rightarrow> database \<Rightarrow> database) \<Rightarrow> (world \<Rightarrow> 'a) \<Rightarrow> 'a proc" where
  "exec_ret f g = (\<lambda>w. case fault_now w of
       NoFault \<Rightarrow> (Inr (g w), map_db (f w) (tick w))
     | FaultBefore \<Rightarrow> (Inl ErrDb, tick w)
     | FaultAfter \<Rightarrow> (Inl ErrDb, map_db (f w) (tick w)))"

text \<open>\<open>QueryRow(...).Scan\<close>: the first row, or \<open>sql.ErrNoRows\<close>.\<close>

definition query_row :: "(world \<Rightarrow> 'a list) \<Rightarrow> 'a proc" where
  "query_row f = bindM (query f) (\<lambda>xs. case xs of [] \<Rightarrow> errM ErrNoRows | x # _ \<Rightarrow> retM x)"

text \<open>A statement whose table constraints may reject it.\<close>

definition exec_check :: "(world \<Rightarrow> database \<Rightarrow> database option) \<Rightarrow> unit proc" where
  "exec_check f = (\<lambda>w. case f w (db w) of
       None \<Rightarrow> (Inl ErrConstraint, tick w)
     | Some d \<Rightarrow> exec (\<lambda>_ _. d) w)"

text \<open>A statement on another connection than the open transaction's: it is not undone by that
  transaction's rollback.\<close>

definition map_db_auto :: "(database \<Rightarrow> database) \<Rightarrow> world \<Rightarrow> world" where
  "map_db_auto f w =
     w\<lparr>db := f (db w), tx := map_option (\<lambda>(a, ws, d). (a, ws, f d)) (tx w)\<rparr>"

definition exec_auto :: "(world \<Rightarrow> database \<Rightarrow> database) \<Rightarrow> unit proc" where
  "exec_auto f = (\<lambda>w. case fault_now w of
       NoFault \<Rightarrow> (Inr (), map_db_auto (f w) (tick w))
     | FaultBefore \<Rightarrow> (Inl ErrDb, tick w)
     | FaultAfter \<Rightarrow> (Inl ErrDb, map_db_auto (f w) (tick w)))"

section \<open>Transactions\<close>

text \<open>Row-level security: a row is visible in the acting or the workspace scope of the session;
  outside a transaction no scope is set and no row is.\<close>

definition rls_visible :: "world \<Rightarrow> scope \<Rightarrow> bool" where
  "rls_visible w sc = (case tx w of None \<Rightarrow> False | Some (a, ws, _) \<Rightarrow> sc = a \<or> sc = ws)"

definition rls_check :: "world \<Rightarrow> scope \<Rightarrow> bool" where
  "rls_check w sc = (case tx w of None \<Rightarrow> False | Some (_, ws, _) \<Rightarrow> sc = ws)"

definition begin_tx :: "unit proc" where
  "begin_tx = query (\<lambda>_. ())"

definition SetSession :: "scope \<Rightarrow> scope \<Rightarrow> unit proc" where
  "SetSession actingUser workspace =
     bindM (query (\<lambda>_. ())) (\<lambda>_. modM (\<lambda>w. w\<lparr>tx := Some (actingUser, workspace, db w)\<rparr>))"

definition rollback :: "world \<Rightarrow> world" where
  "rollback w = (case tx w of None \<Rightarrow> w | Some (_, _, d) \<Rightarrow> w\<lparr>db := d, tx := None\<rparr>)"

definition commit :: "unit proc" where
  "commit = (\<lambda>w. case fault_now w of
       NoFault \<Rightarrow> (Inr (), (tick w)\<lparr>tx := None\<rparr>)
     | FaultBefore \<Rightarrow> (Inl ErrDb, tick w)
     | FaultAfter \<Rightarrow> (Inl ErrDb, (tick w)\<lparr>tx := None\<rparr>))"

definition Run :: "scope \<Rightarrow> scope \<Rightarrow> 'a proc \<Rightarrow> 'a proc" where
  "Run actingUser workspace fn = (\<lambda>w.
     case bindM begin_tx (\<lambda>_. bindM (SetSession actingUser workspace) (\<lambda>_.
            bindM fn (\<lambda>x. bindM commit (\<lambda>_. retM x)))) w of
       (Inr x, w') \<Rightarrow> (Inr x, w')
     | (Inl e, w') \<Rightarrow> (Inl e, rollback w'))"

section \<open>The audit log\<close>

record audit_entry =
  EventType :: string
  Actor :: string
  ActingScope :: scope
  WorkspaceScope :: scope
  TargetRef :: "ref option"
  Detail :: "(string \<times> jval) list"

text \<open>\<open>audit.Write\<close>: the insert policy of \<open>audit_log\<close> demands that the entry's scopes are
  those of the session.\<close>

definition audit_policy :: "world \<Rightarrow> audit_entry \<Rightarrow> bool" where
  "audit_policy w e = (case tx w of None \<Rightarrow> False
     | Some (a, ws, _) \<Rightarrow> ActingScope e = a \<and> WorkspaceScope e = ws)"

definition audit_Write :: "audit_entry \<Rightarrow> unit proc" where
  "audit_Write e = exec_check (\<lambda>w d.
     if audit_policy w e
     then Some (d\<lparr>audit_log := audit_log d @ [
            \<lparr>au_ts = clock w, au_event_type = EventType e, au_actor = Actor e,
             au_acting_scope = ActingScope e, au_workspace_scope = WorkspaceScope e,
             au_target_ref = TargetRef e, au_detail = Detail e\<rparr>]\<rparr>)
     else None)"

definition LogStandalone :: "audit_entry \<Rightarrow> unit proc" where
  "LogStandalone e = Run (ActingScope e) (WorkspaceScope e) (audit_Write e)"

section \<open>Reasoning about statements and transactions\<close>

lemma tick_simps [simp]:
  "db (tick w) = db w" "tx (tick w) = tx w" "kek (tick w) = kek w" "cache (tick w) = cache w"
  "clock (tick w) = clock w" "faults (tick w) = faults w" "rand (tick w) = rand w"
  "rand_pos (tick w) = rand_pos w" "rand_ok (tick w) = rand_ok w" "calls (tick w) = calls w"
  by (simp_all add: tick_def)

lemma map_db_simps [simp]:
  "db (map_db f w) = f (db w)" "tx (map_db f w) = tx w" "kek (map_db f w) = kek w"
  "cache (map_db f w) = cache w" "clock (map_db f w) = clock w" "faults (map_db f w) = faults w"
  "rand (map_db f w) = rand w" "rand_pos (map_db f w) = rand_pos w"
  "rand_ok (map_db f w) = rand_ok w" "ticks (map_db f w) = ticks w" "calls (map_db f w) = calls w"
  by (simp_all add: map_db_def)

lemma map_db_auto_simps [simp]:
  "db (map_db_auto f w) = f (db w)"
  "tx (map_db_auto f w) = map_option (\<lambda>(a, ws, d). (a, ws, f d)) (tx w)"
  "kek (map_db_auto f w) = kek w" "cache (map_db_auto f w) = cache w"
  "clock (map_db_auto f w) = clock w" "faults (map_db_auto f w) = faults w"
  "rand (map_db_auto f w) = rand w" "rand_pos (map_db_auto f w) = rand_pos w"
  "rand_ok (map_db_auto f w) = rand_ok w" "ticks (map_db_auto f w) = ticks w"
  "calls (map_db_auto f w) = calls w"
  by (simp_all add: map_db_auto_def)

lemma wp_query [wp_simps]:
  "wp (query f) Q E =
     (\<lambda>w. if fault_now w = NoFault then Q (f w) (tick w) else E ErrDb (tick w))"
  by (simp add: wp_def query_def fun_eq_iff)

lemma wp_exec [wp_simps]:
  "wp (exec f) Q E = (\<lambda>w. case fault_now w of
       NoFault \<Rightarrow> Q () (map_db (f w) (tick w))
     | FaultBefore \<Rightarrow> E ErrDb (tick w)
     | FaultAfter \<Rightarrow> E ErrDb (map_db (f w) (tick w)))"
  by (simp add: wp_def exec_def fun_eq_iff split: fault.splits)

lemma wp_exec_ret [wp_simps]:
  "wp (exec_ret f g) Q E = (\<lambda>w. case fault_now w of
       NoFault \<Rightarrow> Q (g w) (map_db (f w) (tick w))
     | FaultBefore \<Rightarrow> E ErrDb (tick w)
     | FaultAfter \<Rightarrow> E ErrDb (map_db (f w) (tick w)))"
  by (simp add: wp_def exec_ret_def fun_eq_iff split: fault.splits)

lemma wp_exec_auto [wp_simps]:
  "wp (exec_auto f) Q E = (\<lambda>w. case fault_now w of
       NoFault \<Rightarrow> Q () (map_db_auto (f w) (tick w))
     | FaultBefore \<Rightarrow> E ErrDb (tick w)
     | FaultAfter \<Rightarrow> E ErrDb (map_db_auto (f w) (tick w)))"
  by (simp add: wp_def exec_auto_def fun_eq_iff split: fault.splits)

lemma wp_query_row [wp_simps]:
  "wp (query_row f) Q E = (\<lambda>w.
     if fault_now w = NoFault
     then (case f w of [] \<Rightarrow> E ErrNoRows (tick w) | x # _ \<Rightarrow> Q x (tick w))
     else E ErrDb (tick w))"
  by (simp add: query_row_def wp_simps fun_eq_iff split: list.splits)

lemma wp_exec_check [wp_simps]:
  "wp (exec_check f) Q E = (\<lambda>w. case f w (db w) of
       None \<Rightarrow> E ErrConstraint (tick w)
     | Some d \<Rightarrow> wp (exec (\<lambda>_ _. d)) Q E w)"
  by (simp add: wp_def exec_check_def fun_eq_iff split: option.splits)

lemma wp_rand_read [wp_simps]:
  "wp (rand_read n) Q E = (\<lambda>w.
     if rand_ok w (rand_pos w)
     then Q (map (\<lambda>i. rand w (rand_pos w + i)) [0..<n]) (w\<lparr>rand_pos := rand_pos w + n\<rparr>)
     else E ErrRand (w\<lparr>rand_pos := rand_pos w + 1\<rparr>))"
  by (simp add: wp_def rand_read_def fun_eq_iff)

text \<open>
  The rule for transactions: the body starts in the transaction's session with the current
  database as snapshot; its error ends in a rollback, its value in a commit whose success, loss
  or failure all have to be accounted for.
\<close>

lemma wp_Run:
  assumes "tx w = None"
    and "\<And>n. E ErrDb (w\<lparr>ticks := n\<rparr>)"
    and "\<And>n. wp fn
           (\<lambda>x t. \<forall>m. Q x (t\<lparr>tx := None, ticks := m\<rparr>) \<and> E ErrDb (t\<lparr>tx := None, ticks := m\<rparr>)
                  \<and> E ErrDb (rollback (t\<lparr>ticks := m\<rparr>)))
           (\<lambda>e t. E e (rollback t)) (w\<lparr>tx := Some (a, ws, db w), ticks := n\<rparr>)"
  shows "wp (Run a ws fn) Q E w"
proof -
  have swap: "w\<lparr>tx := t, ticks := n\<rparr> = w\<lparr>ticks := n, tx := t\<rparr>" for t n
    by simp
  have r: "rollback (w\<lparr>ticks := n\<rparr>) = w\<lparr>ticks := n\<rparr>" for n
    using assms(1) by (simp add: rollback_def)
  have "wp (bindM begin_tx (\<lambda>_. bindM (SetSession a ws) (\<lambda>_.
            bindM fn (\<lambda>x. bindM commit (\<lambda>_. retM x))))) Q (\<lambda>e t. E e (rollback t)) w"
  proof (cases "fault_now w = NoFault \<and> fault_now (tick w) = NoFault")
    case True
    have "wp fn (\<lambda>x. wp commit (\<lambda>_. Q x) (\<lambda>e t. E e (rollback t))) (\<lambda>e t. E e (rollback t))
            (w\<lparr>ticks := Suc (Suc (ticks w)), tx := Some (a, ws, db w)\<rparr>)"
    proof (rule wp_mono [OF assms(3) [of "Suc (Suc (ticks w))", unfolded swap]])
      fix x t
      assume A: "\<forall>m. Q x (t\<lparr>tx := None, ticks := m\<rparr>) \<and> E ErrDb (t\<lparr>tx := None, ticks := m\<rparr>)
                  \<and> E ErrDb (rollback (t\<lparr>ticks := m\<rparr>))"
      have *: "t\<lparr>ticks := Suc (ticks t), tx := None\<rparr> = t\<lparr>tx := None, ticks := Suc (ticks t)\<rparr>"
        by simp
      have "rollback (t\<lparr>tx := None, ticks := m\<rparr>) = t\<lparr>tx := None, ticks := m\<rparr>" for m
        by (simp add: rollback_def)
      then show "wp commit (\<lambda>_. Q x) (\<lambda>e t. E e (rollback t)) t"
        using A by (auto simp: wp_def commit_def tick_def * split: fault.splits)
    qed simp
    then show ?thesis
      using True by (simp add: begin_tx_def SetSession_def wp_simps tick_def)
  next
    case False
    then show ?thesis
      using assms(2) r by (auto simp: begin_tx_def SetSession_def wp_simps tick_def)
  qed
  then show ?thesis
    by (auto simp: wp_def Run_def split: prod.splits sum.splits)
qed

text \<open>
  An invariant of the database content, seen by a process whose other state may change: what
  every statement of a body keeps, the transaction keeps, however it ends.
\<close>

definition session :: "world \<Rightarrow> (scope \<times> scope) option" where
  "session w = map_option (\<lambda>(a, ws, _). (a, ws)) (tx w)"

definition holds :: "(world \<Rightarrow> database \<Rightarrow> bool) \<Rightarrow> (scope \<times> scope) option \<Rightarrow> world \<Rightarrow> bool" where
  "holds P sess w \<longleftrightarrow>
     session w = sess \<and> P w (db w) \<and> (\<forall>a ws d. tx w = Some (a, ws, d) \<longrightarrow> P w d)"

definition process_pred :: "(world \<Rightarrow> database \<Rightarrow> bool) \<Rightarrow> bool" where
  "process_pred P \<longleftrightarrow>
     (\<forall>w n t d m c. P (w\<lparr>db := d, tx := t, ticks := n, rand_pos := m, calls := c\<rparr>) = P w)"

lemma process_pred_simps:
  assumes "process_pred P"
  shows "P (w\<lparr>ticks := n\<rparr>) = P w" "P (w\<lparr>tx := t\<rparr>) = P w" "P (w\<lparr>db := d\<rparr>) = P w"
    "P (w\<lparr>rand_pos := n\<rparr>) = P w" "P (w\<lparr>calls := n\<rparr>) = P w"
    "P (tick w) = P w" "P (map_db f w) = P w" "P (map_db_auto f w) = P w"
    "P (w\<lparr>tx := t, ticks := n\<rparr>) = P w"
proof -
  have *: "P (w\<lparr>db := d, tx := t, ticks := n, rand_pos := m, calls := c\<rparr>) = P w" for w n t d m c
    using assms by (simp add: process_pred_def)
  note w = * [where w = w and m = "rand_pos w" and c = "calls w"]
  show "P (w\<lparr>ticks := n\<rparr>) = P w" using w [where d = "db w" and t = "tx w" and n = n] by simp
  show "P (w\<lparr>tx := t\<rparr>) = P w" using w [where d = "db w" and t = t and n = "ticks w"] by simp
  show "P (w\<lparr>db := d\<rparr>) = P w" using w [where d = d and t = "tx w" and n = "ticks w"] by simp
  show "P (w\<lparr>rand_pos := n\<rparr>) = P w"
    using * [where w = w and d = "db w" and t = "tx w" and n = "ticks w" and m = n and c = "calls w"] by simp
  show "P (w\<lparr>calls := n\<rparr>) = P w"
    using * [where w = w and d = "db w" and t = "tx w" and n = "ticks w" and m = "rand_pos w" and c = n] by simp
  show "P (tick w) = P w" using w [where d = "db w" and t = "tx w" and n = "ticks w + 1"] by (simp add: tick_def)
  show "P (map_db f w) = P w" using w [where d = "f (db w)" and t = "tx w" and n = "ticks w"] by (simp add: map_db_def)
  show "P (map_db_auto f w) = P w"
    using w [where d = "f (db w)" and t = "map_option (\<lambda>(a, ws, d). (a, ws, f d)) (tx w)" and n = "ticks w"]
    by (simp add: map_db_auto_def)
  show "P (w\<lparr>tx := t, ticks := n\<rparr>) = P w" using w [where d = "db w" and t = t and n = n] by simp
qed

lemma session_simps [simp]:
  "session w = None \<longleftrightarrow> tx w = None"
  "session (tick w) = session w"
  "session (map_db f w) = session w"
  "session (map_db_auto f w) = session w"
  "session (w\<lparr>ticks := n\<rparr>) = session w"
  "session (w\<lparr>rand_pos := n\<rparr>) = session w"
  "session (w\<lparr>cache := c\<rparr>) = session w"
  "session (w\<lparr>tx := Some (a, ws, d)\<rparr>) = Some (a, ws)"
  by (auto simp: session_def map_db_auto_def option.map_comp comp_def split_def tick_def)

lemma rls_session:
  "session w = Some (a, ws) \<Longrightarrow> rls_visible w sc \<longleftrightarrow> sc = a \<or> sc = ws"
  "session w = Some (a, ws) \<Longrightarrow> rls_check w sc \<longleftrightarrow> sc = ws"
  by (auto simp: session_def rls_visible_def rls_check_def)

lemma holds_tick [simp]: "process_pred P \<Longrightarrow> holds P sess (tick w) = holds P sess w"
  by (simp add: holds_def process_pred_simps)

definition kept :: "(world \<Rightarrow> database \<Rightarrow> bool) \<Rightarrow> (scope \<times> scope) option \<Rightarrow> world \<Rightarrow> bool" where
  "kept P sess w \<longleftrightarrow> session w = sess \<and> (\<forall>a ws d. tx w = Some (a, ws, d) \<longrightarrow> P w d)"

lemma holds_kept: "holds P sess w \<Longrightarrow> kept P sess w"
  by (simp add: holds_def kept_def)

lemma kept_tick [simp]: "process_pred P \<Longrightarrow> kept P sess (tick w) = kept P sess w"
  by (simp add: kept_def process_pred_simps)

lemma kept_map_db [simp]: "process_pred P \<Longrightarrow> kept P sess (map_db f w) = kept P sess w"
  by (simp add: kept_def process_pred_simps)

lemma holds_rand_pos [simp]: "process_pred P \<Longrightarrow> holds P sess (w\<lparr>rand_pos := n\<rparr>) = holds P sess w"
  by (simp add: holds_def process_pred_simps)

lemma kept_rand_pos [simp]: "process_pred P \<Longrightarrow> kept P sess (w\<lparr>rand_pos := n\<rparr>) = kept P sess w"
  by (simp add: kept_def process_pred_simps)

lemma holds_begin:
  assumes "process_pred P" "holds P None w"
  shows "holds P (Some (a, ws)) (w\<lparr>tx := Some (a, ws, db w), ticks := n\<rparr>)"
  using assms by (simp add: holds_def process_pred_simps)

text \<open>The general form: the body may leave the database outside the invariant when it fails, as
  long as the snapshot satisfies it; \<open>R\<close> is what the body's value says of the new database, and
  \<open>F\<close> what a failure depends on.\<close>

lemma wp_Run_error:
  assumes P: "process_pred P"
    and w: "holds P None w"
    and F: "fault_now w \<noteq> NoFault \<or> fault_now (tick w) \<noteq> NoFault \<Longrightarrow> F ErrDb"
    and body: "\<And>n. wp fn (\<lambda>x t. holds P (Some (a, ws)) t \<and> R x (db t) \<and> (fault_now t \<noteq> NoFault \<longrightarrow> F ErrDb))
                 (\<lambda>e t. kept P (Some (a, ws)) t \<and> F e) (w\<lparr>tx := Some (a, ws, db w), ticks := n\<rparr>)"
  shows "wp (Run a ws fn) (\<lambda>x t. holds P None t \<and> R x (db t)) (\<lambda>e t. holds P None t \<and> F e) w"
proof -
  note p = process_pred_simps [OF P]
  have tx: "tx w = None" using w by (simp add: holds_def)
  have r: "holds P None (rollback t)" if "kept P (Some (a, ws)) t" for t
    using that by (auto simp: holds_def kept_def session_def rollback_def p)
  have c: "holds P None (t\<lparr>tx := None\<rparr>)" if "holds P (Some (a, ws)) t" for t
    using that by (auto simp: holds_def session_def p)
  show ?thesis
  proof (cases "fault_now w = NoFault \<and> fault_now (tick w) = NoFault")
    case True
    have swap: "w\<lparr>tx := t, ticks := n\<rparr> = w\<lparr>ticks := n, tx := t\<rparr>" for t n
      by simp
    have "wp fn (\<lambda>x. wp commit (\<lambda>_ t. holds P None t \<and> R x (db t)) (\<lambda>e t. holds P None (rollback t) \<and> F e))
            (\<lambda>e t. holds P None (rollback t) \<and> F e)
            (w\<lparr>ticks := Suc (Suc (ticks w)), tx := Some (a, ws, db w)\<rparr>)"
    proof (rule wp_mono [OF body [of "Suc (Suc (ticks w))", unfolded swap]])
      fix x t
      assume A: "holds P (Some (a, ws)) t \<and> R x (db t) \<and> (fault_now t \<noteq> NoFault \<longrightarrow> F ErrDb)"
      then have "holds P None ((tick t)\<lparr>tx := None\<rparr>)" "holds P None (rollback (tick t))"
        using c [of "tick t"] r [of "tick t"] P by (simp_all add: holds_kept)
      then show "wp commit (\<lambda>_ t. holds P None t \<and> R x (db t)) (\<lambda>e t. holds P None (rollback t) \<and> F e) t"
        using A by (auto simp: wp_def commit_def rollback_def [of "_\<lparr>tx := None\<rparr>"] split: fault.splits)
    qed (auto intro: r)
    then show ?thesis
      using True
      by (simp add: Run_def wp_def bindM_def retM_def begin_tx_def SetSession_def query_def modM_def
          tick_def split: prod.splits sum.splits)
  next
    case False
    have "holds P None (tick w)" "holds P None (tick (tick w))" using w P by simp_all
    moreover have "rollback (tick w) = tick w" "rollback (tick (tick w)) = tick (tick w)"
      using tx by (simp_all add: rollback_def)
    ultimately show ?thesis
      using False F
      by (auto simp: Run_def wp_def bindM_def begin_tx_def SetSession_def query_def)
  qed
qed

lemma wp_Run_result:
  assumes P: "process_pred P"
    and w: "holds P None w"
    and F: "fault_now w \<noteq> NoFault \<or> fault_now (tick w) \<noteq> NoFault \<Longrightarrow> F"
    and body: "\<And>n. wp fn (\<lambda>x t. holds P (Some (a, ws)) t \<and> R x (db t) \<and> (fault_now t \<noteq> NoFault \<longrightarrow> F))
                 (\<lambda>_ t. kept P (Some (a, ws)) t \<and> F) (w\<lparr>tx := Some (a, ws, db w), ticks := n\<rparr>)"
  shows "wp (Run a ws fn) (\<lambda>x t. holds P None t \<and> R x (db t)) (\<lambda>_ t. holds P None t \<and> F) w"
  by (rule wp_Run_error [OF P w, where F = "\<lambda>_. F"]) (use F body in auto)

lemma wp_Run_inv:
  assumes P: "process_pred P"
    and w: "holds P None w"
    and body: "\<And>w. holds P (Some (a, ws)) w \<Longrightarrow>
                 wp fn (\<lambda>_. holds P (Some (a, ws))) (\<lambda>_. holds P (Some (a, ws))) w"
  shows "wp (Run a ws fn) (\<lambda>_. holds P None) (\<lambda>_. holds P None) w"
proof (rule wp_Run)
  note p = process_pred_simps [OF P]
  show "tx w = None" using w by (simp add: holds_def)
  show "holds P None (w\<lparr>ticks := n\<rparr>)" for n using w by (simp add: holds_def p)
  have r: "holds P None (rollback (t\<lparr>ticks := m\<rparr>))" "holds P None (rollback t)"
    "holds P None (t\<lparr>tx := None, ticks := m\<rparr>)" if "holds P (Some (a, ws)) t" for t m
    using that by (auto simp: holds_def session_def rollback_def p)
  have s: "holds P (Some (a, ws)) (w\<lparr>tx := Some (a, ws, db w), ticks := n\<rparr>)" for n
    using w by (simp add: holds_def p)
  show "wp fn (\<lambda>x t. \<forall>m. holds P None (t\<lparr>tx := None, ticks := m\<rparr>) \<and> holds P None (t\<lparr>tx := None, ticks := m\<rparr>)
          \<and> holds P None (rollback (t\<lparr>ticks := m\<rparr>))) (\<lambda>e t. holds P None (rollback t))
          (w\<lparr>tx := Some (a, ws, db w), ticks := n\<rparr>)" for n
    by (rule wp_mono [OF body [OF s]]) (simp_all add: r)
qed

text \<open>Statements under such an invariant.\<close>

lemma wp_query_inv:
  assumes "process_pred P" "holds P sess w" "Q (f w) (tick w)" "E ErrDb (tick w)"
  shows "wp (query f) Q E w"
  using assms by (simp add: wp_simps)

lemma holds_map_db:
  assumes "process_pred P" "holds P sess w" "P w (db w) \<Longrightarrow> P w (f (db w))"
  shows "holds P sess (map_db f (tick w))"
  using assms by (auto simp: holds_def process_pred_simps)

lemma wp_exec_inv:
  assumes "process_pred P" "holds P sess w" "P w (db w) \<Longrightarrow> P w (f w (db w))"
  shows "wp (exec f) (\<lambda>_. holds P sess) (\<lambda>_. holds P sess) w"
  using assms holds_map_db [OF assms(1,2), of "f w"]
  by (simp add: wp_simps split: fault.splits)

lemma wp_exec_check_inv:
  assumes "process_pred P" "holds P sess w"
    "\<And>d. P w (db w) \<Longrightarrow> f w (db w) = Some d \<Longrightarrow> P w d"
  shows "wp (exec_check f) (\<lambda>_. holds P sess) (\<lambda>_. holds P sess) w"
proof (cases "f w (db w)")
  case None
  then show ?thesis using assms(1,2) by (simp add: wp_simps)
next
  case (Some d)
  then show ?thesis
    using assms(1,2) assms(3) [of d] wp_exec_inv [OF assms(1,2), of "\<lambda>_ _. d"]
    by (simp add: wp_exec_check)
qed

section \<open>A deployment's first state\<close>

text \<open>An empty database, and a process with a 32-byte key-encryption key, a random source that
  counts and no faults: the state the concrete instances start from.\<close>

definition empty_db :: database where
  "empty_db = \<lparr>episodes = [], summaries = [], summary_key_facts = [], key_fact_seq = 0,
     entities = [], entity_relationships = [], scope_keys = [], key_rotations = [],
     audit_log = [], users = [], demo_sessions = [], scope_corpus_sizes = [],
     teams = [], operators = []\<rparr>"

definition init_world :: world where
  "init_world = \<lparr>db = empty_db, tx = None, kek = replicate 32 CHR ''k'', cache = Map.empty,
     clock = 0, faults = (\<lambda>_. NoFault), ticks = 0, rand = char_of, rand_pos = 0,
     rand_ok = (\<lambda>_. True), calls = 0\<rparr>"

end
