(* ===== verification/Key_Store.thy ===== *)
theory Key_Store
  imports Hupi_Db
begin

text \<open>
  \<open>internal/crypto\<close>: field encryption (\<open>field.go\<close>) and the versioned, cached per-scope keys
  (\<open>keystore.go\<close>). AES-GCM is the parameter \<open>A\<close>; what the code relies on is that opening
  reverses sealing under the same key and nonce.
\<close>

declare One_nat_def [simp del]

section \<open>Field encryption\<close>

record aead =
  Seal :: "bytes \<Rightarrow> bytes \<Rightarrow> bytes \<Rightarrow> bytes"            \<comment> \<open>key, nonce, plaintext\<close>
  Open :: "bytes \<Rightarrow> bytes \<Rightarrow> bytes \<Rightarrow> bytes option"     \<comment> \<open>key, nonce, ciphertext\<close>

definition NonceSize :: nat where "NonceSize = 12"

definition aead_correct :: "aead \<Rightarrow> bool" where
  "aead_correct A \<longleftrightarrow> (\<forall>k n p. length k = 32 \<longrightarrow> length n = NonceSize \<longrightarrow> Open A k n (Seal A k n p) = Some p)"

definition NewEncryptor :: "bytes \<Rightarrow> err + encryptor" where
  "NewEncryptor key = (if length key \<noteq> 32 then Inl (ErrKeyLength (length key)) else Inr (Encryptor key))"

definition Encrypt :: "aead \<Rightarrow> encryptor \<Rightarrow> string \<Rightarrow> bytes proc" where
  "Encrypt A e plaintext =
     bindM (rand_read NonceSize) (\<lambda>nonce. retM (nonce @ Seal A (dek_of e) nonce plaintext))"

definition blob_bytes :: "bytes option \<Rightarrow> bytes" where
  "blob_bytes b = (case b of None \<Rightarrow> [] | Some bs \<Rightarrow> bs)"

definition Decrypt :: "aead \<Rightarrow> encryptor \<Rightarrow> bytes option \<Rightarrow> err + string" where
  "Decrypt A e blob =
     (let b = blob_bytes blob in
      if b = [] then Inr []
      else if length b < NonceSize then Inl ErrShortCiphertext
      else (case Open A (dek_of e) (take NonceSize b) (drop NonceSize b) of
              None \<Rightarrow> Inl ErrOpen | Some p \<Rightarrow> Inr p))"

definition GenerateDEK :: "bytes proc" where
  "GenerateDEK = rand_read 32"

definition WrapDEK :: "aead \<Rightarrow> bytes \<Rightarrow> bytes \<Rightarrow> bytes proc" where
  "WrapDEK A k dek = bindM (liftM (NewEncryptor k)) (\<lambda>enc. Encrypt A enc dek)"

definition UnwrapDEK :: "aead \<Rightarrow> bytes \<Rightarrow> bytes \<Rightarrow> err + bytes" where
  "UnwrapDEK A k wrapped =
     (case NewEncryptor k of Inl e \<Rightarrow> Inl e | Inr enc \<Rightarrow> Decrypt A enc (Some wrapped))"

section \<open>The key store\<close>

definition key_rows :: "scope \<Rightarrow> nat \<Rightarrow> database \<Rightarrow> scope_key list" where
  "key_rows sc v d = filter (\<lambda>r. sk_scope r = sc \<and> sk_version r = v) (scope_keys d)"

definition unwrap :: "aead \<Rightarrow> bytes \<Rightarrow> encryptor proc" where
  "unwrap A wrapped =
     bindM (getM kek) (\<lambda>k.
     bindM (liftM (UnwrapDEK A k wrapped)) (\<lambda>dek. liftM (NewEncryptor dek)))"

definition cached :: "scope \<times> nat \<Rightarrow> encryptor option proc" where
  "cached key = getM (\<lambda>w. cache w key)"

definition store_enc :: "scope \<times> nat \<Rightarrow> encryptor \<Rightarrow> unit proc" where
  "store_enc key enc = modM (\<lambda>w. w\<lparr>cache := (cache w)(key \<mapsto> enc)\<rparr>)"

definition Evict :: "scope \<Rightarrow> nat \<Rightarrow> unit proc" where
  "Evict sc version = modM (\<lambda>w. w\<lparr>cache := (cache w)((sc, version) := None)\<rparr>)"

definition GetVersion :: "aead \<Rightarrow> scope \<Rightarrow> nat \<Rightarrow> encryptor proc" where
  "GetVersion A sc version =
     bindM (cached (sc, version)) (\<lambda>c. case c of
       Some enc \<Rightarrow> retM enc
     | None \<Rightarrow>
         bindM (tryM (query_row (\<lambda>w. map sk_wrapped_dek (key_rows sc version (db w))))
                  (\<lambda>r. case r of
                     Inr wrapped \<Rightarrow> retM wrapped
                   | Inl e \<Rightarrow> errM (if e = ErrNoRows then ErrKeyVersionNotFound version else e)))
           (\<lambda>wrapped. bindM (unwrap A wrapped)
           (\<lambda>enc. bindM (store_enc (sc, version) enc)
           (\<lambda>_. retM enc))))"

definition current_version :: "scope \<Rightarrow> database \<Rightarrow> nat" where
  "current_version sc d = foldr max (map sk_version (filter (\<lambda>r. sk_scope r = sc) (scope_keys d))) 0"

definition CurrentVersion :: "scope \<Rightarrow> nat proc" where
  "CurrentVersion sc = query (\<lambda>w. current_version sc (db w))"

text \<open>The insert of \<open>createVersion\<close>, \<open>on conflict (scope_kind, scope_owner, version) do
  nothing\<close>.\<close>

definition insert_key :: "scope \<Rightarrow> nat \<Rightarrow> bytes \<Rightarrow> database \<Rightarrow> database" where
  "insert_key sc version wrapped d =
     (if key_rows sc version d \<noteq> [] then d
      else d\<lparr>scope_keys := scope_keys d @ [\<lparr>sk_scope = sc, sk_version = version, sk_wrapped_dek = wrapped\<rparr>]\<rparr>)"

definition persist_version :: "aead \<Rightarrow> scope \<Rightarrow> nat \<Rightarrow> unit proc" where
  "persist_version A sc version =
     bindM GenerateDEK (\<lambda>dek.
     bindM (getM kek) (\<lambda>k.
     bindM (WrapDEK A k dek) (\<lambda>wrapped.
     exec_auto (\<lambda>_. insert_key sc version wrapped))))"

definition createVersion :: "aead \<Rightarrow> scope \<Rightarrow> nat \<Rightarrow> nat proc" where
  "createVersion A sc version =
     bindM (persist_version A sc version) (\<lambda>_.
     bindM (GetVersion A sc version) (\<lambda>_. retM version))"

definition GetOrCreate :: "aead \<Rightarrow> scope \<Rightarrow> (encryptor \<times> nat) proc" where
  "GetOrCreate A sc =
     bindM (CurrentVersion sc) (\<lambda>version.
     bindM (if version = 0 then createVersion A sc 1 else retM version) (\<lambda>version.
     bindM (GetVersion A sc version) (\<lambda>enc. retM (enc, version))))"

definition CreateNextVersion :: "aead \<Rightarrow> scope \<Rightarrow> nat proc" where
  "CreateNextVersion A sc =
     bindM (CurrentVersion sc) (\<lambda>current.
     if current = 0 then errM ErrNothingToRotate else createVersion A sc (current + 1))"

section \<open>Round trips\<close>

lemma Decrypt_seal:
  assumes "aead_correct A" "length (dek_of e) = 32" "length n = NonceSize"
  shows "Decrypt A e (Some (n @ Seal A (dek_of e) n p)) = Inr p"
proof -
  have "n \<noteq> []" using assms(3) by (auto simp: NonceSize_def)
  then show ?thesis
    using assms by (simp add: Decrypt_def blob_bytes_def aead_correct_def)
qed

lemma wp_Encrypt:
  assumes "aead_correct A" "length (dek_of e) = 32"
    and "\<And>ct n. Decrypt A e (Some ct) = Inr p \<Longrightarrow> Q ct (w\<lparr>rand_pos := n\<rparr>)"
    and "\<And>n. E ErrRand (w\<lparr>rand_pos := n\<rparr>)"
  shows "wp (Encrypt A e p) Q E w"
  using assms by (simp add: Encrypt_def wp_simps Decrypt_seal)

text \<open>
  C22. Field encryption is reversible: whatever the random source yields, a blob \<open>Encrypt\<close>
  returned decrypts to the plaintext under the same 32-byte key.
\<close>

theorem Decrypt_Encrypt:
  assumes "aead_correct A" "length (dek_of e) = 32" "Encrypt A e p w = (Inr ct, w')"
  shows "Decrypt A e (Some ct) = Inr p"
proof -
  have "wp (Encrypt A e p) (\<lambda>ct _. Decrypt A e (Some ct) = Inr p) (\<lambda>_ _. True) w"
    using assms(1,2) by (rule wp_Encrypt) simp_all
  then show ?thesis using assms(3) by (simp add: wp_def)
qed

text \<open>A stand-in for AES-GCM with the property the code relies on.\<close>

definition prefix_aead :: aead where
  "prefix_aead = \<lparr>Seal = (\<lambda>k n p. k @ p),
     Open = (\<lambda>k n c. if take (length k) c = k then Some (drop (length k) c) else None)\<rparr>"

lemma prefix_aead_correct: "aead_correct prefix_aead"
  by (simp add: aead_correct_def prefix_aead_def)

theorem Decrypt_Encrypt_witness:
  "Decrypt prefix_aead (Encryptor (replicate 32 CHR ''x''))
     (Some (map char_of [0..<12] @ replicate 32 CHR ''x'' @ ''note'')) = Inr ''note''"
proof (rule Decrypt_Encrypt [OF prefix_aead_correct])
  show "Encrypt prefix_aead (Encryptor (replicate 32 CHR ''x'')) ''note'' init_world =
    (Inr (map char_of [0..<12] @ replicate 32 CHR ''x'' @ ''note''), init_world\<lparr>rand_pos := 12\<rparr>)"
    by (simp add: Encrypt_def rand_read_def bindM_def retM_def init_world_def NonceSize_def
        prefix_aead_def)
qed simp

section \<open>What the store promises\<close>

text \<open>The key a set of \<open>scope_keys\<close> rows holds for a scope and version.\<close>

definition dek_in :: "aead \<Rightarrow> bytes \<Rightarrow> scope_key list \<Rightarrow> scope \<Rightarrow> nat \<Rightarrow> bytes option" where
  "dek_in A K rows sc v =
     (case filter (\<lambda>r. sk_scope r = sc \<and> sk_version r = v) rows of
        [] \<Rightarrow> None
      | r # _ \<Rightarrow> (case UnwrapDEK A K (sk_wrapped_dek r) of
                   Inl _ \<Rightarrow> None | Inr k \<Rightarrow> if length k = 32 then Some k else None))"

definition keys_ok :: "aead \<Rightarrow> bytes \<Rightarrow> scope_key list \<Rightarrow> bool" where
  "keys_ok A K rows \<longleftrightarrow> length K = 32 \<and> distinct (map (\<lambda>r. (sk_scope r, sk_version r)) rows)
     \<and> (\<forall>r \<in> set rows. sk_version r > 0 \<and> dek_in A K [r] (sk_scope r) (sk_version r) \<noteq> None)"

text \<open>The rows are sound, and every cached key is the persisted one.\<close>

definition key_inv :: "aead \<Rightarrow> bytes \<Rightarrow> scope_key list \<Rightarrow> world \<Rightarrow> database \<Rightarrow> bool" where
  "key_inv A K rows w d \<longleftrightarrow> kek w = K \<and> scope_keys d = rows \<and> keys_ok A K rows
     \<and> (\<forall>sc v e. cache w (sc, v) = Some e \<longrightarrow> dek_in A K rows sc v = Some (dek_of e))"

lemma key_inv_process: "process_pred (key_inv A K rows)"
  by (simp add: process_pred_def key_inv_def fun_eq_iff)

lemma dek_in_length: "dek_in A K rows sc v = Some k \<Longrightarrow> length k = 32"
  by (auto simp: dek_in_def split: list.splits sum.splits if_splits)

lemma dek_in_single:
  "dek_in A K [r] (sk_scope r) (sk_version r) \<noteq> None
   \<longleftrightarrow> (\<exists>k. UnwrapDEK A K (sk_wrapped_dek r) = Inr k \<and> length k = 32)"
  by (auto simp: dek_in_def split: sum.splits)

lemma dek_in_row:
  assumes "dek_in A K rows sc v \<noteq> None"
  shows "\<exists>r \<in> set rows. sk_scope r = sc \<and> sk_version r = v"
proof (rule ccontr)
  assume "\<not> ?thesis"
  then have "filter (\<lambda>r. sk_scope r = sc \<and> sk_version r = v) rows = []"
    by (auto simp: filter_empty_conv)
  then show False using assms by (simp add: dek_in_def)
qed

lemma dek_in_append:
  "dek_in A K rows sc v = Some k \<Longrightarrow> dek_in A K (rows @ rows2) sc v = Some k"
  by (auto simp: dek_in_def split: list.splits)

lemma keys_ok_lookup:
  assumes "keys_ok A K rows" "r \<in> set rows"
  shows "dek_in A K rows (sk_scope r) (sk_version r) \<noteq> None"
proof -
  obtain r' rs where f:
    "filter (\<lambda>x. sk_scope x = sk_scope r \<and> sk_version x = sk_version r) rows = r' # rs"
    using assms(2) by (cases "filter (\<lambda>x. sk_scope x = sk_scope r \<and> sk_version x = sk_version r) rows")
      (auto simp: filter_empty_conv)
  then have "r' \<in> set rows" "sk_scope r' = sk_scope r" "sk_version r' = sk_version r"
    by (auto simp: filter_eq_Cons_iff)
  then have "r' = r"
    using assms by (auto simp: keys_ok_def intro: distinct_map_unique)
  then show ?thesis
    using f assms by (auto simp: dek_in_def keys_ok_def split: list.splits)
qed

lemma current_version_ge: "r \<in> set (scope_keys d) \<Longrightarrow> sk_scope r = sc \<Longrightarrow> sk_version r \<le> current_version sc d"
proof -
  have "v \<in> set vs \<Longrightarrow> v \<le> foldr max vs 0" for v :: nat and vs
    by (induction vs) auto
  then show "r \<in> set (scope_keys d) \<Longrightarrow> sk_scope r = sc \<Longrightarrow> sk_version r \<le> current_version sc d"
    by (simp add: current_version_def)
qed

lemma current_version_in:
  assumes "current_version sc d \<noteq> 0"
  shows "\<exists>r \<in> set (scope_keys d). sk_scope r = sc \<and> sk_version r = current_version sc d"
proof -
  have "foldr max vs 0 = 0 \<or> foldr max vs 0 \<in> set vs" for vs :: "nat list"
    by (induction vs) (auto simp: max_def)
  from this [of "map sk_version (filter (\<lambda>r. sk_scope r = sc) (scope_keys d))"] show ?thesis
    using assms unfolding current_version_def by auto
qed

text \<open>\<open>GetVersion\<close> returns the persisted key and touches nothing but the cache.\<close>

definition same_but_cache :: "world \<Rightarrow> world \<Rightarrow> bool" where
  "same_but_cache w t \<longleftrightarrow> db t = db w \<and> tx t = tx w \<and> kek t = kek w \<and> clock t = clock w
     \<and> faults t = faults w \<and> rand t = rand w \<and> rand_ok t = rand_ok w \<and> calls t = calls w"

lemma wp_GetVersion:
  assumes "holds (key_inv A K rows) sess w"
  shows "wp (GetVersion A sc v)
           (\<lambda>e t. holds (key_inv A K rows) sess t \<and> same_but_cache w t
                   \<and> dek_in A K rows sc v = Some (dek_of e))
           (\<lambda>_ t. holds (key_inv A K rows) sess t \<and> same_but_cache w t) w"
proof (cases "cache w (sc, v)")
  case (Some e)
  then show ?thesis
    using assms
    by (auto simp: GetVersion_def cached_def wp_simps same_but_cache_def holds_def key_inv_def)
next
  case None
  have tick: "holds (key_inv A K rows) sess (tick w)" "same_but_cache w (tick w)"
    using assms by (simp_all add: key_inv_process same_but_cache_def)
  have rows: "scope_keys (db w) = rows" "kek w = K" "keys_ok A K rows"
    using assms by (auto simp: holds_def key_inv_def)
  show ?thesis
  proof (cases "key_rows sc v (db w)")
    case Nil
    then show ?thesis
      using None tick by (simp add: GetVersion_def cached_def wp_simps)
  next
    case (Cons r rs)
    then have r: "r \<in> set rows" "sk_scope r = sc" "sk_version r = v"
      using rows(1) by (auto simp: key_rows_def filter_eq_Cons_iff)
    then obtain k where k: "UnwrapDEK A K (sk_wrapped_dek r) = Inr k" "length k = 32"
      using rows(3) unfolding keys_ok_def dek_in_single by blast
    have dek: "dek_in A K rows sc v = Some k"
      using Cons rows(1) k by (simp add: dek_in_def key_rows_def)
    have "holds (key_inv A K rows) sess ((tick w)\<lparr>cache := (cache w)((sc, v) \<mapsto> Encryptor k)\<rparr>)"
      using tick(1) dek by (auto simp: holds_def key_inv_def split: if_splits)
    then show ?thesis
      using None tick Cons k rows(2) dek
      by (simp add: GetVersion_def cached_def unwrap_def store_enc_def wp_simps NewEncryptor_def
          same_but_cache_def)
  qed
qed

lemma keys_ok_snoc:
  assumes "keys_ok A K rows" "v > 0" "filter (\<lambda>r. sk_scope r = sc \<and> sk_version r = v) rows = []"
    and "UnwrapDEK A K wrapped = Inr k" "length k = 32"
  shows "keys_ok A K (rows @ [\<lparr>sk_scope = sc, sk_version = v, sk_wrapped_dek = wrapped\<rparr>])"
  using assms by (fastforce simp: keys_ok_def dek_in_def filter_empty_conv)

text \<open>
  Persisting a version adds at most one row: what was there stays, and afterwards the version
  has a key. A failure leaves the rows as they were, or with the new row when only the
  acknowledgement was lost.
\<close>

definition keys_grown :: "scope_key list \<Rightarrow> scope_key list \<Rightarrow> scope \<Rightarrow> nat \<Rightarrow> bool" where
  "keys_grown rows rows' sc v \<longleftrightarrow>
     (\<exists>ks. rows' = rows @ ks \<and> (\<forall>r \<in> set ks. sk_scope r = sc \<and> sk_version r = v))"

lemma keys_grown_refl [simp]: "keys_grown rows rows sc v"
  by (simp add: keys_grown_def)

definition only_keys :: "world \<Rightarrow> world \<Rightarrow> bool" where
  "only_keys w t \<longleftrightarrow> db t = (db w)\<lparr>scope_keys := scope_keys (db t)\<rparr> \<and> kek t = kek w
     \<and> clock t = clock w \<and> faults t = faults w \<and> rand t = rand w \<and> rand_ok t = rand_ok w
     \<and> calls t = calls w
     \<and> (tx t = None \<longleftrightarrow> tx w = None)
     \<and> (\<forall>a ws d. tx t = Some (a, ws, d) \<longrightarrow>
           (\<exists>d0. tx w = Some (a, ws, d0) \<and> d = d0\<lparr>scope_keys := scope_keys d\<rparr>))"

lemma only_keys_refl: "only_keys w w"
  by (simp add: only_keys_def)

lemma insert_key_inv:
  assumes "holds (key_inv A K rows) sess w" "v > 0" "UnwrapDEK A K wrapped = Inr k" "length k = 32"
  shows "\<exists>rows'. holds (key_inv A K rows') sess (map_db_auto (insert_key sc v wrapped) (tick (w\<lparr>rand_pos := n\<rparr>)))
           \<and> keys_grown rows rows' sc v \<and> dek_in A K rows' sc v \<noteq> None"
    (is "\<exists>rows'. holds _ _ ?t \<and> _ \<and> _")
proof (cases "filter (\<lambda>r. sk_scope r = sc \<and> sk_version r = v) rows")
  case Nil
  let ?rows' = "rows @ [\<lparr>sk_scope = sc, sk_version = v, sk_wrapped_dek = wrapped\<rparr>]"
  have ok: "keys_ok A K ?rows'"
    using assms Nil by (intro keys_ok_snoc) (auto simp: holds_def key_inv_def)
  have ins: "insert_key sc v wrapped d = d\<lparr>scope_keys := ?rows'\<rparr>" if "scope_keys d = rows" for d
    using that Nil by (simp add: insert_key_def key_rows_def)
  have "holds (key_inv A K ?rows') sess ?t"
    using assms(1) ok by (auto simp: holds_def key_inv_def ins dek_in_append)
  moreover have "dek_in A K ?rows' sc v \<noteq> None"
    using Nil assms(3,4) by (simp add: dek_in_def)
  ultimately show ?thesis
    by (intro exI [of _ ?rows']) (simp add: keys_grown_def)
next
  case (Cons r rs)
  have ins: "insert_key sc v wrapped d = d" if "scope_keys d = rows" for d
    using that Cons by (simp add: insert_key_def key_rows_def)
  have "r \<in> set rows" "sk_scope r = sc" "sk_version r = v"
    using Cons by (auto simp: filter_eq_Cons_iff)
  then have "dek_in A K rows sc v \<noteq> None"
    using assms(1) keys_ok_lookup [of A K rows r] by (simp add: holds_def key_inv_def)
  moreover have "holds (key_inv A K rows) sess ?t"
    using assms(1) by (auto simp: holds_def key_inv_def ins)
  ultimately show ?thesis by (intro exI [of _ rows]) simp
qed

lemma insert_key_only: "only_keys w (map_db_auto (insert_key sc v wrapped) (tick (w\<lparr>rand_pos := n\<rparr>)))"
  by (auto simp: only_keys_def insert_key_def)

lemma UnwrapDEK_seal:
  assumes "aead_correct A" "length K = 32" "length n = NonceSize"
  shows "UnwrapDEK A K (n @ Seal A K n dek) = Inr dek"
  using assms Decrypt_seal [of A "Encryptor K" n dek] by (simp add: UnwrapDEK_def NewEncryptor_def)

definition keys_kept :: "aead \<Rightarrow> bytes \<Rightarrow> scope_key list \<Rightarrow> (scope \<times> scope) option \<Rightarrow> scope \<Rightarrow> nat \<Rightarrow> world \<Rightarrow> world \<Rightarrow> bool" where
  "keys_kept A K rows sess sc v w t \<longleftrightarrow>
     (\<exists>rows'. holds (key_inv A K rows') sess t \<and> keys_grown rows rows' sc v \<and> only_keys w t)"

definition key_added :: "aead \<Rightarrow> bytes \<Rightarrow> scope_key list \<Rightarrow> (scope \<times> scope) option \<Rightarrow> scope \<Rightarrow> nat \<Rightarrow> world \<Rightarrow> world \<Rightarrow> bool" where
  "key_added A K rows sess sc v w t \<longleftrightarrow>
     (\<exists>rows'. holds (key_inv A K rows') sess t \<and> keys_grown rows rows' sc v
        \<and> dek_in A K rows' sc v \<noteq> None \<and> only_keys w t)"

lemma key_added_kept: "key_added A K rows sess sc v w t \<Longrightarrow> keys_kept A K rows sess sc v w t"
  by (auto simp: key_added_def keys_kept_def)

lemma wp_persist_version:
  assumes A: "aead_correct A" and w: "holds (key_inv A K rows) sess w" and "v > 0"
  shows "wp (persist_version A sc v)
           (\<lambda>_. key_added A K rows sess sc v w) (\<lambda>_. keys_kept A K rows sess sc v w) w"
proof -
  have K: "length K = 32" "kek w = K"
    using w by (auto simp: holds_def key_inv_def keys_ok_def)
  have same: "keys_kept A K rows sess sc v w (w\<lparr>rand_pos := n\<rparr>)"
    "keys_kept A K rows sess sc v w (tick (w\<lparr>rand_pos := n\<rparr>))" for n
    using w unfolding keys_kept_def
    by (auto simp: holds_def key_inv_def only_keys_def intro!: exI [of _ rows])
  have ins: "key_added A K rows sess sc v w
      (map_db_auto (insert_key sc v (nonce @ Seal A K nonce dek)) (tick (w\<lparr>rand_pos := n\<rparr>)))"
    if "length nonce = NonceSize" "length dek = 32" for nonce dek n
    using insert_key_inv [OF w \<open>v > 0\<close> UnwrapDEK_seal [OF A K(1) that(1)] that(2)] insert_key_only
    unfolding key_added_def by blast
  show ?thesis
    by (simp add: persist_version_def GenerateDEK_def WrapDEK_def NewEncryptor_def Encrypt_def K
        wp_simps same ins key_added_kept split: fault.splits)
qed

lemma only_keys_cache:
  assumes "only_keys w t" "same_but_cache t u"
  shows "only_keys w u"
  using assms by (simp add: only_keys_def same_but_cache_def)

lemma wp_createVersion:
  assumes A: "aead_correct A" and w: "holds (key_inv A K rows) sess w" and "v > 0"
  shows "wp (createVersion A sc v)
           (\<lambda>x t. x = v \<and> key_added A K rows sess sc v w t) (\<lambda>_. keys_kept A K rows sess sc v w) w"
proof -
  have "wp (GetVersion A sc v) (\<lambda>_. key_added A K rows sess sc v w) (\<lambda>_. keys_kept A K rows sess sc v w) t"
    if t: "key_added A K rows sess sc v w t" for t
  proof -
    obtain rows' where r: "holds (key_inv A K rows') sess t" "keys_grown rows rows' sc v"
      "dek_in A K rows' sc v \<noteq> None" "only_keys w t"
      using t by (auto simp: key_added_def)
    have "key_added A K rows sess sc v w u" if "holds (key_inv A K rows') sess u" "same_but_cache t u" for u
      using that r(2-4) only_keys_cache unfolding key_added_def by blast
    then show ?thesis
      by (intro wp_mono [OF wp_GetVersion [OF r(1)]]) (auto intro: key_added_kept)
  qed
  then show ?thesis
    unfolding createVersion_def wp_bindM wp_retM
    by (intro wp_mono [OF wp_persist_version [OF assms]]) simp_all
qed

lemma current_version_grown:
  assumes "scope_keys d = rows" "scope_keys d' = rows'" "keys_grown rows rows' sc 1"
    and "dek_in A K rows' sc 1 \<noteq> None" "current_version sc d = 0"
  shows "current_version sc d' = 1"
proof -
  obtain ks where ks: "rows' = rows @ ks" "\<And>r. r \<in> set ks \<Longrightarrow> sk_version r = 1"
    using assms(3) by (auto simp: keys_grown_def)
  have le: "sk_version r \<le> 1" if "r \<in> set rows'" "sk_scope r = sc" for r
    using that ks current_version_ge [of r d sc] assms(1,5) by (cases "r \<in> set ks") auto
  obtain r where "r \<in> set rows'" "sk_scope r = sc" "sk_version r = 1"
    using assms(4) dek_in_row by blast
  then have "1 \<le> current_version sc d'"
    using current_version_ge [of r d' sc] assms(2) by simp
  moreover have "current_version sc d' \<le> 1"
    using current_version_in [of sc d'] le assms(2) by (metis le0)
  ultimately show ?thesis by simp
qed

lemma wp_GetVersion_after:
  assumes "holds (key_inv A K rows') sess t" "only_keys w t"
    and "\<And>e u. holds (key_inv A K rows') sess u \<Longrightarrow> only_keys w u \<Longrightarrow>
           dek_in A K rows' sc v = Some (dek_of e) \<Longrightarrow> Q e u"
    and "\<And>e u. holds (key_inv A K rows') sess u \<Longrightarrow> only_keys w u \<Longrightarrow> E e u"
  shows "wp (GetVersion A sc v) Q E t"
  using assms(2-4) by (intro wp_mono [OF wp_GetVersion [OF assms(1)]]) (blast intro: only_keys_cache)+

text \<open>
  \<open>GetOrCreate\<close> returns the highest version there is after the call, and the key persisted for
  it; it creates a key only where there was none.
\<close>

definition current_key :: "aead \<Rightarrow> scope \<Rightarrow> world \<Rightarrow> encryptor \<times> nat \<Rightarrow> world \<Rightarrow> bool" where
  "current_key A sc w = (\<lambda>(e, v) t. v = current_version sc (db t) \<and> v > 0
     \<and> dek_in A (kek w) (scope_keys (db t)) sc v = Some (dek_of e)
     \<and> (current_version sc (db w) > 0 \<longrightarrow> scope_keys (db t) = scope_keys (db w)))"

lemma holds_rows: "holds (key_inv A K rows) sess w \<Longrightarrow> scope_keys (db w) = rows \<and> kek w = K"
  by (simp add: holds_def key_inv_def)

lemma wp_GetOrCreate:
  assumes A: "aead_correct A" and w: "holds (key_inv A K rows) sess w"
  shows "wp (GetOrCreate A sc)
           (\<lambda>x t. keys_kept A K rows sess sc 1 w t \<and> current_key A sc w x t)
           (\<lambda>_. keys_kept A K rows sess sc 1 w) w"
proof -
  note hr = holds_rows [OF w]
  have tick: "holds (key_inv A K rows) sess (tick w)" using w by (simp add: key_inv_process)
  have only: "only_keys w (tick w)" by (simp add: only_keys_def)
  have kept: "keys_kept A K rows sess sc 1 w u" if "holds (key_inv A K rows) sess u" "only_keys w u" for u
    using that unfolding keys_kept_def by (intro exI [of _ rows]) simp
  have existing: "wp (GetVersion A sc v)
      (\<lambda>e t. keys_kept A K rows sess sc 1 w t \<and> current_key A sc w (e, v) t)
      (\<lambda>_. keys_kept A K rows sess sc 1 w) (tick w)"
    if "v = current_version sc (db w)" "v > 0" for v
    using that hr
    by (intro wp_GetVersion_after [OF tick only])
      (auto simp: kept current_key_def current_version_def dest: holds_rows)
  have created: "wp (GetVersion A sc 1)
      (\<lambda>e t. keys_kept A K rows sess sc 1 w t \<and> current_key A sc w (e, 1) t)
      (\<lambda>_. keys_kept A K rows sess sc 1 w) t"
    if t: "key_added A K rows sess sc 1 (tick w) t" and zero: "current_version sc (db w) = 0" for t
  proof -
    obtain rows' where r: "holds (key_inv A K rows') sess t" "keys_grown rows rows' sc 1"
      "dek_in A K rows' sc 1 \<noteq> None" "only_keys (tick w) t"
      using t by (auto simp: key_added_def)
    have only: "only_keys w t" using r(4) by (simp add: only_keys_def)
    have one: "current_version sc (db u) = 1" if "holds (key_inv A K rows') sess u" for u
      using current_version_grown [OF _ _ r(2,3) zero] hr holds_rows [OF that] by simp
    show ?thesis
      using hr r(2) zero
      by (intro wp_GetVersion_after [OF r(1) only])
        (auto simp: keys_kept_def current_key_def one dest: holds_rows)
  qed
  show ?thesis
  proof (cases "fault_now w = NoFault")
    case False
    then show ?thesis
      using tick only kept by (simp add: GetOrCreate_def CurrentVersion_def wp_simps)
  next
    case True
    show ?thesis
    proof (cases "current_version sc (db w) = 0")
      case zero: True
      have "wp (createVersion A sc 1) (\<lambda>v. wp (GetVersion A sc v)
          (\<lambda>e t. keys_kept A K rows sess sc 1 w t \<and> current_key A sc w (e, v) t)
          (\<lambda>_. keys_kept A K rows sess sc 1 w)) (\<lambda>_. keys_kept A K rows sess sc 1 w) (tick w)"
        using created zero
        by (intro wp_mono [OF wp_createVersion [OF A tick]])
          (auto simp: keys_kept_def only_keys_def)
      then show ?thesis
        using True zero by (simp add: GetOrCreate_def CurrentVersion_def wp_simps)
    next
      case False
      then show ?thesis
        using True existing by (simp add: GetOrCreate_def CurrentVersion_def wp_simps)
    qed
  qed
qed



section \<open>Several processes on one database\<close>

text \<open>
  The gateway, \<open>hupi-consolidate\<close>, \<open>hupi-rotate-key\<close> and others each have a key store of their
  own over the same database. Their calls interleave between statements: the steps are the
  version lookup, the insert and the load of \<open>createVersion\<close> and \<open>GetVersion\<close>.
\<close>

type_synonym system = "database \<times> (nat \<Rightarrow> world)"

definition run_proc :: "nat \<Rightarrow> 'a proc \<Rightarrow> system \<Rightarrow> system" where
  "run_proc p m s = (let w = snd (m ((snd s p)\<lparr>db := fst s\<rparr>)) in (db w, (snd s)(p := w)))"

inductive key_step :: "aead \<Rightarrow> system \<Rightarrow> system \<Rightarrow> bool" for A where
  lookup: "key_step A s (run_proc p (CurrentVersion sc) s)"
| persist: "v > 0 \<Longrightarrow> key_step A s (run_proc p (persist_version A sc v) s)"
| load: "key_step A s (run_proc p (GetVersion A sc v) s)"

inductive_cases key_stepE: "key_step A s t"

definition keys_shared :: "aead \<Rightarrow> bytes \<Rightarrow> scope_key list \<Rightarrow> system \<Rightarrow> bool" where
  "keys_shared A K rows s \<longleftrightarrow>
     (\<forall>p. holds (key_inv A K (scope_keys (fst s))) None ((snd s p)\<lparr>db := fst s\<rparr>))
     \<and> (\<exists>ks. scope_keys (fst s) = rows @ ks)"

lemma key_inv_grown:
  assumes "key_inv A K rows w d" "rows' = rows @ ks" "keys_ok A K rows'" "scope_keys d' = rows'"
  shows "key_inv A K rows' w d'"
  using assms by (auto simp: key_inv_def dek_in_append)

text \<open>A statement of one process that only adds keys keeps the other processes' caches right.\<close>

lemma keys_shared_run:
  assumes s: "keys_shared A K rows s"
    and m: "wp m (\<lambda>_. keys_kept A K (scope_keys (fst s)) None sc v ((snd s p)\<lparr>db := fst s\<rparr>))
                 (\<lambda>_. keys_kept A K (scope_keys (fst s)) None sc v ((snd s p)\<lparr>db := fst s\<rparr>))
                 ((snd s p)\<lparr>db := fst s\<rparr>)"
  shows "keys_shared A K rows (run_proc p m s)"
proof -
  define w where "w = snd (m ((snd s p)\<lparr>db := fst s\<rparr>))"
  obtain rows' ks where w: "holds (key_inv A K rows') None w" "rows' = scope_keys (fst s) @ ks"
    using wpD_snd [OF m] by (auto simp: keys_kept_def keys_grown_def w_def)
  have ok: "keys_ok A K rows'" "scope_keys (db w) = rows'"
    using w(1) by (auto simp: holds_def key_inv_def)
  have other: "holds (key_inv A K rows') None ((snd s q)\<lparr>db := db w\<rparr>)" for q
  proof -
    note P = process_pred_simps [OF key_inv_process]
    have "holds (key_inv A K (scope_keys (fst s))) None ((snd s q)\<lparr>db := fst s\<rparr>)"
      using s by (simp add: keys_shared_def)
    then have q: "tx (snd s q) = None" "key_inv A K (scope_keys (fst s)) (snd s q) (fst s)"
      by (simp_all add: holds_def P)
    from key_inv_grown [OF q(2) w(2) ok] q(1) show ?thesis
      by (simp add: holds_def P)
  qed
  have "run_proc p m s = (db w, (snd s)(p := w))"
    by (simp add: run_proc_def Let_def w_def)
  moreover have "holds (key_inv A K rows') None (((snd s)(p := w)) q\<lparr>db := db w\<rparr>)" for q
    using w(1) other by simp
  moreover have "\<exists>ks. rows' = rows @ ks"
    using s w(2) by (auto simp: keys_shared_def)
  ultimately show ?thesis
    using ok(2) by (simp add: keys_shared_def)
qed

lemma key_step_shared:
  assumes "aead_correct A" "key_step A s t" "keys_shared A K rows s"
  shows "keys_shared A K rows t"
  using assms(2)
proof (cases rule: key_step.cases)
  case (lookup p sc)
  have "holds (key_inv A K (scope_keys (fst s))) None ((snd s p)\<lparr>db := fst s\<rparr>)"
    using assms(3) by (simp add: keys_shared_def)
  then have "wp (CurrentVersion sc) (\<lambda>_. keys_kept A K (scope_keys (fst s)) None sc 1 ((snd s p)\<lparr>db := fst s\<rparr>))
      (\<lambda>_. keys_kept A K (scope_keys (fst s)) None sc 1 ((snd s p)\<lparr>db := fst s\<rparr>)) ((snd s p)\<lparr>db := fst s\<rparr>)"
    by (auto simp: CurrentVersion_def wp_simps keys_kept_def key_inv_process only_keys_def
        intro!: exI [of _ "scope_keys (fst s)"])
  then show ?thesis using lookup keys_shared_run [OF assms(3)] by blast
next
  case (persist v p sc)
  have "holds (key_inv A K (scope_keys (fst s))) None ((snd s p)\<lparr>db := fst s\<rparr>)"
    using assms(3) by (simp add: keys_shared_def)
  then have "wp (persist_version A sc v) (\<lambda>_. keys_kept A K (scope_keys (fst s)) None sc v ((snd s p)\<lparr>db := fst s\<rparr>))
      (\<lambda>_. keys_kept A K (scope_keys (fst s)) None sc v ((snd s p)\<lparr>db := fst s\<rparr>)) ((snd s p)\<lparr>db := fst s\<rparr>)"
    by (rule wp_mono [OF wp_persist_version [OF assms(1) _ persist(2)]]) (auto intro: key_added_kept)
  then show ?thesis using persist keys_shared_run [OF assms(3)] by blast
next
  case (load p sc v)
  have "holds (key_inv A K (scope_keys (fst s))) None ((snd s p)\<lparr>db := fst s\<rparr>)"
    using assms(3) by (simp add: keys_shared_def)
  then have "wp (GetVersion A sc v) (\<lambda>_. keys_kept A K (scope_keys (fst s)) None sc v ((snd s p)\<lparr>db := fst s\<rparr>))
      (\<lambda>_. keys_kept A K (scope_keys (fst s)) None sc v ((snd s p)\<lparr>db := fst s\<rparr>)) ((snd s p)\<lparr>db := fst s\<rparr>)"
    by (rule wp_GetVersion_after)
      (auto simp: keys_kept_def only_keys_refl intro!: exI [of _ "scope_keys (fst s)"])
  then show ?thesis using load keys_shared_run [OF assms(3)] by blast
qed

lemma key_steps_shared:
  assumes "(key_step A)\<^sup>*\<^sup>* s t" "aead_correct A" "keys_shared A K rows s"
  shows "keys_shared A K rows t"
  using assms by (induction rule: rtranclp_induct) (auto intro: key_step_shared)

definition fresh_process :: "bytes \<Rightarrow> world \<Rightarrow> bool" where
  "fresh_process K w \<longleftrightarrow> kek w = K \<and> cache w = Map.empty \<and> tx w = None"

text \<open>
  C20. Two processes never use different keys for the same scope and version: from processes
  that start with empty caches, after any interleaving of their key lookups, inserts and loads,
  whatever failed on the way, two cached encryptors for the same scope and version are the same
  and are the persisted key; and no row of \<open>scope_keys\<close> was changed or removed.
\<close>

theorem processes_agree_on_keys:
  assumes "aead_correct A" "keys_ok A K (scope_keys d)" "\<And>p. fresh_process K (procs p)"
    and "(key_step A)\<^sup>*\<^sup>* (d, procs) (d', procs')"
    and "cache (procs' p) (sc, v) = Some e1" "cache (procs' q) (sc, v) = Some e2"
  shows "e1 = e2 \<and> dek_in A K (scope_keys d') sc v = Some (dek_of e1)
         \<and> (\<exists>ks. scope_keys d' = scope_keys d @ ks)"
proof -
  have "keys_shared A K (scope_keys d) (d, procs)"
    using assms(2,3) by (auto simp: keys_shared_def holds_def key_inv_def fresh_process_def)
  then have inv: "keys_shared A K (scope_keys d) (d', procs')"
    using key_steps_shared assms(1,4) by blast
  have "dek_in A K (scope_keys d') sc v = Some (dek_of e)" if "cache (procs' r) (sc, v) = Some e" for r e
    using inv that by (auto simp: keys_shared_def holds_def key_inv_def)
  from this [OF assms(5)] this [OF assms(6)] have "dek_of e1 = dek_of e2"
    "dek_in A K (scope_keys d') sc v = Some (dek_of e1)" by simp_all
  moreover have "\<exists>ks. scope_keys d' = scope_keys d @ ks" using inv by (simp add: keys_shared_def)
  ultimately show ?thesis by (simp add: encryptor.expand)
qed

text \<open>The calls of the key store are made of these steps.\<close>

lemma run_proc_bindM:
  "run_proc p (bindM m f) s =
     (case m ((snd s p)\<lparr>db := fst s\<rparr>) of
        (Inl _, _) \<Rightarrow> run_proc p m s
      | (Inr x, _) \<Rightarrow> run_proc p (f x) (run_proc p m s))"
  by (auto simp: run_proc_def bindM_def Let_def split: prod.splits sum.splits)

lemma run_proc_retM: "run_proc p (retM x) (run_proc p m s) = run_proc p m s"
  by (simp add: run_proc_def retM_def Let_def)

lemma run_proc_bind_steps:
  assumes "\<And>s. (key_step A)\<^sup>*\<^sup>* s (run_proc p m s)" "\<And>x s. (key_step A)\<^sup>*\<^sup>* s (run_proc p (f x) s)"
  shows "(key_step A)\<^sup>*\<^sup>* s (run_proc p (bindM m f) s)"
  using assms(1) [of s] rtranclp_trans [OF assms(1) [of s] assms(2)]
  by (simp add: run_proc_bindM split: prod.splits sum.splits)

lemma run_proc_bind_ret:
  assumes "(key_step A)\<^sup>*\<^sup>* s (run_proc p m s)"
  shows "(key_step A)\<^sup>*\<^sup>* s (run_proc p (bindM m (\<lambda>x. retM (f x))) s)"
  using assms by (simp add: run_proc_bindM run_proc_retM split: prod.splits sum.splits)

lemma createVersion_steps:
  assumes "v > 0"
  shows "(key_step A)\<^sup>*\<^sup>* s (run_proc p (createVersion A sc v) s)"
  unfolding createVersion_def
  by (intro run_proc_bind_steps run_proc_bind_ret r_into_rtranclp)
    (auto intro: key_step.intros assms)

lemma GetOrCreate_steps: "(key_step A)\<^sup>*\<^sup>* s (run_proc p (GetOrCreate A sc) s)"
proof -
  have rest: "(key_step A)\<^sup>*\<^sup>* s (run_proc p (bindM (GetVersion A sc v) (\<lambda>enc. retM (enc, v))) s)" for v s
    by (intro run_proc_bind_ret r_into_rtranclp load)
  have "(key_step A)\<^sup>*\<^sup>* s (run_proc p (bindM (if v = 0 then createVersion A sc 1 else retM v)
          (\<lambda>v. bindM (GetVersion A sc v) (\<lambda>enc. retM (enc, v)))) s)" for v s
  proof (cases "v = 0")
    case True
    then show ?thesis
      using run_proc_bind_steps [where f = "\<lambda>v. bindM (GetVersion A sc v) (\<lambda>enc. retM (enc, v))",
          OF createVersion_steps [where v = 1] rest] by simp
  next
    case False
    then have "bindM (if v = 0 then createVersion A sc 1 else retM v)
        (\<lambda>v. bindM (GetVersion A sc v) (\<lambda>enc. retM (enc, v))) =
        bindM (GetVersion A sc v) (\<lambda>enc. retM (enc, v))"
      by (simp add: bindM_def retM_def fun_eq_iff)
    then show ?thesis using rest by simp
  qed
  then show ?thesis
    unfolding GetOrCreate_def using key_step.lookup
    by (intro run_proc_bind_steps [of A p "CurrentVersion sc"]) (auto intro: r_into_rtranclp)
qed

theorem processes_agree_on_keys_witness:
  "let s = run_proc 1 (GetOrCreate prefix_aead DefaultScope)
             (run_proc 0 (GetOrCreate prefix_aead DefaultScope) (empty_db, \<lambda>_. init_world))
   in cache (snd s 0) (DefaultScope, 1) \<noteq> None
      \<and> cache (snd s 0) (DefaultScope, 1) = cache (snd s 1) (DefaultScope, 1)"
proof -
  define s where "s = run_proc 1 (GetOrCreate prefix_aead DefaultScope)
             (run_proc 0 (GetOrCreate prefix_aead DefaultScope) (empty_db, \<lambda>_. init_world))"
  have c: "Option.is_none (cache (snd s 0) (DefaultScope, 1)) = False"
    "Option.is_none (cache (snd s 1) (DefaultScope, 1)) = False"
    unfolding s_def by code_simp+
  then obtain e1 e2 where e: "cache (snd s 0) (DefaultScope, 1) = Some e1"
    "cache (snd s 1) (DefaultScope, 1) = Some e2"
    by (auto simp: Option.is_none_def)
  have ok: "keys_ok prefix_aead (kek init_world) (scope_keys empty_db)"
    "\<And>p :: nat. fresh_process (kek init_world) init_world"
    by (simp_all add: keys_ok_def init_world_def empty_db_def fresh_process_def)
  have "(key_step prefix_aead)\<^sup>*\<^sup>* (empty_db, \<lambda>_. init_world) (fst s, snd s)"
    unfolding s_def prod.collapse by (rule rtranclp_trans [OF GetOrCreate_steps GetOrCreate_steps])
  from processes_agree_on_keys [OF prefix_aead_correct ok this e] have "e1 = e2" by simp
  then show ?thesis using e by (simp add: s_def)
qed

end
