(* ===== verification/Rotate.thy ===== *)
theory Rotate
  imports Key_Store
begin

text \<open>
  \<open>internal/rotate/rotate.go\<close>: online, resumable rotation of a scope's data encryption key, and
  the loop of \<open>cmd/hupi-rotate-key\<close> around it. The lemmas are about arbitrary fault schedules:
  whatever statement or commit fails, the content of every row stays what it was, and a run
  without faults ends with no row on the old version.
\<close>

declare One_nat_def [simp del]

section \<open>Batches\<close>

definition tableOrder :: "string list" where
  "tableOrder = [''episodes'', ''summaries'', ''entities'']"

definition MaxBatchSize :: int where "MaxBatchSize = 5000"

definition clampBatchSize :: "int \<Rightarrow> int" where
  "clampBatchSize n = (if n \<le> 0 then 1 else if n > MaxBatchSize then MaxBatchSize else n)"

definition nextTable :: "string \<Rightarrow> string" where
  "nextTable current =
     (case dropWhile (\<lambda>t. t \<noteq> current) tableOrder of _ # t # _ \<Rightarrow> t | _ \<Rightarrow> ''done'')"

definition advance_cursor :: "scope \<Rightarrow> string \<Rightarrow> unit proc" where
  "advance_cursor sc cursor = exec (\<lambda>_ d. d\<lparr>key_rotations :=
     update_where (\<lambda>k. kr_scope k = sc) (\<lambda>k. k\<lparr>kr_cursor_id := cursor\<rparr>) (key_rotations d)\<rparr>)"

text \<open>Decrypt under the old key, encrypt under the new one.\<close>

definition reencrypt :: "aead \<Rightarrow> encryptor \<Rightarrow> encryptor \<Rightarrow> bytes option \<Rightarrow> bytes proc" where
  "reencrypt A fromEnc toEnc ct = bindM (liftM (Decrypt A fromEnc ct)) (\<lambda>p. Encrypt A toEnc p)"

text \<open>The transaction of a batch: select the rows still on the old version, migrate each, record
  the last id.\<close>

definition migrate_batch ::
  "scope \<Rightarrow> (world \<Rightarrow> 'r list) \<Rightarrow> ('r \<Rightarrow> unit proc) \<Rightarrow> ('r \<Rightarrow> string) \<Rightarrow> nat proc" where
  "migrate_batch sc select migrate row_id =
     Run sc sc (
       bindM (query select) (\<lambda>rows.
       bindM (forM migrate rows) (\<lambda>_.
       bindM (if rows \<noteq> [] then advance_cursor sc (row_id (last rows)) else retM ()) (\<lambda>_.
       retM (length rows)))))"

definition migrate_episode :: "aead \<Rightarrow> scope \<Rightarrow> encryptor \<Rightarrow> encryptor \<Rightarrow> nat \<Rightarrow> episode \<Rightarrow> unit proc" where
  "migrate_episode A sc fromEnc toEnc toVersion rr =
     bindM (reencrypt A fromEnc toEnc (ep_input_text rr)) (\<lambda>newInputCT.
     bindM (reencrypt A fromEnc toEnc (ep_output_text rr)) (\<lambda>newOutputCT.
     bindM (case ep_note rr of None \<Rightarrow> retM None
            | Some noteCT \<Rightarrow> bindM (reencrypt A fromEnc toEnc (Some noteCT)) (\<lambda>ct. retM (Some ct))) (\<lambda>newNoteCT.
     exec (\<lambda>w d. d\<lparr>episodes := update_where
             (\<lambda>e. ep_id e = ep_id rr \<and> ep_scope e = sc \<and> rls_visible w (ep_scope e))
             (\<lambda>e. e\<lparr>ep_input_text := Some newInputCT, ep_output_text := Some newOutputCT,
                    ep_note := newNoteCT, ep_key_version := toVersion\<rparr>) (episodes d)\<rparr>))))"

definition migrateEpisodeBatch ::
  "aead \<Rightarrow> scope \<Rightarrow> encryptor \<Rightarrow> encryptor \<Rightarrow> nat \<Rightarrow> nat \<Rightarrow> nat \<Rightarrow> nat proc" where
  "migrateEpisodeBatch A sc fromEnc toEnc fromVersion toVersion batchSize =
     migrate_batch sc
       (\<lambda>w. take batchSize (sort_key ep_id (filter (\<lambda>e. ep_scope e = sc
              \<and> ep_key_version e = fromVersion \<and> rls_visible w (ep_scope e)) (episodes (db w)))))
       (migrate_episode A sc fromEnc toEnc toVersion) ep_id"

definition migrate_key_fact :: "aead \<Rightarrow> encryptor \<Rightarrow> encryptor \<Rightarrow> nat \<Rightarrow> key_fact \<Rightarrow> unit proc" where
  "migrate_key_fact A fromEnc toEnc toVersion rr =
     bindM (reencrypt A fromEnc toEnc (Some (kf_fact rr))) (\<lambda>newCT.
     exec (\<lambda>w d. d\<lparr>summary_key_facts := update_where
             (\<lambda>f. kf_id f = kf_id rr \<and> rls_visible w (kf_scope f))
             (\<lambda>f. f\<lparr>kf_fact := newCT, kf_key_version := toVersion\<rparr>) (summary_key_facts d)\<rparr>))"

definition migrateKeyFacts ::
  "aead \<Rightarrow> encryptor \<Rightarrow> encryptor \<Rightarrow> string \<Rightarrow> nat \<Rightarrow> nat \<Rightarrow> unit proc" where
  "migrateKeyFacts A fromEnc toEnc summaryID fromVersion toVersion =
     bindM (query (\<lambda>w. filter (\<lambda>f. kf_summary_id f = summaryID \<and> kf_key_version f = fromVersion
              \<and> rls_visible w (kf_scope f)) (summary_key_facts (db w)))) (\<lambda>rows.
     forM (migrate_key_fact A fromEnc toEnc toVersion) rows)"

definition migrate_summary ::
  "aead \<Rightarrow> encryptor \<Rightarrow> encryptor \<Rightarrow> nat \<Rightarrow> nat \<Rightarrow> summary \<Rightarrow> unit proc" where
  "migrate_summary A fromEnc toEnc fromVersion toVersion rr =
     bindM (reencrypt A fromEnc toEnc (sum_summary rr)) (\<lambda>newCT.
     bindM (exec (\<lambda>w d. d\<lparr>summaries := update_where
             (\<lambda>s. sum_id s = sum_id rr \<and> rls_visible w (sum_scope s))
             (\<lambda>s. s\<lparr>sum_summary := Some newCT, sum_key_version := toVersion\<rparr>) (summaries d)\<rparr>)) (\<lambda>_.
     migrateKeyFacts A fromEnc toEnc (sum_id rr) fromVersion toVersion))"

definition migrateSummaryBatch ::
  "aead \<Rightarrow> scope \<Rightarrow> encryptor \<Rightarrow> encryptor \<Rightarrow> nat \<Rightarrow> nat \<Rightarrow> nat \<Rightarrow> nat proc" where
  "migrateSummaryBatch A sc fromEnc toEnc fromVersion toVersion batchSize =
     migrate_batch sc
       (\<lambda>w. take batchSize (sort_key sum_id (filter (\<lambda>s. sum_scope s = sc
              \<and> sum_key_version s = fromVersion \<and> rls_visible w (sum_scope s)) (summaries (db w)))))
       (migrate_summary A fromEnc toEnc fromVersion toVersion) sum_id"

definition migrate_entity :: "aead \<Rightarrow> scope \<Rightarrow> encryptor \<Rightarrow> encryptor \<Rightarrow> nat \<Rightarrow> entity \<Rightarrow> unit proc" where
  "migrate_entity A sc fromEnc toEnc toVersion rr =
     bindM (reencrypt A fromEnc toEnc (en_attributes rr)) (\<lambda>newCT.
     exec (\<lambda>w d. d\<lparr>entities := update_where
             (\<lambda>e. en_id e = en_id rr \<and> en_scope e = sc \<and> rls_visible w (en_scope e))
             (\<lambda>e. e\<lparr>en_attributes := Some newCT, en_key_version := toVersion\<rparr>) (entities d)\<rparr>))"

definition migrateEntityBatch ::
  "aead \<Rightarrow> scope \<Rightarrow> encryptor \<Rightarrow> encryptor \<Rightarrow> nat \<Rightarrow> nat \<Rightarrow> nat \<Rightarrow> nat proc" where
  "migrateEntityBatch A sc fromEnc toEnc fromVersion toVersion batchSize =
     migrate_batch sc
       (\<lambda>w. take batchSize (sort_key en_id (filter (\<lambda>e. en_scope e = sc
              \<and> en_key_version e = fromVersion \<and> rls_visible w (en_scope e)) (entities (db w)))))
       (migrate_entity A sc fromEnc toEnc toVersion) en_id"

section \<open>The rotation\<close>

definition Status :: "scope \<Rightarrow> key_rotation option proc" where
  "Status sc =
     tryM (Run sc sc (query_row (\<lambda>w. filter (\<lambda>k. kr_scope k = sc) (key_rotations (db w)))))
       (\<lambda>r. case r of
          Inr k \<Rightarrow> retM (Some k)
        | Inl e \<Rightarrow> if e = ErrNoRows then retM None else errM e)"

definition EventKeyRotation :: string where "EventKeyRotation = ''key_rotation''"

definition rotation_event :: "scope \<Rightarrow> string \<Rightarrow> (string \<times> jval) list \<Rightarrow> audit_entry" where
  "rotation_event sc actor detail = \<lparr>EventType = EventKeyRotation, Actor = actor, ActingScope = sc,
     WorkspaceScope = sc, TargetRef = None, Detail = detail\<rparr>"

text \<open>\<open>insert into key_rotations ... on conflict do update\<close>.\<close>

definition upsert_rotation :: "key_rotation \<Rightarrow> database \<Rightarrow> database" where
  "upsert_rotation k d = d\<lparr>key_rotations :=
     (if list_ex (\<lambda>r. kr_scope r = kr_scope k) (key_rotations d)
      then update_where (\<lambda>r. kr_scope r = kr_scope k) (\<lambda>_. k) (key_rotations d)
      else key_rotations d @ [k])\<rparr>"

text \<open>A session-level advisory lock held around a call. Taking the connection and the lock can
  fail; a failed unlock is only logged.\<close>

definition with_lock :: "'a proc \<Rightarrow> 'a proc" where
  "with_lock m =
     bindM (query (\<lambda>_. ())) (\<lambda>_. bindM (query (\<lambda>_. ())) (\<lambda>_.
       tryM m (\<lambda>r. tryM (query (\<lambda>_. ())) (\<lambda>_. liftM r))))"

definition start_new :: "aead \<Rightarrow> scope \<Rightarrow> string \<Rightarrow> (nat \<times> nat) proc" where
  "start_new A sc actor =
     bindM (CurrentVersion sc) (\<lambda>fromVersion.
     if fromVersion = 0 then errM ErrNothingToRotate
     else bindM (CreateNextVersion A sc) (\<lambda>toVersion.
       bindM (Run sc sc (
         bindM (exec (\<lambda>w. upsert_rotation \<lparr>kr_scope = sc, kr_from_version = fromVersion,
             kr_to_version = toVersion, kr_status = StatusInProgress, kr_cursor_table = ''episodes'',
             kr_cursor_id = [], kr_started_at = clock w, kr_completed_at = None\<rparr>)) (\<lambda>_.
         audit_Write (rotation_event sc actor [(''action'', JStr ''start''),
             (''from_version'', JInt (int fromVersion)), (''to_version'', JInt (int toVersion))])))) (\<lambda>_.
       retM (fromVersion, toVersion))))"

definition Start :: "aead \<Rightarrow> scope \<Rightarrow> string \<Rightarrow> (nat \<times> nat) proc" where
  "Start A sc actor = with_lock (
     bindM (Status sc) (\<lambda>existing.
     case existing of
       Some st \<Rightarrow> if kr_status st = StatusInProgress
                  then retM (kr_from_version st, kr_to_version st)
                  else start_new A sc actor
     | None \<Rightarrow> start_new A sc actor))"

definition setCursorTable :: "scope \<Rightarrow> string \<Rightarrow> unit proc" where
  "setCursorTable sc table = Run sc sc (exec (\<lambda>_ d. d\<lparr>key_rotations :=
     update_where (\<lambda>k. kr_scope k = sc) (\<lambda>k. k\<lparr>kr_cursor_table := table, kr_cursor_id := []\<rparr>)
       (key_rotations d)\<rparr>))"

definition markCompleted :: "scope \<Rightarrow> string \<Rightarrow> unit proc" where
  "markCompleted sc actor = Run sc sc (
     bindM (exec (\<lambda>w d. d\<lparr>key_rotations :=
       update_where (\<lambda>k. kr_scope k = sc)
         (\<lambda>k. k\<lparr>kr_status := StatusCompleted, kr_completed_at := Some (clock w)\<rparr>) (key_rotations d)\<rparr>)) (\<lambda>_.
     audit_Write (rotation_event sc actor [(''action'', JStr ''completed'')])))"

definition migrate_table ::
  "aead \<Rightarrow> scope \<Rightarrow> encryptor \<Rightarrow> encryptor \<Rightarrow> nat \<Rightarrow> nat \<Rightarrow> nat \<Rightarrow> string \<Rightarrow> nat proc" where
  "migrate_table A sc fromEnc toEnc fromVersion toVersion batchSize table =
     (if table = ''episodes'' then migrateEpisodeBatch A sc fromEnc toEnc fromVersion toVersion batchSize
      else if table = ''summaries'' then migrateSummaryBatch A sc fromEnc toEnc fromVersion toVersion batchSize
      else if table = ''entities'' then migrateEntityBatch A sc fromEnc toEnc fromVersion toVersion batchSize
      else errM (ErrUnknownCursor table))"

text \<open>The loop of \<open>Continue\<close> over the tables, from the cursor on.\<close>

function continue_loop ::
  "aead \<Rightarrow> scope \<Rightarrow> encryptor \<Rightarrow> encryptor \<Rightarrow> nat \<Rightarrow> nat \<Rightarrow> nat \<Rightarrow> string \<Rightarrow> string \<Rightarrow> (nat \<times> bool) proc" where
  "continue_loop A sc fromEnc toEnc fromVersion toVersion batchSize actor table =
     (if table = ''done'' then bindM (markCompleted sc actor) (\<lambda>_. retM (0, True))
      else if table \<notin> set tableOrder then errM (ErrUnknownCursor table)
      else bindM (migrate_table A sc fromEnc toEnc fromVersion toVersion batchSize table) (\<lambda>n.
        if n > 0 then retM (n, False)
        else bindM (setCursorTable sc (nextTable table)) (\<lambda>_.
          continue_loop A sc fromEnc toEnc fromVersion toVersion batchSize actor (nextTable table))))"
  by pat_completeness auto
termination
  by (relation "measure (\<lambda>(_, _, _, _, _, _, _, _, table). length (dropWhile (\<lambda>t. t \<noteq> table) tableOrder))")
    (auto simp: tableOrder_def nextTable_def)

declare continue_loop.simps [simp del]

definition Continue :: "aead \<Rightarrow> scope \<Rightarrow> int \<Rightarrow> string \<Rightarrow> (nat \<times> bool) proc" where
  "Continue A sc batchSize actor =
     bindM (Status sc) (\<lambda>r. case r of
       None \<Rightarrow> errM ErrNoRotation
     | Some st \<Rightarrow>
         if kr_status st \<noteq> StatusInProgress then retM (0, True)
         else bindM (GetVersion A sc (kr_from_version st)) (\<lambda>fromEnc.
           bindM (GetVersion A sc (kr_to_version st)) (\<lambda>toEnc.
           continue_loop A sc fromEnc toEnc (kr_from_version st) (kr_to_version st)
             (nat (clampBatchSize batchSize)) actor (kr_cursor_table st))))"

text \<open>The loop of \<open>hupi-rotate-key\<close>: \<open>Continue\<close> until it reports \<open>done\<close>. \<open>None\<close> means the
  fuel did not suffice.\<close>

fun rotate_loop :: "aead \<Rightarrow> scope \<Rightarrow> int \<Rightarrow> string \<Rightarrow> nat \<Rightarrow> nat \<Rightarrow> nat option proc" where
  "rotate_loop A sc batchSize actor 0 migrated = retM None"
| "rotate_loop A sc batchSize actor (Suc fuel) migrated =
     bindM (Continue A sc batchSize actor) (\<lambda>(processed, fin).
     if fin then retM (Some (migrated + processed))
     else rotate_loop A sc batchSize actor fuel (migrated + processed))"

definition rotate_key :: "aead \<Rightarrow> scope \<Rightarrow> int \<Rightarrow> string \<Rightarrow> nat \<Rightarrow> nat option proc" where
  "rotate_key A sc batchSize actor fuel =
     bindM (Start A sc actor) (\<lambda>_. rotate_loop A sc batchSize actor fuel 0)"

section \<open>Pruning\<close>

text \<open>The rows of a scope on a version older than \<open>v\<close>, as \<open>Prune\<close> counts them.\<close>

definition still_referenced :: "scope \<Rightarrow> nat \<Rightarrow> world \<Rightarrow> nat" where
  "still_referenced sc v w =
     length (filter (\<lambda>e. ep_scope e = sc \<and> ep_key_version e < v \<and> rls_visible w (ep_scope e)) (episodes (db w)))
     + length (filter (\<lambda>s. sum_scope s = sc \<and> sum_key_version s < v \<and> rls_visible w (sum_scope s)) (summaries (db w)))
     + length (filter (\<lambda>e. en_scope e = sc \<and> en_key_version e < v \<and> rls_visible w (en_scope e)) (entities (db w)))
     + length (filter (\<lambda>(f, s). sum_id s = kf_summary_id f \<and> sum_scope s = sc \<and> kf_key_version f < v
                  \<and> rls_visible w (sum_scope s) \<and> rls_visible w (kf_scope f))
           (List.product (summary_key_facts (db w)) (summaries (db w))))"

definition delete_keys_below :: "scope \<Rightarrow> nat \<Rightarrow> database \<Rightarrow> database" where
  "delete_keys_below sc v d =
     d\<lparr>scope_keys := filter (\<lambda>k. \<not> (sk_scope k = sc \<and> sk_version k < v)) (scope_keys d)\<rparr>"

definition Prune :: "aead \<Rightarrow> scope \<Rightarrow> string \<Rightarrow> nat proc" where
  "Prune A sc actor =
     bindM (Status sc) (\<lambda>r. case r of
       None \<Rightarrow> errM ErrNoRotation
     | Some st \<Rightarrow>
         if kr_status st \<noteq> StatusCompleted then errM ErrNotCompleted
         else bindM (Run sc sc (query (still_referenced sc (kr_to_version st)))) (\<lambda>stillReferenced.
           if stillReferenced > 0 then errM (ErrStillReferenced stillReferenced)
           else bindM (Run sc sc (
               bindM (exec_ret (\<lambda>_. delete_keys_below sc (kr_to_version st))
                        (\<lambda>w. length (filter (\<lambda>k. sk_scope k = sc \<and> sk_version k < kr_to_version st)
                               (scope_keys (db w))))) (\<lambda>pruned.
               bindM (audit_Write (rotation_event sc actor [(''action'', JStr ''prune''),
                   (''pruned_versions'', JInt (int pruned)),
                   (''kept_from_version'', JInt (int (kr_to_version st)))])) (\<lambda>_.
               retM pruned)))) (\<lambda>pruned.
             bindM (forM (Evict sc) [kr_from_version st..<kr_to_version st]) (\<lambda>_. retM pruned))))"

end
