(* ===== verification/Content.thy ===== *)
theory Content
  imports Key_Store
begin

text \<open>
  What the encrypted tables say, independently of the key a row is encrypted under: every row
  with its ciphertext columns and key version removed, next to the plaintexts its recorded key
  version gives. Maintenance jobs (key rotation, re-embedding) have to keep this content.
\<close>

section \<open>The content of a row\<close>

definition episode_plain :: "aead \<Rightarrow> bytes \<Rightarrow> episode \<Rightarrow>
    (err + string) \<times> (err + string) \<times> (err + string) option" where
  "episode_plain A k e =
     (Decrypt A (Encryptor k) (ep_input_text e), Decrypt A (Encryptor k) (ep_output_text e),
      map_option (\<lambda>n. Decrypt A (Encryptor k) (Some n)) (ep_note e))"

definition episode_rest :: "episode \<Rightarrow> episode" where
  "episode_rest e = e\<lparr>ep_input_text := None, ep_output_text := None, ep_note := None, ep_key_version := 0\<rparr>"

definition summary_plain :: "aead \<Rightarrow> bytes \<Rightarrow> summary \<Rightarrow> err + string" where
  "summary_plain A k s = Decrypt A (Encryptor k) (sum_summary s)"

definition summary_rest :: "summary \<Rightarrow> summary" where
  "summary_rest s = s\<lparr>sum_summary := None, sum_key_version := 0\<rparr>"

definition fact_plain :: "aead \<Rightarrow> bytes \<Rightarrow> key_fact \<Rightarrow> err + string" where
  "fact_plain A k f = Decrypt A (Encryptor k) (Some (kf_fact f))"

definition fact_rest :: "key_fact \<Rightarrow> key_fact" where
  "fact_rest f = f\<lparr>kf_fact := [], kf_key_version := 0\<rparr>"

definition entity_plain :: "aead \<Rightarrow> bytes \<Rightarrow> entity \<Rightarrow> err + string" where
  "entity_plain A k e = Decrypt A (Encryptor k) (en_attributes e)"

definition entity_rest :: "entity \<Rightarrow> entity" where
  "entity_rest e = e\<lparr>en_attributes := None, en_key_version := 0\<rparr>"

text \<open>The views of a row through the persisted keys.\<close>

type_synonym keys = "scope \<Rightarrow> nat \<Rightarrow> bytes option"

definition episode_view where
  "episode_view A (ks :: keys) e =
     (episode_rest e, map_option (\<lambda>k. episode_plain A k e) (ks (ep_scope e) (ep_key_version e)))"

definition summary_view where
  "summary_view A (ks :: keys) s =
     (summary_rest s, map_option (\<lambda>k. summary_plain A k s) (ks (sum_scope s) (sum_key_version s)))"

definition fact_view where
  "fact_view A (ks :: keys) f =
     (fact_rest f, map_option (\<lambda>k. fact_plain A k f) (ks (kf_scope f) (kf_key_version f)))"

definition entity_view where
  "entity_view A (ks :: keys) e =
     (entity_rest e, map_option (\<lambda>k. entity_plain A k e) (ks (en_scope e) (en_key_version e)))"

text \<open>The whole database: the four encrypted tables by their views, everything but the
  progress and audit tables as it is.\<close>

definition other_tables :: "database \<Rightarrow> database" where
  "other_tables d = d\<lparr>episodes := [], summaries := [], summary_key_facts := [], entities := [],
     key_rotations := [], audit_log := []\<rparr>"

definition same_content :: "aead \<Rightarrow> keys \<Rightarrow> database \<Rightarrow> database \<Rightarrow> bool" where
  "same_content A ks d d' \<longleftrightarrow>
     map (episode_view A ks) (episodes d') = map (episode_view A ks) (episodes d)
     \<and> map (summary_view A ks) (summaries d') = map (summary_view A ks) (summaries d)
     \<and> map (fact_view A ks) (summary_key_facts d') = map (fact_view A ks) (summary_key_facts d)
     \<and> map (entity_view A ks) (entities d') = map (entity_view A ks) (entities d)
     \<and> other_tables d' = other_tables d"

section \<open>Readable databases\<close>

definition is_ok :: "err + 'a \<Rightarrow> bool" where
  "is_ok r \<longleftrightarrow> (case r of Inr _ \<Rightarrow> True | Inl _ \<Rightarrow> False)"

lemma is_ok_iff [simp]: "is_ok r \<longleftrightarrow> (\<exists>x. r = Inr x)"
  by (cases r) (simp_all add: is_ok_def)

definition episode_readable where
  "episode_readable v = (case snd v of None \<Rightarrow> False
     | Some (i, out, n) \<Rightarrow> is_ok i \<and> is_ok out \<and> (case n of None \<Rightarrow> True | Some r \<Rightarrow> is_ok r))"

definition text_readable where
  "text_readable v = (case snd v of None \<Rightarrow> False | Some r \<Rightarrow> is_ok r)"

definition readable :: "aead \<Rightarrow> keys \<Rightarrow> database \<Rightarrow> bool" where
  "readable A ks d \<longleftrightarrow>
     list_all episode_readable (map (episode_view A ks) (episodes d))
     \<and> list_all text_readable (map (summary_view A ks) (summaries d))
     \<and> list_all text_readable (map (fact_view A ks) (summary_key_facts d))
     \<and> list_all text_readable (map (entity_view A ks) (entities d))"

lemma same_content_refl [simp]: "same_content A ks d d"
  by (simp add: same_content_def)

lemma same_content_trans:
  "same_content A ks d0 d \<Longrightarrow> same_content A ks d d' \<Longrightarrow> same_content A ks d0 d'"
  by (simp add: same_content_def)

lemma same_content_readable: "same_content A ks d d' \<Longrightarrow> readable A ks d' = readable A ks d"
  by (simp add: same_content_def readable_def)

section \<open>Well-formed tables\<close>

text \<open>The primary keys, and the foreign key and lockstep of key facts with their summary: same
  scope, same key version.\<close>

definition tables_ok :: "database \<Rightarrow> bool" where
  "tables_ok d \<longleftrightarrow> distinct (map ep_id (episodes d)) \<and> distinct (map sum_id (summaries d))
     \<and> distinct (map kf_id (summary_key_facts d))
     \<and> distinct (map (\<lambda>e. (en_scope e, en_id e)) (entities d))
     \<and> distinct (map kr_scope (key_rotations d))"

definition facts_lockstep :: "database \<Rightarrow> bool" where
  "facts_lockstep d \<longleftrightarrow> (\<forall>f \<in> set (summary_key_facts d). \<exists>s \<in> set (summaries d).
     sum_id s = kf_summary_id f \<and> sum_scope s = kf_scope f \<and> sum_key_version s = kf_key_version f)"

lemma same_content_keys:
  assumes "same_content A ks d d'"
  shows "map ep_id (episodes d') = map ep_id (episodes d)"
    "map sum_id (summaries d') = map sum_id (summaries d)"
    "map kf_id (summary_key_facts d') = map kf_id (summary_key_facts d)"
    "map (\<lambda>e. (en_scope e, en_id e)) (entities d') = map (\<lambda>e. (en_scope e, en_id e)) (entities d)"
proof -
  have e: "map ep_id xs = map (ep_id \<circ> fst) (map (episode_view A ks) xs)" for xs
    by (simp add: episode_view_def episode_rest_def)
  have s: "map sum_id xs = map (sum_id \<circ> fst) (map (summary_view A ks) xs)" for xs
    by (simp add: summary_view_def summary_rest_def)
  have f: "map kf_id xs = map (kf_id \<circ> fst) (map (fact_view A ks) xs)" for xs
    by (simp add: fact_view_def fact_rest_def)
  have n: "map (\<lambda>e. (en_scope e, en_id e)) xs =
      map ((\<lambda>e. (en_scope e, en_id e)) \<circ> fst) (map (entity_view A ks) xs)" for xs
    by (simp add: entity_view_def entity_rest_def)
  show "map ep_id (episodes d') = map ep_id (episodes d)"
    "map sum_id (summaries d') = map sum_id (summaries d)"
    "map kf_id (summary_key_facts d') = map kf_id (summary_key_facts d)"
    "map (\<lambda>e. (en_scope e, en_id e)) (entities d') = map (\<lambda>e. (en_scope e, en_id e)) (entities d)"
    using assms unfolding e s f n same_content_def by simp_all
qed

section \<open>A small deployment\<close>

text \<open>One scope with an episode, a summary, a key fact and an entity on version \<open>v\<close>, the given key
  versions and progress rows: the state the concrete instances of the rotation theorems run on.\<close>

definition sample_key :: "nat \<Rightarrow> bytes" where
  "sample_key v = replicate 32 (char_of v)"

definition sample_seal :: "bytes \<Rightarrow> bytes \<Rightarrow> bytes" where
  "sample_seal k p = replicate 12 CHR ''n'' @ k @ p"

definition sample_row :: "scope \<Rightarrow> nat \<Rightarrow> scope_key" where
  "sample_row sc v = \<lparr>sk_scope = sc, sk_version = v,
     sk_wrapped_dek = sample_seal (replicate 32 CHR ''k'') (sample_key v)\<rparr>"

definition sample_rotation :: "nat \<Rightarrow> rotation_status \<Rightarrow> key_rotation" where
  "sample_rotation v st = \<lparr>kr_scope = DefaultScope, kr_from_version = v, kr_to_version = v + 1,
     kr_status = st, kr_cursor_table = ''episodes'', kr_cursor_id = [], kr_started_at = 0,
     kr_completed_at = None\<rparr>"

definition sample_db :: "nat \<Rightarrow> nat list \<Rightarrow> key_rotation list \<Rightarrow> database" where
  "sample_db v versions rotations = empty_db\<lparr>
     episodes := [\<lparr>ep_id = ''ep_1'', ep_scope = DefaultScope, ep_ts = 5, ep_type = ''interaction'',
       ep_vendor = None, ep_model = None, ep_endpoint = None, ep_context_tags = [],
       ep_input_text = Some (sample_seal (sample_key v) ''hi''), ep_output_text = Some (sample_seal (sample_key v) ''hello''),
       ep_importance = None, ep_hash = ''h1'', ep_supersedes = None, ep_externalized = False,
       ep_truncated = False, ep_memory_gate = None, ep_retrieved_refs = [], ep_refers_to = None,
       ep_rating = None, ep_note = None, ep_key_version = v, ep_embedding = None, ep_embedding_model = None\<rparr>],
     summaries := [\<lparr>sum_id = ''su_1'', sum_scope = DefaultScope, sum_period = ''2026-01-01'', sum_level = ''daily'',
       sum_status = ''ok'', sum_vendor = None, sum_model = None, sum_source_episode_ids = [''ep_1''],
       sum_source_summary_periods = [], sum_summary = Some (sample_seal (sample_key v) ''greeting''),
       sum_entities_touched = [], sum_grounding_checked = True, sum_supersedes = None,
       sum_correction_reason = None, sum_created_at = 6, sum_key_version = v, sum_embedding = None,
       sum_embedding_model = None\<rparr>],
     summary_key_facts := [\<lparr>kf_id = 1, kf_scope = DefaultScope, kf_summary_id = ''su_1'',
       kf_fact = sample_seal (sample_key v) ''said hi'', kf_source_episode_ids = [''ep_1''], kf_grounded = True,
       kf_key_version = v, kf_embedding = None, kf_embedding_model = None\<rparr>],
     entities := [\<lparr>en_id = ''person:a'', en_scope = DefaultScope, en_kind = ''person'', en_name = ''A'',
       en_first_seen = ''2026-01-01'', en_last_updated = ''2026-01-01'',
       en_attributes = Some (sample_seal (sample_key v) ''{}''), en_key_version = v, en_embedding = None,
       en_embedding_model = None\<rparr>],
     scope_keys := map (sample_row DefaultScope) versions,
     key_rotations := rotations\<rparr>"

definition sample_world :: "nat \<Rightarrow> nat list \<Rightarrow> key_rotation list \<Rightarrow> world" where
  "sample_world v versions rotations = init_world\<lparr>db := sample_db v versions rotations\<rparr>"

lemma sample_world_simps:
  "db (sample_world v vs ks) = sample_db v vs ks" "tx (sample_world v vs ks) = None"
  "cache (sample_world v vs ks) = Map.empty" "kek (sample_world v vs ks) = replicate 32 CHR ''k''"
  by (simp_all add: sample_world_def init_world_def)

end
