(* ===== verification/Rotate_Rows.thy ===== *)
theory Rotate_Rows
  imports Rotate Content
begin

text \<open>
  What the migration of a batch of rows does. The locale \<open>row_migration\<close> is the contract a table's row
  migration has to meet; what a batch transaction and the loop over the tables do follows from
  it once, for the three tables and the key facts.
\<close>

declare One_nat_def [simp del]

section \<open>The contract of a row migration\<close>

text \<open>
  \<open>P\<close> is an invariant of the database, \<open>pending\<close> says which rows are still on the old version
  and \<open>moved\<close> relates a row to its migrated form. \<open>sure\<close> is set when nothing can fail.
\<close>

definition row_replaced :: "('r \<Rightarrow> 'r \<Rightarrow> bool) \<Rightarrow> 'r \<Rightarrow> 'r list \<Rightarrow> 'r list \<Rightarrow> bool" where
  "row_replaced moved x rs rs' \<longleftrightarrow> (\<exists>us y vs. rs = us @ x # vs \<and> rs' = us @ y # vs \<and> moved x y)"

lemma row_replacedI:
  "rs = us @ x # vs \<Longrightarrow> rs' = us @ y # vs \<Longrightarrow> moved x y \<Longrightarrow> row_replaced moved x rs rs'"
  unfolding row_replaced_def by blast

locale row_migration =
  fixes P :: "world \<Rightarrow> database \<Rightarrow> bool"
    and rows :: "database \<Rightarrow> 'r list"
    and key :: "'r \<Rightarrow> 'k"
    and pending :: "'r \<Rightarrow> bool"
    and moved :: "'r \<Rightarrow> 'r \<Rightarrow> bool"
    and migrate :: "'r \<Rightarrow> unit proc"
    and sess :: "scope \<times> scope"
    and sure :: bool
  assumes process: "process_pred P"
    and keys_distinct: "\<And>w d. P w d \<Longrightarrow> distinct (map key (rows d))"
    and moved_not_pending: "\<And>x y. moved x y \<Longrightarrow> \<not> pending y"
    and moved_key: "\<And>x y. moved x y \<Longrightarrow> key y = key x"
    and sure_calm: "\<And>w d. P w d \<Longrightarrow> sure \<Longrightarrow> fault_now w = NoFault"
    and migrate_row: "\<And>w x. holds P (Some sess) w \<Longrightarrow> x \<in> set (rows (db w)) \<Longrightarrow> pending x \<Longrightarrow>
      wp (migrate x)
        (\<lambda>_ t. holds P (Some sess) t \<and> row_replaced moved x (rows (db w)) (rows (db t)))
        (\<lambda>_ t. kept P (Some sess) t \<and> \<not> sure) w"
begin

definition progress :: "'r list \<Rightarrow> 'r list \<Rightarrow> bool" where
  "progress = list_all2 (\<lambda>r r'. r' = r \<or> pending r \<and> moved r r')"

definition count_pending :: "database \<Rightarrow> nat" where
  "count_pending d = length (filter pending (rows d))"

lemma progress_refl: "progress rs rs"
  by (simp add: progress_def list_all2_refl)

lemma progress_trans: "progress a b \<Longrightarrow> progress b c \<Longrightarrow> progress a c"
  unfolding progress_def
  by (rule list_all2_trans [of _ _ "\<lambda>r r'. r' = r \<or> pending r \<and> moved r r'"])
    (auto dest: moved_not_pending)

lemma progress_step: "pending x \<Longrightarrow> moved x y \<Longrightarrow> progress (us @ x # vs) (us @ y # vs)"
  by (simp add: progress_def list_all2_append list_all2_refl)

lemma migrate_rows:
  assumes "holds P (Some sess) w" "set xs \<subseteq> set (rows (db w))" "\<And>x. x \<in> set xs \<Longrightarrow> pending x"
    and "distinct (map key xs)"
  shows "wp (forM migrate xs)
           (\<lambda>_ t. holds P (Some sess) t \<and> progress (rows (db w)) (rows (db t))
                   \<and> count_pending (db t) + length xs = count_pending (db w))
           (\<lambda>_ t. kept P (Some sess) t \<and> \<not> sure) w"
  using assms
proof (induction xs arbitrary: w)
  case Nil
  then show ?case by (simp add: wp_simps progress_refl)
next
  case (Cons x xs)
  have x: "x \<in> set (rows (db w))" "pending x" using Cons.prems by auto
  have "wp (forM migrate xs)
           (\<lambda>_ u. holds P (Some sess) u \<and> progress (rows (db w)) (rows (db u))
                   \<and> count_pending (db u) + length (x # xs) = count_pending (db w))
           (\<lambda>_ u. kept P (Some sess) u \<and> \<not> sure) t"
    if t: "holds P (Some sess) t" and m: "rows (db w) = us @ x # vs" "rows (db t) = us @ y # vs" "moved x y"
    for t us y vs
  proof -
    have "set xs \<subseteq> set (rows (db t))"
      using Cons.prems(2,4) m by (auto simp: image_iff)
    then have IH: "wp (forM migrate xs)
           (\<lambda>_ u. holds P (Some sess) u \<and> progress (rows (db t)) (rows (db u))
                   \<and> count_pending (db u) + length xs = count_pending (db t))
           (\<lambda>_ u. kept P (Some sess) u \<and> \<not> sure) t"
      using Cons.prems t by (intro Cons.IH) auto
    have step: "progress (rows (db w)) (rows (db t))" "count_pending (db t) + 1 = count_pending (db w)"
      using m x(2) progress_step moved_not_pending by (simp_all add: count_pending_def)
    show ?thesis
      by (rule wp_mono [OF IH]) (use step progress_trans in auto)
  qed
  then show ?case
    unfolding forM.simps wp_bindM
    by (intro wp_mono [OF migrate_row [OF Cons.prems(1) x]]) (auto simp: row_replaced_def)
qed

end

text \<open>A batch over such a table: the rows are selected by id order up to a limit, and the
  cursor may be written.\<close>

locale batch_migration = row_migration +
  fixes sc :: scope
    and select :: "world \<Rightarrow> 'a list"
    and row_id :: "'a \<Rightarrow> string"
    and limit :: nat
  assumes session: "sess = (sc, sc)"
    and limit: "limit > 0"
    and select: "\<And>w. holds P (Some sess) w \<Longrightarrow>
                   select w = take limit (sort_key row_id (filter pending (rows (db w))))"
    and cursor: "\<And>w d c. P w d \<Longrightarrow> P w (d\<lparr>key_rotations :=
                   update_where (\<lambda>k. kr_scope k = sc) (\<lambda>k. k\<lparr>kr_cursor_id := c\<rparr>) (key_rotations d)\<rparr>)"
    and rows_rotations: "\<And>d ks. rows (d\<lparr>key_rotations := ks\<rparr>) = rows d"
begin

lemma selected:
  assumes "holds P (Some sess) w"
  shows "set (select w) \<subseteq> set (rows (db w))" "\<And>x. x \<in> set (select w) \<Longrightarrow> pending x"
    "distinct (map key (select w))" "select w = [] \<Longrightarrow> count_pending (db w) = 0"
proof -
  have sel: "select w = take limit (sort_key row_id (filter pending (rows (db w))))"
    using select assms .
  show "set (select w) \<subseteq> set (rows (db w))" "\<And>x. x \<in> set (select w) \<Longrightarrow> pending x"
    by (auto simp: sel dest: in_set_takeD)
  have "distinct (map key (rows (db w)))"
    using assms keys_distinct by (auto simp: holds_def)
  then have "distinct (map key (sort_key row_id (filter pending (rows (db w)))))"
    by (simp add: distinct_map inj_on_def)
  then show "distinct (map key (select w))"
    by (simp add: sel take_map [symmetric] distinct_take)
  show "count_pending (db w) = 0" if "select w = []"
    using that limit by (simp add: sel count_pending_def) (metis length_0_conv length_sort)
qed

lemma cursor_kept:
  assumes "holds P (Some sess) w"
  shows "wp (if rs \<noteq> [] then advance_cursor sc (row_id (last rs)) else retM ())
           (\<lambda>_ t. holds P (Some sess) t \<and> rows (db t) = rows (db w)) (\<lambda>_ t. kept P (Some sess) t \<and> \<not> sure) w"
proof -
  let ?f = "\<lambda>d. d\<lparr>key_rotations := update_where (\<lambda>k. kr_scope k = sc)
              (\<lambda>k. k\<lparr>kr_cursor_id := row_id (last rs)\<rparr>) (key_rotations d)\<rparr>"
  have "holds P (Some sess) (map_db ?f (tick w))" "kept P (Some sess) (tick w)"
    "kept P (Some sess) (map_db ?f (tick w))"
    using assms cursor process by (auto simp: holds_kept intro: holds_map_db)
  moreover have "fault_now w = NoFault" if sure
    using that assms sure_calm by (auto simp: holds_def)
  ultimately show ?thesis
    using assms process rows_rotations
    by (auto simp: advance_cursor_def wp_simps split: fault.splits)
qed

text \<open>What a batch does: it keeps the invariant however it ends, moves as many rows as it
  reports, and reports none only when none was left.\<close>

lemma batch:
  assumes "holds P None w"
  shows "wp (migrate_batch sc select migrate row_id)
           (\<lambda>n t. holds P None t \<and> count_pending (db t) + n = count_pending (db w)
                   \<and> (n = 0 \<longrightarrow> count_pending (db t) = 0))
           (\<lambda>_ t. holds P None t \<and> \<not> sure) w"
  unfolding migrate_batch_def
proof (rule wp_Run_result [OF process assms])
  show "\<not> sure" if "fault_now w \<noteq> NoFault \<or> fault_now (tick w) \<noteq> NoFault"
    using that assms sure_calm [of w "db w"] sure_calm [of "tick w" "db w"] process_pred_simps(6) [OF process]
    by (auto simp: holds_def)
  fix n
  let ?w = "w\<lparr>tx := Some (sc, sc, db w), ticks := n\<rparr>"
  have w: "holds P (Some sess) ?w"
    using assms session process_pred_simps [OF process] by (simp add: holds_def)
  have f: "fault_now t = NoFault" if "holds P (Some sess) t" sure for t
    using that sure_calm by (auto simp: holds_def)
  have tick: "holds P (Some sess) (tick ?w)" using w process by simp
  note sel = selected [OF w]
  have loop: "wp (forM migrate (select ?w))
      (\<lambda>_ t. holds P (Some sess) t \<and> count_pending (db t) + length (select ?w) = count_pending (db w))
      (\<lambda>_ t. kept P (Some sess) t \<and> \<not> sure) (tick ?w)"
    by (rule wp_mono [OF migrate_rows [OF tick]]) (use sel in \<open>auto simp: count_pending_def\<close>)
  have rest: "wp (if select ?w \<noteq> [] then advance_cursor sc (row_id (last (select ?w))) else retM ())
      (\<lambda>_ t. (holds P (Some (sc, sc)) t \<and> (count_pending (db t) + length (select ?w) = count_pending (db w)
                 \<and> (length (select ?w) = 0 \<longrightarrow> count_pending (db t) = 0))
              \<and> (fault_now t \<noteq> NoFault \<longrightarrow> \<not> sure)))
      (\<lambda>_ t. kept P (Some (sc, sc)) t \<and> \<not> sure) t"
    if "holds P (Some sess) t" "count_pending (db t) + length (select ?w) = count_pending (db w)" for t
    using that sel(4) f session
    by (intro wp_mono [OF cursor_kept [OF that(1)]]) (auto simp: count_pending_def)
  show "wp (bindM (query select) (\<lambda>rows. bindM (forM migrate rows) (\<lambda>_.
          bindM (if rows \<noteq> [] then advance_cursor sc (row_id (last rows)) else retM ())
            (\<lambda>_. retM (length rows)))))
        (\<lambda>x t. holds P (Some (sc, sc)) t \<and> (count_pending (db t) + x = count_pending (db w)
                 \<and> (x = 0 \<longrightarrow> count_pending (db t) = 0)) \<and> (fault_now t \<noteq> NoFault \<longrightarrow> \<not> sure))
        (\<lambda>_ t. kept P (Some (sc, sc)) t \<and> \<not> sure) ?w"
  proof (cases "fault_now ?w = NoFault")
    case True
    then show ?thesis
      unfolding wp_bindM wp_query wp_retM
      using rest session by (simp only: if_True simp_thms) (rule wp_mono [OF loop], blast+)
  next
    case False
    then show ?thesis
      unfolding wp_bindM wp_query wp_retM using f [OF w] tick session by (auto simp: holds_kept)
  qed
qed

end

section \<open>The invariant of a rotation\<close>

definition calm :: "world \<Rightarrow> bool" where
  "calm w \<longleftrightarrow> (\<forall>n. faults w n = NoFault) \<and> (\<forall>n. rand_ok w n)"

definition ep_pending :: "scope \<Rightarrow> nat \<Rightarrow> episode \<Rightarrow> bool" where
  "ep_pending sc v e \<longleftrightarrow> ep_scope e = sc \<and> ep_key_version e = v"

definition sum_pending :: "scope \<Rightarrow> nat \<Rightarrow> summary \<Rightarrow> bool" where
  "sum_pending sc v s \<longleftrightarrow> sum_scope s = sc \<and> sum_key_version s = v"

definition en_pending :: "scope \<Rightarrow> nat \<Rightarrow> entity \<Rightarrow> bool" where
  "en_pending sc v e \<longleftrightarrow> en_scope e = sc \<and> en_key_version e = v"

definition kf_pending :: "scope \<Rightarrow> nat \<Rightarrow> string \<Rightarrow> key_fact \<Rightarrow> bool" where
  "kf_pending sc v sid f \<longleftrightarrow> kf_scope f = sc \<and> kf_key_version f = v \<and> kf_summary_id f = sid"

definition fewer :: "('r \<Rightarrow> bool) \<Rightarrow> 'r list \<Rightarrow> 'r list \<Rightarrow> bool" where
  "fewer p rs0 rs \<longleftrightarrow> length (filter p rs) \<le> length (filter p rs0)"

text \<open>
  The parameters of a rotation: the cipher, the persisted keys, the scope, the two encryptors
  and versions, whether success is certain, and whether the progress row is known to be right.
\<close>

record rotation =
  rA :: aead
  rK :: bytes
  rKeys :: "scope_key list"
  rScope :: scope
  rFrom :: encryptor
  rTo :: encryptor
  rFv :: nat
  rTv :: nat
  rSure :: bool
  rTrack :: bool

definition rotation_ok :: "rotation \<Rightarrow> bool" where
  "rotation_ok R \<longleftrightarrow> aead_correct (rA R) \<and> rFv R \<noteq> rTv R
     \<and> dek_in (rA R) (rK R) (rKeys R) (rScope R) (rFv R) = Some (dek_of (rFrom R))
     \<and> dek_in (rA R) (rK R) (rKeys R) (rScope R) (rTv R) = Some (dek_of (rTo R))"

abbreviation rlookup :: "rotation \<Rightarrow> keys" where
  "rlookup R \<equiv> dek_in (rA R) (rK R) (rKeys R)"

text \<open>The progress rows, up to the last id that was recorded.\<close>

definition rotations_kept :: "database \<Rightarrow> database \<Rightarrow> bool" where
  "rotations_kept d0 d \<longleftrightarrow>
     map (\<lambda>k. k\<lparr>kr_cursor_id := []\<rparr>) (key_rotations d) = map (\<lambda>k. k\<lparr>kr_cursor_id := []\<rparr>) (key_rotations d0)"

definition rot_inv :: "rotation \<Rightarrow> database \<Rightarrow> world \<Rightarrow> database \<Rightarrow> bool" where
  "rot_inv R d0 w d \<longleftrightarrow> rotation_ok R \<and> key_inv (rA R) (rK R) (rKeys R) w d
     \<and> same_content (rA R) (rlookup R) d0 d \<and> tables_ok d
     \<and> (rSure R \<longrightarrow> calm w \<and> readable (rA R) (rlookup R) d0) \<and> rotations_kept d0 d
     \<and> fewer (ep_pending (rScope R) (rFv R)) (episodes d0) (episodes d)
     \<and> fewer (sum_pending (rScope R) (rFv R)) (summaries d0) (summaries d)
     \<and> fewer (en_pending (rScope R) (rFv R)) (entities d0) (entities d)"

definition rot_inv_step :: "rotation \<Rightarrow> database \<Rightarrow> world \<Rightarrow> database \<Rightarrow> bool" where
  "rot_inv_step R d0 w d \<longleftrightarrow> rot_inv R d0 w d \<and> facts_lockstep d"

lemma rot_inv_process: "process_pred (rot_inv R d0)"
  by (simp add: process_pred_def rot_inv_def key_inv_def calm_def fun_eq_iff)

lemma rot_inv_step_process: "process_pred (rot_inv_step R d0)"
  by (simp add: process_pred_def rot_inv_step_def rot_inv_def key_inv_def calm_def fun_eq_iff)

lemma rot_calm: "rot_inv R d0 w d \<Longrightarrow> rSure R \<Longrightarrow> fault_now w = NoFault"
  by (simp add: rot_inv_def calm_def fault_now_def)

lemma rot_readable:
  assumes "rot_inv R d0 w d" "rSure R"
  shows "readable (rA R) (rlookup R) d"
  using assms same_content_readable [of "rA R" "rlookup R" d0 d] by (simp add: rot_inv_def)

text \<open>Re-encryption keeps the plaintext, and fails only for want of randomness or of a readable
  blob.\<close>

lemma wp_reencrypt:
  assumes "rotation_ok R" "rSure R \<Longrightarrow> calm w \<and> is_ok (Decrypt (rA R) (rFrom R) ct)"
  shows "wp (reencrypt (rA R) (rFrom R) (rTo R) ct)
           (\<lambda>ct' t. (\<exists>n. t = w\<lparr>rand_pos := n\<rparr>) \<and> Decrypt (rA R) (rTo R) (Some ct') = Decrypt (rA R) (rFrom R) ct)
           (\<lambda>_ t. (\<exists>n. t = w\<lparr>rand_pos := n\<rparr>) \<and> \<not> rSure R) w"
proof (cases "Decrypt (rA R) (rFrom R) ct")
  case (Inl e)
  then show ?thesis
    using assms(2) by (auto simp: reencrypt_def wp_simps intro!: exI [of _ "rand_pos w"])
next
  case (Inr p)
  have "length (dek_of (rTo R)) = 32" "aead_correct (rA R)"
    using assms(1) dek_in_length by (auto simp: rotation_ok_def)
  then show ?thesis
    using Inr assms(2)
    by (auto simp: reencrypt_def wp_simps Encrypt_def calm_def Decrypt_seal)
qed

lemma fewer_refl [simp]: "fewer p rs rs"
  by (simp add: fewer_def)

lemma fewer_replace: "fewer p rs0 (us @ x # vs) \<Longrightarrow> \<not> p y \<Longrightarrow> fewer p rs0 (us @ y # vs)"
  by (simp add: fewer_def split: if_splits)

lemma map_replace:
  "map g xs0 = map g (us @ x # vs) \<Longrightarrow> g y = g x \<Longrightarrow> map g (us @ y # vs) = map g xs0"
  by simp

section \<open>Replacing one row\<close>

lemma rest_ids:
  "episode_rest y = episode_rest x \<Longrightarrow> ep_id y = ep_id x \<and> ep_scope y = ep_scope x"
  "summary_rest s = summary_rest r \<Longrightarrow> sum_id s = sum_id r \<and> sum_scope s = sum_scope r"
  "fact_rest f = fact_rest g \<Longrightarrow>
     kf_id f = kf_id g \<and> kf_scope f = kf_scope g \<and> kf_summary_id f = kf_summary_id g"
  "entity_rest a = entity_rest b \<Longrightarrow> en_id a = en_id b \<and> en_scope a = en_scope b"
  by (drule arg_cong [where f = "\<lambda>e. (ep_id e, ep_scope e)"], simp add: episode_rest_def)
    (drule arg_cong [where f = "\<lambda>e. (sum_id e, sum_scope e)"], simp add: summary_rest_def,
     drule arg_cong [where f = "\<lambda>e. (kf_id e, kf_scope e, kf_summary_id e)"], simp add: fact_rest_def,
     drule arg_cong [where f = "\<lambda>e. (en_id e, en_scope e)"], simp add: entity_rest_def)

lemma rot_inv_episode:
  assumes "rot_inv R d0 w d" "episodes d = us @ x # vs"
    and "episode_view (rA R) (rlookup R) y = episode_view (rA R) (rlookup R) x"
    and "\<not> ep_pending (rScope R) (rFv R) y"
  shows "rot_inv R d0 w (d\<lparr>episodes := us @ y # vs\<rparr>)"
  using assms rest_ids(1) [of y x]
  by (auto simp: rot_inv_def same_content_def tables_ok_def key_inv_def other_tables_def
      rotations_kept_def episode_view_def [of _ _ y] episode_view_def [of _ _ x] intro: fewer_replace)

lemma rot_inv_summary:
  assumes "rot_inv R d0 w d" "summaries d = us @ x # vs"
    and "summary_view (rA R) (rlookup R) y = summary_view (rA R) (rlookup R) x"
    and "\<not> sum_pending (rScope R) (rFv R) y"
  shows "rot_inv R d0 w (d\<lparr>summaries := us @ y # vs\<rparr>)"
  using assms rest_ids(2) [of y x]
  by (auto simp: rot_inv_def same_content_def tables_ok_def key_inv_def other_tables_def
      rotations_kept_def summary_view_def [of _ _ y] summary_view_def [of _ _ x] intro: fewer_replace)

lemma rot_inv_fact:
  assumes "rot_inv R d0 w d" "summary_key_facts d = us @ x # vs"
    and "fact_view (rA R) (rlookup R) y = fact_view (rA R) (rlookup R) x"
  shows "rot_inv R d0 w (d\<lparr>summary_key_facts := us @ y # vs\<rparr>)"
  using assms rest_ids(3) [of y x]
  by (auto simp: rot_inv_def same_content_def tables_ok_def key_inv_def other_tables_def
      rotations_kept_def fact_view_def [of _ _ y] fact_view_def [of _ _ x])

lemma rot_inv_entity:
  assumes "rot_inv R d0 w d" "entities d = us @ x # vs"
    and "entity_view (rA R) (rlookup R) y = entity_view (rA R) (rlookup R) x"
    and "\<not> en_pending (rScope R) (rFv R) y"
  shows "rot_inv R d0 w (d\<lparr>entities := us @ y # vs\<rparr>)"
  using assms rest_ids(4) [of y x]
  by (auto simp: rot_inv_def same_content_def tables_ok_def key_inv_def other_tables_def
      rotations_kept_def entity_view_def [of _ _ y] entity_view_def [of _ _ x] intro: fewer_replace)

section \<open>Migrating one row\<close>

abbreviation rsess :: "rotation \<Rightarrow> scope \<times> scope" where
  "rsess R \<equiv> (rScope R, rScope R)"

definition ep_moved :: "rotation \<Rightarrow> episode \<Rightarrow> episode \<Rightarrow> bool" where
  "ep_moved R x y \<longleftrightarrow> \<not> ep_pending (rScope R) (rFv R) y \<and> ep_id y = ep_id x"

text \<open>The update at the end of a row's migration, when it replaces the row in place.\<close>

lemma wp_exec_row:
  assumes "process_pred P" "holds P sess w" "sure \<Longrightarrow> fault_now w = NoFault"
    and "P w (f w (db w))" "Q (f w (db w))"
  shows "wp (exec f) (\<lambda>_ t. holds P sess t \<and> Q (db t)) (\<lambda>_ t. kept P sess t \<and> \<not> sure) w"
proof -
  have "holds P sess (map_db (f w) (tick w))"
    by (rule holds_map_db [OF assms(1,2)]) (use assms(4) in simp)
  then show ?thesis
    using assms by (auto simp: wp_simps holds_kept split: fault.splits)
qed

lemma wp_bind_reencrypt:
  assumes "rotation_ok R" "rSure R \<Longrightarrow> calm w \<and> is_ok (Decrypt (rA R) (rFrom R) ct)"
    and "\<And>ct' n. Decrypt (rA R) (rTo R) (Some ct') = Decrypt (rA R) (rFrom R) ct \<Longrightarrow>
           wp (f ct') Q E (w\<lparr>rand_pos := n\<rparr>)"
    and "\<And>e n. \<not> rSure R \<Longrightarrow> E e (w\<lparr>rand_pos := n\<rparr>)"
  shows "wp (bindM (reencrypt (rA R) (rFrom R) (rTo R) ct) f) Q E w"
  unfolding wp_bindM
  by (rule wp_mono [OF wp_reencrypt [OF assms(1,2)]]) (use assms(3,4) in auto)

lemma encryptor_dek [simp]: "Encryptor (dek_of e) = e"
  by simp

text \<open>What every row migration starts from.\<close>

lemma rot_start:
  assumes "holds (rot_inv R d0) (Some (rsess R)) w"
  shows "rotation_ok R" "rot_inv R d0 w (db w)" "tables_ok (db w)"
    "\<And>n sc. rls_visible (w\<lparr>rand_pos := n\<rparr>) sc \<longleftrightarrow> sc = rScope R"
    "\<And>n. rSure R \<Longrightarrow> calm (w\<lparr>rand_pos := n\<rparr>)" "rSure R \<Longrightarrow> readable (rA R) (rlookup R) (db w)"
    "rSure R \<Longrightarrow> calm w"
  using assms rot_readable
  by (auto simp: holds_def rot_inv_def calm_def rls_session(1) [of _ "rScope R" "rScope R"])

lemma step_holds: "holds (rot_inv_step R d0) sess w \<Longrightarrow> holds (rot_inv R d0) sess w"
  by (auto simp: holds_def rot_inv_step_def)

lemma migrate_episode_row:
  assumes w: "holds (rot_inv_step R d0) (Some (rsess R)) w" and x: "x \<in> set (episodes (db w))"
    "ep_pending (rScope R) (rFv R) x"
  shows "wp (migrate_episode (rA R) (rScope R) (rFrom R) (rTo R) (rTv R) x)
           (\<lambda>_ t. holds (rot_inv_step R d0) (Some (rsess R)) t
              \<and> row_replaced (ep_moved R) x (episodes (db w)) (episodes (db t)))
           (\<lambda>_ t. kept (rot_inv_step R d0) (Some (rsess R)) t \<and> \<not> rSure R) w"
proof -
  note st = rot_start [OF step_holds [OF w]] and pp = rot_inv_step_process [of R d0]
  have px: "ep_scope x = rScope R" "ep_key_version x = rFv R"
    using x(2) by (simp_all add: ep_pending_def)
  have keys: "rlookup R (rScope R) (rFv R) = Some (dek_of (rFrom R))"
    "rlookup R (rScope R) (rTv R) = Some (dek_of (rTo R))" "rFv R \<noteq> rTv R"
    using st(1) by (simp_all add: rotation_ok_def)
  have plain: "is_ok (Decrypt (rA R) (rFrom R) (ep_input_text x))"
    "is_ok (Decrypt (rA R) (rFrom R) (ep_output_text x))"
    "\<And>n. ep_note x = Some n \<Longrightarrow> is_ok (Decrypt (rA R) (rFrom R) (Some n))" if "rSure R"
  proof -
    have "episode_readable (episode_view (rA R) (rlookup R) x)"
      using st(6) [OF that] x(1) by (simp add: readable_def list_all_iff)
    then show "is_ok (Decrypt (rA R) (rFrom R) (ep_input_text x))"
      "is_ok (Decrypt (rA R) (rFrom R) (ep_output_text x))"
      "\<And>n. ep_note x = Some n \<Longrightarrow> is_ok (Decrypt (rA R) (rFrom R) (Some n))"
      by (auto simp: episode_readable_def episode_view_def px keys episode_plain_def)
  qed
  have final: "wp (exec (\<lambda>w d. d\<lparr>episodes := update_where
             (\<lambda>e. ep_id e = ep_id x \<and> ep_scope e = rScope R \<and> rls_visible w (ep_scope e))
             (\<lambda>e. e\<lparr>ep_input_text := Some i, ep_output_text := Some out, ep_note := nt,
                    ep_key_version := rTv R\<rparr>) (episodes d)\<rparr>))
           (\<lambda>_ t. holds (rot_inv_step R d0) (Some (rsess R)) t
              \<and> row_replaced (ep_moved R) x (episodes (db w)) (episodes (db t)))
           (\<lambda>_ t. kept (rot_inv_step R d0) (Some (rsess R)) t \<and> \<not> rSure R) (w\<lparr>rand_pos := n\<rparr>)"
    if i: "Decrypt (rA R) (rTo R) (Some i) = Decrypt (rA R) (rFrom R) (ep_input_text x)"
      and out: "Decrypt (rA R) (rTo R) (Some out) = Decrypt (rA R) (rFrom R) (ep_output_text x)"
      and nt: "map_option (\<lambda>c. Decrypt (rA R) (rTo R) (Some c)) nt =
               map_option (\<lambda>c. Decrypt (rA R) (rFrom R) (Some c)) (ep_note x)" for i out nt n
  proof -
    define y where "y = x\<lparr>ep_input_text := Some i, ep_output_text := Some out, ep_note := nt,
                    ep_key_version := rTv R\<rparr>"
    obtain us vs where u: "episodes (db w) = us @ x # vs"
      "update_where (\<lambda>e. ep_id e = ep_id x \<and> ep_scope e = rScope R \<and> rls_visible (w\<lparr>rand_pos := n\<rparr>) (ep_scope e))
         (\<lambda>e. e\<lparr>ep_input_text := Some i, ep_output_text := Some out, ep_note := nt, ep_key_version := rTv R\<rparr>)
         (episodes (db w)) = us @ y # vs"
      using update_where_unique [of ep_id "episodes (db w)" x
          "\<lambda>e. ep_id e = ep_id x \<and> ep_scope e = rScope R \<and> rls_visible (w\<lparr>rand_pos := n\<rparr>) (ep_scope e)"
          "\<lambda>e. e\<lparr>ep_input_text := Some i, ep_output_text := Some out, ep_note := nt, ep_key_version := rTv R\<rparr>"]
        st(3,4) x(1) px by (auto simp: tables_ok_def y_def)
    have "episode_view (rA R) (rlookup R) y = episode_view (rA R) (rlookup R) x"
      using i out nt by (simp add: y_def episode_view_def episode_rest_def px keys episode_plain_def)
    moreover have np: "\<not> ep_pending (rScope R) (rFv R) y" using keys(3) by (simp add: y_def ep_pending_def)
    ultimately have "rot_inv_step R d0 w (db w\<lparr>episodes := us @ y # vs\<rparr>)"
      using rot_inv_episode [OF st(2) u(1)] w
      by (simp add: rot_inv_step_def holds_def facts_lockstep_def)
    moreover have "ep_moved R x y" using np by (simp add: ep_moved_def y_def)
    ultimately show ?thesis
      using w u pp st(5) process_pred_simps(4) [OF pp]
      by (intro wp_mono [OF wp_exec_row [where Q = "\<lambda>d. episodes d = us @ y # vs"]])
        (auto simp: calm_def fault_now_def intro: row_replacedI)
  qed
  have err: "kept (rot_inv_step R d0) (Some (rsess R)) (w\<lparr>rand_pos := n\<rparr>)" for n
    using w pp by (simp add: holds_kept)
  show ?thesis
    unfolding migrate_episode_def
    by (intro wp_bind_reencrypt [OF st(1)])
      (auto simp: wp_bindM wp_retM err st(5,7) plain [unfolded is_ok_iff] split: option.splits
        intro!: wp_bind_reencrypt [OF st(1), unfolded wp_bindM] final)
qed

definition en_moved :: "rotation \<Rightarrow> entity \<Rightarrow> entity \<Rightarrow> bool" where
  "en_moved R x y \<longleftrightarrow> \<not> en_pending (rScope R) (rFv R) y \<and> en_id y = en_id x \<and> en_scope y = en_scope x"

lemma migrate_entity_row:
  assumes w: "holds (rot_inv_step R d0) (Some (rsess R)) w" and x: "x \<in> set (entities (db w))"
    "en_pending (rScope R) (rFv R) x"
  shows "wp (migrate_entity (rA R) (rScope R) (rFrom R) (rTo R) (rTv R) x)
           (\<lambda>_ t. holds (rot_inv_step R d0) (Some (rsess R)) t
              \<and> row_replaced (en_moved R) x (entities (db w)) (entities (db t)))
           (\<lambda>_ t. kept (rot_inv_step R d0) (Some (rsess R)) t \<and> \<not> rSure R) w"
proof -
  note st = rot_start [OF step_holds [OF w]] and pp = rot_inv_step_process [of R d0]
  have px: "en_scope x = rScope R" "en_key_version x = rFv R"
    using x(2) by (simp_all add: en_pending_def)
  have keys: "rlookup R (rScope R) (rFv R) = Some (dek_of (rFrom R))"
    "rlookup R (rScope R) (rTv R) = Some (dek_of (rTo R))" "rFv R \<noteq> rTv R"
    using st(1) by (simp_all add: rotation_ok_def)
  have plain: "is_ok (Decrypt (rA R) (rFrom R) (en_attributes x))" if "rSure R"
    using st(6) [OF that] x(1)
    by (auto simp: readable_def list_all_iff text_readable_def entity_view_def px keys entity_plain_def)
  have final: "wp (exec (\<lambda>w d. d\<lparr>entities := update_where
             (\<lambda>e. en_id e = en_id x \<and> en_scope e = rScope R \<and> rls_visible w (en_scope e))
             (\<lambda>e. e\<lparr>en_attributes := Some ct, en_key_version := rTv R\<rparr>) (entities d)\<rparr>))
           (\<lambda>_ t. holds (rot_inv_step R d0) (Some (rsess R)) t
              \<and> row_replaced (en_moved R) x (entities (db w)) (entities (db t)))
           (\<lambda>_ t. kept (rot_inv_step R d0) (Some (rsess R)) t \<and> \<not> rSure R) (w\<lparr>rand_pos := n\<rparr>)"
    if ct: "Decrypt (rA R) (rTo R) (Some ct) = Decrypt (rA R) (rFrom R) (en_attributes x)" for ct n
  proof -
    define y where "y = x\<lparr>en_attributes := Some ct, en_key_version := rTv R\<rparr>"
    obtain us vs where u: "entities (db w) = us @ x # vs"
      "update_where (\<lambda>e. en_id e = en_id x \<and> en_scope e = rScope R \<and> rls_visible (w\<lparr>rand_pos := n\<rparr>) (en_scope e))
         (\<lambda>e. e\<lparr>en_attributes := Some ct, en_key_version := rTv R\<rparr>) (entities (db w)) = us @ y # vs"
      using update_where_unique [of "\<lambda>e. (en_scope e, en_id e)" "entities (db w)" x
          "\<lambda>e. en_id e = en_id x \<and> en_scope e = rScope R \<and> rls_visible (w\<lparr>rand_pos := n\<rparr>) (en_scope e)"
          "\<lambda>e. e\<lparr>en_attributes := Some ct, en_key_version := rTv R\<rparr>"]
        st(3,4) x(1) px by (auto simp: tables_ok_def y_def)
    have "entity_view (rA R) (rlookup R) y = entity_view (rA R) (rlookup R) x"
      using ct by (simp add: y_def entity_view_def entity_rest_def px keys entity_plain_def)
    moreover have np: "\<not> en_pending (rScope R) (rFv R) y" using keys(3) by (simp add: y_def en_pending_def)
    ultimately have "rot_inv_step R d0 w (db w\<lparr>entities := us @ y # vs\<rparr>)"
      using rot_inv_entity [OF st(2) u(1)] w
      by (simp add: rot_inv_step_def holds_def facts_lockstep_def)
    moreover have "en_moved R x y" using np by (simp add: en_moved_def y_def)
    ultimately show ?thesis
      using w u pp st(5) process_pred_simps(4) [OF pp]
      by (intro wp_mono [OF wp_exec_row [where Q = "\<lambda>d. entities d = us @ y # vs"]])
        (auto simp: calm_def fault_now_def intro: row_replacedI)
  qed
  show ?thesis
    unfolding migrate_entity_def using w pp
    by (intro wp_bind_reencrypt [OF st(1)]) (auto simp: st(7) plain [unfolded is_ok_iff] holds_kept intro!: final)
qed

definition kf_moved :: "rotation \<Rightarrow> string \<Rightarrow> key_fact \<Rightarrow> key_fact \<Rightarrow> bool" where
  "kf_moved R sid x y \<longleftrightarrow> \<not> kf_pending (rScope R) (rFv R) sid y \<and> kf_key_version y = rTv R
     \<and> kf_id y = kf_id x \<and> kf_scope y = kf_scope x \<and> kf_summary_id y = kf_summary_id x"

lemma migrate_key_fact_row:
  assumes w: "holds (rot_inv R d0) (Some (rsess R)) w" and x: "x \<in> set (summary_key_facts (db w))"
    "kf_pending (rScope R) (rFv R) sid x"
  shows "wp (migrate_key_fact (rA R) (rFrom R) (rTo R) (rTv R) x)
           (\<lambda>_ t. holds (rot_inv R d0) (Some (rsess R)) t
              \<and> row_replaced (kf_moved R sid) x (summary_key_facts (db w)) (summary_key_facts (db t)))
           (\<lambda>_ t. kept (rot_inv R d0) (Some (rsess R)) t \<and> \<not> rSure R) w"
proof -
  note st = rot_start [OF w] and pp = rot_inv_process [of R d0]
  have px: "kf_scope x = rScope R" "kf_key_version x = rFv R"
    using x(2) by (simp_all add: kf_pending_def)
  have keys: "rlookup R (rScope R) (rFv R) = Some (dek_of (rFrom R))"
    "rlookup R (rScope R) (rTv R) = Some (dek_of (rTo R))" "rFv R \<noteq> rTv R"
    using st(1) by (simp_all add: rotation_ok_def)
  have plain: "is_ok (Decrypt (rA R) (rFrom R) (Some (kf_fact x)))" if "rSure R"
    using st(6) [OF that] x(1)
    by (auto simp: readable_def list_all_iff text_readable_def fact_view_def px keys fact_plain_def)
  have final: "wp (exec (\<lambda>w d. d\<lparr>summary_key_facts := update_where
             (\<lambda>f. kf_id f = kf_id x \<and> rls_visible w (kf_scope f))
             (\<lambda>f. f\<lparr>kf_fact := ct, kf_key_version := rTv R\<rparr>) (summary_key_facts d)\<rparr>))
           (\<lambda>_ t. holds (rot_inv R d0) (Some (rsess R)) t
              \<and> row_replaced (kf_moved R sid) x (summary_key_facts (db w)) (summary_key_facts (db t)))
           (\<lambda>_ t. kept (rot_inv R d0) (Some (rsess R)) t \<and> \<not> rSure R) (w\<lparr>rand_pos := n\<rparr>)"
    if ct: "Decrypt (rA R) (rTo R) (Some ct) = Decrypt (rA R) (rFrom R) (Some (kf_fact x))" for ct n
  proof -
    define y where "y = x\<lparr>kf_fact := ct, kf_key_version := rTv R\<rparr>"
    obtain us vs where u: "summary_key_facts (db w) = us @ x # vs"
      "update_where (\<lambda>f. kf_id f = kf_id x \<and> rls_visible (w\<lparr>rand_pos := n\<rparr>) (kf_scope f))
         (\<lambda>f. f\<lparr>kf_fact := ct, kf_key_version := rTv R\<rparr>) (summary_key_facts (db w)) = us @ y # vs"
      using update_where_unique [of kf_id "summary_key_facts (db w)" x
          "\<lambda>f. kf_id f = kf_id x \<and> rls_visible (w\<lparr>rand_pos := n\<rparr>) (kf_scope f)"
          "\<lambda>f. f\<lparr>kf_fact := ct, kf_key_version := rTv R\<rparr>"]
        st(3,4) x(1) px by (auto simp: tables_ok_def y_def)
    have "fact_view (rA R) (rlookup R) y = fact_view (rA R) (rlookup R) x"
      using ct by (simp add: y_def fact_view_def fact_rest_def px keys fact_plain_def)
    then have "rot_inv R d0 w (db w\<lparr>summary_key_facts := us @ y # vs\<rparr>)"
      using rot_inv_fact [OF st(2) u(1)] by simp
    moreover have "kf_moved R sid x y"
      using keys(3) by (simp add: kf_moved_def y_def kf_pending_def)
    ultimately show ?thesis
      using w u pp st(5) process_pred_simps(4) [OF pp]
      by (intro wp_mono [OF wp_exec_row [where Q = "\<lambda>d. summary_key_facts d = us @ y # vs"]])
        (auto simp: calm_def fault_now_def intro: row_replacedI)
  qed
  show ?thesis
    unfolding migrate_key_fact_def using w pp
    by (intro wp_bind_reencrypt [OF st(1)]) (auto simp: st(7) plain [unfolded is_ok_iff] holds_kept intro!: final)
qed

interpretation key_facts: row_migration "rot_inv R d0" summary_key_facts kf_id
  "kf_pending (rScope R) (rFv R) sid" "kf_moved R sid"
  "migrate_key_fact (rA R) (rFrom R) (rTo R) (rTv R)" "rsess R" "rSure R" for R d0 sid
proof unfold_locales
  show "process_pred (rot_inv R d0)" by (rule rot_inv_process)
  show "distinct (map kf_id (summary_key_facts d))" if "rot_inv R d0 w d" for w d
    using that by (simp add: rot_inv_def tables_ok_def)
qed (auto simp: kf_moved_def rot_calm migrate_key_fact_row)

text \<open>Migrating key facts changes nothing of the process and no summary.\<close>

definition same_process :: "world \<Rightarrow> world \<Rightarrow> bool" where
  "same_process w t \<longleftrightarrow> tx t = tx w \<and> kek t = kek w \<and> cache t = cache w \<and> clock t = clock w
     \<and> faults t = faults w \<and> rand t = rand w \<and> rand_ok t = rand_ok w"

lemma same_process_kept:
  assumes "same_process w t" "process_pred P" "kept P sess w"
  shows "kept P sess t"
proof -
  have t: "t = w\<lparr>db := db t, tx := tx t, ticks := ticks t, rand_pos := rand_pos t, calls := calls t\<rparr>"
    using assms(1) by (intro world.equality) (simp_all add: same_process_def)
  have "P t = P w"
    using assms(2) unfolding process_pred_def by (subst t) blast
  then show ?thesis
    using assms(1,3) by (simp add: kept_def same_process_def session_def)
qed

lemma same_process_steps [simp]:
  "same_process w w"
  "same_process w t \<Longrightarrow> same_process w (tick t)"
  "same_process w t \<Longrightarrow> same_process w (map_db f t)"
  "same_process w t \<Longrightarrow> same_process w (t\<lparr>rand_pos := n\<rparr>)"
  by (simp_all add: same_process_def)

lemma migrate_key_facts_frame:
  "wp (forM (migrate_key_fact A fe te tv) xs)
     (\<lambda>_ t. same_process w t \<and> summaries (db t) = summaries (db w)) (\<lambda>_ t. same_process w t) w"
proof -
  have row: "wp (migrate_key_fact A fe te tv x)
      (\<lambda>_ t. same_process w t \<and> summaries (db t) = summaries (db w)) (\<lambda>_ t. same_process w t) u"
    if "same_process w u \<and> summaries (db u) = summaries (db w)" for x u
    using that
    by (simp add: migrate_key_fact_def reencrypt_def Encrypt_def wp_simps split: sum.splits fault.splits)
  show ?thesis
    by (rule wp_forM_inv [where I = "\<lambda>t. same_process w t \<and> summaries (db t) = summaries (db w)"])
      (use row in auto)
qed

definition sum_moved :: "rotation \<Rightarrow> summary \<Rightarrow> summary \<Rightarrow> bool" where
  "sum_moved R x y \<longleftrightarrow> \<not> sum_pending (rScope R) (rFv R) y \<and> sum_id y = sum_id x"

lemma lockstep_moved:
  assumes "facts_lockstep d" "summaries d = us @ x # vs" "sum_id y = sum_id x" "sum_scope y = rScope R"
    and "sum_key_version y = rTv R" "sum_pending (rScope R) (rFv R) x" "distinct (map sum_id (summaries d))"
    and "key_facts.progress R (sum_id x) (summary_key_facts d) fs"
    and "\<And>f. f \<in> set fs \<Longrightarrow> \<not> kf_pending (rScope R) (rFv R) (sum_id x) f"
  shows "facts_lockstep (d\<lparr>summaries := us @ y # vs, summary_key_facts := fs\<rparr>)"
  unfolding facts_lockstep_def
proof
  fix f'
  assume "f' \<in> set (summary_key_facts (d\<lparr>summaries := us @ y # vs, summary_key_facts := fs\<rparr>))"
  then have f': "f' \<in> set fs" by simp
  then obtain f where f: "f \<in> set (summary_key_facts d)"
    "f' = f \<or> kf_pending (rScope R) (rFv R) (sum_id x) f \<and> kf_moved R (sum_id x) f f'"
    using list_all2_setD2 [OF assms(8) [unfolded key_facts.progress_def]] by blast
  obtain s where s: "s \<in> set (summaries d)" "sum_id s = kf_summary_id f" "sum_scope s = kf_scope f"
    "sum_key_version s = kf_key_version f"
    using assms(1) f(1) by (auto simp: facts_lockstep_def)
  show "\<exists>s \<in> set (summaries (d\<lparr>summaries := us @ y # vs, summary_key_facts := fs\<rparr>)).
      sum_id s = kf_summary_id f' \<and> sum_scope s = kf_scope f' \<and> sum_key_version s = kf_key_version f'"
  proof (cases "s = x")
    case True
    then have "kf_pending (rScope R) (rFv R) (sum_id x) f"
      using s assms(6) by (simp add: sum_pending_def kf_pending_def)
    then have "kf_moved R (sum_id x) f f'" using f(2) f' assms(9) by auto
    then show ?thesis
      using True s assms(3-6) by (auto simp: kf_moved_def sum_pending_def)
  next
    case False
    then have "s \<in> set us \<union> set vs" using s(1) assms(2) by auto
    moreover have "kf_summary_id f \<noteq> sum_id x"
      using False s(1,2) assms(2,7) distinct_map_unique [OF assms(7), of s x] by auto
    then have "f' = f" using f(2) by (auto simp: kf_pending_def)
    ultimately show ?thesis using s by auto
  qed
qed

lemma migrateKeyFacts_all:
  assumes "holds (rot_inv R d0) (Some (rsess R)) w"
  shows "wp (migrateKeyFacts (rA R) (rFrom R) (rTo R) sid (rFv R) (rTv R))
           (\<lambda>_ t. holds (rot_inv R d0) (Some (rsess R)) t \<and> same_process w t
              \<and> summaries (db t) = summaries (db w)
              \<and> key_facts.progress R sid (summary_key_facts (db w)) (summary_key_facts (db t))
              \<and> (\<forall>f \<in> set (summary_key_facts (db t)). \<not> kf_pending (rScope R) (rFv R) sid f))
           (\<lambda>_ t. same_process w t \<and> \<not> rSure R) w"
proof -
  define xs where "xs = filter (kf_pending (rScope R) (rFv R) sid) (summary_key_facts (db w))"
  have sel: "filter (\<lambda>f. kf_summary_id f = sid \<and> kf_key_version f = rFv R \<and> rls_visible w (kf_scope f))
               (summary_key_facts (db w)) = xs"
    using rot_start(4) [OF assms, of "rand_pos w"] unfolding xs_def
    by (intro filter_cong) (auto simp: kf_pending_def)
  have tick: "holds (rot_inv R d0) (Some (rsess R)) (tick w)"
    using assms by (simp add: rot_inv_process)
  have d: "distinct (map kf_id xs)"
    using rot_start(3) [OF assms] by (simp add: xs_def tables_ok_def distinct_map inj_on_def)
  have cnt: "key_facts.count_pending R sid (db (tick w)) = key_facts.count_pending R sid (db w)"
    by simp
  have in_xs: "set xs \<subseteq> set (summary_key_facts (db (tick w)))"
    "\<And>x. x \<in> set xs \<Longrightarrow> kf_pending (rScope R) (rFv R) sid x"
    by (auto simp: xs_def)
  have "wp (forM (migrate_key_fact (rA R) (rFrom R) (rTo R) (rTv R)) xs)
     (\<lambda>_ t. (holds (rot_inv R d0) (Some (rsess R)) t
               \<and> key_facts.progress R sid (summary_key_facts (db w)) (summary_key_facts (db t))
               \<and> key_facts.count_pending R sid (db t) + length xs = key_facts.count_pending R sid (db w))
            \<and> same_process (tick w) t \<and> summaries (db t) = summaries (db (tick w)))
     (\<lambda>_ t. (kept (rot_inv R d0) (Some (rsess R)) t \<and> \<not> rSure R) \<and> same_process (tick w) t) (tick w)"
    using wp_conj [OF key_facts.migrate_rows [OF tick in_xs d] migrate_key_facts_frame]
    unfolding tick_simps .
  moreover have "\<forall>f \<in> set (summary_key_facts (db t)). \<not> kf_pending (rScope R) (rFv R) sid f"
    if "key_facts.count_pending R sid (db t) + length xs = key_facts.count_pending R sid (db w)" for t :: world
    using that by (auto simp: key_facts.count_pending_def xs_def filter_empty_conv)
  moreover have "same_process w t" if "same_process (tick w) t" for t
    using that by (simp add: same_process_def)
  ultimately have loop: "wp (forM (migrate_key_fact (rA R) (rFrom R) (rTo R) (rTv R)) xs)
     (\<lambda>_ t. holds (rot_inv R d0) (Some (rsess R)) t \<and> same_process w t
              \<and> summaries (db t) = summaries (db w)
              \<and> key_facts.progress R sid (summary_key_facts (db w)) (summary_key_facts (db t))
              \<and> (\<forall>f \<in> set (summary_key_facts (db t)). \<not> kf_pending (rScope R) (rFv R) sid f))
     (\<lambda>_ t. same_process w t \<and> \<not> rSure R) (tick w)"
    by (elim wp_mono) (simp_all only: tick_simps, blast+)
  show ?thesis
    using loop rot_calm [OF rot_start(2) [OF assms]]
    by (auto simp: migrateKeyFacts_def wp_bindM wp_query sel)
qed

lemma migrate_summary_row:
  assumes w: "holds (rot_inv_step R d0) (Some (rsess R)) w" and x: "x \<in> set (summaries (db w))"
    "sum_pending (rScope R) (rFv R) x"
  shows "wp (migrate_summary (rA R) (rFrom R) (rTo R) (rFv R) (rTv R) x)
           (\<lambda>_ t. holds (rot_inv_step R d0) (Some (rsess R)) t
              \<and> row_replaced (sum_moved R) x (summaries (db w)) (summaries (db t)))
           (\<lambda>_ t. kept (rot_inv_step R d0) (Some (rsess R)) t \<and> \<not> rSure R) w"
proof -
  note st = rot_start [OF step_holds [OF w]] and pp = rot_inv_step_process [of R d0]
  have px: "sum_scope x = rScope R" "sum_key_version x = rFv R"
    using x(2) by (simp_all add: sum_pending_def)
  have keys: "rlookup R (rScope R) (rFv R) = Some (dek_of (rFrom R))"
    "rlookup R (rScope R) (rTv R) = Some (dek_of (rTo R))" "rFv R \<noteq> rTv R"
    using st(1) by (simp_all add: rotation_ok_def)
  have plain: "is_ok (Decrypt (rA R) (rFrom R) (sum_summary x))" if "rSure R"
    using st(6) [OF that] x(1)
    by (auto simp: readable_def list_all_iff text_readable_def summary_view_def px keys summary_plain_def)
  have kept: "kept (rot_inv_step R d0) (Some (rsess R)) t" if "same_process w t" for t
    using same_process_kept [OF that pp holds_kept [OF w]] .
  have final: "wp (bindM (exec (\<lambda>w d. d\<lparr>summaries := update_where
             (\<lambda>s. sum_id s = sum_id x \<and> rls_visible w (sum_scope s))
             (\<lambda>s. s\<lparr>sum_summary := Some ct, sum_key_version := rTv R\<rparr>) (summaries d)\<rparr>)) (\<lambda>_.
             migrateKeyFacts (rA R) (rFrom R) (rTo R) (sum_id x) (rFv R) (rTv R)))
           (\<lambda>_ t. holds (rot_inv_step R d0) (Some (rsess R)) t
              \<and> row_replaced (sum_moved R) x (summaries (db w)) (summaries (db t)))
           (\<lambda>_ t. kept (rot_inv_step R d0) (Some (rsess R)) t \<and> \<not> rSure R) (w\<lparr>rand_pos := n\<rparr>)"
    if ct: "Decrypt (rA R) (rTo R) (Some ct) = Decrypt (rA R) (rFrom R) (sum_summary x)" for ct n
  proof -
    define y where "y = x\<lparr>sum_summary := Some ct, sum_key_version := rTv R\<rparr>"
    define f where "f = (\<lambda>(w :: world) (d :: database). d\<lparr>summaries := update_where
             (\<lambda>s. sum_id s = sum_id x \<and> rls_visible w (sum_scope s))
             (\<lambda>s. s\<lparr>sum_summary := Some ct, sum_key_version := rTv R\<rparr>) (summaries d)\<rparr>)"
    obtain us vs where u: "summaries (db w) = us @ x # vs"
      "f (w\<lparr>rand_pos := n\<rparr>) (db w) = db w\<lparr>summaries := us @ y # vs\<rparr>"
      using update_where_unique [of sum_id "summaries (db w)" x
          "\<lambda>s. sum_id s = sum_id x \<and> rls_visible (w\<lparr>rand_pos := n\<rparr>) (sum_scope s)"
          "\<lambda>s. s\<lparr>sum_summary := Some ct, sum_key_version := rTv R\<rparr>"]
        st(3,4) x(1) px by (auto simp: tables_ok_def y_def f_def)
    let ?t = "map_db (f (w\<lparr>rand_pos := n\<rparr>)) (tick (w\<lparr>rand_pos := n\<rparr>))"
    have "summary_view (rA R) (rlookup R) y = summary_view (rA R) (rlookup R) x"
      using ct by (simp add: y_def summary_view_def summary_rest_def px keys summary_plain_def)
    moreover have np: "\<not> sum_pending (rScope R) (rFv R) y" using keys(3) by (simp add: y_def sum_pending_def)
    ultimately have "rot_inv R d0 w (db w\<lparr>summaries := us @ y # vs\<rparr>)"
      using rot_inv_summary [OF st(2) u(1)] by simp
    then have t: "holds (rot_inv R d0) (Some (rsess R)) ?t"
      using step_holds [OF w] u(2) rot_inv_process process_pred_simps(4) [OF rot_inv_process]
      by (intro holds_map_db) auto
    have sp: "same_process w ?t" "same_process w (tick (w\<lparr>rand_pos := n\<rparr>))" by simp_all
    have mv: "sum_moved R x y" using np by (simp add: sum_moved_def y_def)
    have "wp (migrateKeyFacts (rA R) (rFrom R) (rTo R) (sum_id x) (rFv R) (rTv R))
           (\<lambda>_ t. holds (rot_inv_step R d0) (Some (rsess R)) t
              \<and> row_replaced (sum_moved R) x (summaries (db w)) (summaries (db t)))
           (\<lambda>_ t. kept (rot_inv_step R d0) (Some (rsess R)) t \<and> \<not> rSure R) ?t"
    proof (rule wp_mono [OF migrateKeyFacts_all [OF t]])
      fix a v
      assume v: "holds (rot_inv R d0) (Some (rsess R)) v \<and> same_process ?t v
              \<and> summaries (db v) = summaries (db ?t)
              \<and> key_facts.progress R (sum_id x) (summary_key_facts (db ?t)) (summary_key_facts (db v))
              \<and> (\<forall>f \<in> set (summary_key_facts (db v)). \<not> kf_pending (rScope R) (rFv R) (sum_id x) f)"
      have sv: "summaries (db v) = us @ y # vs" using v u(2) by simp
      have "facts_lockstep (db w\<lparr>summaries := us @ y # vs, summary_key_facts := summary_key_facts (db v)\<rparr>)"
        using w u v px keys(3) x(2) st(3)
        by (intro lockstep_moved [of "db w" us x vs y R])
          (auto simp: holds_def rot_inv_step_def y_def tables_ok_def)
      then have "facts_lockstep (db v)" using sv by (simp add: facts_lockstep_def)
      moreover have "same_process w v" using v by (simp add: same_process_def)
      ultimately show "holds (rot_inv_step R d0) (Some (rsess R)) v
          \<and> row_replaced (sum_moved R) x (summaries (db w)) (summaries (db v))"
        using v kept [of v] row_replacedI [of _ us x vs _ y "sum_moved R", OF u(1) sv mv]
        by (auto simp: holds_def kept_def rot_inv_step_def)
    next
      fix e v
      assume v: "same_process ?t v \<and> \<not> rSure R"
      then have "same_process w v" by (simp add: same_process_def)
      then show "kept (rot_inv_step R d0) (Some (rsess R)) v \<and> \<not> rSure R" using v kept by simp
    qed
    then show ?thesis
      using kept [OF sp(1)] kept [OF sp(2)] st(5)
      by (auto simp: wp_bindM wp_exec f_def [symmetric] calm_def fault_now_def split: fault.splits)
  qed
  show ?thesis
    unfolding migrate_summary_def using w pp
    by (intro wp_bind_reencrypt [OF st(1)]) (auto simp: st(7) plain [unfolded is_ok_iff] holds_kept intro!: final)
qed

section \<open>The three tables\<close>

lemma rot_inv_cursor:
  assumes "rot_inv_step R d0 w d"
  shows "rot_inv_step R d0 w (d\<lparr>key_rotations :=
     update_where (\<lambda>k. kr_scope k = sc) (\<lambda>k. k\<lparr>kr_cursor_id := c\<rparr>) (key_rotations d)\<rparr>)"
  using assms
  by (simp add: rot_inv_step_def rot_inv_def key_inv_def same_content_def other_tables_def
      tables_ok_def facts_lockstep_def rotations_kept_def map_update_where)

lemma rot_inv_audit: "rot_inv_step R d0 w (d\<lparr>audit_log := l\<rparr>) = rot_inv_step R d0 w d"
  by (simp add: rot_inv_step_def rot_inv_def key_inv_def same_content_def other_tables_def
      tables_ok_def facts_lockstep_def rotations_kept_def)

lemma rot_step_calm: "rot_inv_step R d0 w d \<Longrightarrow> rSure R \<Longrightarrow> fault_now w = NoFault"
  by (auto simp: rot_inv_step_def intro: rot_calm)

lemma rot_step_visible:
  assumes "holds (rot_inv_step R d0) (Some (rsess R)) w"
  shows "rls_visible w sc \<longleftrightarrow> sc = rScope R"
  using rot_start(4) [OF step_holds [OF assms], of "rand_pos w"] by simp

lemmas rot_step_facts = rot_inv_step_process rot_step_calm rot_inv_cursor

interpretation episode_rows: batch_migration "rot_inv_step R d0" episodes ep_id
  "ep_pending (rScope R) (rFv R)" "ep_moved R"
  "migrate_episode (rA R) (rScope R) (rFrom R) (rTo R) (rTv R)" "rsess R" "rSure R" "rScope R"
  "\<lambda>w. take (Suc n) (sort_key ep_id (filter (\<lambda>e. ep_scope e = rScope R
      \<and> ep_key_version e = rFv R \<and> rls_visible w (ep_scope e)) (episodes (db w))))" ep_id "Suc n" for R d0 n
proof unfold_locales
  show "distinct (map ep_id (episodes d))" if "rot_inv_step R d0 w d" for w d
    using that by (simp add: rot_inv_step_def rot_inv_def tables_ok_def)
  show "take (Suc n) (sort_key ep_id (filter (\<lambda>e. ep_scope e = rScope R
      \<and> ep_key_version e = rFv R \<and> rls_visible w (ep_scope e)) (episodes (db w)))) =
    take (Suc n) (sort_key ep_id (filter (ep_pending (rScope R) (rFv R)) (episodes (db w))))"
    if "holds (rot_inv_step R d0) (Some (rsess R)) w" for w
    using rot_step_visible [OF that] by (intro arg_cong2 [of _ _ _ _ take] arg_cong [of _ _ "sort_key ep_id"] filter_cong)
      (auto simp: ep_pending_def)
qed (auto simp: ep_moved_def rot_step_facts migrate_episode_row)

interpretation summary_rows: batch_migration "rot_inv_step R d0" summaries sum_id
  "sum_pending (rScope R) (rFv R)" "sum_moved R"
  "migrate_summary (rA R) (rFrom R) (rTo R) (rFv R) (rTv R)" "rsess R" "rSure R" "rScope R"
  "\<lambda>w. take (Suc n) (sort_key sum_id (filter (\<lambda>s. sum_scope s = rScope R
      \<and> sum_key_version s = rFv R \<and> rls_visible w (sum_scope s)) (summaries (db w))))" sum_id "Suc n" for R d0 n
proof unfold_locales
  show "distinct (map sum_id (summaries d))" if "rot_inv_step R d0 w d" for w d
    using that by (simp add: rot_inv_step_def rot_inv_def tables_ok_def)
  show "take (Suc n) (sort_key sum_id (filter (\<lambda>s. sum_scope s = rScope R
      \<and> sum_key_version s = rFv R \<and> rls_visible w (sum_scope s)) (summaries (db w)))) =
    take (Suc n) (sort_key sum_id (filter (sum_pending (rScope R) (rFv R)) (summaries (db w))))"
    if "holds (rot_inv_step R d0) (Some (rsess R)) w" for w
    using rot_step_visible [OF that] by (intro arg_cong2 [of _ _ _ _ take] arg_cong [of _ _ "sort_key sum_id"] filter_cong)
      (auto simp: sum_pending_def)
qed (auto simp: sum_moved_def rot_step_facts migrate_summary_row)

interpretation entity_rows: batch_migration "rot_inv_step R d0" entities "\<lambda>e. (en_scope e, en_id e)"
  "en_pending (rScope R) (rFv R)" "en_moved R"
  "migrate_entity (rA R) (rScope R) (rFrom R) (rTo R) (rTv R)" "rsess R" "rSure R" "rScope R"
  "\<lambda>w. take (Suc n) (sort_key en_id (filter (\<lambda>e. en_scope e = rScope R
      \<and> en_key_version e = rFv R \<and> rls_visible w (en_scope e)) (entities (db w))))" en_id "Suc n" for R d0 n
proof unfold_locales
  show "distinct (map (\<lambda>e. (en_scope e, en_id e)) (entities d))" if "rot_inv_step R d0 w d" for w d
    using that by (simp add: rot_inv_step_def rot_inv_def tables_ok_def)
  show "take (Suc n) (sort_key en_id (filter (\<lambda>e. en_scope e = rScope R
      \<and> en_key_version e = rFv R \<and> rls_visible w (en_scope e)) (entities (db w)))) =
    take (Suc n) (sort_key en_id (filter (en_pending (rScope R) (rFv R)) (entities (db w))))"
    if "holds (rot_inv_step R d0) (Some (rsess R)) w" for w
    using rot_step_visible [OF that] by (intro arg_cong2 [of _ _ _ _ take] arg_cong [of _ _ "sort_key en_id"] filter_cong)
      (auto simp: en_pending_def)
qed (auto simp: en_moved_def rot_step_facts migrate_entity_row)

end
