(* ===== verification/Rotate_Correct.thy ===== *)
theory Rotate_Correct
  imports Rotate_Rows
begin

text \<open>
  Correctness of key rotation: what \<open>Continue\<close>, the loop of \<open>hupi-rotate-key\<close>, \<open>Start\<close> and
  \<open>Prune\<close> guarantee, from the row migrations of \<open>Rotate_Rows\<close>.
\<close>

declare One_nat_def [simp del]

section \<open>The loop over the tables\<close>

definition pend_ep where "pend_ep R d = length (filter (ep_pending (rScope R) (rFv R)) (episodes d))"
definition pend_sum where "pend_sum R d = length (filter (sum_pending (rScope R) (rFv R)) (summaries d))"
definition pend_en where "pend_en R d = length (filter (en_pending (rScope R) (rFv R)) (entities d))"

definition pend_all :: "rotation \<Rightarrow> database \<Rightarrow> nat" where
  "pend_all R d = pend_ep R d + pend_sum R d + pend_en R d"

text \<open>No row of a table before the cursor is on the old version.\<close>

definition zero_before :: "rotation \<Rightarrow> string \<Rightarrow> database \<Rightarrow> bool" where
  "zero_before R table d \<longleftrightarrow>
     (table = ''episodes'')
     \<or> (table = ''summaries'' \<and> pend_ep R d = 0)
     \<or> (table = ''entities'' \<and> pend_ep R d = 0 \<and> pend_sum R d = 0)
     \<or> (table = ''done'' \<and> pend_all R d = 0)"

definition progress_row_ok :: "rotation \<Rightarrow> database \<Rightarrow> bool" where
  "progress_row_ok R d \<longleftrightarrow> (\<forall>k \<in> set (key_rotations d). kr_scope k = rScope R \<longrightarrow>
     kr_from_version k = rFv R \<and> kr_to_version k = rTv R
     \<and> (kr_status k = StatusInProgress \<longrightarrow> zero_before R (kr_cursor_table k) d)
     \<and> (kr_status k \<noteq> StatusInProgress \<longrightarrow> pend_all R d = 0))"

definition versions_kept :: "database \<Rightarrow> database \<Rightarrow> bool" where
  "versions_kept d0 d \<longleftrightarrow>
     map (\<lambda>k. (kr_scope k, kr_from_version k, kr_to_version k)) (key_rotations d) =
     map (\<lambda>k. (kr_scope k, kr_from_version k, kr_to_version k)) (key_rotations d0)"

lemma rotations_versions_kept: "rotations_kept d d' \<Longrightarrow> versions_kept d d'"
proof -
  have v: "map (\<lambda>k. (kr_scope k, kr_from_version k, kr_to_version k)) ks =
      map (\<lambda>k. (kr_scope k, kr_from_version k, kr_to_version k)) (map (\<lambda>k. k\<lparr>kr_cursor_id := []\<rparr>) ks)" for ks
    by simp
  show "rotations_kept d d' \<Longrightarrow> versions_kept d d'"
    unfolding rotations_kept_def versions_kept_def by (subst (1 2) v) simp
qed

definition rot_state :: "rotation \<Rightarrow> database \<Rightarrow> world \<Rightarrow> database \<Rightarrow> bool" where
  "rot_state R d0 w d \<longleftrightarrow> rot_inv_step R (d0\<lparr>key_rotations := key_rotations d\<rparr>) w d
     \<and> versions_kept d0 d \<and> (rTrack R \<longrightarrow> progress_row_ok R d)"

lemma rot_state_process: "process_pred (rot_state R d0)"
proof -
  have "rot_inv_step R d (w\<lparr>db := d', tx := t, ticks := n, rand_pos := m, calls := c\<rparr>) = rot_inv_step R d w"
    for w n t d' m c d
    using rot_inv_step_process [of R d] by (simp add: process_pred_def)
  then show ?thesis by (simp add: process_pred_def rot_state_def fun_eq_iff)
qed

lemma rot_rebase:
  assumes "rot_inv_step R d0 w d"
  shows "rot_inv_step R d w d"
  using assms rot_readable [of R d0 w d]
  unfolding rot_inv_step_def rot_inv_def rotations_kept_def by simp

lemma fewer_pend:
  assumes "rot_inv_step R d0 w d"
  shows "pend_ep R d \<le> pend_ep R d0" "pend_sum R d \<le> pend_sum R d0" "pend_en R d \<le> pend_en R d0"
  using assms by (simp_all add: rot_inv_step_def rot_inv_def fewer_def pend_ep_def pend_sum_def pend_en_def)

lemma zero_before_fewer:
  assumes "zero_before R table d0" "rot_inv_step R d0 w d"
  shows "zero_before R table d"
proof -
  have z: "pend_ep R d0 = 0 \<Longrightarrow> pend_ep R d = 0" "pend_sum R d0 = 0 \<Longrightarrow> pend_sum R d = 0"
    "pend_all R d0 = 0 \<Longrightarrow> pend_all R d = 0"
    using fewer_pend [OF assms(2)] by (simp_all add: pend_all_def)
  show ?thesis
    using assms(1) unfolding zero_before_def by (elim disjE conjE) (simp_all add: z)
qed

lemma rot_state_after_batch:
  assumes "rot_state R d0 w d" "rot_inv_step R (d0\<lparr>key_rotations := key_rotations d\<rparr>) t d'"
    and "rot_inv_step R d t d'"
  shows "rot_state R d0 t d'"
proof -
  have inv: "rot_inv_step R (d0\<lparr>key_rotations := key_rotations d'\<rparr>) t d'"
    using assms(2)
    by (simp add: rot_inv_step_def rot_inv_def rotations_kept_def same_content_def other_tables_def
        readable_def fewer_def)
  have "progress_row_ok R d'" if "rTrack R"
    unfolding progress_row_ok_def
  proof (intro ballI impI)
    fix k'
    assume k': "k' \<in> set (key_rotations d')" "kr_scope k' = rScope R"
    have "map (\<lambda>k. k\<lparr>kr_cursor_id := []\<rparr>) (key_rotations d') = map (\<lambda>k. k\<lparr>kr_cursor_id := []\<rparr>) (key_rotations d)"
      using assms(3) by (simp add: rot_inv_step_def rot_inv_def rotations_kept_def)
    then have "k'\<lparr>kr_cursor_id := []\<rparr> \<in> (\<lambda>k. k\<lparr>kr_cursor_id := []\<rparr>) ` set (key_rotations d)"
      using k'(1) by (metis image_eqI list.set_map)
    then obtain k where k: "k \<in> set (key_rotations d)" "k'\<lparr>kr_cursor_id := []\<rparr> = k\<lparr>kr_cursor_id := []\<rparr>"
      by blast
    have same: "kr_scope k' = kr_scope k" "kr_from_version k' = kr_from_version k"
      "kr_to_version k' = kr_to_version k" "kr_status k' = kr_status k" "kr_cursor_table k' = kr_cursor_table k"
      using arg_cong [OF k(2), of kr_scope] arg_cong [OF k(2), of kr_from_version]
        arg_cong [OF k(2), of kr_to_version] arg_cong [OF k(2), of kr_status]
        arg_cong [OF k(2), of kr_cursor_table] by simp_all
    have pend: "pend_all R d = 0 \<Longrightarrow> pend_all R d' = 0"
      using fewer_pend [OF assms(3)] by (simp add: pend_all_def)
    have ok: "kr_from_version k = rFv R \<and> kr_to_version k = rTv R
       \<and> (kr_status k = StatusInProgress \<longrightarrow> zero_before R (kr_cursor_table k) d)
       \<and> (kr_status k \<noteq> StatusInProgress \<longrightarrow> pend_all R d = 0)"
      using assms(1) that k(1) k'(2) same(1) by (simp add: rot_state_def progress_row_ok_def)
    show "kr_from_version k' = rFv R \<and> kr_to_version k' = rTv R
       \<and> (kr_status k' = StatusInProgress \<longrightarrow> zero_before R (kr_cursor_table k') d')
       \<and> (kr_status k' \<noteq> StatusInProgress \<longrightarrow> pend_all R d' = 0)"
      using ok zero_before_fewer [OF _ assms(3)] pend by (simp add: same)
  qed
  moreover have "versions_kept d0 d'"
    using assms(1) rotations_versions_kept [of d d'] assms(3)
    by (simp add: rot_state_def rot_inv_step_def rot_inv_def versions_kept_def)
  ultimately show ?thesis using inv by (simp add: rot_state_def)
qed

definition pend_table :: "rotation \<Rightarrow> string \<Rightarrow> database \<Rightarrow> nat" where
  "pend_table R table d =
     (if table = ''episodes'' then pend_ep R d else if table = ''summaries'' then pend_sum R d
      else pend_en R d)"

lemma table_batch:
  assumes "holds (rot_inv_step R d0) None w" "table \<in> set tableOrder" "n > 0"
  shows "wp (migrate_table (rA R) (rScope R) (rFrom R) (rTo R) (rFv R) (rTv R) n table)
           (\<lambda>k t. holds (rot_inv_step R d0) None t \<and> pend_table R table (db t) + k = pend_table R table (db w)
              \<and> (k = 0 \<longrightarrow> pend_table R table (db t) = 0))
           (\<lambda>_ t. holds (rot_inv_step R d0) None t \<and> \<not> rSure R) w"
proof -
  obtain m where n: "n = Suc m" using assms(3) by (cases n) auto
  consider "table = ''episodes''" | "table = ''summaries''" | "table = ''entities''"
    using assms(2) by (auto simp: tableOrder_def)
  then show ?thesis
  proof cases
    case 1
    then show ?thesis
      using episode_rows.batch [OF assms(1), where n = m]
      by (simp add: migrate_table_def migrateEpisodeBatch_def n pend_table_def pend_ep_def episode_rows.count_pending_def)
  next
    case 2
    then show ?thesis
      using summary_rows.batch [OF assms(1), where n = m]
      by (simp add: migrate_table_def migrateSummaryBatch_def n pend_table_def pend_sum_def summary_rows.count_pending_def)
  next
    case 3
    then show ?thesis
      using entity_rows.batch [OF assms(1), where n = m]
      by (simp add: migrate_table_def migrateEntityBatch_def n pend_table_def pend_en_def entity_rows.count_pending_def)
  qed
qed

text \<open>The state after a table's batch, as the loop of \<open>Continue\<close> needs it.\<close>

lemma table_step:
  assumes w: "holds (rot_state R d0) None w" and t: "table \<in> set tableOrder" "n > 0"
  shows "wp (migrate_table (rA R) (rScope R) (rFrom R) (rTo R) (rFv R) (rTv R) n table)
           (\<lambda>k t. holds (rot_state R d0) None t \<and> rot_inv_step R (db w) t (db t)
              \<and> pend_table R table (db t) + k = pend_table R table (db w)
              \<and> (k = 0 \<longrightarrow> pend_table R table (db t) = 0))
           (\<lambda>_ t. holds (rot_state R d0) None t \<and> rot_inv_step R (db w) t (db t) \<and> \<not> rSure R) w"
proof -
  let ?D = "d0\<lparr>key_rotations := key_rotations (db w)\<rparr>"
  have 1: "holds (rot_inv_step R ?D) None w" "holds (rot_inv_step R (db w)) None w"
    using w rot_rebase by (auto simp: holds_def rot_state_def)
  have "wp (migrate_table (rA R) (rScope R) (rFrom R) (rTo R) (rFv R) (rTv R) n table)
       (\<lambda>k t. (holds (rot_inv_step R ?D) None t \<and> pend_table R table (db t) + k = pend_table R table (db w)
              \<and> (k = 0 \<longrightarrow> pend_table R table (db t) = 0))
             \<and> (holds (rot_inv_step R (db w)) None t \<and> pend_table R table (db t) + k = pend_table R table (db w)
              \<and> (k = 0 \<longrightarrow> pend_table R table (db t) = 0)))
       (\<lambda>_ t. (holds (rot_inv_step R ?D) None t \<and> \<not> rSure R)
             \<and> (holds (rot_inv_step R (db w)) None t \<and> \<not> rSure R)) w"
    by (rule wp_conj [OF table_batch [OF 1(1) t] table_batch [OF 1(2) t]])
  moreover have "holds (rot_state R d0) None t"
    if "holds (rot_inv_step R ?D) None t" "holds (rot_inv_step R (db w)) None t" for t
    using that w rot_state_after_batch [of R d0 w "db w" t "db t"] by (simp add: holds_def)
  ultimately show ?thesis
    by (elim wp_mono) (auto simp: holds_def)
qed

text \<open>Writing the progress row keeps the state, as long as what it says is true.\<close>

lemma rot_state_row:
  assumes "rot_state R d0 w d"
    and "\<And>k. kr_scope (f k) = kr_scope k \<and> kr_from_version (f k) = kr_from_version k
            \<and> kr_to_version (f k) = kr_to_version k"
    and "\<And>k. rTrack R \<Longrightarrow> kr_status k = StatusInProgress \<Longrightarrow> kr_status (f k) = StatusInProgress
            \<Longrightarrow> zero_before R (kr_cursor_table (f k)) d"
    and "\<And>k. rTrack R \<Longrightarrow> kr_status k \<noteq> StatusInProgress \<Longrightarrow> kr_status (f k) \<noteq> StatusInProgress"
    and "\<And>k. rTrack R \<Longrightarrow> kr_status (f k) \<noteq> StatusInProgress \<Longrightarrow> kr_status k \<noteq> StatusInProgress \<or> pend_all R d = 0"
  shows "rot_state R d0 w (d\<lparr>key_rotations := update_where (\<lambda>k. kr_scope k = rScope R) f (key_rotations d)\<rparr>)"
proof -
  let ?ks = "update_where (\<lambda>k. kr_scope k = rScope R) f (key_rotations d)"
  have inv: "rot_inv_step R (d0\<lparr>key_rotations := ?ks\<rparr>) w (d\<lparr>key_rotations := ?ks\<rparr>)"
    using assms(1,2)
    by (simp add: rot_state_def rot_inv_step_def rot_inv_def key_inv_def same_content_def other_tables_def
        readable_def tables_ok_def facts_lockstep_def rotations_kept_def map_update_where)
  have pend: "pend_all R (d\<lparr>key_rotations := ks\<rparr>) = pend_all R d"
    "zero_before R c (d\<lparr>key_rotations := ks\<rparr>) = zero_before R c d" for ks c
    by (simp_all add: pend_all_def zero_before_def pend_ep_def pend_sum_def pend_en_def)
  have "progress_row_ok R (d\<lparr>key_rotations := ?ks\<rparr>)" if track: "rTrack R"
    unfolding progress_row_ok_def pend
  proof (intro ballI impI)
    fix k'
    assume "k' \<in> set (key_rotations (d\<lparr>key_rotations := ?ks\<rparr>))" "kr_scope k' = rScope R"
    then obtain k where k: "k \<in> set (key_rotations d)" "kr_scope k = rScope R" "k' = f k"
      using assms(2) by (auto simp: update_where_def split: if_splits)
    have "kr_from_version k = rFv R \<and> kr_to_version k = rTv R
       \<and> (kr_status k = StatusInProgress \<longrightarrow> zero_before R (kr_cursor_table k) d)
       \<and> (kr_status k \<noteq> StatusInProgress \<longrightarrow> pend_all R d = 0)"
      using assms(1) track k(1,2) by (simp add: rot_state_def progress_row_ok_def)
    then show "kr_from_version k' = rFv R \<and> kr_to_version k' = rTv R
       \<and> (kr_status k' = StatusInProgress \<longrightarrow> zero_before R (kr_cursor_table k') d)
       \<and> (kr_status k' \<noteq> StatusInProgress \<longrightarrow> pend_all R d = 0)"
      using assms(2-5) [of k] track k(3) by metis
  qed
  moreover have "versions_kept d0 (d\<lparr>key_rotations := ?ks\<rparr>)"
    using assms(1,2) by (simp add: rot_state_def versions_kept_def map_update_where)
  ultimately show ?thesis using inv by (simp add: rot_state_def)
qed

lemma rot_state_calm: "rot_state R d0 w d \<Longrightarrow> rSure R \<Longrightarrow> fault_now w = NoFault"
  by (auto simp: rot_state_def intro: rot_step_calm)

lemma rot_state_calm_tick: "holds (rot_state R d0) sess w \<Longrightarrow>
    fault_now w \<noteq> NoFault \<or> fault_now (tick w) \<noteq> NoFault \<Longrightarrow> \<not> rSure R"
  using rot_state_calm [of R d0 w "db w"] rot_state_calm [of R d0 "tick w" "db w"]
    process_pred_simps(6) [OF rot_state_process]
  by (auto simp: holds_def)

definition row_count :: "rotation \<Rightarrow> database \<Rightarrow> nat \<times> nat \<times> nat" where
  "row_count R d = (pend_ep R d, pend_sum R d, pend_en R d)"

lemma row_count_rotations: "row_count R (d\<lparr>key_rotations := ks\<rparr>) = row_count R d"
  by (simp add: row_count_def pend_ep_def pend_sum_def pend_en_def)

lemma zero_before_count:
  "row_count R d' = row_count R d \<Longrightarrow> zero_before R t d' = zero_before R t d \<and> pend_all R d' = pend_all R d"
  by (simp add: row_count_def zero_before_def pend_all_def)

text \<open>A transaction that only writes the progress row and the audit log.\<close>

lemma progress_write:
  assumes w: "holds (rot_state R d0) None w"
    and body: "\<And>v. holds (rot_state R d0) (Some (rsess R)) v \<Longrightarrow> row_count R (db v) = row_count R (db w) \<Longrightarrow>
       wp fn (\<lambda>_ t. holds (rot_state R d0) (Some (rsess R)) t \<and> row_count R (db t) = row_count R (db w))
          (\<lambda>_ t. kept (rot_state R d0) (Some (rsess R)) t \<and> \<not> rSure R) v"
  shows "wp (Run (rScope R) (rScope R) fn)
     (\<lambda>_ t. holds (rot_state R d0) None t \<and> row_count R (db t) = row_count R (db w))
     (\<lambda>_ t. holds (rot_state R d0) None t \<and> \<not> rSure R) w"
proof (rule wp_Run_result [OF rot_state_process w])
  show "\<not> rSure R" if "fault_now w \<noteq> NoFault \<or> fault_now (tick w) \<noteq> NoFault"
    using that w rot_state_calm_tick by blast
  have "holds (rot_state R d0) (Some (rsess R)) (w\<lparr>tx := Some (rScope R, rScope R, db w), ticks := n\<rparr>)" for n
    using w process_pred_simps [OF rot_state_process] by (simp add: holds_def)
  then show "wp fn (\<lambda>x t. holds (rot_state R d0) (Some (rsess R)) t \<and> row_count R (db t) = row_count R (db w)
        \<and> (fault_now t \<noteq> NoFault \<longrightarrow> \<not> rSure R)) (\<lambda>_ t. kept (rot_state R d0) (Some (rsess R)) t \<and> \<not> rSure R)
      (w\<lparr>tx := Some (rScope R, rScope R, db w), ticks := n\<rparr>)" for n
    by (intro wp_mono [OF body]) (auto simp: holds_def intro: rot_state_calm)
qed

lemma setCursorTable_ok:
  assumes w: "holds (rot_state R d0) None w" and z: "rTrack R \<Longrightarrow> zero_before R table (db w)"
  shows "wp (setCursorTable (rScope R) table)
     (\<lambda>_ t. holds (rot_state R d0) None t \<and> row_count R (db t) = row_count R (db w))
     (\<lambda>_ t. holds (rot_state R d0) None t \<and> \<not> rSure R) w"
  unfolding setCursorTable_def
proof (rule progress_write [OF w])
  fix v
  assume v: "holds (rot_state R d0) (Some (rsess R)) v" "row_count R (db v) = row_count R (db w)"
  let ?f = "\<lambda>k. k\<lparr>kr_cursor_table := table, kr_cursor_id := []\<rparr>"
  have "rot_state R d0 v (db v\<lparr>key_rotations := update_where (\<lambda>k. kr_scope k = rScope R) ?f (key_rotations (db v))\<rparr>)"
    using v z zero_before_count [OF v(2)] by (intro rot_state_row) (simp_all add: holds_def)
  then show "wp (exec (\<lambda>_ d. d\<lparr>key_rotations := update_where (\<lambda>k. kr_scope k = rScope R) ?f (key_rotations d)\<rparr>))
     (\<lambda>_ t. holds (rot_state R d0) (Some (rsess R)) t \<and> row_count R (db t) = row_count R (db w))
     (\<lambda>_ t. kept (rot_state R d0) (Some (rsess R)) t \<and> \<not> rSure R) v"
    using v rot_state_calm [of R d0 v "db v"]
    by (intro wp_exec_row [OF rot_state_process]) (auto simp: row_count_rotations holds_def)
qed

lemma rot_state_audit: "rot_state R d0 w (d\<lparr>audit_log := l\<rparr>) = rot_state R d0 w d"
  by (simp add: rot_state_def versions_kept_def rot_inv_audit progress_row_ok_def zero_before_def pend_all_def pend_ep_def
      pend_sum_def pend_en_def)

lemma audit_Write_ok:
  assumes v: "holds (rot_state R d0) (Some (rsess R)) v"
  shows "wp (audit_Write (rotation_event (rScope R) actor detail))
     (\<lambda>_ t. holds (rot_state R d0) (Some (rsess R)) t \<and> row_count R (db t) = row_count R (db v))
     (\<lambda>_ t. kept (rot_state R d0) (Some (rsess R)) t \<and> \<not> rSure R) v"
proof -
  have pol: "audit_policy v (rotation_event (rScope R) actor detail)"
    using v by (auto simp: holds_def session_def audit_policy_def rotation_event_def)
  have count: "row_count R (d\<lparr>audit_log := l\<rparr>) = row_count R d" for d l
    by (simp add: row_count_def pend_ep_def pend_sum_def pend_en_def)
  show ?thesis
    unfolding audit_Write_def wp_exec_check using v pol rot_state_calm [of R d0 v "db v"]
    by (simp, intro wp_exec_row [OF rot_state_process]) (auto simp: holds_def rot_state_audit count)
qed

lemma markCompleted_ok:
  assumes w: "holds (rot_state R d0) None w" and z: "rTrack R \<Longrightarrow> pend_all R (db w) = 0"
  shows "wp (markCompleted (rScope R) actor)
     (\<lambda>_ t. holds (rot_state R d0) None t \<and> row_count R (db t) = row_count R (db w))
     (\<lambda>_ t. holds (rot_state R d0) None t \<and> \<not> rSure R) w"
  unfolding markCompleted_def
proof (rule progress_write [OF w])
  fix v
  assume v: "holds (rot_state R d0) (Some (rsess R)) v" "row_count R (db v) = row_count R (db w)"
  let ?f = "\<lambda>k. k\<lparr>kr_status := StatusCompleted, kr_completed_at := Some (clock v)\<rparr>"
  have "rot_state R d0 v (db v\<lparr>key_rotations := update_where (\<lambda>k. kr_scope k = rScope R) ?f (key_rotations (db v))\<rparr>)"
    using v z zero_before_count [OF v(2)] by (intro rot_state_row) (simp_all add: holds_def)
  then have "wp (exec (\<lambda>w d. d\<lparr>key_rotations := update_where (\<lambda>k. kr_scope k = rScope R)
         (\<lambda>k. k\<lparr>kr_status := StatusCompleted, kr_completed_at := Some (clock w)\<rparr>) (key_rotations d)\<rparr>))
     (\<lambda>_ t. holds (rot_state R d0) (Some (rsess R)) t \<and> row_count R (db t) = row_count R (db w))
     (\<lambda>_ t. kept (rot_state R d0) (Some (rsess R)) t \<and> \<not> rSure R) v"
    using v rot_state_calm [of R d0 v "db v"]
    by (intro wp_exec_row [OF rot_state_process]) (auto simp: row_count_rotations holds_def)
  then show "wp (bindM (exec (\<lambda>w d. d\<lparr>key_rotations := update_where (\<lambda>k. kr_scope k = rScope R)
         (\<lambda>k. k\<lparr>kr_status := StatusCompleted, kr_completed_at := Some (clock w)\<rparr>) (key_rotations d)\<rparr>))
       (\<lambda>_. audit_Write (rotation_event (rScope R) actor [(''action'', JStr ''completed'')])))
     (\<lambda>_ t. holds (rot_state R d0) (Some (rsess R)) t \<and> row_count R (db t) = row_count R (db w))
     (\<lambda>_ t. kept (rot_state R d0) (Some (rsess R)) t \<and> \<not> rSure R) v"
    unfolding wp_bindM
  proof (rule wp_mono)
    fix x u
    assume u: "holds (rot_state R d0) (Some (rsess R)) u \<and> row_count R (db u) = row_count R (db w)"
    show "wp (audit_Write (rotation_event (rScope R) actor [(''action'', JStr ''completed'')]))
       (\<lambda>_ t. holds (rot_state R d0) (Some (rsess R)) t \<and> row_count R (db t) = row_count R (db w))
       (\<lambda>_ t. kept (rot_state R d0) (Some (rsess R)) t \<and> \<not> rSure R) u"
      by (rule wp_mono [OF audit_Write_ok]) (use u in auto)
  qed simp
qed

definition loop_post :: "rotation \<Rightarrow> database \<Rightarrow> nat \<Rightarrow> nat \<times> bool \<Rightarrow> world \<Rightarrow> bool" where
  "loop_post R d0 m = (\<lambda>(k, fin) t. holds (rot_state R d0) None t \<and> pend_all R (db t) + k \<le> m
     \<and> (fin \<longrightarrow> rTrack R \<longrightarrow> pend_all R (db t) = 0) \<and> (\<not> fin \<longrightarrow> k > 0))"

definition loop_fail :: "rotation \<Rightarrow> database \<Rightarrow> world \<Rightarrow> bool" where
  "loop_fail R d0 t \<longleftrightarrow> holds (rot_state R d0) None t \<and> \<not> (rSure R \<and> rTrack R)"

abbreviation loop_of :: "rotation \<Rightarrow> nat \<Rightarrow> string \<Rightarrow> string \<Rightarrow> (nat \<times> bool) proc" where
  "loop_of R n actor table \<equiv>
     continue_loop (rA R) (rScope R) (rFrom R) (rTo R) (rFv R) (rTv R) n actor table"

lemma loop_done:
  assumes w: "holds (rot_state R d0) None w" and z: "rTrack R \<Longrightarrow> zero_before R ''done'' (db w)"
  shows "wp (loop_of R n actor ''done'') (loop_post R d0 (pend_all R (db w))) (\<lambda>_. loop_fail R d0) w"
proof -
  have z': "rTrack R \<Longrightarrow> pend_all R (db w) = 0" using z by (simp add: zero_before_def)
  show ?thesis
    unfolding continue_loop.simps [of _ _ _ _ _ _ _ _ "''done''"]
    by (simp add: wp_bindM wp_retM, rule wp_mono [OF markCompleted_ok [OF w z']])
      (use z' in \<open>auto simp: loop_post_def loop_fail_def dest: zero_before_count\<close>)
qed

lemma pend_step:
  assumes "rot_inv_step R d0 w d" "pend_table R table d + k = pend_table R table d0" "table \<in> set tableOrder"
  shows "pend_all R d + k \<le> pend_all R d0"
proof -
  consider "table = ''episodes''" | "table = ''summaries''" | "table = ''entities''"
    using assms(3) by (auto simp: tableOrder_def)
  then show ?thesis
    using assms(2) fewer_pend [OF assms(1)] by cases (simp_all add: pend_table_def pend_all_def)
qed

lemma nextTable_simps:
  "nextTable ''episodes'' = ''summaries''" "nextTable ''summaries'' = ''entities''"
  "nextTable ''entities'' = ''done''"
  by (simp_all add: nextTable_def tableOrder_def)

lemma zero_before_next:
  assumes "zero_before R table d" "table \<in> set tableOrder" "pend_table R table d = 0"
  shows "zero_before R (nextTable table) d"
proof -
  consider "table = ''episodes''" | "table = ''summaries''" | "table = ''entities''"
    using assms(2) by (auto simp: tableOrder_def)
  then show ?thesis
    using assms(1,3) by cases (simp_all add: zero_before_def pend_table_def pend_all_def nextTable_simps)
qed

lemma loop_table:
  assumes w: "holds (rot_state R d0) None w" and z: "rTrack R \<Longrightarrow> zero_before R table (db w)"
    and t: "table \<in> set tableOrder" and n: "n > 0"
    and rest: "\<And>v. holds (rot_state R d0) None v \<Longrightarrow> (rTrack R \<Longrightarrow> zero_before R (nextTable table) (db v)) \<Longrightarrow>
       wp (loop_of R n actor (nextTable table)) (loop_post R d0 (pend_all R (db v))) (\<lambda>_. loop_fail R d0) v"
  shows "wp (loop_of R n actor table) (loop_post R d0 (pend_all R (db w))) (\<lambda>_. loop_fail R d0) w"
proof -
  have nd: "table \<noteq> ''done''" using t by (auto simp: tableOrder_def)
  have onwards: "wp (bindM (setCursorTable (rScope R) (nextTable table)) (\<lambda>_. loop_of R n actor (nextTable table)))
      (loop_post R d0 (pend_all R (db w))) (\<lambda>_. loop_fail R d0) v"
    if v: "holds (rot_state R d0) None v" "rot_inv_step R (db w) v (db v)" "pend_table R table (db v) = 0" for v
  proof -
    have zn: "rTrack R \<Longrightarrow> zero_before R (nextTable table) (db v)"
      using zero_before_next [OF zero_before_fewer [OF z v(2)] t v(3)] by simp
    have le: "pend_all R (db v) \<le> pend_all R (db w)"
      using fewer_pend [OF v(2)] by (simp add: pend_all_def)
    have weaken: "loop_post R d0 m x t \<Longrightarrow> m \<le> m' \<Longrightarrow> loop_post R d0 m' x t" for m m' x t
      by (cases x) (simp add: loop_post_def)
    show ?thesis
      unfolding wp_bindM
    proof (rule wp_mono [OF setCursorTable_ok [OF v(1) zn]])
      fix a u
      assume u: "holds (rot_state R d0) None u \<and> row_count R (db u) = row_count R (db v)"
      then have eq: "pend_all R (db u) = pend_all R (db v)"
        "zero_before R (nextTable table) (db u) = zero_before R (nextTable table) (db v)"
        using zero_before_count [of R "db u" "db v"] by simp_all
      show "wp (loop_of R n actor (nextTable table)) (loop_post R d0 (pend_all R (db w))) (\<lambda>_. loop_fail R d0) u"
        by (rule wp_mono [OF rest]) (use u eq zn le weaken in auto)
    qed (auto simp: loop_fail_def)
  qed
  have step: "loop_post R d0 (pend_all R (db w)) (k, False) v"
    if "holds (rot_state R d0) None v" "rot_inv_step R (db w) v (db v)"
      "pend_table R table (db v) + k = pend_table R table (db w)" "k > 0" for v k
    using that(1,4) pend_step [OF that(2,3) t] by (simp add: loop_post_def)
  have eq: "loop_of R n actor table =
      bindM (migrate_table (rA R) (rScope R) (rFrom R) (rTo R) (rFv R) (rTv R) n table) (\<lambda>k.
        if k > 0 then retM (k, False)
        else bindM (setCursorTable (rScope R) (nextTable table)) (\<lambda>_. loop_of R n actor (nextTable table)))"
    using continue_loop.simps [of "rA R" "rScope R" "rFrom R" "rTo R" "rFv R" "rTv R" n actor table] nd t
    by (simp only: if_False simp_thms)
  show ?thesis
    unfolding eq wp_bindM [of "migrate_table _ _ _ _ _ _ _ _"]
  proof (rule wp_mono [OF table_step [OF w t n]])
    fix k v
    assume v: "holds (rot_state R d0) None v \<and> rot_inv_step R (db w) v (db v)
       \<and> pend_table R table (db v) + k = pend_table R table (db w) \<and> (k = 0 \<longrightarrow> pend_table R table (db v) = 0)"
    show "wp (if k > 0 then retM (k, False)
        else bindM (setCursorTable (rScope R) (nextTable table)) (\<lambda>_. loop_of R n actor (nextTable table)))
        (loop_post R d0 (pend_all R (db w))) (\<lambda>_. loop_fail R d0) v"
      using v step onwards by (cases "k > 0") (simp_all add: wp_retM)
  qed (simp add: loop_fail_def)
qed

lemma loop_ok:
  assumes w: "holds (rot_state R d0) None w" and z: "rTrack R \<Longrightarrow> zero_before R table (db w)" and n: "n > 0"
  shows "wp (loop_of R n actor table) (loop_post R d0 (pend_all R (db w))) (\<lambda>_. loop_fail R d0) w"
proof (cases "table \<in> set tableOrder \<or> table = ''done''")
  case False
  then have "\<not> rTrack R" using z by (auto simp: zero_before_def tableOrder_def)
  then show ?thesis
    using False w by (subst continue_loop.simps) (simp add: wp_errM loop_fail_def)
next
  case True
  have en: "wp (loop_of R n actor ''entities'') (loop_post R d0 (pend_all R (db v))) (\<lambda>_. loop_fail R d0) v"
    if "holds (rot_state R d0) None v" "rTrack R \<Longrightarrow> zero_before R ''entities'' (db v)" for v
    by (rule loop_table [OF that _ n]) (simp_all add: tableOrder_def nextTable_simps loop_done)
  have su: "wp (loop_of R n actor ''summaries'') (loop_post R d0 (pend_all R (db v))) (\<lambda>_. loop_fail R d0) v"
    if "holds (rot_state R d0) None v" "rTrack R \<Longrightarrow> zero_before R ''summaries'' (db v)" for v
    by (rule loop_table [OF that _ n]) (simp_all add: tableOrder_def nextTable_simps en)
  have ep: "wp (loop_of R n actor ''episodes'') (loop_post R d0 (pend_all R (db v))) (\<lambda>_. loop_fail R d0) v"
    if "holds (rot_state R d0) None v" "rTrack R \<Longrightarrow> zero_before R ''episodes'' (db v)" for v
    by (rule loop_table [OF that _ n]) (simp_all add: tableOrder_def nextTable_simps su)
  consider "table = ''episodes''" | "table = ''summaries''" | "table = ''entities''" | "table = ''done''"
    using True by (auto simp: tableOrder_def)
  then show ?thesis
    using w z by cases (simp_all add: ep su en loop_done)
qed

section \<open>Continue\<close>

lemma wp_Status:
  assumes P: "process_pred P" and w: "holds P None w" and f: "\<And>v d. P v d \<Longrightarrow> sure \<Longrightarrow> fault_now v = NoFault"
  shows "wp (Status sc)
     (\<lambda>r t. holds P None t \<and> db t = db w \<and>
        (case r of None \<Rightarrow> \<forall>k \<in> set (key_rotations (db w)). kr_scope k \<noteq> sc
         | Some k \<Rightarrow> k \<in> set (key_rotations (db w)) \<and> kr_scope k = sc))
     (\<lambda>_ t. holds P None t \<and> db t = db w \<and> \<not> sure) w"
proof -
  let ?P = "\<lambda>v d. P v d \<and> d = db w"
  let ?rows = "filter (\<lambda>k. kr_scope k = sc) (key_rotations (db w))"
  have p: "process_pred ?P" using P by (simp add: process_pred_def fun_eq_iff)
  have w': "holds ?P None w" using w by (simp add: holds_def)
  have "wp (Run sc sc (query_row (\<lambda>w. filter (\<lambda>k. kr_scope k = sc) (key_rotations (db w)))))
      (\<lambda>k t. holds ?P None t \<and> (k \<in> set (key_rotations (db w)) \<and> kr_scope k = sc))
      (\<lambda>e t. holds ?P None t \<and> ((e = ErrNoRows \<and> ?rows = []) \<or> (e \<noteq> ErrNoRows \<and> \<not> sure))) w"
  proof (rule wp_Run_error [OF p w', where F = "\<lambda>e. (e = ErrNoRows \<and> ?rows = []) \<or> (e \<noteq> ErrNoRows \<and> \<not> sure)"])
    have "fault_now v = NoFault" if "holds ?P sess v" sure for v sess
      using that f by (auto simp: holds_def)
    note fault = this
    show "ErrDb = ErrNoRows \<and> ?rows = [] \<or> ErrDb \<noteq> ErrNoRows \<and> \<not> sure"
      if "fault_now w \<noteq> NoFault \<or> fault_now (tick w) \<noteq> NoFault"
      using that fault [OF w'] fault [of None "tick w"] w' p by auto
    fix n
    let ?w = "w\<lparr>tx := Some (sc, sc, db w), ticks := n\<rparr>"
    have h: "holds ?P (Some (sc, sc)) ?w" using w P by (simp add: holds_def process_pred_simps)
    then have t: "holds ?P (Some (sc, sc)) (tick ?w)" using p by simp
    have row: "k \<in> set (key_rotations (db w)) \<and> kr_scope k = sc" if "?rows = k # ks" for k ks
      using arg_cong [OF that, of set] by auto
    show "wp (query_row (\<lambda>w. filter (\<lambda>k. kr_scope k = sc) (key_rotations (db w))))
        (\<lambda>x t. holds ?P (Some (sc, sc)) t \<and> (x \<in> set (key_rotations (db w)) \<and> kr_scope x = sc)
           \<and> (fault_now t \<noteq> NoFault \<longrightarrow> ErrDb = ErrNoRows \<and> ?rows = [] \<or> ErrDb \<noteq> ErrNoRows \<and> \<not> sure))
        (\<lambda>e t. kept ?P (Some (sc, sc)) t \<and> (e = ErrNoRows \<and> ?rows = [] \<or> e \<noteq> ErrNoRows \<and> \<not> sure)) ?w"
    proof (cases "fault_now ?w = NoFault")
      case False
      then show ?thesis
        using fault [OF h] holds_kept [OF t] by (simp add: wp_query_row) blast
    next
      case True
      show ?thesis
      proof (cases ?rows)
        case Nil
        then show ?thesis
          using True holds_kept [OF t] by (simp add: wp_query_row)
      next
        case (Cons k ks)
        then show ?thesis
          using True t fault [OF t] row [OF Cons] by (simp add: wp_query_row) blast
      qed
    qed
  qed
  then show ?thesis
    unfolding Status_def wp_tryM
    by (rule wp_mono) (auto simp: wp_simps holds_def filter_empty_conv)
qed

lemma rot_state_cache:
  assumes "holds (rot_state R d0) None w" "holds (key_inv (rA R) (rK R) (rKeys R)) None t" "same_but_cache w t"
  shows "holds (rot_state R d0) None t"
  using assms
  by (simp add: holds_def rot_state_def rot_inv_step_def rot_inv_def same_but_cache_def calm_def)

lemma GetVersion_succeeds:
  assumes "holds (key_inv A K rows) sess w" "fault_now w = NoFault" "dek_in A K rows sc v \<noteq> None"
  shows "wp (GetVersion A sc v) (\<lambda>_ _. True) (\<lambda>_ _. False) w"
proof (cases "cache w (sc, v)")
  case (Some e)
  then show ?thesis by (simp add: GetVersion_def cached_def wp_simps)
next
  case None
  have rows: "scope_keys (db w) = rows" "kek w = K"
    using assms(1) by (auto simp: holds_def key_inv_def)
  obtain r rs k where "key_rows sc v (db w) = r # rs" "UnwrapDEK A K (sk_wrapped_dek r) = Inr k" "length k = 32"
    using assms(3) rows by (auto simp: dek_in_def key_rows_def split: list.splits sum.splits if_splits)
  then show ?thesis
    using None assms(2) rows
    by (simp add: GetVersion_def cached_def unwrap_def store_enc_def wp_simps NewEncryptor_def)
qed

lemma rot_GetVersion:
  assumes w: "holds (rot_state R d0) None w" and v: "v = rFv R \<and> e = rFrom R \<or> v = rTv R \<and> e = rTo R"
  shows "wp (GetVersion (rA R) (rScope R) v)
     (\<lambda>x t. holds (rot_state R d0) None t \<and> db t = db w \<and> x = e)
     (\<lambda>_ t. holds (rot_state R d0) None t \<and> db t = db w \<and> \<not> rSure R) w"
proof -
  have k: "holds (key_inv (rA R) (rK R) (rKeys R)) None w" and ok: "rotation_ok R"
    using w by (auto simp: holds_def rot_state_def rot_inv_step_def rot_inv_def)
  have dek: "rlookup R (rScope R) v = Some (dek_of e)"
    using ok v by (auto simp: rotation_ok_def)
  have spec: "wp (GetVersion (rA R) (rScope R) v)
     (\<lambda>x t. holds (rot_state R d0) None t \<and> db t = db w \<and> x = e)
     (\<lambda>_ t. holds (rot_state R d0) None t \<and> db t = db w) w"
    by (rule wp_mono [OF wp_GetVersion [OF k]])
      (use dek rot_state_cache [OF w] in \<open>auto simp: same_but_cache_def encryptor.expand\<close>)
  show ?thesis
  proof (cases "rSure R")
    case True
    then have "fault_now w = NoFault" using w rot_state_calm by (auto simp: holds_def)
    then have "wp (GetVersion (rA R) (rScope R) v) (\<lambda>_ _. True) (\<lambda>_ _. False) w"
      using GetVersion_succeeds [OF k] dek by simp
    from wp_conj [OF spec this] show ?thesis by (rule wp_mono) auto
  next
    case False
    then show ?thesis by (intro wp_mono [OF spec]) auto
  qed
qed

text \<open>\<open>Continue\<close> from a state whose progress row belongs to this rotation.\<close>

lemma Continue_ok:
  assumes w: "holds (rot_state R d0) None w"
    and row: "\<And>k. k \<in> set (key_rotations (db w)) \<Longrightarrow> kr_scope k = rScope R \<Longrightarrow>
                kr_from_version k = rFv R \<and> kr_to_version k = rTv R"
    and ex: "rSure R \<Longrightarrow> \<exists>k \<in> set (key_rotations (db w)). kr_scope k = rScope R"
  shows "wp (Continue (rA R) (rScope R) batchSize actor)
     (loop_post R d0 (pend_all R (db w))) (\<lambda>_. loop_fail R d0) w"
proof -
  have n: "nat (clampBatchSize batchSize) > 0"
    by (simp add: clampBatchSize_def MaxBatchSize_def)
  have loop: "wp (bindM (GetVersion (rA R) (rScope R) (rFv R)) (\<lambda>fromEnc.
      bindM (GetVersion (rA R) (rScope R) (rTv R)) (\<lambda>toEnc.
        continue_loop (rA R) (rScope R) fromEnc toEnc (rFv R) (rTv R) (nat (clampBatchSize batchSize)) actor table)))
      (loop_post R d0 (pend_all R (db w))) (\<lambda>_. loop_fail R d0) v"
    if v: "holds (rot_state R d0) None v" "db v = db w" and z: "rTrack R \<Longrightarrow> zero_before R table (db w)" for v table
    unfolding wp_bindM
  proof (rule wp_mono [OF rot_GetVersion [OF v(1), of "rFv R" "rFrom R"]])
    fix fe u
    assume u: "holds (rot_state R d0) None u \<and> db u = db v \<and> fe = rFrom R"
    show "wp (GetVersion (rA R) (rScope R) (rTv R)) (\<lambda>te. wp (continue_loop (rA R) (rScope R) fe te (rFv R) (rTv R)
        (nat (clampBatchSize batchSize)) actor table) (loop_post R d0 (pend_all R (db w))) (\<lambda>_. loop_fail R d0))
        (\<lambda>_. loop_fail R d0) u"
    proof (rule wp_mono [OF rot_GetVersion [of R d0 u "rTv R" "rTo R"]])
      fix te x
      assume x: "holds (rot_state R d0) None x \<and> db x = db u \<and> te = rTo R"
      then show "wp (continue_loop (rA R) (rScope R) fe te (rFv R) (rTv R)
          (nat (clampBatchSize batchSize)) actor table) (loop_post R d0 (pend_all R (db w))) (\<lambda>_. loop_fail R d0) x"
        using loop_ok [of R d0 x table, OF _ _ n, of actor] u v z by simp
    qed (use u in \<open>auto simp: loop_fail_def\<close>)
  qed (auto simp: loop_fail_def)
  show ?thesis
    unfolding Continue_def wp_bindM [of "Status _"]
  proof (rule wp_mono [OF wp_Status [OF rot_state_process w, where sure = "rSure R"]])
    fix r v
    assume v: "holds (rot_state R d0) None v \<and> db v = db w \<and>
        (case r of None \<Rightarrow> \<forall>k \<in> set (key_rotations (db w)). kr_scope k \<noteq> rScope R
         | Some k \<Rightarrow> k \<in> set (key_rotations (db w)) \<and> kr_scope k = rScope R)"
    show "wp (case r of None \<Rightarrow> errM ErrNoRotation
       | Some st \<Rightarrow> if kr_status st \<noteq> StatusInProgress then retM (0, True)
           else bindM (GetVersion (rA R) (rScope R) (kr_from_version st)) (\<lambda>fromEnc.
             bindM (GetVersion (rA R) (rScope R) (kr_to_version st)) (\<lambda>toEnc.
             continue_loop (rA R) (rScope R) fromEnc toEnc (kr_from_version st) (kr_to_version st)
               (nat (clampBatchSize batchSize)) actor (kr_cursor_table st))))
        (loop_post R d0 (pend_all R (db w))) (\<lambda>_. loop_fail R d0) v"
    proof (cases r)
      case None
      then show ?thesis using v ex by (auto simp: wp_errM loop_fail_def)
    next
      case (Some k)
      then have k: "k \<in> set (key_rotations (db w))" "kr_scope k = rScope R" using v by auto
      have p: "rTrack R \<Longrightarrow> (kr_status k = StatusInProgress \<longrightarrow> zero_before R (kr_cursor_table k) (db w))
          \<and> (kr_status k \<noteq> StatusInProgress \<longrightarrow> pend_all R (db w) = 0)"
        using w k by (simp add: holds_def rot_state_def progress_row_ok_def)
      show ?thesis
      proof (cases "kr_status k = StatusInProgress")
        case True
        then show ?thesis
          using Some row [OF k] loop [of v "kr_cursor_table k"] v p by simp
      next
        case False
        then show ?thesis
          using Some v p by (simp add: wp_retM loop_post_def)
      qed
    qed
  qed (auto simp: loop_fail_def rot_state_calm)
qed

section \<open>Properties\<close>

text \<open>What the theorems assume of a deployment: sound keys, a cache that agrees with them,
  primary keys, key facts in lockstep with their summaries, and progress rows that lead from a
  lower to a higher version.\<close>

definition deployment_ok :: "aead \<Rightarrow> world \<Rightarrow> bool" where
  "deployment_ok A w \<longleftrightarrow> aead_correct A \<and> tx w = None
     \<and> key_inv A (kek w) (scope_keys (db w)) w (db w)
     \<and> tables_ok (db w) \<and> facts_lockstep (db w)
     \<and> (\<forall>k \<in> set (key_rotations (db w)). kr_from_version k < kr_to_version k)"

abbreviation keys_of :: "aead \<Rightarrow> world \<Rightarrow> keys" where
  "keys_of A w \<equiv> dek_in A (kek w) (scope_keys (db w))"

definition rotation_of :: "aead \<Rightarrow> world \<Rightarrow> scope \<Rightarrow> nat \<Rightarrow> nat \<Rightarrow> bool \<Rightarrow> bool \<Rightarrow> rotation" where
  "rotation_of A w sc fv tv sure track = \<lparr>rA = A, rK = kek w, rKeys = scope_keys (db w), rScope = sc,
     rFrom = Encryptor (the (keys_of A w sc fv)), rTo = Encryptor (the (keys_of A w sc tv)),
     rFv = fv, rTv = tv, rSure = sure, rTrack = track\<rparr>"

lemma rotation_of_simps [simp]:
  "rA (rotation_of A w sc fv tv s t) = A" "rK (rotation_of A w sc fv tv s t) = kek w"
  "rKeys (rotation_of A w sc fv tv s t) = scope_keys (db w)" "rScope (rotation_of A w sc fv tv s t) = sc"
  "rFrom (rotation_of A w sc fv tv s t) = Encryptor (the (keys_of A w sc fv))"
  "rTo (rotation_of A w sc fv tv s t) = Encryptor (the (keys_of A w sc tv))"
  "rFv (rotation_of A w sc fv tv s t) = fv" "rTv (rotation_of A w sc fv tv s t) = tv"
  "rSure (rotation_of A w sc fv tv s t) = s" "rTrack (rotation_of A w sc fv tv s t) = t"
  by (simp_all add: rotation_of_def)

lemma rotation_start:
  assumes "deployment_ok A w" "keys_of A w sc fv \<noteq> None" "keys_of A w sc tv \<noteq> None" "fv \<noteq> tv"
    and "sure \<Longrightarrow> calm w \<and> readable A (keys_of A w) (db w)"
    and "track \<Longrightarrow> progress_row_ok (rotation_of A w sc fv tv sure track) (db w)"
  shows "holds (rot_state (rotation_of A w sc fv tv sure track) (db w)) None w"
  using assms
  by (auto simp: deployment_ok_def holds_def rot_state_def rot_inv_step_def rot_inv_def rotation_ok_def
      rotations_kept_def versions_kept_def)

text \<open>When the keys of the rotation are not both there, \<open>Continue\<close> does nothing.\<close>

lemma Continue_idle:
  assumes "deployment_ok A w"
    and "\<And>k. k \<in> set (key_rotations (db w)) \<Longrightarrow> kr_scope k = sc \<Longrightarrow>
           keys_of A w sc (kr_from_version k) = None \<or> keys_of A w sc (kr_to_version k) = None"
  shows "wp (Continue A sc batchSize actor)
     (\<lambda>_. holds (\<lambda>v d. key_inv A (kek w) (scope_keys (db w)) v d \<and> d = db w) None)
     (\<lambda>_. holds (\<lambda>v d. key_inv A (kek w) (scope_keys (db w)) v d \<and> d = db w) None) w"
proof -
  let ?P = "\<lambda>v d. key_inv A (kek w) (scope_keys (db w)) v d \<and> d = db w"
  have p: "process_pred ?P"
    using key_inv_process [of A "kek w" "scope_keys (db w)"] by (simp add: process_pred_def fun_eq_iff)
  have w: "holds ?P None w" using assms(1) by (simp add: deployment_ok_def holds_def)
  have get: "wp (GetVersion A sc v) (\<lambda>e t. holds ?P None t \<and> keys_of A w sc v \<noteq> None) (\<lambda>_ t. holds ?P None t) u"
    if "holds ?P None u" for u v
  proof -
    have "holds (key_inv A (kek w) (scope_keys (db w))) None u" using that by (auto simp: holds_def)
    from wp_GetVersion [OF this, of sc v] show ?thesis
      by (rule wp_mono) (use that in \<open>auto simp: holds_def same_but_cache_def\<close>)
  qed
  have body: "wp (bindM (GetVersion A sc fv) (\<lambda>fe. bindM (GetVersion A sc tv) (\<lambda>te. m fe te)))
       (\<lambda>_. holds ?P None) (\<lambda>_. holds ?P None) u"
    if "holds ?P None u" "keys_of A w sc fv = None \<or> keys_of A w sc tv = None" for u fv tv m
    unfolding wp_bindM
  proof (rule wp_mono [OF get [OF that(1)]])
    fix fe x
    assume x: "holds ?P None x \<and> keys_of A w sc fv \<noteq> None"
    show "wp (GetVersion A sc tv) (\<lambda>te. wp (m fe te) (\<lambda>_. holds ?P None) (\<lambda>_. holds ?P None))
        (\<lambda>_. holds ?P None) x"
      by (rule wp_mono [OF get]) (use x that(2) in auto)
  qed auto
  show ?thesis
    unfolding Continue_def wp_bindM [of "Status _"]
  proof (rule wp_mono [OF wp_Status [OF p w, where sure = False]])
    fix r v
    assume v: "holds ?P None v \<and> db v = db w \<and>
        (case r of None \<Rightarrow> \<forall>k \<in> set (key_rotations (db w)). kr_scope k \<noteq> sc
         | Some k \<Rightarrow> k \<in> set (key_rotations (db w)) \<and> kr_scope k = sc)"
    show "wp (case r of None \<Rightarrow> errM ErrNoRotation
       | Some st \<Rightarrow> if kr_status st \<noteq> StatusInProgress then retM (0, True)
           else bindM (GetVersion A sc (kr_from_version st)) (\<lambda>fromEnc.
             bindM (GetVersion A sc (kr_to_version st)) (\<lambda>toEnc.
             continue_loop A sc fromEnc toEnc (kr_from_version st) (kr_to_version st)
               (nat (clampBatchSize batchSize)) actor (kr_cursor_table st))))
        (\<lambda>_. holds ?P None) (\<lambda>_. holds ?P None) v"
    proof (cases r)
      case None
      then show ?thesis using v by (simp add: wp_errM)
    next
      case (Some k)
      then show ?thesis
        using v assms(2) [of k] body [of v "kr_from_version k" "kr_to_version k"
            "\<lambda>fromEnc toEnc. continue_loop A sc fromEnc toEnc (kr_from_version k) (kr_to_version k)
               (nat (clampBatchSize batchSize)) actor (kr_cursor_table k)"]
        by (simp add: wp_retM)
    qed
  qed simp_all
qed

lemma versions_kept_sound:
  assumes "versions_kept d d'" "\<forall>k \<in> set (key_rotations d). kr_from_version k < kr_to_version k"
  shows "\<forall>k \<in> set (key_rotations d'). kr_from_version k < kr_to_version k"
proof
  fix k
  assume "k \<in> set (key_rotations d')"
  then have "(kr_scope k, kr_from_version k, kr_to_version k) \<in>
      (\<lambda>k. (kr_scope k, kr_from_version k, kr_to_version k)) ` set (key_rotations d')"
    by simp
  also have "\<dots> = (\<lambda>k. (kr_scope k, kr_from_version k, kr_to_version k)) ` set (key_rotations d)"
    using arg_cong [OF assms(1) [unfolded versions_kept_def], of set] by simp
  finally show "kr_from_version k < kr_to_version k"
    using assms(2) by auto
qed

lemma rot_state_result:
  assumes "holds (rot_state R (db w)) None t" "deployment_ok A w" "R = rotation_of A w sc fv tv s tr"
  shows "same_content A (keys_of A w) (db w) (db t) \<and> deployment_ok A t \<and> keys_of A t = keys_of A w"
proof -
  have inv: "rot_inv R (db w\<lparr>key_rotations := key_rotations (db t)\<rparr>) t (db t)" "facts_lockstep (db t)"
    "versions_kept (db w) (db t)" "tx t = None"
    using assms(1) by (auto simp: holds_def rot_state_def rot_inv_step_def)
  have "same_content A (keys_of A w) (db w) (db t)"
    using inv(1) assms(3) by (simp add: rot_inv_def same_content_def other_tables_def)
  moreover have "deployment_ok A t"
    using inv assms(2,3) versions_kept_sound [OF inv(3)]
    by (auto simp: deployment_ok_def rot_inv_def key_inv_def)
  moreover have "keys_of A t = keys_of A w"
    using inv(1) assms(3) by (auto simp: rot_inv_def key_inv_def rotation_of_def)
  ultimately show ?thesis by simp
qed

text \<open>A scope with two key versions and a rotation from the first to the second under way, its rows
  on the first.\<close>

definition rotating :: world where
  "rotating = sample_world 1 [1, 2] [sample_rotation 1 StatusInProgress]"

lemma sample_deployment:
  assumes "keys_ok prefix_aead (replicate 32 CHR ''k'') (scope_keys (sample_db v vs ks))"
    "tables_ok (sample_db v vs ks)" "facts_lockstep (sample_db v vs ks)"
    "list_all (\<lambda>k. kr_from_version k < kr_to_version k) ks"
  shows "deployment_ok prefix_aead (sample_world v vs ks)"
proof -
  have "key_rotations (sample_db v vs ks) = ks" by (simp add: sample_db_def)
  then show ?thesis
    using assms prefix_aead_correct by (simp add: deployment_ok_def key_inv_def sample_world_simps list_all_iff)
qed

lemma rotating_ok: "deployment_ok prefix_aead rotating"
  unfolding rotating_def by (rule sample_deployment; code_simp)

text \<open>
  C1. A rotation never changes what is stored. However \<open>Continue\<close> ends, with a value or an error,
  whatever statements or commits failed on the way (a commit whose acknowledgement was lost
  included), every episode, summary, key fact and entity decrypts under its recorded key version
  to what it decrypted to before, every other column and table is unchanged, and the deployment
  is again one the next call may run on.
\<close>

theorem Continue_keeps_content:
  assumes "deployment_ok A w" "Continue A sc batchSize actor w = (r, w')"
  shows "same_content A (dek_in A (kek w) (scope_keys (db w))) (db w) (db w') \<and> deployment_ok A w'"
proof (cases "\<exists>k \<in> set (key_rotations (db w)). kr_scope k = sc
    \<and> keys_of A w sc (kr_from_version k) \<noteq> None \<and> keys_of A w sc (kr_to_version k) \<noteq> None")
  case True
  then obtain k where k: "k \<in> set (key_rotations (db w))" "kr_scope k = sc"
    "keys_of A w sc (kr_from_version k) \<noteq> None" "keys_of A w sc (kr_to_version k) \<noteq> None"
    by blast
  let ?R = "rotation_of A w sc (kr_from_version k) (kr_to_version k) False False"
  have ne: "kr_from_version k \<noteq> kr_to_version k"
    using assms(1) k(1) by (auto simp: deployment_ok_def)
  have start: "holds (rot_state ?R (db w)) None w"
    by (rule rotation_start [OF assms(1) k(3,4) ne]) simp_all
  have row: "j = k" if "j \<in> set (key_rotations (db w))" "kr_scope j = sc" for j
    using assms(1) that k(1,2) distinct_map_unique [of kr_scope "key_rotations (db w)" j k]
    by (simp add: deployment_ok_def tables_ok_def)
  have "wp (Continue A sc batchSize actor) (\<lambda>_. holds (rot_state ?R (db w)) None)
      (\<lambda>_. holds (rot_state ?R (db w)) None) w"
    using Continue_ok [OF start, of batchSize actor] row
    by (simp, elim wp_mono) (auto simp: loop_post_def loop_fail_def)
  from wpD_snd [OF this] have "holds (rot_state ?R (db w)) None w'"
    by (simp add: assms(2))
  then show ?thesis
    using rot_state_result [OF _ assms(1) refl] by blast
next
  case False
  then have "wp (Continue A sc batchSize actor)
     (\<lambda>_. holds (\<lambda>v d. key_inv A (kek w) (scope_keys (db w)) v d \<and> d = db w) None)
     (\<lambda>_. holds (\<lambda>v d. key_inv A (kek w) (scope_keys (db w)) v d \<and> d = db w) None) w"
    by (intro Continue_idle [OF assms(1)]) blast
  from wpD_snd [OF this] have "holds (\<lambda>v d. key_inv A (kek w) (scope_keys (db w)) v d \<and> d = db w) None w'"
    by (simp add: assms(2))
  then have "db w' = db w" "key_inv A (kek w) (scope_keys (db w)) w' (db w)" "tx w' = None"
    by (auto simp: holds_def)
  then show ?thesis
    using assms(1) by (simp add: deployment_ok_def key_inv_def)
qed

theorem Continue_keeps_content_witness:
  "same_content prefix_aead (dek_in prefix_aead (kek rotating) (scope_keys (db rotating))) (db rotating)
     (db (snd (Continue prefix_aead DefaultScope 1 ''ops'' rotating)))
   \<and> map ep_key_version (episodes (db (snd (Continue prefix_aead DefaultScope 1 ''ops'' rotating)))) = [2]"
proof
  show "same_content prefix_aead (dek_in prefix_aead (kek rotating) (scope_keys (db rotating))) (db rotating)
     (db (snd (Continue prefix_aead DefaultScope 1 ''ops'' rotating)))"
    using Continue_keeps_content [OF rotating_ok prod.collapse [symmetric]] by blast
  show "map ep_key_version (episodes (db (snd (Continue prefix_aead DefaultScope 1 ''ops'' rotating)))) = [2]"
    by code_simp
qed

text \<open>The rows of a scope that are still on a version, per table.\<close>

definition old_episodes :: "scope \<Rightarrow> nat \<Rightarrow> database \<Rightarrow> nat" where
  "old_episodes sc v d = length (filter (\<lambda>e. ep_scope e = sc \<and> ep_key_version e = v) (episodes d))"

definition old_summaries :: "scope \<Rightarrow> nat \<Rightarrow> database \<Rightarrow> nat" where
  "old_summaries sc v d = length (filter (\<lambda>s. sum_scope s = sc \<and> sum_key_version s = v) (summaries d))"

definition old_entities :: "scope \<Rightarrow> nat \<Rightarrow> database \<Rightarrow> nat" where
  "old_entities sc v d = length (filter (\<lambda>e. en_scope e = sc \<and> en_key_version e = v) (entities d))"

definition old_rows :: "scope \<Rightarrow> nat \<Rightarrow> database \<Rightarrow> nat" where
  "old_rows sc v d = old_episodes sc v d + old_summaries sc v d + old_entities sc v d"

text \<open>The progress row tells the truth: the tables before its cursor have no row on the old
  version, and none has one when it is no longer in progress.\<close>

definition cursor_true :: "scope \<Rightarrow> nat \<Rightarrow> string \<Rightarrow> database \<Rightarrow> bool" where
  "cursor_true sc v table d \<longleftrightarrow>
     (table = ''episodes'')
     \<or> (table = ''summaries'' \<and> old_episodes sc v d = 0)
     \<or> (table = ''entities'' \<and> old_episodes sc v d = 0 \<and> old_summaries sc v d = 0)
     \<or> (table = ''done'' \<and> old_rows sc v d = 0)"

definition progress_true :: "scope \<Rightarrow> database \<Rightarrow> bool" where
  "progress_true sc d \<longleftrightarrow> (\<forall>k \<in> set (key_rotations d). kr_scope k = sc \<longrightarrow>
     (if kr_status k = StatusInProgress then cursor_true sc (kr_from_version k) (kr_cursor_table k) d
      else old_rows sc (kr_from_version k) d = 0))"

lemma pend_old:
  "pend_all R d = old_rows (rScope R) (rFv R) d"
  "zero_before R t d = cursor_true (rScope R) (rFv R) t d"
  by (simp_all add: pend_all_def zero_before_def pend_ep_def pend_sum_def pend_en_def cursor_true_def
      old_rows_def old_episodes_def old_summaries_def old_entities_def ep_pending_def [abs_def]
      sum_pending_def [abs_def] en_pending_def [abs_def])

lemma progress_row_true:
  assumes "k \<in> set (key_rotations d)" "kr_scope k = sc" "distinct (map kr_scope (key_rotations d))"
    and "rScope R = sc" "rFv R = kr_from_version k" "rTv R = kr_to_version k"
  shows "progress_row_ok R d \<longleftrightarrow> progress_true sc d"
proof -
  have u: "j = k" if "j \<in> set (key_rotations d)" "kr_scope j = sc" for j
    using that assms(1-3) distinct_map_unique [of kr_scope "key_rotations d" j k] by simp
  have row: "(\<forall>j \<in> set (key_rotations d). kr_scope j = sc \<longrightarrow> Q j) = Q k" for Q
    using u assms(1,2) by blast
  show ?thesis
    unfolding progress_row_ok_def progress_true_def pend_old assms(4) row using assms(5,6) by simp
qed

lemma versions_kept_row:
  assumes "versions_kept d d'" "k \<in> set (key_rotations d)"
  obtains k' where "k' \<in> set (key_rotations d')" "kr_scope k' = kr_scope k"
    "kr_from_version k' = kr_from_version k" "kr_to_version k' = kr_to_version k"
proof -
  have "(kr_scope k, kr_from_version k, kr_to_version k) \<in>
      (\<lambda>k. (kr_scope k, kr_from_version k, kr_to_version k)) ` set (key_rotations d)"
    using assms(2) by simp
  also have "\<dots> = (\<lambda>k. (kr_scope k, kr_from_version k, kr_to_version k)) ` set (key_rotations d')"
    using arg_cong [OF assms(1) [unfolded versions_kept_def], of set] by simp
  finally show thesis using that by auto
qed

text \<open>A rotation of the deployment \<open>w\<close> that is under way, with both its keys.\<close>

definition rotation_row :: "aead \<Rightarrow> scope \<Rightarrow> world \<Rightarrow> key_rotation \<Rightarrow> bool" where
  "rotation_row A sc w k \<longleftrightarrow> k \<in> set (key_rotations (db w)) \<and> kr_scope k = sc
     \<and> keys_of A w sc (kr_from_version k) \<noteq> None \<and> keys_of A w sc (kr_to_version k) \<noteq> None"

lemma rotation_row_start:
  assumes "deployment_ok A w" "rotation_row A sc w k" "progress_true sc (db w)"
    and "sure \<Longrightarrow> calm w \<and> readable A (keys_of A w) (db w)"
  shows "holds (rot_state (rotation_of A w sc (kr_from_version k) (kr_to_version k) sure True) (db w)) None w"
proof (rule rotation_start [OF assms(1)])
  show "keys_of A w sc (kr_from_version k) \<noteq> None" "keys_of A w sc (kr_to_version k) \<noteq> None"
    using assms(2) by (simp_all add: rotation_row_def)
  show "kr_from_version k \<noteq> kr_to_version k"
    using assms(1,2) by (auto simp: deployment_ok_def rotation_row_def)
  show "progress_row_ok (rotation_of A w sc (kr_from_version k) (kr_to_version k) sure True) (db w)"
    using assms progress_row_true [of k "db w" sc "rotation_of A w sc (kr_from_version k) (kr_to_version k) sure True"]
    by (simp add: rotation_row_def deployment_ok_def tables_ok_def)
qed (use assms(4) in simp)

lemma rot_state_rows:
  assumes "holds (rot_state R d0) None t" "rTrack R"
    and "k \<in> set (key_rotations d0)" "kr_scope k = rScope R"
  shows "\<And>j. j \<in> set (key_rotations (db t)) \<Longrightarrow> kr_scope j = rScope R \<Longrightarrow>
           kr_from_version j = rFv R \<and> kr_to_version j = rTv R"
    "\<exists>j \<in> set (key_rotations (db t)). kr_scope j = rScope R"
proof -
  have t: "progress_row_ok R (db t)" "versions_kept d0 (db t)"
    using assms(1,2) by (simp_all add: holds_def rot_state_def)
  show "kr_from_version j = rFv R \<and> kr_to_version j = rTv R"
    if "j \<in> set (key_rotations (db t))" "kr_scope j = rScope R" for j
    using t(1) that by (simp add: progress_row_ok_def)
  show "\<exists>j \<in> set (key_rotations (db t)). kr_scope j = rScope R"
    using versions_kept_row [OF t(2) assms(3)] assms(4) by metis
qed

text \<open>
  C2. Rotation resumes safely: from a deployment whose progress row is truthful, whatever
  happens during a \<open>Continue\<close> its progress row is truthful afterwards, so a crashed or failed
  rotation can be continued from there; and when \<open>Continue\<close> reports \<open>done\<close> no episode, summary or
  entity of the scope is on the old version, nor any key fact of the scope.
\<close>

theorem Continue_progress:
  assumes "deployment_ok A w" "rotation_row A sc w k" "progress_true sc (db w)"
    and "Continue A sc batchSize actor w = (r, w')"
  shows "progress_true sc (db w')
     \<and> (case r of Inr (n, True) \<Rightarrow> old_rows sc (kr_from_version k) (db w') = 0
          \<and> list_all (\<lambda>f. kf_scope f \<noteq> sc \<or> kf_key_version f \<noteq> kr_from_version k) (summary_key_facts (db w'))
        | _ \<Rightarrow> True)"
proof -
  let ?R = "rotation_of A w sc (kr_from_version k) (kr_to_version k) False True"
  have start: "holds (rot_state ?R (db w)) None w"
    by (rule rotation_row_start [OF assms(1-3)]) simp
  have k: "k \<in> set (key_rotations (db w))" "kr_scope k = sc"
    using assms(2) by (simp_all add: rotation_row_def)
  have spec: "wp (Continue A sc batchSize actor) (loop_post ?R (db w) (pend_all ?R (db w)))
      (\<lambda>_. loop_fail ?R (db w)) w"
    using Continue_ok [OF start rot_state_rows(1) [OF start _ k(1)], of batchSize actor] k(2) by simp
  have hold: "holds (rot_state ?R (db w)) None w'"
    using spec assms(4) by (auto simp: wp_def loop_post_def loop_fail_def split: sum.splits)
  then have prow: "progress_row_ok ?R (db w')" "distinct (map kr_scope (key_rotations (db w')))"
    "facts_lockstep (db w')" "versions_kept (db w) (db w')"
    by (simp_all add: holds_def rot_state_def rot_inv_step_def rot_inv_def tables_ok_def)
  obtain k' where k': "k' \<in> set (key_rotations (db w'))" "kr_scope k' = kr_scope k"
    "kr_from_version k' = kr_from_version k" "kr_to_version k' = kr_to_version k"
    by (rule versions_kept_row [OF prow(4) k(1)])
  have "progress_true sc (db w')"
    using progress_row_true [of k' "db w'" sc ?R] k' k(2) prow(1,2) by simp
  moreover have "old_rows sc (kr_from_version k) (db w') = 0" if "r = Inr (n, True)" for n
    using spec assms(4) that by (simp add: wp_def loop_post_def pend_old)
  moreover have "list_all (\<lambda>f. kf_scope f \<noteq> sc \<or> kf_key_version f \<noteq> kr_from_version k) (summary_key_facts (db w'))"
    if "old_rows sc (kr_from_version k) (db w') = 0"
    using that prow(3)
    by (fastforce simp: list_all_iff facts_lockstep_def old_rows_def old_summaries_def filter_empty_conv)
  ultimately show ?thesis
    by (auto split: sum.splits bool.splits)
qed

lemma rotating_progress:
  "rotation_row prefix_aead DefaultScope rotating (sample_rotation 1 StatusInProgress)"
  "progress_true DefaultScope (db rotating)"
  by code_simp+

theorem Continue_progress_witness:
  "case Continue prefix_aead DefaultScope 10 ''ops'' rotating of (r, w') \<Rightarrow>
     progress_true DefaultScope (db w')"
  using Continue_progress [OF rotating_ok rotating_progress prod.collapse [symmetric], of 10 "''ops''"]
  by (simp add: split_def)

lemma rotate_loop_ok:
  assumes R: "rSure R" "rTrack R" and k: "k \<in> set (key_rotations d0)" "kr_scope k = rScope R"
    and v: "holds (rot_state R d0) None v" "pend_all R (db v) < fuel"
  shows "wp (rotate_loop (rA R) (rScope R) batchSize actor fuel m)
     (\<lambda>r t. r \<noteq> None \<and> holds (rot_state R d0) None t \<and> pend_all R (db t) = 0) (\<lambda>_ _. False) v"
  using v
proof (induction fuel arbitrary: m v)
  case (Suc fuel)
  have "wp (Continue (rA R) (rScope R) batchSize actor) (loop_post R d0 (pend_all R (db v)))
      (\<lambda>_ _. False) v"
    by (rule wp_mono [OF Continue_ok [OF Suc.prems(1)]])
      (use R rot_state_rows [OF Suc.prems(1) R(2) k] in \<open>auto simp: loop_fail_def\<close>)
  then show ?case
    unfolding rotate_loop.simps wp_bindM
  proof (rule wp_mono)
    fix x t
    assume x: "loop_post R d0 (pend_all R (db v)) x t"
    obtain n fin where xf: "x = (n, fin)" by (cases x)
    show "wp (case x of (processed, fin) \<Rightarrow> if fin then retM (Some (m + processed))
        else rotate_loop (rA R) (rScope R) batchSize actor fuel (m + processed))
        (\<lambda>r t. r \<noteq> None \<and> holds (rot_state R d0) None t \<and> pend_all R (db t) = 0) (\<lambda>_ _. False) t"
    proof (cases fin)
      case True
      then show ?thesis using x xf R by (simp add: wp_retM loop_post_def)
    next
      case False
      then have "pend_all R (db t) < fuel" "holds (rot_state R d0) None t"
        using x xf Suc.prems(2) by (auto simp: loop_post_def)
      then show ?thesis using Suc.IH xf False by simp
    qed
  qed
qed simp

lemma rotate_loop_done:
  assumes "deployment_ok A w" "rotation_row A sc w k" "progress_true sc (db w)"
    and "calm w" "readable A (keys_of A w) (db w)"
    and "old_rows sc (kr_from_version k) (db w) < fuel"
  shows "\<exists>n w'. rotate_loop A sc batchSize actor fuel 0 w = (Inr (Some n), w')
     \<and> old_rows sc (kr_from_version k) (db w') = 0
     \<and> same_content A (keys_of A w) (db w) (db w') \<and> deployment_ok A w' \<and> keys_of A w' = keys_of A w"
proof -
  let ?R = "rotation_of A w sc (kr_from_version k) (kr_to_version k) True True"
  have start: "holds (rot_state ?R (db w)) None w"
    by (rule rotation_row_start [OF assms(1-3)]) (use assms(4,5) in simp)
  have k: "k \<in> set (key_rotations (db w))" "kr_scope k = rScope ?R"
    using assms(2) by (simp_all add: rotation_row_def)
  have "wp (rotate_loop A sc batchSize actor fuel 0)
     (\<lambda>r t. r \<noteq> None \<and> holds (rot_state ?R (db w)) None t \<and> pend_all ?R (db t) = 0) (\<lambda>_ _. False) w"
    using rotate_loop_ok [OF _ _ k start, of fuel batchSize actor 0] assms(6) by (simp add: pend_old)
  then obtain n w' where r: "rotate_loop A sc batchSize actor fuel 0 w = (Inr (Some n), w')"
    "holds (rot_state ?R (db w)) None w'" "pend_all ?R (db w') = 0"
    by (auto simp: wp_def split: prod.splits sum.splits)
  then show ?thesis
    using rot_state_result [OF r(2) assms(1) refl] by (auto simp: pend_old)
qed

text \<open>
  Rotation ends: without faults and with readable rows, the loop of \<open>hupi-rotate-key\<close> stops
  after at most one call of \<open>Continue\<close> per row still on the old version and one more, whatever
  batch size was asked for, and leaves no row on the old version and all content as it was.
\<close>

lemma rotate_loop_completes:
  assumes "deployment_ok A w" "rotation_row A sc w k" "progress_true sc (db w)"
    and "calm w" "readable A (dek_in A (kek w) (scope_keys (db w))) (db w)"
    and "old_rows sc (kr_from_version k) (db w) < fuel"
  shows "\<exists>n w'. rotate_loop A sc batchSize actor fuel 0 w = (Inr (Some n), w')
     \<and> old_rows sc (kr_from_version k) (db w') = 0
     \<and> same_content A (dek_in A (kek w) (scope_keys (db w))) (db w) (db w')"
  using rotate_loop_done [OF assms] by blast

lemma rotate_loop_completes_witness:
  "\<exists>n w'. rotate_loop prefix_aead DefaultScope 1 ''ops'' 4 0 rotating = (Inr (Some n), w')
     \<and> old_rows DefaultScope 1 (db rotating) = 3 \<and> old_rows DefaultScope 1 (db w') = 0
     \<and> same_content prefix_aead (dek_in prefix_aead (kek rotating) (scope_keys (db rotating))) (db rotating) (db w')"
proof -
  have c: "calm rotating" by (simp add: calm_def rotating_def sample_world_def init_world_def)
  have r: "readable prefix_aead (dek_in prefix_aead (kek rotating) (scope_keys (db rotating))) (db rotating)"
    by (simp add: readable_def list_all_iff is_ok_def [symmetric]) code_simp
  have "old_rows DefaultScope 1 (db rotating) = 3" by code_simp
  moreover have "kr_from_version (sample_rotation 1 StatusInProgress) = 1" by (simp add: sample_rotation_def)
  ultimately show ?thesis
    using rotate_loop_completes [OF rotating_ok rotating_progress c r, of 4 1 "''ops''"] by simp
qed

end
