(* ===== verification/Rotate_Run.thy ===== *)
theory Rotate_Run
  imports Rotate_Correct
begin

text \<open>
  Starting, running and pruning a rotation: what \<open>Start\<close> sets up, that a whole run of
  \<open>hupi-rotate-key\<close> moves a scope to its next key version, and that \<open>Prune\<close> removes only keys
  no row needs.
\<close>

declare One_nat_def [simp del]

section \<open>Start\<close>

lemma wp_with_lock:
  assumes "\<And>x t. Q x t \<Longrightarrow> Q x (tick t)" "\<And>e t. E e t \<Longrightarrow> E e (tick t)"
    and "E ErrDb (tick w)" "E ErrDb (tick (tick w))" "wp m Q E (tick (tick w))"
  shows "wp (with_lock m) Q E w"
proof -
  have "wp m (\<lambda>x. wp (tryM (query (\<lambda>_. ())) (\<lambda>_. liftM (Inr x))) Q E)
      (\<lambda>e. wp (tryM (query (\<lambda>_. ())) (\<lambda>_. liftM (Inl e))) Q E) (tick (tick w))"
    using assms(5) by (rule wp_mono) (simp_all add: wp_simps assms(1,2))
  then show ?thesis
    using assms(3,4) by (simp add: with_lock_def wp_simps)
qed

text \<open>
  Where \<open>Start\<close> may leave the database: the keys the scope had, possibly one more version, the
  data tables untouched, and the progress rows as before or with the new rotation.
\<close>

definition new_rotation :: "scope \<Rightarrow> nat \<Rightarrow> time \<Rightarrow> key_rotation" where
  "new_rotation sc v now = \<lparr>kr_scope = sc, kr_from_version = v, kr_to_version = v + 1,
     kr_status = StatusInProgress, kr_cursor_table = ''episodes'', kr_cursor_id = [],
     kr_started_at = now, kr_completed_at = None\<rparr>"

definition data_untouched :: "database \<Rightarrow> database \<Rightarrow> bool" where
  "data_untouched d d' \<longleftrightarrow>
     d'\<lparr>scope_keys := [], key_rotations := [], audit_log := []\<rparr> =
     d\<lparr>scope_keys := [], key_rotations := [], audit_log := []\<rparr>"

lemma wp_audit_Write:
  assumes P: "process_pred P" and v: "holds P (Some (a, ws)) v"
    and e: "ActingScope e = a" "WorkspaceScope e = ws"
    and l: "\<And>d l. P v d \<Longrightarrow> P v (d\<lparr>audit_log := l\<rparr>)"
  shows "wp (audit_Write e)
     (\<lambda>_ t. holds P (Some (a, ws)) t \<and> (\<exists>l. db t = (db v)\<lparr>audit_log := l\<rparr>))
     (\<lambda>_ t. kept P (Some (a, ws)) t \<and> fault_now v \<noteq> NoFault) v"
proof -
  have pol: "audit_policy v e"
    using v e by (auto simp: holds_def session_def audit_policy_def)
  have "holds P (Some (a, ws)) (map_db (\<lambda>_. (db v)\<lparr>audit_log := l'\<rparr>) (tick v))" for l'
    by (rule holds_map_db [OF P v]) (use v l in \<open>simp add: holds_def\<close>)
  then show ?thesis
    using pol P holds_kept [OF v]
    by (auto simp: audit_Write_def wp_exec_check wp_exec holds_kept split: fault.splits)
qed

definition start_frame :: "aead \<Rightarrow> scope \<Rightarrow> world \<Rightarrow> world \<Rightarrow> bool" where
  "start_frame A sc w t \<longleftrightarrow>
     holds (key_inv A (kek w) (scope_keys (db t))) None t
     \<and> keys_grown (scope_keys (db w)) (scope_keys (db t)) sc (current_version sc (db w) + 1)
     \<and> data_untouched (db w) (db t) \<and> faults t = faults w \<and> rand_ok t = rand_ok w
     \<and> (key_rotations (db t) = key_rotations (db w)
        \<or> key_rotations (db t) =
            key_rotations (upsert_rotation (new_rotation sc (current_version sc (db w)) (clock w)) (db w)))"

definition started :: "aead \<Rightarrow> scope \<Rightarrow> world \<Rightarrow> world \<Rightarrow> bool" where
  "started A sc w t \<longleftrightarrow> start_frame A sc w t \<and> current_version sc (db w) > 0
     \<and> dek_in A (kek w) (scope_keys (db t)) sc (current_version sc (db w) + 1) \<noteq> None
     \<and> key_rotations (db t) =
            key_rotations (upsert_rotation (new_rotation sc (current_version sc (db w)) (clock w)) (db w))"

lemma key_inv_tick: "holds (key_inv A K rows) sess (tick t) = holds (key_inv A K rows) sess t"
  by (simp add: key_inv_process)

lemma start_frame_tick: "start_frame A sc w t \<Longrightarrow> start_frame A sc w (tick t)"
  by (simp add: start_frame_def key_inv_tick)

lemma upsert_rotations_only:
  "data_untouched d d' \<Longrightarrow> key_rotations d' = key_rotations d \<Longrightarrow>
     key_rotations (upsert_rotation k d') = key_rotations (upsert_rotation k d)"
  by (simp add: upsert_rotation_def)

lemma start_write_ok:
  assumes t: "holds (key_inv A (kek w) rows') None t" and only: "only_keys w t"
    and grown: "keys_grown (scope_keys (db w)) rows' sc (v + 1)"
    and dek: "dek_in A (kek w) rows' sc (v + 1) \<noteq> None" and v: "v = current_version sc (db w)" "v > 0"
  shows "wp (Run sc sc (
         bindM (exec (\<lambda>w. upsert_rotation \<lparr>kr_scope = sc, kr_from_version = v,
             kr_to_version = v + 1, kr_status = StatusInProgress, kr_cursor_table = ''episodes'',
             kr_cursor_id = [], kr_started_at = clock w, kr_completed_at = None\<rparr>)) (\<lambda>_.
         audit_Write (rotation_event sc actor detail))))
       (\<lambda>_ t. started A sc w t) (\<lambda>_ t. start_frame A sc w t) t"
proof -
  let ?new = "key_rotations (upsert_rotation (new_rotation sc v (clock w)) (db w))"
  define P where "P = (\<lambda>(u :: world) (d :: database). key_inv A (kek w) rows' u d \<and> clock u = clock w \<and> faults u = faults w \<and> rand_ok u = rand_ok w
     \<and> data_untouched (db w) d
     \<and> (key_rotations d = key_rotations (db w) \<or> key_rotations d = ?new))"
  have p: "process_pred P"
    using key_inv_process [of A "kek w" rows'] by (simp add: P_def process_pred_def fun_eq_iff)
  have dbt: "db t = (db w)\<lparr>scope_keys := rows'\<rparr>"
    using only holds_rows [OF t] by (simp add: only_keys_def)
  have start: "holds P None t"
    using t only dbt by (simp add: P_def holds_def only_keys_def data_untouched_def)
  have new: "key_rotations (upsert_rotation (new_rotation sc v (clock w)) d) = ?new"
    if "key_rotations d = key_rotations (db w)" for d :: database
    using that by (simp add: upsert_rotation_def)
  have "wp (Run sc sc (
         bindM (exec (\<lambda>w. upsert_rotation (new_rotation sc v (clock w)))) (\<lambda>_.
         audit_Write (rotation_event sc actor detail))))
       (\<lambda>_ t. holds P None t \<and> key_rotations (db t) = ?new) (\<lambda>_ t. holds P None t \<and> True) t"
  proof (rule wp_Run_result [OF p start])
    fix n
    let ?t = "t\<lparr>tx := Some (sc, sc, db t), ticks := n\<rparr>"
    have h: "holds P (Some (sc, sc)) ?t" by (rule holds_begin [OF p start])
    let ?u = "map_db (upsert_rotation (new_rotation sc v (clock w))) (tick ?t)"
    have same: "key_rotations (db t) = key_rotations (db w)" using dbt by simp
    have "P ?t (upsert_rotation (new_rotation sc v (clock w)) (db t))"
      using h new [OF same] by (simp add: P_def holds_def key_inv_def data_untouched_def upsert_rotation_def)
    then have u: "holds P (Some (sc, sc)) ?u"
      by (intro holds_map_db [OF p h]) simp
    have nu: "key_rotations (db ?u) = ?new" using new [OF same] by simp
    have closed: "P ?u (d\<lparr>audit_log := l\<rparr>)" if "P ?u d" for d l
      using that by (simp add: P_def key_inv_def data_untouched_def)
    have "wp (audit_Write (rotation_event sc actor detail))
       (\<lambda>_ t. holds P (Some (sc, sc)) t \<and> key_rotations (db t) = ?new) (\<lambda>_ t. kept P (Some (sc, sc)) t) ?u"
    proof (rule wp_mono [OF wp_audit_Write [OF p u _ _ closed]])
      fix x y
      assume y: "holds P (Some (sc, sc)) y \<and> (\<exists>l. db y = (db ?u)\<lparr>audit_log := l\<rparr>)"
      then obtain l where "db y = (db ?u)\<lparr>audit_log := l\<rparr>" by blast
      then have "key_rotations (db y) = key_rotations (db ?u)" by simp
      then show "holds P (Some (sc, sc)) y \<and> key_rotations (db y) = ?new" using y nu by simp
    qed (simp_all add: rotation_event_def)
    moreover have "clock ?t = clock w" using only by (simp add: only_keys_def)
    ultimately show "wp (bindM (exec (\<lambda>w. upsert_rotation (new_rotation sc v (clock w)))) (\<lambda>_.
         audit_Write (rotation_event sc actor detail)))
       (\<lambda>x t. holds P (Some (sc, sc)) t \<and> key_rotations (db t) = ?new \<and> (fault_now t \<noteq> NoFault \<longrightarrow> True))
       (\<lambda>_ t. kept P (Some (sc, sc)) t \<and> True) ?t"
      using holds_kept [OF h] holds_kept [OF u] p by (simp add: wp_simps split: fault.splits)
  qed simp
  then show ?thesis
    unfolding new_rotation_def [symmetric]
    using dek v grown dbt
    by (elim wp_mono)
      (simp_all add: P_def started_def start_frame_def holds_def key_inv_def)
qed

lemma start_new_ok:
  assumes A: "aead_correct A" and w: "holds (key_inv A (kek w) (scope_keys (db w))) None w"
  shows "wp (start_new A sc actor)
     (\<lambda>(f, t) u. started A sc w u \<and> f = current_version sc (db w) \<and> t = f + 1) (\<lambda>_ u. start_frame A sc w u) w"
proof -
  let ?v = "current_version sc (db w)"
  have frame0: "start_frame A sc w u" if "holds (key_inv A (kek w) (scope_keys (db w))) None u" "db u = db w"
    "faults u = faults w" "rand_ok u = rand_ok w" for u
    using that by (simp add: start_frame_def data_untouched_def)
  have t: "holds (key_inv A (kek w) (scope_keys (db w))) None (tick w)" using w by (simp add: key_inv_tick)
  have tt: "holds (key_inv A (kek w) (scope_keys (db w))) None (tick (tick w))" using t by (simp add: key_inv_tick)
  have create: "wp (bindM (createVersion A sc (?v + 1)) (\<lambda>toVersion.
       bindM (Run sc sc (
         bindM (exec (\<lambda>w. upsert_rotation \<lparr>kr_scope = sc, kr_from_version = ?v,
             kr_to_version = toVersion, kr_status = StatusInProgress, kr_cursor_table = ''episodes'',
             kr_cursor_id = [], kr_started_at = clock w, kr_completed_at = None\<rparr>)) (\<lambda>_.
         audit_Write (rotation_event sc actor (detail toVersion))))) (\<lambda>_.
       retM (?v, toVersion))))
     (\<lambda>(f, t) u. started A sc w u \<and> f = ?v \<and> t = f + 1) (\<lambda>_ u. start_frame A sc w u) (tick (tick w))"
    if v: "?v > 0" for detail
    unfolding wp_bindM [of "createVersion _ _ _"]
  proof (rule wp_mono [OF wp_createVersion [OF A tt]])
    fix x u
    assume x: "x = ?v + 1 \<and> key_added A (kek w) (scope_keys (db w)) None sc (?v + 1) (tick (tick w)) u"
    then obtain rows' where r: "holds (key_inv A (kek w) rows') None u" "keys_grown (scope_keys (db w)) rows' sc (?v + 1)"
      "dek_in A (kek w) rows' sc (?v + 1) \<noteq> None" "only_keys (tick (tick w)) u"
      by (auto simp: key_added_def)
    have only: "only_keys w u" using r(4) by (simp add: only_keys_def)
    show "wp (bindM (Run sc sc (
         bindM (exec (\<lambda>w. upsert_rotation \<lparr>kr_scope = sc, kr_from_version = ?v,
             kr_to_version = x, kr_status = StatusInProgress, kr_cursor_table = ''episodes'',
             kr_cursor_id = [], kr_started_at = clock w, kr_completed_at = None\<rparr>)) (\<lambda>_.
         audit_Write (rotation_event sc actor (detail x))))) (\<lambda>_. retM (?v, x)))
     (\<lambda>(f, t) u. started A sc w u \<and> f = ?v \<and> t = f + 1) (\<lambda>_ u. start_frame A sc w u) u"
      unfolding wp_bindM [of "Run _ _ _"] wp_retM using x
      by (auto intro: wp_mono [OF start_write_ok [OF r(1) only r(2,3) refl v]])
  next
    fix e u
    assume "keys_kept A (kek w) (scope_keys (db w)) None sc (?v + 1) (tick (tick w)) u"
    then obtain rows' where r: "holds (key_inv A (kek w) rows') None u" "keys_grown (scope_keys (db w)) rows' sc (?v + 1)"
      "only_keys (tick (tick w)) u"
      by (auto simp: keys_kept_def)
    then show "start_frame A sc w u"
      using holds_rows [OF r(1)] by (simp add: start_frame_def only_keys_def data_untouched_def)
  qed simp
  let ?m = "bindM (createVersion A sc (?v + 1)) (\<lambda>toVersion.
       bindM (Run sc sc (
         bindM (exec (\<lambda>w. upsert_rotation \<lparr>kr_scope = sc, kr_from_version = ?v,
             kr_to_version = toVersion, kr_status = StatusInProgress, kr_cursor_table = ''episodes'',
             kr_cursor_id = [], kr_started_at = clock w, kr_completed_at = None\<rparr>)) (\<lambda>_.
         audit_Write (rotation_event sc actor [(''action'', JStr ''start''),
             (''from_version'', JInt (int ?v)), (''to_version'', JInt (int toVersion))])))) (\<lambda>_.
       retM (?v, toVersion)))"
  consider "fault_now w = NoFault \<and> ?v > 0 \<and> fault_now (tick w) = NoFault" | "fault_now w \<noteq> NoFault"
    | "fault_now w = NoFault \<and> ?v = 0" | "fault_now w = NoFault \<and> ?v > 0 \<and> fault_now (tick w) \<noteq> NoFault"
    by fastforce
  then show ?thesis
  proof cases
    case 1
    then have eq: "start_new A sc actor w = ?m (tick (tick w))"
      by (simp add: start_new_def CreateNextVersion_def CurrentVersion_def bindM_def query_def)
    have "?v > 0" using 1 by simp
    from create [OF this] show ?thesis unfolding wp_def eq .
  next
    case 2
    then show ?thesis
      by (simp add: wp_def start_new_def CurrentVersion_def bindM_def query_def frame0 t)
  next
    case 3
    then show ?thesis
      by (simp add: wp_def start_new_def CurrentVersion_def bindM_def query_def errM_def frame0 t)
  next
    case 4
    then show ?thesis
      by (simp add: wp_def start_new_def CreateNextVersion_def CurrentVersion_def bindM_def query_def frame0 tt)
  qed
qed

lemma Start_ok:
  assumes A: "aead_correct A" and w: "holds (key_inv A (kek w) (scope_keys (db w))) None w"
  shows "wp (Start A sc actor)
     (\<lambda>(f, t) u. (\<exists>k \<in> set (key_rotations (db w)). kr_scope k = sc \<and> kr_status k = StatusInProgress
          \<and> f = kr_from_version k \<and> t = kr_to_version k \<and> db u = db w)
        \<or> started A sc w u \<and> f = current_version sc (db w) \<and> t = f + 1)
     (\<lambda>_ u. start_frame A sc w u) w"
proof -
  define P where "P = (\<lambda>(u :: world) (d :: database). key_inv A (kek w) (scope_keys (db w)) u d \<and> d = db w
     \<and> clock u = clock w \<and> faults u = faults w \<and> rand_ok u = rand_ok w)"
  have p: "process_pred P"
    using key_inv_process [of A "kek w" "scope_keys (db w)"] by (simp add: P_def process_pred_def fun_eq_iff)
  have hw: "holds P None w" using w by (simp add: P_def holds_def)
  have frame: "start_frame A sc w u" if "holds P None u" for u
  proof -
    have "db u = db w" "tx u = None" "key_inv A (kek w) (scope_keys (db w)) u (db u)"
      "faults u = faults w" "rand_ok u = rand_ok w"
      using that unfolding P_def holds_def session_simps by blast+
    then show ?thesis by (simp add: start_frame_def holds_def data_untouched_def)
  qed
  let ?Q = "\<lambda>(f, t) u. (\<exists>k \<in> set (key_rotations (db w)). kr_scope k = sc \<and> kr_status k = StatusInProgress
          \<and> f = kr_from_version k \<and> t = kr_to_version k \<and> db u = db w)
        \<or> started A sc w u \<and> f = current_version sc (db w) \<and> t = f + 1"
  have new: "wp (start_new A sc actor) ?Q (\<lambda>_ u. start_frame A sc w u) v" if v: "holds P None v" for v
  proof -
    have v': "db v = db w" "clock v = clock w" "faults v = faults w" "rand_ok v = rand_ok w"
      "tx v = None" "key_inv A (kek w) (scope_keys (db w)) v (db v)"
      using v unfolding P_def holds_def session_simps by blast+
    then have kv: "kek v = kek w" by (simp add: key_inv_def)
    have "holds (key_inv A (kek v) (scope_keys (db v))) None v"
      using v' kv by (simp add: holds_def)
    note eq = kv v'(1-4) this
    have "started A sc v u = started A sc w u" "start_frame A sc v u = start_frame A sc w u" for u
      by (simp_all add: started_def start_frame_def eq(1-5))
    then show ?thesis
      by (intro wp_mono [OF start_new_ok [OF A eq(6)]]) (auto simp: eq(2))
  qed
  show ?thesis
    unfolding Start_def
  proof (rule wp_with_lock)
    show "?Q x t \<Longrightarrow> ?Q x (tick t)" for x t
      by (cases x) (simp add: started_def start_frame_def key_inv_tick)
    show "start_frame A sc w t \<Longrightarrow> start_frame A sc w (tick t)" for t by (rule start_frame_tick)
    have h1: "holds P None (tick w)" using hw p by simp
    then have h2: "holds P None (tick (tick w))" using p by simp
    show "start_frame A sc w (tick w)" "start_frame A sc w (tick (tick w))"
      using frame h1 h2 by blast+
    have d2: "db (tick (tick w)) = db w" by simp
    show "wp (bindM (Status sc) (\<lambda>existing. case existing of
          Some st \<Rightarrow> if kr_status st = StatusInProgress then retM (kr_from_version st, kr_to_version st)
                     else start_new A sc actor
        | None \<Rightarrow> start_new A sc actor)) ?Q (\<lambda>_ u. start_frame A sc w u) (tick (tick w))"
      unfolding wp_bindM
    proof (rule wp_mono [OF wp_Status [OF p h2, where sure = False]])
      fix r v
      assume v: "holds P None v \<and> db v = db (tick (tick w)) \<and>
        (case r of None \<Rightarrow> \<forall>k \<in> set (key_rotations (db (tick (tick w)))). kr_scope k \<noteq> sc
         | Some k \<Rightarrow> k \<in> set (key_rotations (db (tick (tick w)))) \<and> kr_scope k = sc)"
      show "wp (case r of Some st \<Rightarrow> if kr_status st = StatusInProgress then retM (kr_from_version st, kr_to_version st)
                     else start_new A sc actor
        | None \<Rightarrow> start_new A sc actor) ?Q (\<lambda>_ u. start_frame A sc w u) v"
      proof (cases r)
        case None
        then show ?thesis using new v by simp
      next
        case (Some k)
        then show ?thesis using new v by (auto simp: wp_retM)
      qed
    qed (auto intro: frame)
  qed
qed

text \<open>
  \<open>Start\<close> sets a rotation up without touching data: on success it either reports the rotation
  already in progress and changes nothing, or it has persisted a key for the version after the
  scope's highest, kept every other key, and recorded a rotation from the highest version to the
  new one, in progress at the first table. Episodes, summaries, key facts and entities are the
  same rows as before.
\<close>

lemma Start_begins:
  assumes "aead_correct A" "holds (key_inv A (kek w) (scope_keys (db w))) None w"
    and "Start A sc actor w = (Inr (fromVersion, toVersion), w')"
  shows "(\<exists>k \<in> set (key_rotations (db w)). kr_scope k = sc \<and> kr_status k = StatusInProgress
            \<and> fromVersion = kr_from_version k \<and> toVersion = kr_to_version k \<and> db w' = db w)
     \<or> (fromVersion = current_version sc (db w) \<and> fromVersion > 0 \<and> toVersion = fromVersion + 1
        \<and> dek_in A (kek w) (scope_keys (db w')) sc toVersion \<noteq> None
        \<and> keys_grown (scope_keys (db w)) (scope_keys (db w')) sc toVersion
        \<and> key_rotations (db w') =
            key_rotations (upsert_rotation (new_rotation sc fromVersion (clock w)) (db w))
        \<and> data_untouched (db w) (db w'))"
  using Start_ok [OF assms(1,2), of sc actor] assms(3)
  by (simp add: wp_def started_def start_frame_def) blast

text \<open>The sample scope with one key and no rotation.\<close>

definition unrotated :: world where
  "unrotated = sample_world 1 [1] []"

lemma unrotated_ok: "deployment_ok prefix_aead unrotated"
  unfolding unrotated_def by (rule sample_deployment; code_simp)

lemma Start_begins_witness:
  "\<exists>w'. Start prefix_aead DefaultScope ''ops'' unrotated = (Inr (1, 2), w')
     \<and> dek_in prefix_aead (kek unrotated) (scope_keys (db w')) DefaultScope 2 \<noteq> None
     \<and> data_untouched (db unrotated) (db w')"
proof -
  let ?r = "Start prefix_aead DefaultScope ''ops'' unrotated"
  have f: "(case fst ?r of Inr (f, t) \<Rightarrow> f = 1 \<and> t = 2 | Inl _ \<Rightarrow> False)" by code_simp
  obtain w' where r: "?r = (Inr (1, 2), w')"
    using f by (cases ?r) (auto split: sum.splits)
  have none: "key_rotations (db unrotated) = []" by (simp add: unrotated_def sample_world_simps sample_db_def empty_db_def)
  have inv: "holds (key_inv prefix_aead (kek unrotated) (scope_keys (db unrotated))) None unrotated"
    using unrotated_ok by (simp add: deployment_ok_def holds_def)
  show ?thesis
    using Start_begins [OF prefix_aead_correct inv r] r none by simp
qed

section \<open>A whole rotation\<close>

lemma calm_simps [simp]:
  "calm (tick w) = calm w" "calm (map_db f w) = calm w" "calm (map_db_auto f w) = calm w"
  "calm (w\<lparr>tx := x\<rparr>) = calm w" "calm (w\<lparr>ticks := n\<rparr>) = calm w" "calm (w\<lparr>rand_pos := n\<rparr>) = calm w"
  "calm (w\<lparr>cache := c\<rparr>) = calm w"
  by (simp_all add: calm_def)

lemma calm_fault: "calm w \<Longrightarrow> fault_now w = NoFault" "calm w \<Longrightarrow> rand_ok w n"
  by (simp_all add: calm_def fault_now_def)

lemma wp_Run_calm:
  assumes "calm w"
    and "wp fn (\<lambda>x t. calm t \<and> Q x ((tick t)\<lparr>tx := None\<rparr>)) (\<lambda>_ _. False)
           ((tick (tick w))\<lparr>tx := Some (a, ws, db w)\<rparr>)"
  shows "wp (Run a ws fn) Q (\<lambda>_ _. False) w"
proof -
  obtain x t where fn: "fn ((tick (tick w))\<lparr>tx := Some (a, ws, db w)\<rparr>) = (Inr x, t)" "calm t"
    "Q x ((tick t)\<lparr>tx := None\<rparr>)"
    using assms(2) by (auto simp: wp_def split: prod.splits sum.splits)
  then have "Run a ws fn w = (Inr x, (tick t)\<lparr>tx := None\<rparr>)"
    using assms(1)
    by (simp add: Run_def bindM_def begin_tx_def SetSession_def query_def modM_def commit_def retM_def calm_fault)
  then show ?thesis using fn(3) by (simp add: wp_def)
qed

lemma createVersion_calm:
  assumes A: "aead_correct A" and w: "holds (key_inv A K rows) None w" and v: "v > 0" and c: "calm w"
  shows "wp (createVersion A sc v) (\<lambda>_ t. calm t \<and> tx t = None) (\<lambda>_ _. False) w"
proof -
  have K: "length K = 32" "kek w = K" "tx w = None"
    using w by (auto simp: holds_def key_inv_def keys_ok_def)
  have "wp (persist_version A sc v) (\<lambda>_. calm) (\<lambda>_ _. False) w"
    using c K
    by (simp add: persist_version_def GenerateDEK_def WrapDEK_def NewEncryptor_def Encrypt_def wp_simps calm_fault)
  from wp_conj [OF wp_persist_version [OF A w v] this]
  have persist: "wp (persist_version A sc v) (\<lambda>_ t. key_added A K rows None sc v w t \<and> calm t) (\<lambda>_ _. False) w"
    by (rule wp_mono) auto
  have get: "wp (GetVersion A sc v) (\<lambda>_ t. calm t \<and> tx t = None) (\<lambda>_ _. False) t"
    if t: "key_added A K rows None sc v w t" "calm t" for t
  proof -
    obtain rows' where r: "holds (key_inv A K rows') None t" "dek_in A K rows' sc v \<noteq> None"
      using t(1) by (auto simp: key_added_def)
    from wp_conj [OF wp_GetVersion [OF r(1)] GetVersion_succeeds [OF r(1) calm_fault(1) [OF t(2)] r(2)]]
    show ?thesis
      using t(2) by (elim wp_mono) (auto simp: same_but_cache_def calm_def holds_def)
  qed
  show ?thesis
    unfolding createVersion_def wp_bindM wp_retM
    by (rule wp_mono [OF persist]) (use get in auto)
qed

lemma Start_calm:
  assumes A: "aead_correct A" and w: "holds (key_inv A (kek w) (scope_keys (db w))) None w"
    and c: "calm w" and v: "current_version sc (db w) > 0"
  shows "wp (Start A sc actor) (\<lambda>_ _. True) (\<lambda>_ _. False) w"
proof -
  define P where "P = (\<lambda>(u :: world) (d :: database). key_inv A (kek w) (scope_keys (db w)) u d \<and> calm u \<and> d = db w)"
  have p: "process_pred P"
    using key_inv_process [of A "kek w" "scope_keys (db w)"]
    by (simp add: P_def process_pred_def fun_eq_iff calm_def)
  have "holds P None w" using w c by (simp add: P_def holds_def)
  then have h: "holds P None (tick (tick w))" using p by simp
  have rowwrite: "wp (Run sc sc (bindM (exec (\<lambda>w. upsert_rotation (k w))) (\<lambda>_.
         audit_Write (rotation_event sc actor detail)))) (\<lambda>_ _. True) (\<lambda>_ _. False) t"
    if "calm t" for t k detail
    by (rule wp_Run_calm [OF that])
      (simp add: wp_simps calm_fault that audit_Write_def audit_policy_def rotation_event_def)
  have new: "wp (start_new A sc actor) (\<lambda>_ _. True) (\<lambda>_ _. False) t" if t: "holds P None t" for t
  proof -
    have t': "holds (key_inv A (kek w) (scope_keys (db w))) None t" "calm t" "db t = db w"
      using t unfolding P_def holds_def by blast+
    have tt: "holds (key_inv A (kek w) (scope_keys (db w))) None (tick (tick t))" using t'(1) by (simp add: key_inv_tick)
    have "wp (createVersion A sc (current_version sc (db w) + 1)) (\<lambda>toVersion. wp (Run sc sc (
         bindM (exec (\<lambda>w'. upsert_rotation \<lparr>kr_scope = sc, kr_from_version = current_version sc (db w),
             kr_to_version = toVersion, kr_status = StatusInProgress, kr_cursor_table = ''episodes'',
             kr_cursor_id = [], kr_started_at = clock w', kr_completed_at = None\<rparr>)) (\<lambda>_.
         audit_Write (rotation_event sc actor [(''action'', JStr ''start''),
             (''from_version'', JInt (int (current_version sc (db w)))), (''to_version'', JInt (int toVersion))]))))
        (\<lambda>_ _. True) (\<lambda>_ _. False)) (\<lambda>_ _. False) (tick (tick t))"
      by (rule wp_mono [OF createVersion_calm [OF A tt]]) (use t'(2) rowwrite in auto)
    then show ?thesis
      using t' v by (simp add: start_new_def CreateNextVersion_def CurrentVersion_def wp_simps calm_fault)
  qed
  show ?thesis
    unfolding Start_def with_lock_def
  proof -
    have "wp (Status sc) (\<lambda>r t. holds P None t) (\<lambda>_ _. False) (tick (tick w))"
      by (rule wp_mono [OF wp_Status [OF p h, where sure = True]]) (auto simp: P_def calm_fault)
    then have "wp (bindM (Status sc) (\<lambda>existing. case existing of
          Some st \<Rightarrow> if kr_status st = StatusInProgress then retM (kr_from_version st, kr_to_version st)
                     else start_new A sc actor
        | None \<Rightarrow> start_new A sc actor)) (\<lambda>_ _. True) (\<lambda>_ _. False) (tick (tick w))"
      unfolding wp_bindM
      by (rule wp_mono) (auto simp: new wp_retM split: option.splits)
    from wp_mono [OF this]
    show "wp (bindM (query (\<lambda>_. ())) (\<lambda>_. bindM (query (\<lambda>_. ())) (\<lambda>_. tryM (bindM (Status sc) (\<lambda>existing. case existing of
          Some st \<Rightarrow> if kr_status st = StatusInProgress then retM (kr_from_version st, kr_to_version st)
                     else start_new A sc actor
        | None \<Rightarrow> start_new A sc actor)) (\<lambda>r. tryM (query (\<lambda>_. ())) (\<lambda>_. liftM r))))) (\<lambda>_ _. True) (\<lambda>_ _. False) w"
      using c unfolding wp_bindM [of "query _"] wp_query wp_tryM
      by (simp add: calm_fault wp_liftM split del: if_split)
  qed
qed

text \<open>The content of the encrypted tables alone.\<close>

definition data_content where
  "data_content A ks d =
     (map (episode_view A ks) (episodes d), map (summary_view A ks) (summaries d),
      map (fact_view A ks) (summary_key_facts d), map (entity_view A ks) (entities d))"

lemma same_content_data: "same_content A ks d d' \<Longrightarrow> data_content A ks d' = data_content A ks d"
  by (simp add: same_content_def data_content_def)

lemma data_content_readable: "data_content A ks d = data_content A ks' d' \<Longrightarrow> readable A ks d = readable A ks' d'"
  by (simp add: data_content_def readable_def)

lemma data_content_more_keys:
  assumes "readable A ks d" "\<And>sc v k. ks sc v = Some k \<Longrightarrow> ks' sc v = Some k"
  shows "data_content A ks' d = data_content A ks d"
proof -
  have "map (episode_view A ks') (episodes d) = map (episode_view A ks) (episodes d)"
    using assms by (auto simp: readable_def list_all_iff episode_readable_def episode_view_def split: option.splits)
  moreover have "map (summary_view A ks') (summaries d) = map (summary_view A ks) (summaries d)"
    using assms by (auto simp: readable_def list_all_iff text_readable_def summary_view_def split: option.splits)
  moreover have "map (fact_view A ks') (summary_key_facts d) = map (fact_view A ks) (summary_key_facts d)"
    using assms by (auto simp: readable_def list_all_iff text_readable_def fact_view_def split: option.splits)
  moreover have "map (entity_view A ks') (entities d) = map (entity_view A ks) (entities d)"
    using assms by (auto simp: readable_def list_all_iff text_readable_def entity_view_def split: option.splits)
  ultimately show ?thesis by (simp add: data_content_def)
qed

lemma data_untouched_tables:
  assumes "data_untouched d d'"
  shows "episodes d' = episodes d" "summaries d' = summaries d" "summary_key_facts d' = summary_key_facts d"
    "entities d' = entities d"
  using arg_cong [OF assms [unfolded data_untouched_def], of episodes]
    arg_cong [OF assms [unfolded data_untouched_def], of summaries]
    arg_cong [OF assms [unfolded data_untouched_def], of summary_key_facts]
    arg_cong [OF assms [unfolded data_untouched_def], of entities] by simp_all

lemma upsert_rotation_set:
  "set (key_rotations (upsert_rotation k d)) \<subseteq> insert k (set (key_rotations d))"
  "k \<in> set (key_rotations (upsert_rotation k d))"
  by (auto simp: upsert_rotation_def update_where_def list_ex_iff split: if_splits)

lemma upsert_rotation_distinct:
  assumes "distinct (map kr_scope (key_rotations d))"
  shows "distinct (map kr_scope (key_rotations (upsert_rotation k d)))"
proof -
  have "map kr_scope (update_where (\<lambda>r. kr_scope r = kr_scope k) (\<lambda>_. k) ks) = map kr_scope ks" for ks
    by (rule map_update_where) simp
  then show ?thesis
    using assms by (auto simp: upsert_rotation_def list_ex_iff)
qed

text \<open>After \<open>Start\<close> the deployment is one that \<open>Continue\<close> runs on.\<close>

lemma started_deployment:
  assumes w: "deployment_ok A w" "readable A (keys_of A w) (db w)" "calm w"
    and s: "started A sc w t"
  shows "deployment_ok A t" "rotation_row A sc t (new_rotation sc (current_version sc (db w)) (clock w))"
    "progress_true sc (db t)" "calm t" "data_content A (keys_of A t) (db t) = data_content A (keys_of A w) (db w)"
    "old_rows sc v (db t) = old_rows sc v (db w)"
proof -
  let ?v = "current_version sc (db w)" and ?k = "new_rotation sc (current_version sc (db w)) (clock w)"
  have f: "holds (key_inv A (kek w) (scope_keys (db t))) None t"
    "keys_grown (scope_keys (db w)) (scope_keys (db t)) sc (?v + 1)" "data_untouched (db w) (db t)"
    "key_rotations (db t) = key_rotations (upsert_rotation ?k (db w))" "?v > 0"
    "dek_in A (kek w) (scope_keys (db t)) sc (?v + 1) \<noteq> None" "calm t"
    using s w(3) by (simp_all add: started_def start_frame_def calm_def)
  note tables = data_untouched_tables [OF f(3)]
  have kek: "kek t = kek w" using holds_rows [OF f(1)] by simp
  have dist: "distinct (map kr_scope (key_rotations (db t)))"
    using w(1) upsert_rotation_distinct f(4) by (simp add: deployment_ok_def tables_ok_def)
  have k: "?k \<in> set (key_rotations (db t))" "kr_scope ?k = sc"
    using upsert_rotation_set(2) f(4) by (simp_all add: new_rotation_def)
  have lt: "\<forall>k \<in> set (key_rotations (db t)). kr_from_version k < kr_to_version k"
  proof
    fix k
    assume "k \<in> set (key_rotations (db t))"
    then have "k = ?k \<or> k \<in> set (key_rotations (db w))"
      using upsert_rotation_set(1) [of ?k "db w"] f(4) by auto
    then show "kr_from_version k < kr_to_version k"
      using w(1) by (auto simp: deployment_ok_def new_rotation_def)
  qed
  show "deployment_ok A t"
    using w(1) f(1) kek tables dist lt
    by (simp add: deployment_ok_def holds_def tables_ok_def facts_lockstep_def)
  have more: "keys_of A t sc' v' = Some key" if "keys_of A w sc' v' = Some key" for sc' v' key
    using that f(2) kek by (auto simp: keys_grown_def dek_in_append)
  obtain r where r: "r \<in> set (scope_keys (db w))" "sk_scope r = sc" "sk_version r = ?v"
    using current_version_in [of sc "db w"] f(5) by auto
  have "keys_of A w sc ?v \<noteq> None"
    using keys_ok_lookup [of A "kek w" "scope_keys (db w)" r] r w(1) by (simp add: deployment_ok_def key_inv_def)
  then have "keys_of A t sc ?v \<noteq> None" using more by blast
  then show "rotation_row A sc t ?k"
    using k f(6) kek by (simp add: rotation_row_def new_rotation_def)
  have uniq: "j = ?k" if "j \<in> set (key_rotations (db t))" "kr_scope j = sc" for j
    using that k dist distinct_map_unique [of kr_scope "key_rotations (db t)" j ?k] by simp
  have only: "kr_status j = StatusInProgress \<and> kr_cursor_table j = ''episodes''"
    if "j \<in> set (key_rotations (db t))" "kr_scope j = sc" for j
    unfolding uniq [OF that] by (simp add: new_rotation_def)
  show "progress_true sc (db t)"
    unfolding progress_true_def cursor_true_def using only by simp
  show "calm t" by (rule f(7))
  have "data_content A (keys_of A t) (db t) = data_content A (keys_of A t) (db w)"
    by (simp add: data_content_def tables)
  also have "\<dots> = data_content A (keys_of A w) (db w)"
    using w(2) more by (rule data_content_more_keys)
  finally show "data_content A (keys_of A t) (db t) = data_content A (keys_of A w) (db w)" .
  show "old_rows sc v (db t) = old_rows sc v (db w)"
    by (simp add: old_rows_def old_episodes_def old_summaries_def old_entities_def tables)
qed



section \<open>Prune\<close>

lemma dek_in_below:
  "\<not> (sc' = sc \<and> v' < v) \<Longrightarrow>
     dek_in A K (scope_keys (delete_keys_below sc v d)) sc' v' = dek_in A K (scope_keys d) sc' v'"
proof -
  assume a: "\<not> (sc' = sc \<and> v' < v)"
  have "filter (\<lambda>r. sk_scope r = sc' \<and> sk_version r = v') (filter (\<lambda>k. \<not> (sk_scope k = sc \<and> sk_version k < v)) ks) =
      filter (\<lambda>r. sk_scope r = sc' \<and> sk_version r = v') ks" for ks :: "scope_key list"
    using a by (induction ks) auto
  then show ?thesis by (simp add: dek_in_def delete_keys_below_def del: filter_filter)
qed

text \<open>When no row of the scope is on an older version, those keys can go.\<close>

lemma prune_content:
  assumes r: "still_referenced sc v w = 0" and s: "session w = Some (sc, sc)" and l: "facts_lockstep (db w)"
  shows "data_content A (dek_in A K (scope_keys (delete_keys_below sc v (db w)))) (db w) =
     data_content A (dek_in A K (scope_keys (db w))) (db w)"
proof -
  let ?ks' = "dek_in A K (scope_keys (delete_keys_below sc v (db w)))" and ?ks = "dek_in A K (scope_keys (db w))"
  note vis = rls_session(1) [OF s]
  have ep: "\<not> (ep_scope e = sc \<and> ep_key_version e < v)" if "e \<in> set (episodes (db w))" for e
    using r that by (auto simp: still_referenced_def vis filter_empty_conv)
  have sm: "\<not> (sum_scope e = sc \<and> sum_key_version e < v)" if "e \<in> set (summaries (db w))" for e
    using r that by (auto simp: still_referenced_def vis filter_empty_conv)
  have en: "\<not> (en_scope e = sc \<and> en_key_version e < v)" if "e \<in> set (entities (db w))" for e
    using r that by (auto simp: still_referenced_def vis filter_empty_conv)
  have kf: "\<not> (kf_scope f = sc \<and> kf_key_version f < v)" if "f \<in> set (summary_key_facts (db w))" for f
    using l sm that by (fastforce simp: facts_lockstep_def)
  have "map (episode_view A ?ks') (episodes (db w)) = map (episode_view A ?ks) (episodes (db w))"
    by (simp add: episode_view_def dek_in_below ep)
  moreover have "map (summary_view A ?ks') (summaries (db w)) = map (summary_view A ?ks) (summaries (db w))"
    by (simp add: summary_view_def dek_in_below sm)
  moreover have "map (fact_view A ?ks') (summary_key_facts (db w)) = map (fact_view A ?ks) (summary_key_facts (db w))"
    by (simp add: fact_view_def dek_in_below kf)
  moreover have "map (entity_view A ?ks') (entities (db w)) = map (entity_view A ?ks) (entities (db w))"
    by (simp add: entity_view_def dek_in_below en)
  ultimately show ?thesis by (simp add: data_content_def)
qed

definition pruned_to :: "scope \<Rightarrow> nat \<Rightarrow> world \<Rightarrow> world \<Rightarrow> bool" where
  "pruned_to sc v w t \<longleftrightarrow> kek t = kek w
     \<and> (\<exists>l. db t = (delete_keys_below sc v (db w))\<lparr>audit_log := l\<rparr>)"

definition untouched :: "world \<Rightarrow> world \<Rightarrow> bool" where
  "untouched w t \<longleftrightarrow> kek t = kek w \<and> db t = db w"

lemma wp_prune_delete:
  assumes t: "tx t = None" "db t = db w" "kek t = kek w"
  shows "wp (Run sc sc (
               bindM (exec_ret (\<lambda>_. delete_keys_below sc v)
                        (\<lambda>w. length (filter (\<lambda>k. sk_scope k = sc \<and> sk_version k < v) (scope_keys (db w))))) (\<lambda>pruned.
               bindM (audit_Write (rotation_event sc actor (detail pruned))) (\<lambda>_. retM pruned))))
     (\<lambda>n u. pruned_to sc v w u \<and>
        n = length (filter (\<lambda>k. sk_scope k = sc \<and> sk_version k < v) (scope_keys (db w))))
     (\<lambda>_ u. untouched w u \<or> pruned_to sc v w u) t"
  by (rule wp_Run)
    (auto simp: t wp_simps untouched_def rollback_def pruned_to_def audit_Write_def audit_policy_def
      rotation_event_def split: fault.splits)

lemma Prune_ok:
  assumes w: "tx w = None" "facts_lockstep (db w)"
  shows "wp (Prune A sc actor)
     (\<lambda>n u. \<exists>k \<in> set (key_rotations (db w)). kr_scope k = sc \<and> kr_status k = StatusCompleted
        \<and> still_referenced sc (kr_to_version k) (w\<lparr>tx := Some (sc, sc, db w)\<rparr>) = 0
        \<and> pruned_to sc (kr_to_version k) w u
        \<and> n = length (filter (\<lambda>r. sk_scope r = sc \<and> sk_version r < kr_to_version k) (scope_keys (db w))))
     (\<lambda>_ u. untouched w u \<or> (\<exists>k \<in> set (key_rotations (db w)). kr_scope k = sc \<and> kr_status k = StatusCompleted
        \<and> still_referenced sc (kr_to_version k) (w\<lparr>tx := Some (sc, sc, db w)\<rparr>) = 0
        \<and> pruned_to sc (kr_to_version k) w u)) w"
  (is "wp _ ?Q ?E w")
proof -
  define P where "P = (\<lambda>(u :: world) (d :: database). kek u = kek w \<and> d = db w)"
  have p: "process_pred P" by (simp add: P_def process_pred_def fun_eq_iff)
  have hw: "holds P None w" using w by (simp add: P_def holds_def)
  have hP: "tx t = None" "db t = db w" "kek t = kek w" "untouched w t" if "holds P None t" for t
    using that unfolding P_def holds_def untouched_def session_simps by blast+
  have count: "wp (Run sc sc (query (still_referenced sc v)))
      (\<lambda>n t. holds P None t \<and> n = still_referenced sc v (w\<lparr>tx := Some (sc, sc, db w)\<rparr>))
      (\<lambda>_ t. holds P None t \<and> True) t" if t: "holds P None t" for t v
  proof (rule wp_Run_result [OF p t])
    fix n
    have h: "holds P (Some (sc, sc)) (t\<lparr>tx := Some (sc, sc, db t), ticks := n\<rparr>)"
      by (rule holds_begin [OF p t])
    have "still_referenced sc v (t\<lparr>tx := Some (sc, sc, db t), ticks := n\<rparr>) =
        still_referenced sc v (w\<lparr>tx := Some (sc, sc, db w)\<rparr>)"
      using hP(2) [OF t] by (simp add: still_referenced_def rls_visible_def)
    then show "wp (query (still_referenced sc v))
       (\<lambda>x t. holds P (Some (sc, sc)) t \<and> x = still_referenced sc v (w\<lparr>tx := Some (sc, sc, db w)\<rparr>)
          \<and> (fault_now t \<noteq> NoFault \<longrightarrow> True))
       (\<lambda>_ t. kept P (Some (sc, sc)) t \<and> True) (t\<lparr>tx := Some (sc, sc, db t), ticks := n\<rparr>)"
      using h holds_kept [OF h] p by (simp add: wp_query)
  qed simp
  have evict: "wp (forM (Evict sc) vs) (\<lambda>_ t. pruned_to sc v w t) (\<lambda>_ _. False) t"
    if "pruned_to sc v w t" for t vs v
    using that
    by (induction vs arbitrary: t) (simp_all add: wp_simps Evict_def pruned_to_def)
  have step: "wp (case r of
       None \<Rightarrow> errM ErrNoRotation
     | Some st \<Rightarrow>
         if kr_status st \<noteq> StatusCompleted then errM ErrNotCompleted
         else bindM (Run sc sc (query (still_referenced sc (kr_to_version st)))) (\<lambda>stillReferenced.
           if stillReferenced > 0 then errM (ErrStillReferenced stillReferenced)
           else bindM (Run sc sc (
               bindM (exec_ret (\<lambda>_. delete_keys_below sc (kr_to_version st))
                        (\<lambda>w. length (filter (\<lambda>k. sk_scope k = sc \<and> sk_version k < kr_to_version st)
                               (scope_keys (db w))))) (\<lambda>pruned.
               bindM (audit_Write (rotation_event sc actor [(''action'', JStr ''prune''),
                   (''pruned_versions'', JInt (int pruned)),
                   (''kept_from_version'', JInt (int (kr_to_version st)))])) (\<lambda>_.
               retM pruned)))) (\<lambda>pruned.
             bindM (forM (Evict sc) [kr_from_version st..<kr_to_version st]) (\<lambda>_. retM pruned)))) ?Q ?E t"
    if t: "holds P None t" and r: "case r of None \<Rightarrow> True | Some k \<Rightarrow> k \<in> set (key_rotations (db w)) \<and> kr_scope k = sc"
    for r t
  proof (cases "\<exists>st. r = Some st \<and> kr_status st = StatusCompleted")
    case False
    then show ?thesis using hP(4) [OF t] by (auto simp: wp_errM split: option.splits)
  next
    case True
    then obtain k where k: "r = Some k" "kr_status k = StatusCompleted" by blast
    have k': "k \<in> set (key_rotations (db w))" "kr_scope k = sc" using r k(1) by simp_all
    let ?v = "kr_to_version k" and ?n = "\<lambda>v. length (filter (\<lambda>r. sk_scope r = sc \<and> sk_version r < v) (scope_keys (db w)))"
    have delete: "wp (bindM (Run sc sc (
               bindM (exec_ret (\<lambda>_. delete_keys_below sc ?v)
                        (\<lambda>w. length (filter (\<lambda>k. sk_scope k = sc \<and> sk_version k < ?v) (scope_keys (db w))))) (\<lambda>pruned.
               bindM (audit_Write (rotation_event sc actor (detail pruned))) (\<lambda>_. retM pruned)))) (\<lambda>pruned.
             bindM (forM (Evict sc) [kr_from_version k..<?v]) (\<lambda>_. retM pruned))) ?Q ?E u"
      if u: "holds P None u" and z: "still_referenced sc ?v (w\<lparr>tx := Some (sc, sc, db w)\<rparr>) = 0" for u detail
      unfolding wp_bindM wp_retM
    proof (rule wp_mono [OF wp_prune_delete [OF hP(1-3) [OF u], unfolded wp_bindM wp_retM]])
      fix n x
      assume x: "pruned_to sc ?v w x \<and> n = ?n ?v"
      show "wp (forM (Evict sc) [kr_from_version k..<?v]) (\<lambda>_. ?Q n) ?E x"
        by (rule wp_mono [OF evict]) (use x z k k' in auto)
    qed (use z k k' in auto)
    have "wp (Run sc sc (query (still_referenced sc ?v))) (\<lambda>n. wp (if n > 0 then errM (ErrStillReferenced n)
         else bindM (Run sc sc (
               bindM (exec_ret (\<lambda>_. delete_keys_below sc ?v)
                        (\<lambda>w. length (filter (\<lambda>k. sk_scope k = sc \<and> sk_version k < ?v) (scope_keys (db w))))) (\<lambda>pruned.
               bindM (audit_Write (rotation_event sc actor (detail pruned))) (\<lambda>_. retM pruned)))) (\<lambda>pruned.
             bindM (forM (Evict sc) [kr_from_version k..<?v]) (\<lambda>_. retM pruned))) ?Q ?E) ?E t" for detail
      by (rule wp_mono [OF count [OF t]]) (use delete hP(4) in \<open>auto simp: wp_errM\<close>)
    then show ?thesis
      unfolding k(1) option.case using k(2) by (simp add: wp_bindM [of "Run sc sc (query _)"])
  qed
  have "wp (Status sc) (\<lambda>r t. holds P None t \<and> (case r of None \<Rightarrow> True | Some k \<Rightarrow> k \<in> set (key_rotations (db w)) \<and> kr_scope k = sc))
      (\<lambda>_ t. holds P None t) w"
    by (rule wp_mono [OF wp_Status [OF p hw, where sure = False]]) (auto split: option.splits)
  then show ?thesis
    unfolding Prune_def wp_bindM [of "Status sc"]
    by (rule wp_mono) (use step hP(4) in blast)+
qed

text \<open>
  C3. Pruning is safe: however \<open>Prune\<close> ends, every row of every scope is still readable under
  the persisted keys and says what it said; it succeeds only on a completed rotation, and then
  exactly the key versions of the scope below the rotation's target are gone, in the number it
  reports.
\<close>

theorem Prune_safe:
  assumes "deployment_ok A w" "Prune A sc actor w = (r, w')"
  shows "data_content A (dek_in A (kek w') (scope_keys (db w'))) (db w') =
       data_content A (dek_in A (kek w) (scope_keys (db w))) (db w)
     \<and> (case r of Inl e \<Rightarrow> True
        | Inr n \<Rightarrow> \<exists>k \<in> set (key_rotations (db w)). kr_scope k = sc \<and> kr_status k = StatusCompleted
            \<and> scope_keys (db w') = filter (\<lambda>s. \<not> (sk_scope s = sc \<and> sk_version s < kr_to_version k)) (scope_keys (db w))
            \<and> n + length (scope_keys (db w')) = length (scope_keys (db w)))"
proof -
  have w: "tx w = None" "facts_lockstep (db w)" using assms(1) by (simp_all add: deployment_ok_def)
  have same: "data_content A (keys_of A t) (db t) = data_content A (keys_of A w) (db w)"
    if pr: "pruned_to sc v w t" and z: "still_referenced sc v (w\<lparr>tx := Some (sc, sc, db w)\<rparr>) = 0" for v t
  proof -
    obtain l where l: "kek t = kek w" "db t = (delete_keys_below sc v (db w))\<lparr>audit_log := l\<rparr>"
      using pr unfolding pruned_to_def by blast
    then show ?thesis
      using prune_content [OF z, of A "kek w"] w(2)
      by (simp add: session_def data_content_def delete_keys_below_def)
  qed
  have gone: "scope_keys (db t) = filter (\<lambda>s. \<not> (sk_scope s = sc \<and> sk_version s < v)) (scope_keys (db w))"
    "length (filter (\<lambda>s. sk_scope s = sc \<and> sk_version s < v) (scope_keys (db w))) + length (scope_keys (db t)) =
       length (scope_keys (db w))" if "pruned_to sc v w t" for v t
    using that sum_length_filter_compl [of "\<lambda>s. sk_scope s = sc \<and> sk_version s < v" "scope_keys (db w)"]
    by (auto simp: pruned_to_def delete_keys_below_def)
  note spec = Prune_ok [OF w, of A sc actor, unfolded wp_def assms(2) prod.case]
  show ?thesis
  proof (cases r)
    case (Inl e)
    then show ?thesis using spec same by (auto simp: untouched_def)
  next
    case (Inr n)
    then obtain k where k: "k \<in> set (key_rotations (db w))" "kr_scope k = sc" "kr_status k = StatusCompleted"
      "still_referenced sc (kr_to_version k) (w\<lparr>tx := Some (sc, sc, db w)\<rparr>) = 0"
      "pruned_to sc (kr_to_version k) w w'"
      "n = length (filter (\<lambda>r. sk_scope r = sc \<and> sk_version r < kr_to_version k) (scope_keys (db w)))"
      using spec by auto
    show ?thesis
      unfolding Inr sum.case using same [OF k(5,4)] gone [OF k(5)] k(1-3,6) by blast
  qed
qed

text \<open>The sample scope after a completed rotation, both key versions still there.\<close>

definition rotated :: world where
  "rotated = sample_world 2 [1, 2] [sample_rotation 1 StatusCompleted]"

theorem Prune_safe_witness:
  "\<exists>w'. Prune prefix_aead DefaultScope ''ops'' rotated = (Inr 1, w')
     \<and> map sk_version (scope_keys (db w')) = [2]
     \<and> data_content prefix_aead (dek_in prefix_aead (kek w') (scope_keys (db w'))) (db w') =
       data_content prefix_aead (dek_in prefix_aead (kek rotated) (scope_keys (db rotated))) (db rotated)"
proof -
  let ?r = "Prune prefix_aead DefaultScope ''ops'' rotated"
  have d: "deployment_ok prefix_aead rotated"
    unfolding rotated_def by (rule sample_deployment; code_simp)
  have f: "(case fst ?r of Inr n \<Rightarrow> n = 1 | Inl _ \<Rightarrow> False)" "map sk_version (scope_keys (db (snd ?r))) = [2]"
    by code_simp+
  obtain w' where r: "?r = (Inr 1, w')"
    using f(1) by (cases ?r) (auto split: sum.splits)
  show ?thesis
    using Prune_safe [OF d r] r f(2) by auto
qed

end
