(* ===== verification/Go_Text.thy ===== *)
theory Go_Text
  imports Hupi_Prelude
begin

text \<open>
  Go's view of text: UTF-8 decoding as \<open>for range\<close> and \<open>[]rune(s)\<close> do it, \<open>strings.ToLower\<close>
  and \<open>strings.TrimSpace\<close>, and the rune-counting helpers built on them: \<open>chunkText\<close>
  (\<open>internal/consolidation/perepisode.go\<close>) and \<open>TruncateForEmbedding\<close>
  (\<open>internal/provider/provider.go\<close>).
\<close>

section \<open>UTF-8\<close>

type_synonym rune = nat

abbreviation RuneError :: rune where "RuneError \<equiv> 0xFFFD"

abbreviation byte_of :: "char \<Rightarrow> nat" where "byte_of c \<equiv> of_char c"

definition valid_rune :: "rune \<Rightarrow> bool" where
  "valid_rune r \<longleftrightarrow> r < 0xD800 \<or> (0xDFFF < r \<and> r \<le> 0x10FFFF)"

text \<open>The range the byte after the leading byte \<open>b\<close> has to lie in; it excludes overlong
  forms, surrogates and code points beyond \<open>U+10FFFF\<close>.\<close>

definition second_lo :: "nat \<Rightarrow> nat" where
  "second_lo b = (if b = 0xE0 then 0xA0 else if b = 0xF0 then 0x90 else 0x80)"

definition second_hi :: "nat \<Rightarrow> nat" where
  "second_hi b = (if b = 0xED then 0x9F else if b = 0xF4 then 0x8F else 0xBF)"

definition cont_byte :: "nat \<Rightarrow> bool" where
  "cont_byte b \<longleftrightarrow> 0x80 \<le> b \<and> b \<le> 0xBF"

text \<open>\<open>utf8.DecodeRune\<close>: the first rune and its width; an invalid byte is \<open>RuneError\<close> of
  width 1.\<close>

definition decode_rune :: "string \<Rightarrow> rune \<times> nat" where
  "decode_rune s =
     (case s of [] \<Rightarrow> (RuneError, 0)
      | c0 # s1 \<Rightarrow> (let b0 = byte_of c0 in
          if b0 < 0x80 then (b0, 1)
          else if b0 < 0xC2 \<or> 0xF4 < b0 then (RuneError, 1)
          else (case s1 of [] \<Rightarrow> (RuneError, 1)
            | c1 # s2 \<Rightarrow> (let b1 = byte_of c1 in
                if b1 < second_lo b0 \<or> second_hi b0 < b1 then (RuneError, 1)
                else if b0 < 0xE0 then (64 * (b0 mod 32) + b1 mod 64, 2)
                else (case s2 of [] \<Rightarrow> (RuneError, 1)
                  | c2 # s3 \<Rightarrow> (let b2 = byte_of c2 in
                      if \<not> cont_byte b2 then (RuneError, 1)
                      else if b0 < 0xF0 then
                        (4096 * (b0 mod 16) + 64 * (b1 mod 64) + b2 mod 64, 3)
                      else (case s3 of [] \<Rightarrow> (RuneError, 1)
                        | c3 # _ \<Rightarrow> (let b3 = byte_of c3 in
                            if \<not> cont_byte b3 then (RuneError, 1)
                            else (262144 * (b0 mod 8) + 4096 * (b1 mod 64)
                                    + 64 * (b2 mod 64) + b3 mod 64, 4)))))))))"

lemma decode_rune_width: "s \<noteq> [] \<Longrightarrow> 0 < snd (decode_rune s)"
  by (cases s) (simp_all add: decode_rune_def Let_def split: list.splits)

text \<open>\<open>[]rune(s)\<close>, and the pieces of \<open>s\<close> the runes were read from.\<close>

function runes :: "string \<Rightarrow> rune list" where
  "runes s = (if s = [] then []
              else fst (decode_rune s) # runes (drop (snd (decode_rune s)) s))"
  by pat_completeness auto
termination
  by (relation "measure length") (auto simp: decode_rune_width)

function segments :: "string \<Rightarrow> string list" where
  "segments s = (if s = [] then []
                 else take (snd (decode_rune s)) s # segments (drop (snd (decode_rune s)) s))"
  by pat_completeness auto
termination
  by (relation "measure length") (auto simp: decode_rune_width)

declare runes.simps [simp del] segments.simps [simp del]

lemma runes_Nil [simp]: "runes [] = []"
  by (simp add: runes.simps)

lemma segments_Nil [simp]: "segments [] = []"
  by (simp add: segments.simps)

lemma concat_segments: "concat (segments s) = s"
proof (induction s rule: segments.induct)
  case (1 s)
  then show ?case by (cases "s = []") (simp_all add: segments.simps [of s])
qed

text \<open>\<open>string(r)\<close> for a rune: an invalid one is written as \<open>RuneError\<close>.\<close>

definition encode_rune :: "rune \<Rightarrow> string" where
  "encode_rune r0 =
     (let r = (if valid_rune r0 then r0 else RuneError) in
      if r < 0x80 then [char_of r]
      else if r < 0x800 then [char_of (0xC0 + r div 64), char_of (0x80 + r mod 64)]
      else if r < 0x10000 then
        [char_of (0xE0 + r div 4096), char_of (0x80 + r div 64 mod 64), char_of (0x80 + r mod 64)]
      else
        [char_of (0xF0 + r div 262144), char_of (0x80 + r div 4096 mod 64),
         char_of (0x80 + r div 64 mod 64), char_of (0x80 + r mod 64)])"

definition string_of_runes :: "rune list \<Rightarrow> string" where
  "string_of_runes rs = concat (map encode_rune rs)"

definition valid_utf8 :: "string \<Rightarrow> bool" where
  "valid_utf8 s \<longleftrightarrow> string_of_runes (runes s) = s"

lemma byte_of_char_of: "n < 256 \<Longrightarrow> byte_of (char_of n) = (n :: nat)"
  by (simp add: of_char_of)

text \<open>The base-64 digits of a rune, as linear facts.\<close>

lemma digits64:
  fixes r :: nat
  shows "64 * (r div 64) + r mod 64 = r"
    and "64 * (r div 4096) + r div 64 mod 64 = r div 64"
    and "64 * (r div 262144) + r div 4096 mod 64 = r div 4096"
    and "r mod 64 < 64" "r div 64 mod 64 < 64" "r div 4096 mod 64 < 64"
proof -
  have "r div 4096 = r div 64 div 64" "r div 262144 = r div 4096 div 64"
    by (simp_all add: div_mult2_eq [symmetric])
  then show "64 * (r div 4096) + r div 64 mod 64 = r div 64"
    and "64 * (r div 262144) + r div 4096 mod 64 = r div 4096"
    by simp_all
qed simp_all

lemma mod_offset: "k mod m = 0 \<Longrightarrow> x < m \<Longrightarrow> (k + x) mod m = x" for k m x :: nat
  by (metis add_0 mod_add_left_eq mod_less)

lemma decode2:
  assumes "x < 30" "y < 64"
  shows "decode_rune (char_of (0xC2 + x) # char_of (0x80 + y) # rest) = (64 * (x + 2) + y, 2)"
proof -
  have b: "byte_of (char_of (0xC2 + x) :: char) = 0xC2 + x" "byte_of (char_of (0x80 + y) :: char) = 0x80 + y"
    using assms by (auto intro!: byte_of_char_of)
  have m: "(0xC2 + x) mod 32 = x + 2" "(0x80 + y) mod 64 = y"
    using assms mod_offset [of "0xC0" 32 "x + 2"] by (auto simp: mod_offset)
  show ?thesis
    using assms by (simp add: decode_rune_def Let_def b m second_lo_def second_hi_def del: of_char_of)
qed

lemma decode3:
  assumes "x < 16" "y < 64" "z < 64" "x = 0 \<longrightarrow> 32 \<le> y" "x = 13 \<longrightarrow> y < 32"
  shows "decode_rune (char_of (0xE0 + x) # char_of (0x80 + y) # char_of (0x80 + z) # rest) =
         (4096 * x + 64 * y + z, 3)"
proof -
  have b: "byte_of (char_of (0xE0 + x) :: char) = 0xE0 + x" "byte_of (char_of (0x80 + y) :: char) = 0x80 + y"
    "byte_of (char_of (0x80 + z) :: char) = 0x80 + z"
    using assms by (auto intro!: byte_of_char_of)
  have m: "(0xE0 + x) mod 16 = x" "(0x80 + y) mod 64 = y" "(0x80 + z) mod 64 = z"
    using assms by (auto simp: mod_offset)
  have "\<not> (0x80 + y < second_lo (0xE0 + x) \<or> second_hi (0xE0 + x) < 0x80 + y)" "cont_byte (0x80 + z)"
    using assms by (auto simp: second_lo_def second_hi_def cont_byte_def)
  then show ?thesis
    using assms(1) by (simp add: decode_rune_def Let_def b m del: of_char_of)
qed

lemma decode4:
  assumes "x \<le> 4" "y < 64" "z < 64" "w < 64" "x = 0 \<longrightarrow> 16 \<le> y" "x = 4 \<longrightarrow> y < 16"
  shows "decode_rune (char_of (0xF0 + x) # char_of (0x80 + y) # char_of (0x80 + z)
           # char_of (0x80 + w) # rest) = (262144 * x + 4096 * y + 64 * z + w, 4)"
proof -
  have b: "byte_of (char_of (0xF0 + x) :: char) = 0xF0 + x" "byte_of (char_of (0x80 + y) :: char) = 0x80 + y"
    "byte_of (char_of (0x80 + z) :: char) = 0x80 + z" "byte_of (char_of (0x80 + w) :: char) = 0x80 + w"
    using assms by (auto intro!: byte_of_char_of)
  have m: "(0xF0 + x) mod 8 = x" "(0x80 + y) mod 64 = y" "(0x80 + z) mod 64 = z" "(0x80 + w) mod 64 = w"
    using assms by (auto simp: mod_offset)
  have "\<not> (0x80 + y < second_lo (0xF0 + x) \<or> second_hi (0xF0 + x) < 0x80 + y)" "cont_byte (0x80 + z)"
    "cont_byte (0x80 + w)"
    using assms by (auto simp: second_lo_def second_hi_def cont_byte_def)
  then show ?thesis
    using assms(1) by (simp add: decode_rune_def Let_def b m del: of_char_of)
qed

lemma decode_encode_rune:
  assumes "valid_rune r"
  shows "decode_rune (encode_rune r @ rest) = (r, length (encode_rune r))"
proof -
  note F = digits64 [of r]
  have "r \<le> 0x10FFFF" using assms by (auto simp: valid_rune_def)
  then consider "r < 0x80" | "0x80 \<le> r" "r < 0x800" | "0x800 \<le> r" "r < 0x10000"
    | "0x10000 \<le> r" "r \<le> 0x10FFFF"
    by linarith
  then show ?thesis
  proof cases
    case 1
    then show ?thesis
      using assms by (simp add: encode_rune_def decode_rune_def byte_of_char_of)
  next
    case 2
    have d: "2 \<le> r div 64" "r div 64 - 2 < 30" using 2 F by linarith+
    have e: "encode_rune r = [char_of (0xC2 + (r div 64 - 2)), char_of (0x80 + r mod 64)]"
      using 2 assms d by (simp add: encode_rune_def)
    have "r div 64 - 2 + 2 = r div 64" using d(1) by (rule le_add_diff_inverse2)
    then have "64 * (r div 64 - 2 + 2) + r mod 64 = r" by (simp only: F(1))
    then show ?thesis
      using decode2 [OF d(2) F(4), of rest] unfolding e by simp
  next
    case 3
    have e: "encode_rune r = [char_of (0xE0 + r div 4096), char_of (0x80 + r div 64 mod 64),
        char_of (0x80 + r mod 64)]"
      using 3 assms by (simp add: encode_rune_def)
    have c: "r div 4096 < 16" "r div 4096 = 0 \<longrightarrow> 32 \<le> r div 64 mod 64" using 3 F by linarith+
    have s: "r div 4096 = 13 \<longrightarrow> r div 64 mod 64 < 32"
      using 3 assms F unfolding valid_rune_def by linarith
    have "4096 * (r div 4096) + 64 * (r div 64 mod 64) + r mod 64 = r" using F by linarith
    then show ?thesis
      using decode3 [OF c(1) F(5,4) c(2) s, of rest] unfolding e by simp
  next
    case 4
    have e: "encode_rune r = [char_of (0xF0 + r div 262144), char_of (0x80 + r div 4096 mod 64),
        char_of (0x80 + r div 64 mod 64), char_of (0x80 + r mod 64)]"
      using 4 assms by (simp add: encode_rune_def)
    have c: "r div 262144 \<le> 4" "r div 262144 = 0 \<longrightarrow> 16 \<le> r div 4096 mod 64"
      "r div 262144 = 4 \<longrightarrow> r div 4096 mod 64 < 16" using 4 F by linarith+
    have "262144 * (r div 262144) + 4096 * (r div 4096 mod 64) + 64 * (r div 64 mod 64) + r mod 64 = r"
      using F by linarith
    then show ?thesis
      using decode4 [OF c(1) F(6,5,4) c(2,3), of rest] unfolding e by simp
  qed
qed

lemma encode_rune_nonempty [simp]: "encode_rune r \<noteq> []"
  by (simp add: encode_rune_def Let_def)

lemma runes_encode_append:
  assumes "valid_rune r"
  shows "runes (encode_rune r @ s) = r # runes s"
  using assms by (subst runes.simps) (simp add: decode_encode_rune)

lemma runes_string_of_runes:
  assumes "list_all valid_rune rs"
  shows "runes (string_of_runes rs) = rs"
  using assms
  by (induction rs) (simp_all add: string_of_runes_def runes_encode_append)

lemma valid_rune2: "y < 64 \<Longrightarrow> valid_rune (64 * (b mod 32) + y)"
proof -
  assume "y < 64"
  moreover have "b mod 32 < 32" by simp
  ultimately show ?thesis unfolding valid_rune_def by linarith
qed

lemma valid_rune3:
  assumes "0xE0 \<le> b0" "b0 < 0xF0" "b1 \<le> second_hi b0" "0x80 \<le> b1"
  shows "valid_rune (4096 * (b0 mod 16) + 64 * (b1 mod 64) + z mod 64)"
proof -
  define x where "x = b0 - 0xE0"
  have x: "b0 = 0xE0 + x" "x < 16" using assms by (simp_all add: x_def)
  have m: "b0 mod 16 = x" "z mod 64 < 64" "b1 mod 64 < 64"
    using x by (simp_all add: mod_offset)
  have "b1 mod 64 < 32" if "x = 13"
  proof -
    have "b1 - 0x80 < 32" using that x assms by (simp add: second_hi_def)
    then show ?thesis
      using mod_offset [of "0x80" 64 "b1 - 0x80"] assms by simp
  qed
  moreover have "x < 13 \<or> x = 13 \<or> 13 < x" by linarith
  ultimately show ?thesis
    using x m(2,3) unfolding m(1) valid_rune_def by linarith
qed

lemma valid_rune4:
  assumes "0xF0 \<le> b0" "b0 \<le> 0xF4" "b1 \<le> second_hi b0" "second_lo b0 \<le> b1"
  shows "valid_rune (262144 * (b0 mod 8) + 4096 * (b1 mod 64) + 64 * (z mod 64) + w mod 64)"
proof -
  define x where "x = b0 - 0xF0"
  have x: "b0 = 0xF0 + x" "x \<le> 4" using assms by (simp_all add: x_def)
  have m: "b0 mod 8 = x" "z mod 64 < 64" "w mod 64 < 64" "b1 mod 64 < 64"
    using x by (simp_all add: mod_offset)
  have "0x80 \<le> b1" "b1 \<le> 0xBF"
    using assms by (auto simp: second_lo_def second_hi_def split: if_splits)
  then have y: "b1 = 0x80 + b1 mod 64"
    using mod_offset [of "0x80" 64 "b1 - 0x80"] by simp
  have "16 \<le> b1 mod 64" if "x = 0"
    using that x assms(4) y by (simp add: second_lo_def)
  moreover have "b1 mod 64 < 16" if "x = 4"
    using that x assms(3) y by (simp add: second_hi_def)
  moreover have "x = 0 \<or> (0 < x \<and> x < 4) \<or> x = 4" using x by linarith
  ultimately show ?thesis
    using m(2-4) unfolding m(1) valid_rune_def by linarith
qed

lemma decode_rune_valid: "valid_rune (fst (decode_rune s))"
proof -
  have e: "valid_rune RuneError" by (simp add: valid_rune_def)
  have a: "valid_rune b" if "b < 128" for b using that by (simp add: valid_rune_def)
  have lo: "0x80 \<le> second_lo b" for b by (simp add: second_lo_def)
  show ?thesis
    by (auto simp: decode_rune_def Let_def e a valid_rune2 not_less split: list.splits
        intro!: valid_rune3 valid_rune4 intro: order.trans [OF lo])
qed

lemma runes_valid: "list_all valid_rune (runes s)"
proof (induction s rule: runes.induct)
  case (1 s)
  then show ?case by (subst runes.simps) (simp add: decode_rune_valid)
qed

section \<open>Cutting text by runes\<close>

text \<open>
  The loop of \<open>chunkText\<close>, \<open>for start := 0; start < len(runes); start += limit\<close>. With a limit
  of 0 it would never end, which is the value \<open>None\<close>.
\<close>

partial_function (option) chunk_runes :: "nat \<Rightarrow> rune list \<Rightarrow> string list option" where
  "chunk_runes limit rs =
     (if rs = [] then Some []
      else Option.bind (chunk_runes limit (drop limit rs))
             (\<lambda>rest. Some (string_of_runes (take limit rs) # rest)))"

definition chunkText :: "string \<Rightarrow> nat \<Rightarrow> string list option" where
  "chunkText text limit =
     (let rs = runes text in if length rs \<le> limit then Some [text] else chunk_runes limit rs)"

definition perEpisodeChunkCharLimit :: nat where "perEpisodeChunkCharLimit = 4000"

definition embedTruncateRuneBudget :: nat where "embedTruncateRuneBudget = 20000"

definition TruncateForEmbedding :: "string \<Rightarrow> string" where
  "TruncateForEmbedding text =
     (let rs = runes text in
      if length rs \<le> embedTruncateRuneBudget then text
      else string_of_runes (take embedTruncateRuneBudget rs))"

definition keyFactEmbedMaxChars :: nat where "keyFactEmbedMaxChars = 4000"

text \<open>The text of a key fact as \<open>embedKeyFacts\<close> sends it.\<close>

definition fact_embed_text :: "string \<Rightarrow> string" where
  "fact_embed_text text =
     (let rs = runes text;
          rs = (if length rs > keyFactEmbedMaxChars then take keyFactEmbedMaxChars rs else rs)
      in TruncateForEmbedding (string_of_runes rs))"

lemma runes_string_of_take: "runes (string_of_runes (take n (runes s))) = take n (runes s)"
  using runes_valid [of s] by (intro runes_string_of_runes) (auto simp: list_all_iff dest: in_set_takeD)

text \<open>Every chunk of a terminating run, with the runes the chunks hold.\<close>

lemma chunk_runes_total:
  assumes "limit > 0" "list_all valid_rune rs"
  shows "\<exists>cs. chunk_runes limit rs = Some cs \<and> concat (map runes cs) = rs
           \<and> (\<forall>c \<in> set cs. 0 < length (runes c) \<and> length (runes c) \<le> limit)"
  using assms(2)
proof (induction rs rule: length_induct)
  case (1 rs)
  show ?case
  proof (cases "rs = []")
    case True
    then show ?thesis by (simp add: chunk_runes.simps)
  next
    case False
    have d: "list_all valid_rune (take limit rs)" "list_all valid_rune (drop limit rs)"
      using 1(2) by (auto simp: list_all_iff dest: in_set_takeD in_set_dropD)
    obtain cs where cs: "chunk_runes limit (drop limit rs) = Some cs"
      "concat (map runes cs) = drop limit rs"
      "\<forall>c \<in> set cs. 0 < length (runes c) \<and> length (runes c) \<le> limit"
      using 1(1) False assms(1) d(2) by (metis diff_less length_drop length_greater_0_conv)
    show ?thesis
      using False assms(1) cs runes_string_of_runes [OF d(1)]
      by (subst chunk_runes.simps) simp
  qed
qed

text \<open>
  With a positive limit \<open>chunkText\<close> ends, loses no rune and adds none: its chunks, decoded
  and put together, are the runes of the text, and no chunk has more than \<open>limit\<close> of them. No
  character is ever split between two chunks.
\<close>

lemma chunkText_partition:
  assumes "limit > 0"
  shows "\<exists>cs. chunkText text limit = Some cs \<and> concat (map runes cs) = runes text
           \<and> list_all (\<lambda>c. length (runes c) \<le> limit) cs"
proof (cases "length (runes text) \<le> limit")
  case True
  then show ?thesis by (simp add: chunkText_def Let_def)
next
  case False
  then show ?thesis
    using chunk_runes_total [OF assms runes_valid, of "text"]
    by (auto simp: chunkText_def Let_def list_all_iff)
qed

lemma chunkText_partition_witness:
  "\<exists>cs. chunkText ''abcde'' 2 = Some cs \<and> concat (map runes cs) = runes ''abcde''
     \<and> list_all (\<lambda>c. length (runes c) \<le> 2) cs"
  by (rule chunkText_partition) simp

text \<open>
  What \<open>TruncateForEmbedding\<close> sends to an embedding model has at most 20000 runes, and it
  is the text itself or a run of its first runes: the cut never falls inside a character.
\<close>

lemma TruncateForEmbedding_bound:
  "length (runes (TruncateForEmbedding text)) \<le> embedTruncateRuneBudget
   \<and> runes (TruncateForEmbedding text) = take embedTruncateRuneBudget (runes text)"
  by (simp add: TruncateForEmbedding_def Let_def runes_string_of_take)

section \<open>Case, white space and slugs\<close>

text \<open>
  \<open>strings.ToLower\<close> maps every rune; the case table of the \<open>unicode\<close> package is the parameter
  \<open>lower\<close>. What the code relies on of it is its ASCII part.
\<close>

definition ToLower :: "(rune \<Rightarrow> rune) \<Rightarrow> string \<Rightarrow> string" where
  "ToLower lower s = string_of_runes (map lower (runes s))"

definition ascii_lower :: "(rune \<Rightarrow> rune) \<Rightarrow> bool" where
  "ascii_lower lower \<longleftrightarrow> (\<forall>r<128. lower r = (if 65 \<le> r \<and> r \<le> 90 then r + 32 else r))"

definition IsSpace :: "rune \<Rightarrow> bool" where
  "IsSpace r \<longleftrightarrow> r \<in> set [9, 10, 11, 12, 13, 32, 0x85, 0xA0, 0x1680, 0x2000, 0x2001, 0x2002,
      0x2003, 0x2004, 0x2005, 0x2006, 0x2007, 0x2008, 0x2009, 0x200A, 0x2028, 0x2029, 0x202F,
      0x205F, 0x3000]"

definition TrimSpace :: "string \<Rightarrow> string" where
  "TrimSpace s =
     (let sp = (\<lambda>seg. IsSpace (fst (decode_rune seg)))
      in concat (rev (dropWhile sp (rev (dropWhile sp (segments s))))))"

definition alnum :: "rune \<Rightarrow> bool" where
  "alnum r \<longleftrightarrow> (97 \<le> r \<and> r \<le> 122) \<or> (48 \<le> r \<and> r \<le> 57)"

text \<open>The loop of \<open>slugify\<close>; the flag is \<open>lastHyphen\<close>.\<close>

fun slug_loop :: "rune list \<Rightarrow> bool \<Rightarrow> string" where
  "slug_loop [] lastHyphen = []"
| "slug_loop (r # rs) lastHyphen =
     (if alnum r then char_of r # slug_loop rs False
      else if \<not> lastHyphen then CHR ''-'' # slug_loop rs True
      else slug_loop rs lastHyphen)"

definition slugify :: "(rune \<Rightarrow> rune) \<Rightarrow> string \<Rightarrow> string" where
  "slugify lower s = trim_suffix ''-'' (slug_loop (runes (ToLower lower s)) True)"

definition canonicalEntityID :: "(rune \<Rightarrow> rune) \<Rightarrow> string \<Rightarrow> string \<Rightarrow> string \<Rightarrow> string" where
  "canonicalEntityID lower kind name fallback =
     (let slug = slugify lower name in if slug = [] then fallback else kind @ '':'' @ slug)"

definition validEntityKinds :: "string list" where
  "validEntityKinds =
     [''person'', ''project'', ''preference'', ''skill'', ''place'', ''organization'']"

definition relationshipPredicateMaxLen :: nat where "relationshipPredicateMaxLen = 64"

definition sanitizePredicate :: "(rune \<Rightarrow> rune) \<Rightarrow> string \<Rightarrow> string" where
  "sanitizePredicate lower s =
     (let s = ToLower lower (TrimSpace s)
      in if s = [] \<or> length s > relationshipPredicateMaxLen then [] else s)"

definition personPredicateAliases :: "string \<Rightarrow> string option" where
  "personPredicateAliases = [''based_in'' \<mapsto> ''lives_in'']"

definition canonicalizePredicate :: "string \<Rightarrow> string \<Rightarrow> string" where
  "canonicalizePredicate subjectKind predicate =
     (if subjectKind \<noteq> ''person'' then predicate
      else (case personPredicateAliases predicate of Some canonical \<Rightarrow> canonical
            | None \<Rightarrow> predicate))"

text \<open>The words a slug is made of: the maximal runs of letters and digits.\<close>

function slug_words :: "rune list \<Rightarrow> string list" where
  "slug_words rs =
     (let ts = dropWhile (\<lambda>r. \<not> alnum r) rs in
      if ts = [] then []
      else map char_of (takeWhile alnum ts) # slug_words (dropWhile alnum ts))"
  by pat_completeness auto
termination
proof (relation "measure length", simp)
  fix rs ts :: "rune list"
  assume ts: "ts = dropWhile (\<lambda>r. \<not> alnum r) rs" and "ts \<noteq> []"
  then have "alnum (hd ts)" using hd_dropWhile [of "\<lambda>r. \<not> alnum r" rs] by simp
  then have "length (dropWhile alnum ts) < length ts"
    using \<open>ts \<noteq> []\<close> by (cases ts) (auto intro: le_imp_less_Suc length_dropWhile_le)
  also have "\<dots> \<le> length rs" unfolding ts by (rule length_dropWhile_le)
  finally show "(dropWhile alnum ts, rs) \<in> measure length" by simp
qed

declare slug_words.simps [simp del]

lemma slug_loop_alnum:
  assumes "list_all alnum a" "a \<noteq> []"
  shows "slug_loop (a @ b) l = map char_of a @ slug_loop b False"
  using assms(2,1) by (induction a arbitrary: l rule: list_nonempty_induct) simp_all

lemma slug_loop_drop: "slug_loop rs True = slug_loop (dropWhile (\<lambda>r. \<not> alnum r) rs) True"
  by (induction rs) simp_all

lemma slug_loop_sep:
  "b \<noteq> [] \<Longrightarrow> \<not> alnum (hd b) \<Longrightarrow> slug_loop b False = CHR ''-'' # slug_loop b True"
  by (cases b) simp_all

lemma list_all_takeWhile: "list_all P (takeWhile P xs)"
  by (auto simp: list_all_iff dest: set_takeWhileD)

lemma slug_loop_words:
  "\<exists>tail. slug_loop rs True = join ''-'' (slug_words rs) @ tail
     \<and> (tail = [] \<or> tail = ''-'' \<and> slug_words rs \<noteq> [])"
proof (induction rs rule: slug_words.induct)
  case (1 rs)
  define ts where "ts = dropWhile (\<lambda>r. \<not> alnum r) rs"
  show ?case
  proof (cases "ts = []")
    case True
    then show ?thesis
      using slug_loop_drop [of rs] by (simp add: slug_words.simps [of rs] flip: ts_def)
  next
    case False
    define a b where "a = takeWhile alnum ts" and "b = dropWhile alnum ts"
    have ab: "ts = a @ b" by (simp add: a_def b_def)
    have "alnum (hd ts)"
      using False hd_dropWhile [of "\<lambda>r. \<not> alnum r" rs] by (simp add: ts_def)
    then have a: "list_all alnum a" "a \<noteq> []"
      using False by (cases ts; simp add: a_def list_all_takeWhile)+
    have w: "slug_words rs = map char_of a # slug_words b"
      using False by (simp add: slug_words.simps [of rs] a_def b_def flip: ts_def)
    have l: "slug_loop rs True = map char_of a @ slug_loop b False"
      using slug_loop_drop [of rs] slug_loop_alnum [OF a, of b True] by (simp add: ab flip: ts_def)
    show ?thesis
    proof (cases "b = []")
      case True
      then show ?thesis using w l by (simp add: slug_words.simps [of "[]"])
    next
      case bne: False
      then have sep: "slug_loop b False = CHR ''-'' # slug_loop b True"
        using hd_dropWhile [of alnum ts] by (intro slug_loop_sep) (simp_all add: b_def)
      obtain tail where tail: "slug_loop b True = join ''-'' (slug_words b) @ tail"
        "tail = [] \<or> tail = ''-'' \<and> slug_words b \<noteq> []"
        using 1 False by (auto simp: b_def ts_def)
      then show ?thesis
        using w l sep by (cases "slug_words b") auto
    qed
  qed
qed

lemma slug_words_alnum:
  "w \<in> set (slug_words rs) \<Longrightarrow> w \<noteq> [] \<and> (\<forall>c \<in> set w. alnum (of_char c))"
proof (induction rs rule: slug_words.induct)
  case (1 rs)
  define ts where "ts = dropWhile (\<lambda>r. \<not> alnum r) rs"
  have ne: "ts \<noteq> []"
    using 1(2) by (auto simp: slug_words.simps [of rs] ts_def Let_def split: if_splits)
  then have h: "alnum (hd ts)"
    using hd_dropWhile [of "\<lambda>r. \<not> alnum r" rs] by (simp add: ts_def)
  have c: "alnum (of_char (char_of r :: char))" if "alnum r" for r :: rune
    using that byte_of_char_of [of r] by (auto simp: alnum_def)
  have "slug_words rs = map char_of (takeWhile alnum ts) # slug_words (dropWhile alnum ts)"
    using ne by (simp add: slug_words.simps [of rs] flip: ts_def)
  then consider "w = map char_of (takeWhile alnum ts)" | "w \<in> set (slug_words (dropWhile alnum ts))"
    using 1(2) by auto
  then show ?case
  proof cases
    case 1
    then show ?thesis
      using ne h c by (cases ts) (auto dest: set_takeWhileD)
  next
    case 2
    then show ?thesis using 1(1) ne by (simp add: ts_def)
  qed
qed

lemma join_last_alnum:
  assumes "ws \<noteq> []" "\<And>w. w \<in> set ws \<Longrightarrow> w \<noteq> [] \<and> (\<forall>c \<in> set w. alnum (of_char c))"
  shows "join ''-'' ws \<noteq> [] \<and> alnum (of_char (last (join ''-'' ws)))"
  using assms by (induction ws rule: induct_list012) auto

lemma trim_suffix_other: "s = [] \<or> last s \<noteq> c \<Longrightarrow> trim_suffix [c] s = s"
  by (cases s rule: rev_cases) (auto simp: trim_suffix_def)

lemma slugify_words: "slugify lower s = join ''-'' (slug_words (runes (ToLower lower s)))"
proof -
  let ?rs = "runes (ToLower lower s)"
  obtain tail where t: "slug_loop ?rs True = join ''-'' (slug_words ?rs) @ tail"
    "tail = [] \<or> tail = ''-'' \<and> slug_words ?rs \<noteq> []"
    using slug_loop_words by blast
  have "slug_words ?rs \<noteq> [] \<Longrightarrow> alnum (of_char (last (join ''-'' (slug_words ?rs))))"
    by (rule conjunct2 [OF join_last_alnum]) (auto dest: slug_words_alnum)
  then have "join ''-'' (slug_words ?rs) = [] \<or> last (join ''-'' (slug_words ?rs)) \<noteq> CHR ''-''"
    by (cases "slug_words ?rs = []") (auto simp: alnum_def)
  then have "trim_suffix ''-'' (join ''-'' (slug_words ?rs)) = join ''-'' (slug_words ?rs)"
    by (rule trim_suffix_other)
  then show ?thesis
    using t by (auto simp: slugify_def)
qed

text \<open>A slug goes through \<open>slugify\<close> unchanged: its words are read back one by one.\<close>

lemma slug_words_join:
  assumes "\<And>w. w \<in> set ws \<Longrightarrow> w \<noteq> [] \<and> (\<forall>c \<in> set w. alnum (of_char c))"
  shows "slug_words (map of_char (join ''-'' ws)) = ws"
  using assms
proof (induction ws rule: induct_list012)
  case 1
  then show ?case by (simp add: slug_words.simps)
next
  case (2 w)
  then have "alnum (of_char (hd w))" "w \<noteq> []" by auto
  then have "dropWhile (\<lambda>r. \<not> alnum r) (map of_char w) = map of_char w"
    by (cases w) auto
  moreover have t: "takeWhile alnum (map of_char w) = map of_char w"
    using 2 by (auto simp: takeWhile_eq_all_conv)
  moreover have d: "dropWhile alnum (map of_char w) = []"
    using 2 by auto
  ultimately show ?case
    using \<open>w \<noteq> []\<close> by (subst slug_words.simps) (simp add: slug_words.simps [of "[]"] comp_def Let_def t d)
next
  case (3 w v ws)
  let ?rest = "map of_char (join ''-'' (v # ws)) :: rune list"
  have h: "\<not> alnum 45" by (simp add: alnum_def)
  have w: "w \<noteq> []" "\<forall>c \<in> set w. alnum (of_char c)" using 3 by auto
  then have "dropWhile (\<lambda>r. \<not> alnum r) (map of_char w @ 45 # ?rest) = map of_char w @ 45 # ?rest"
    by (cases w) auto
  moreover have "takeWhile alnum (map of_char w @ 45 # ?rest) = map of_char w"
    "dropWhile alnum (map of_char w @ 45 # ?rest) = 45 # ?rest"
    using w h by (simp_all add: takeWhile_append dropWhile_append)
  moreover have "slug_words (45 # ?rest) = slug_words ?rest"
    using h by (simp add: slug_words.simps [of "45 # ?rest"] slug_words.simps [of ?rest])
  moreover have "slug_words ?rest = v # ws"
    by (rule 3) (use 3 in auto)
  ultimately show ?case
    using w by (subst slug_words.simps) (simp add: comp_def Let_def)
qed

lemma runes_ascii: "(\<And>c. c \<in> set s \<Longrightarrow> of_char c < (128::nat)) \<Longrightarrow> runes s = map of_char s"
proof (induction s)
  case (Cons c s)
  then have "decode_rune (c # s) = (of_char c, 1)" by (simp add: decode_rune_def)
  then show ?case using Cons by (subst runes.simps) simp
qed simp

lemma string_of_runes_ascii:
  "(\<And>c. c \<in> set s \<Longrightarrow> of_char c < (128::nat)) \<Longrightarrow> string_of_runes (map of_char s) = s"
proof (induction s)
  case (Cons c s)
  then have "of_char c < (128::nat)" by simp
  then have "encode_rune (of_char c) = [c]" by (simp add: encode_rune_def valid_rune_def)
  then show ?case using Cons by (simp add: string_of_runes_def)
qed (simp add: string_of_runes_def)

text \<open>
  \<open>slugify\<close> puts hyphens between the maximal runs of letters and digits of the lowered
  text, each of them non-empty, and a slug is a fixed point of it. So an entity's canonical id
  does not depend on the punctuation, the spacing or the case in which its name was spelled, and
  canonicalising an id's slug again changes nothing.
\<close>

lemma slugify_canonical:
  assumes "ascii_lower lower"
  shows "slugify lower s = join ''-'' (slug_words (runes (ToLower lower s)))
         \<and> slugify lower (slugify lower s) = slugify lower s"
proof -
  let ?ws = "slug_words (runes (ToLower lower s))"
  have w: "w \<noteq> [] \<and> (\<forall>c \<in> set w. alnum (of_char c))" if "w \<in> set ?ws" for w
    using that by (rule slug_words_alnum)
  have sub: "set (join ''-'' ws) \<subseteq> insert CHR ''-'' (\<Union> (set ` set ws))" for ws
    by (induction ws rule: induct_list012) auto
  have c: "of_char x < (128::nat)" "lower (of_char x) = of_char x" if "x \<in> set (join ''-'' ?ws)" for x
  proof -
    have "x = CHR ''-'' \<or> alnum (of_char x)" using that sub w by blast
    then show "of_char x < (128::nat)" by (auto simp: alnum_def)
    with \<open>x = CHR ''-'' \<or> alnum (of_char x)\<close> show "lower (of_char x) = of_char x"
      using assms by (auto simp: ascii_lower_def alnum_def)
  qed
  have "runes (join ''-'' ?ws) = map of_char (join ''-'' ?ws)"
    using c(1) by (rule runes_ascii)
  then have "ToLower lower (join ''-'' ?ws) = join ''-'' ?ws"
    using c string_of_runes_ascii [of "join ''-'' ?ws"]
    by (simp add: ToLower_def comp_def cong: map_cong)
  then have "slugify lower (join ''-'' ?ws) = join ''-'' ?ws"
    using slug_words_join [OF w] runes_ascii [OF c(1)]
    by (simp add: slugify_words [of lower "join ''-'' ?ws"])
  then show ?thesis by (simp add: slugify_words)
qed

definition ascii_lower_only :: "rune \<Rightarrow> rune" where
  "ascii_lower_only r = (if 65 \<le> r \<and> r \<le> 90 then r + 32 else r)"

lemma slugify_canonical_witness:
  "slugify ascii_lower_only ''Project  Falcon!'' =
     join ''-'' (slug_words (runes (ToLower ascii_lower_only ''Project  Falcon!'')))
   \<and> slugify ascii_lower_only (slugify ascii_lower_only ''Project  Falcon!'') =
     slugify ascii_lower_only ''Project  Falcon!''"
  by (rule slugify_canonical) (simp add: ascii_lower_def ascii_lower_only_def)

end
