(* ===== verification/Calendar.thy ===== *)
theory Calendar
  imports Go_Text
begin

text \<open>
  Calendar arithmetic of the consolidation engine: the periods of summaries
  (\<open>internal/consolidation/period.go\<close>) and the schedule of rollups
  (\<open>cmd/hupi-consolidate/rollup.go\<close>), over a model of Go's \<open>time.Date\<close>, \<open>AddDate\<close>, \<open>Weekday\<close>,
  \<open>ISOWeek\<close>, \<open>Format\<close> and \<open>Parse\<close> for the layouts the code uses. A day is its number counted from
  1 January of year 1, a Monday.
\<close>

declare One_nat_def [simp del]

section \<open>Go's calendar\<close>

type_synonym day = int

definition leap :: "int \<Rightarrow> bool" where
  "leap y \<longleftrightarrow> 4 dvd y \<and> (\<not> 100 dvd y \<or> 400 dvd y)"

definition year_start :: "int \<Rightarrow> day" where
  "year_start y = 365 * (y - 1) + (y - 1) div 4 - (y - 1) div 100 + (y - 1) div 400"

definition month_start :: "int \<Rightarrow> int \<Rightarrow> int" where
  "month_start y m = [0, 31, 59, 90, 120, 151, 181, 212, 243, 273, 304, 334, 365] ! nat (m - 1)
     + (if m > 2 \<and> leap y then 1 else 0)"

definition daysIn :: "int \<Rightarrow> int \<Rightarrow> int" where
  "daysIn y m = month_start y (m + 1) - month_start y m"

text \<open>\<open>time.Date(y, m, d, 0, 0, 0, 0, time.UTC)\<close>, months and days out of range normalised.\<close>

definition Date :: "int \<Rightarrow> int \<Rightarrow> int \<Rightarrow> day" where
  "Date y m d = (let y' = y + (m - 1) div 12; m' = (m - 1) mod 12 + 1
                 in year_start y' + month_start y' m' + d - 1)"

definition Year :: "day \<Rightarrow> int" where
  "Year n = (let r = n mod 146097; c = min 3 (r div 36524); r2 = r - 36524 * c;
                 r3 = r2 mod 1461; a = min 3 (r3 div 365)
             in 400 * (n div 146097) + 100 * c + 4 * (r2 div 1461) + a + 1)"

definition YearDay :: "day \<Rightarrow> int" where   \<comment> \<open>from 0\<close>
  "YearDay n = n - year_start (Year n)"

definition Month :: "day \<Rightarrow> int" where
  "Month n = int (length (filter (\<lambda>m. month_start (Year n) m \<le> YearDay n) [1..12]))"

definition Day :: "day \<Rightarrow> int" where
  "Day n = YearDay n - month_start (Year n) (Month n) + 1"

definition Weekday :: "day \<Rightarrow> int" where   \<comment> \<open>Sunday is 0\<close>
  "Weekday n = (n + 1) mod 7"

definition Monday :: int where "Monday = 1"

definition AddDate :: "day \<Rightarrow> int \<Rightarrow> int \<Rightarrow> int \<Rightarrow> day" where
  "AddDate n years months days = Date (Year n + years) (Month n + months) (Day n + days)"

text \<open>\<open>ISOWeek\<close>: the year and week of the Thursday of the same week.\<close>

definition ISOWeek :: "day \<Rightarrow> int \<times> int" where
  "ISOWeek n = (let thursday = n - (Weekday n - 1) mod 7 + 3
                in (Year thursday, YearDay thursday div 7 + 1))"

section \<open>Decimal numbers and layouts\<close>

definition digit :: "nat \<Rightarrow> char" where "digit n = char_of (48 + n)"

fun dec :: "nat \<Rightarrow> string" where
  "dec n = (if n < 10 then [digit n] else dec (n div 10) @ [digit (n mod 10)])"

declare dec.simps [simp del]

text \<open>The verb \<open>%0kd\<close> on a number that is not negative.\<close>

definition pad :: "nat \<Rightarrow> nat \<Rightarrow> string" where
  "pad k n = replicate (k - length (dec n)) CHR ''0'' @ dec n"

definition isDigit :: "char \<Rightarrow> bool" where
  "isDigit c \<longleftrightarrow> 48 \<le> byte_of c \<and> byte_of c \<le> 57"

definition num :: "string \<Rightarrow> nat" where
  "num s = foldl (\<lambda>n c. 10 * n + (byte_of c - 48)) 0 s"

definition format_date :: "day \<Rightarrow> string" where   \<comment> \<open>\<open>Format("2006-01-02")\<close>\<close>
  "format_date n = pad 4 (nat (Year n)) @ ''-'' @ pad 2 (nat (Month n)) @ ''-'' @ pad 2 (nat (Day n))"

definition format_month :: "day \<Rightarrow> string" where  \<comment> \<open>\<open>Format("2006-01")\<close>\<close>
  "format_month n = pad 4 (nat (Year n)) @ ''-'' @ pad 2 (nat (Month n))"

text \<open>\<open>time.Parse\<close> with the layouts 2006-01-02, 2006-01 and 2006: digit groups of fixed width, the
  month and the day of the month in range, nothing left over.\<close>

definition digits :: "nat \<Rightarrow> string \<Rightarrow> (int \<times> string) option" where
  "digits k s = (if length s \<ge> k \<and> list_all isDigit (take k s)
                 then Some (int (num (take k s)), drop k s) else None)"

definition month_group :: "string \<Rightarrow> (int \<times> string) option" where
  "month_group s = (case s of CHR ''-'' # r \<Rightarrow>
       (case digits 2 r of Some (m, r') \<Rightarrow> if 1 \<le> m \<and> m \<le> 12 then Some (m, r') else None | None \<Rightarrow> None)
     | _ \<Rightarrow> None)"

definition parse_date :: "string \<Rightarrow> day option" where
  "parse_date s =
     (case digits 4 s of None \<Rightarrow> None | Some (y, r) \<Rightarrow>
       (case month_group r of None \<Rightarrow> None | Some (m, r') \<Rightarrow>
         (case r' of CHR ''-'' # r'' \<Rightarrow>
           (case digits 2 r'' of Some (d, []) \<Rightarrow>
               if 1 \<le> d \<and> d \<le> daysIn y m then Some (Date y m d) else None
            | _ \<Rightarrow> None)
          | _ \<Rightarrow> None)))"

definition parse_month :: "string \<Rightarrow> day option" where
  "parse_month s =
     (case digits 4 s of None \<Rightarrow> None | Some (y, r) \<Rightarrow>
       (case month_group r of Some (m, []) \<Rightarrow> Some (Date y m 1) | _ \<Rightarrow> None))"

definition parse_year :: "string \<Rightarrow> day option" where
  "parse_year s = (case digits 4 s of Some (y, []) \<Rightarrow> Some (Date y 1 1) | _ \<Rightarrow> None)"

text \<open>\<open>Sscanf(s, "%d-W%d", ...)\<close>: a sign is allowed, space before a number is skipped, a 64-bit
  overflow is an error and text after the second number is ignored.\<close>

definition scan_space :: "string \<Rightarrow> string" where
  "scan_space s = dropWhile (\<lambda>c. c \<in> {CHR '' '', CHR 0x09, CHR 0x0B, CHR 0x0C, CHR 0x0D}) s"

definition scan_int :: "string \<Rightarrow> (int \<times> string) option" where
  "scan_int s = (let t = scan_space s;
       neg = (case t of c # _ \<Rightarrow> c = CHR ''-'' | [] \<Rightarrow> False);
       u = (case t of c # r \<Rightarrow> if c = CHR ''-'' \<or> c = CHR ''+'' then r else t | [] \<Rightarrow> []);
       ds = takeWhile isDigit u; v = (if neg then - int (num ds) else int (num ds))
     in if ds = [] \<or> v < - (2 ^ 63) \<or> v \<ge> 2 ^ 63 then None else Some (v, dropWhile isDigit u))"

definition scan_week :: "string \<Rightarrow> (int \<times> int) option" where
  "scan_week s = (case scan_int s of None \<Rightarrow> None | Some (y, r) \<Rightarrow>
     (case r of CHR ''-'' # CHR ''W'' # r' \<Rightarrow>
        (case scan_int r' of None \<Rightarrow> None | Some (w, _) \<Rightarrow> Some (y, w))
      | _ \<Rightarrow> None))"

section \<open>Periods of summaries\<close>

definition isoWeekStart :: "int \<Rightarrow> int \<Rightarrow> day" where
  "isoWeekStart year week = (let jan4 = Date year 1 4;
       wd = (if Weekday jan4 = 0 then 7 else Weekday jan4);
       monday = jan4 - (wd - 1)
     in monday + (week - 1) * 7)"

definition periodAsOfDate :: "string \<Rightarrow> string \<Rightarrow> day option" where
  "periodAsOfDate level period =
     (if level = ''daily'' then parse_date period
      else if level = ''weekly'' then
        (case scan_week period of None \<Rightarrow> None | Some (year, week) \<Rightarrow> Some (isoWeekStart year week + 6))
      else if level = ''monthly'' then map_option (\<lambda>t. AddDate t 0 1 (- 1)) (parse_month period)
      else if level = ''yearly'' then map_option (\<lambda>t. AddDate t 1 0 (- 1)) (parse_year period)
      else None)"

section \<open>The schedule of rollups\<close>

record rollupJob =
  rj_level :: string
  rj_sourceLevel :: string
  rj_period :: string
  rj_sourcePeriods :: "string list"

definition week_period :: "int \<times> int \<Rightarrow> string" where
  "week_period = (\<lambda>(year, week). pad 4 (nat year) @ ''-W'' @ pad 2 (nat week))"

definition weeklyRollup :: "day \<Rightarrow> rollupJob option" where
  "weeklyRollup date =
     (if Weekday date \<noteq> Monday then None
      else let lastDay = date - 1
           in Some \<lparr>rj_level = ''weekly'', rj_sourceLevel = ''daily'', rj_period = week_period (ISOWeek lastDay),
                    rj_sourcePeriods = map format_date [date - 7..lastDay]\<rparr>)"

definition monthlyRollup :: "day \<Rightarrow> rollupJob option" where
  "monthlyRollup date =
     (if Day date \<noteq> 1 then None
      else let monthEnd = date - 1; monthStart = Date (Year monthEnd) (Month monthEnd) 1
           in Some \<lparr>rj_level = ''monthly'', rj_sourceLevel = ''weekly'', rj_period = format_month monthStart,
                    rj_sourcePeriods = map (\<lambda>d. week_period (ISOWeek d))
                      (filter (\<lambda>d. Weekday d = Monday) [monthStart..monthEnd])\<rparr>)"

definition yearlyRollup :: "day \<Rightarrow> rollupJob option" where
  "yearlyRollup date =
     (if Month date \<noteq> 1 \<or> Day date \<noteq> 1 then None
      else let prevYear = Year date - 1
           in Some \<lparr>rj_level = ''yearly'', rj_sourceLevel = ''monthly'', rj_period = pad 4 (nat prevYear),
                    rj_sourcePeriods = map (\<lambda>m. pad 4 (nat prevYear) @ ''-'' @ pad 2 (nat m)) [1..12]\<rparr>)"

definition dueRollups :: "day \<Rightarrow> rollupJob list" where
  "dueRollups date = List.map_filter (\<lambda>f. f date) [weeklyRollup, monthlyRollup, yearlyRollup]"

section \<open>The calendar is consistent\<close>

lemma div_step: "(k::int) > 0 \<Longrightarrow> y div k - (y - 1) div k = (if k dvd y then 1 else 0)"
proof (cases "k dvd y")
  case True
  assume k: "k > 0"
  obtain q where q: "y = k * q" using True by (rule dvdE)
  have "(k * q - 1) div k = q - 1"
    using k by (intro int_div_pos_eq [where r = "k - 1"]) (simp_all add: algebra_simps)
  then show ?thesis using True k q by simp
next
  case False
  assume k: "k > 0"
  have m: "y mod k \<noteq> 0" using False by (simp add: dvd_eq_mod_eq_0)
  have "y - 1 = k * (y div k) + (y mod k - 1)" by (simp add: algebra_simps)
  then have "(y - 1) div k = y div k"
    using k m pos_mod_bound [of k y] pos_mod_sign [of k y]
    by (intro int_div_pos_eq [where r = "y mod k - 1"]) linarith+
  then show ?thesis using False by simp
qed

lemma leap_count:
  "(c \<Longrightarrow> b) \<Longrightarrow> (b \<Longrightarrow> a) \<Longrightarrow>
     (if a then 1 else 0) - (if b then 1 else 0) + (if c then 1 else 0) = (if a \<and> (\<not> b \<or> c) then 1 else 0 :: int)"
  by (cases a; cases b; cases c) simp_all

lemma year_start_Suc: "year_start (y + 1) = year_start y + 365 + (if leap y then 1 else 0)"
proof -
  define d4 d100 d400 where d: "d4 = y div 4 - (y - 1) div 4" "d100 = y div 100 - (y - 1) div 100"
    "d400 = y div 400 - (y - 1) div 400"
  have e: "d4 = (if 4 dvd y then 1 else 0)" "d100 = (if 100 dvd y then 1 else 0)"
    "d400 = (if 400 dvd y then 1 else 0)"
    unfolding d by (rule div_step, simp)+
  have "(100 :: int) dvd 400" "(4 :: int) dvd 100" by simp_all
  then have "400 dvd y \<Longrightarrow> 100 dvd y" "100 dvd y \<Longrightarrow> 4 dvd y"
    using dvd_trans by blast+
  then have "d4 - d100 + d400 = (if leap y then 1 else 0)"
    unfolding e leap_def by (rule leap_count)
  moreover have "year_start (y + 1) - year_start y = 365 + d4 - d100 + d400"
    unfolding d year_start_def by simp
  ultimately show ?thesis by linarith
qed

lemma year_start_mono: "y \<le> z \<Longrightarrow> year_start y \<le> year_start z"
proof (induction "nat (z - y)" arbitrary: z)
  case (Suc k)
  then have "year_start y \<le> year_start (z - 1)" by simp
  then show ?case using year_start_Suc [of "z - 1"] by (simp split: if_splits)
qed simp

lemma year_start_strict: "y < z \<Longrightarrow> year_start (y + 1) \<le> year_start z"
  by (rule year_start_mono) simp

lemma year_start_parts:
  assumes "0 \<le> a" "a \<le> 3" "0 \<le> b" "b \<le> 24" "0 \<le> c" "c \<le> 3"
  shows "year_start (400 * q + 100 * c + 4 * b + a + 1) = 146097 * q + 36524 * c + 1461 * b + 365 * a"
proof -
  have "(400 * q + 100 * c + 4 * b + a) div 4 = 100 * q + 25 * c + b"
    using assms by (intro int_div_pos_eq [where r = a]) simp_all
  moreover have "(400 * q + 100 * c + 4 * b + a) div 100 = 4 * q + c"
    using assms by (intro int_div_pos_eq [where r = "4 * b + a"]) simp_all
  moreover have "(400 * q + 100 * c + 4 * b + a) div 400 = q"
    using assms by (intro int_div_pos_eq [where r = "100 * c + 4 * b + a"]) simp_all
  ultimately show ?thesis by (simp add: year_start_def)
qed

lemma min_div:
  assumes "0 \<le> r" "0 < k"
  shows "0 \<le> min 3 (r div k)" "min 3 (r div k) \<le> 3" "k * min 3 (r div k) \<le> r"
    "r < k * min 3 (r div k) + k \<or> min 3 (r div k) = (3 :: int)"
proof -
  have e: "0 \<le> r div k" "k * (r div k) \<le> r" "r < k * (r div k) + k"
    using assms pos_mod_bound [of k r] pos_mod_sign [of k r] mult_div_mod_eq [of k r]
    by (simp_all add: pos_imp_zdiv_nonneg_iff, linarith+)
  have "k * min 3 (r div k) \<le> k * (r div k)" using assms by simp
  then show "k * min 3 (r div k) \<le> r" using e by linarith
  show "0 \<le> min 3 (r div k)" "min 3 (r div k) \<le> 3" using e by simp_all
  show "r < k * min 3 (r div k) + k \<or> min 3 (r div k) = 3" using e by (simp add: min_def)
qed

lemma Year_bounds: "year_start (Year n) \<le> n" "n < year_start (Year n + 1)"
proof -
  define q where "q = n div 146097"
  define r where "r = n mod 146097"
  define c where "c = min 3 (r div 36524)"
  define r2 where "r2 = r - 36524 * c"
  define b where "b = r2 div 1461"
  define r3 where "r3 = r2 mod 1461"
  define a where "a = min 3 (r3 div 365)"
  have r: "0 \<le> r" "r \<le> 146096" by (simp_all add: r_def)
  have n: "n = 146097 * q + r" by (simp add: q_def r_def)
  have c: "0 \<le> c" "c \<le> 3" and c2: "36524 * c \<le> r" "r < 36524 * c + 36524 \<or> c = 3"
    unfolding c_def by (rule min_div [OF r(1)], simp)+
  have r2: "0 \<le> r2" "c < 3 \<Longrightarrow> r2 < 36524" "r2 \<le> 36524"
    using r c2 unfolding r2_def by linarith+
  have r23: "r2 = 1461 * b + r3" "0 \<le> r3" "r3 \<le> 1460" by (simp_all add: b_def r3_def)
  have b: "0 \<le> b" "b \<le> 24" using r2 r23 by linarith+
  have a: "0 \<le> a" "a \<le> 3" and a2': "365 * a \<le> r3" "r3 < 365 * a + 365 \<or> a = 3"
    unfolding a_def by (rule min_div [OF r23(2)], simp)+
  then have a2: "365 * a \<le> r3" "r3 < 365 * a + 365 \<or> (r3 = 1460 \<and> a = 3)"
    using r23(3) by linarith+
  have Y: "Year n = 400 * q + 100 * c + 4 * b + a + 1"
    unfolding Year_def Let_def q_def r_def c_def r2_def b_def r3_def a_def by (rule refl)
  have ys: "year_start (Year n) = 146097 * q + 36524 * c + 1461 * b + 365 * a"
    unfolding Y by (rule year_start_parts [OF a b c])
  have off: "n - year_start (Year n) = r3 - 365 * a"
    using n ys r23(1) r2_def by simp
  show "year_start (Year n) \<le> n" using off a2(1) by linarith
  have "leap (Year n)" if "r3 = 1460" "a = 3"
  proof -
    have y: "Year n = 4 * (100 * q + 25 * c + b + 1)" using Y that(2) by simp
    have c3: "b = 24 \<Longrightarrow> c = 3" using r2(2) r23(1) that(1) c by linarith
    have "25 dvd (b + 1 + 25 * (4 * q + c)) \<longleftrightarrow> 25 dvd (b + 1)"
      by (rule dvd_add_left_iff) simp
    moreover have "b < 24 \<Longrightarrow> \<not> 25 dvd (b + 1)"
      using b zdvd_imp_le [of 25 "b + 1"] by linarith
    ultimately have "b < 24 \<Longrightarrow> \<not> 25 dvd (b + 1 + 25 * (4 * q + c))"
      by simp
    moreover have "100 dvd Year n \<longleftrightarrow> 4 * 25 dvd 4 * (b + 1 + 25 * (4 * q + c))"
      unfolding y by (simp add: algebra_simps)
    ultimately have "b < 24 \<Longrightarrow> \<not> 100 dvd Year n"
      by (subst (asm) dvd_mult_cancel_left) simp
    moreover have "400 dvd Year n" if "b = 24"
    proof -
      have "Year n = 400 * (q + 1)" using y c3 that by simp
      then show ?thesis by simp
    qed
    moreover have "4 dvd Year n" unfolding y by simp
    ultimately show ?thesis unfolding leap_def using b(2) by linarith
  qed
  then have "r3 - 365 * a < 365 + (if leap (Year n) then 1 else 0)"
    using a2(2) by (cases "r3 = 1460 \<and> a = 3") simp_all
  then show "n < year_start (Year n + 1)"
    using off year_start_Suc [of "Year n"] by linarith
qed

lemma Year_unique:
  assumes "year_start y \<le> n" "n < year_start (y + 1)"
  shows "Year n = y"
proof (rule ccontr)
  assume "Year n \<noteq> y"
  then consider "Year n < y" | "y < Year n" by linarith
  then show False
    by cases (use assms Year_bounds [of n] year_start_strict [of "Year n" y] year_start_strict [of y "Year n"] in linarith)+
qed

lemma month_start_step:
  assumes "1 \<le> m" "m \<le> 12"
  shows "month_start y m < month_start y (m + 1)"
proof -
  have "m \<in> set [1..12]" using assms by simp
  also have "[1..12 :: int] = [1, 2, 3, 4, 5, 6, 7, 8, 9, 10, 11, 12]" by code_simp
  finally show ?thesis by (auto simp: month_start_def nth_Cons_numeral)
qed

lemma month_start_1 [simp]: "month_start y 1 = 0"
  and month_start_13: "month_start y 13 = 365 + (if leap y then 1 else 0)"
  by (simp_all add: month_start_def)

lemma month_start_mono: "1 \<le> k \<Longrightarrow> k \<le> l \<Longrightarrow> l \<le> 13 \<Longrightarrow> month_start y k \<le> month_start y l"
proof (induction "nat (l - k)" arbitrary: l)
  case (Suc x)
  then have "month_start y k \<le> month_start y (l - 1)" by simp
  moreover have "1 < l" using Suc.hyps(2) Suc.prems(1) by linarith
  ultimately show ?case using month_start_step [of "l - 1" y] Suc.prems by simp
qed simp

lemma interval_step:
  "f a \<le> x \<Longrightarrow> x < f (a + int k) \<Longrightarrow> \<exists>m. a \<le> m \<and> m < a + int k \<and> f m \<le> x \<and> x < (f (m + 1) :: int)"
proof (induction k)
  case (Suc k)
  show ?case
  proof (cases "x < f (a + int k)")
    case True
    then obtain m where "a \<le> m \<and> m < a + int k \<and> f m \<le> x \<and> x < f (m + 1)" using Suc by blast
    then show ?thesis by (intro exI [of _ m]) simp
  next
    case False
    then show ?thesis using Suc.prems by (intro exI [of _ "a + int k"]) (simp add: algebra_simps)
  qed
qed simp

lemma Month_unique:
  assumes "1 \<le> m" "m \<le> 12" "month_start (Year n) m \<le> YearDay n" "YearDay n < month_start (Year n) (m + 1)"
  shows "Month n = m"
proof -
  have "[1..12] = [1..m] @ [m + 1..12]"
    using assms(1,2) upto_split2 [of 1 m 12] by simp
  moreover have "filter (\<lambda>k. month_start (Year n) k \<le> YearDay n) [1..m] = [1..m]"
    using assms month_start_mono [of _ m "Year n"] by (intro filter_True) (auto, force)
  moreover have "filter (\<lambda>k. month_start (Year n) k \<le> YearDay n) [m + 1..12] = []"
    using assms month_start_mono [of "m + 1" _ "Year n"] by (intro filter_False) (auto, force)
  ultimately show ?thesis using assms(1) by (simp add: Month_def)
qed

lemma civil_bounds:
  "1 \<le> Month n" "Month n \<le> 12" "1 \<le> Day n" "Day n \<le> daysIn (Year n) (Month n)"
proof -
  have "0 \<le> YearDay n" "YearDay n < month_start (Year n) 13"
    using Year_bounds [of n] year_start_Suc [of "Year n"] by (simp_all add: YearDay_def month_start_13)
  then obtain m where m: "1 \<le> m" "m < 13" "month_start (Year n) m \<le> YearDay n" "YearDay n < month_start (Year n) (m + 1)"
    using interval_step [of "month_start (Year n)" 1 "YearDay n" 12] by auto
  then have "Month n = m" using Month_unique by simp
  then show "1 \<le> Month n" "Month n \<le> 12" "1 \<le> Day n" "Day n \<le> daysIn (Year n) (Month n)"
    using m by (simp_all add: Day_def daysIn_def)
qed

lemma Date_in_month: "1 \<le> m \<Longrightarrow> m \<le> 12 \<Longrightarrow> Date y m d = year_start y + month_start y m + d - 1"
proof -
  assume "1 \<le> m" "m \<le> 12"
  then have "(m - 1) div 12 = 0" "(m - 1) mod 12 = m - 1"
    by (simp_all add: div_pos_pos_trivial mod_pos_pos_trivial)
  then show ?thesis by (simp add: Date_def)
qed

lemma Date_civil [simp]: "Date (Year n) (Month n) (Day n) = n"
  using civil_bounds [of n] by (simp add: Date_in_month Day_def YearDay_def)

lemma civil_Date:
  assumes "1 \<le> m" "m \<le> 12" "1 \<le> d" "d \<le> daysIn y m"
  shows "Year (Date y m d) = y" "Month (Date y m d) = m" "Day (Date y m d) = d"
proof -
  let ?n = "Date y m d"
  have n: "?n = year_start y + month_start y m + d - 1" using assms by (simp add: Date_in_month)
  have up: "month_start y m + d - 1 < month_start y (m + 1)" using assms by (simp add: daysIn_def)
  have "month_start y (m + 1) \<le> month_start y 13" "0 \<le> month_start y m"
    using month_start_mono [of "m + 1" 13 y] month_start_mono [of 1 m y] assms by simp_all
  then show y: "Year ?n = y"
    using n up assms year_start_Suc [of y] by (intro Year_unique) (simp_all add: month_start_13)
  have yd: "YearDay ?n = month_start y m + d - 1" using n y by (simp add: YearDay_def)
  show m: "Month ?n = m" by (rule Month_unique) (use assms y yd up in simp_all)
  show "Day ?n = d" by (simp add: Day_def y m yd)
qed

lemma AddDate_days [simp]: "AddDate n 0 0 k = n + k"
proof -
  have "Date (Year n) (Month n) (Day n + k) = Date (Year n) (Month n) (Day n) + k"
    using civil_bounds [of n] by (simp only: Date_in_month)
  then show ?thesis by (simp add: AddDate_def)
qed

section \<open>Formats are read back\<close>

lemma num_append: "num (s @ t) = num s * 10 ^ length t + num t"
proof -
  have acc: "foldl (\<lambda>n c. 10 * n + (byte_of c - 48)) a t = a * 10 ^ length t + num t" for a
  proof (induction t arbitrary: a)
    case (Cons c t)
    define b where "b = byte_of c - 48"
    have "foldl (\<lambda>n c. 10 * n + (byte_of c - 48)) (10 * a + b) t = (10 * a + b) * 10 ^ length t + num t"
      "num (c # t) = b * 10 ^ length t + num t"
      using Cons [of "10 * a + b"] Cons [of b] by (simp_all add: num_def b_def)
    then show ?case by (simp add: b_def algebra_simps)
  qed (simp add: num_def)
  have "num (s @ t) = foldl (\<lambda>n c. 10 * n + (byte_of c - 48)) (num s) t" by (simp add: num_def)
  then show ?thesis unfolding acc .
qed

lemma byte_digit: "d < 10 \<Longrightarrow> byte_of (digit d) = 48 + d"
  by (simp add: digit_def of_char_of take_bit_nat_eq_self)

lemma dec_digits: "list_all isDigit (dec n)" "num (dec n) = n" "dec n \<noteq> []"
proof (induction n rule: dec.induct)
  case (1 n)
  {
    case 1
    then show ?case using "1.IH"(1) by (subst dec.simps) (auto simp: isDigit_def [of "digit _"] byte_digit)
  next
    case 2
    then show ?case using "1.IH" by (subst dec.simps) (simp add: num_append byte_digit, simp add: num_def byte_digit)
  next
    case 3
    then show ?case by (subst dec.simps) simp
  }
qed

lemma dec_length: "n < 10 ^ k \<Longrightarrow> 0 < k \<Longrightarrow> length (dec n) \<le> k"
proof (induction n arbitrary: k rule: dec.induct)
  case (1 n)
  show ?case
  proof (cases "n < 10")
    case True
    then show ?thesis using 1 by (subst dec.simps) simp
  next
    case False
    then obtain j where j: "k = Suc j" "0 < j"
      using "1.prems" by (cases k; cases "k - 1") auto
    then have "length (dec (n div 10)) \<le> j"
      using 1 False by (auto simp: less_mult_imp_div_less mult.commute)
    then show ?thesis using False j by (subst dec.simps) simp
  qed
qed

lemma num_zeros: "num (replicate z CHR ''0'' @ s) = num s"
  by (induction z) (simp_all add: num_def)

lemma pad_digits:
  assumes "n < 10 ^ k" "0 < k"
  shows "length (pad k n) = k" "list_all isDigit (pad k n)" "num (pad k n) = n"
  using dec_length [OF assms] dec_digits [of n]
  by (simp_all add: pad_def num_zeros, simp add: list_all_iff isDigit_def)

lemma digits_pad: "n < 10 ^ k \<Longrightarrow> 0 < k \<Longrightarrow> digits k (pad k n @ r) = Some (int n, r)"
  by (simp add: digits_def pad_digits)

text \<open>The days whose year has four digits, from 1 January of year 1.\<close>

definition in_range :: "day \<Rightarrow> bool" where
  "in_range n \<longleftrightarrow> 0 \<le> n \<and> Year n \<le> 9999"

lemma Year_mono: "n \<le> k \<Longrightarrow> Year n \<le> Year k"
  using Year_bounds [of n] Year_bounds [of k] year_start_strict [of "Year k" "Year n"] by linarith

lemma Year_pos: "0 \<le> n \<Longrightarrow> 1 \<le> Year n"
proof -
  have "Year 0 = 1" by (rule Year_unique) (simp_all add: year_start_def)
  then show "0 \<le> n \<Longrightarrow> 1 \<le> Year n" using Year_mono [of 0 n] by simp
qed

lemma in_range_Year:
  assumes "in_range n"
  shows "1 \<le> Year n" "nat (Year n) < 10 ^ 4"
  using assms Year_pos [of n] by (simp_all add: in_range_def nat_less_iff)

lemma daysIn_bound: "1 \<le> m \<Longrightarrow> m \<le> 12 \<Longrightarrow> daysIn y m \<le> 31"
proof -
  assume "1 \<le> m" "m \<le> 12"
  then have "m \<in> set [1..12]" by simp
  also have "[1..12 :: int] = [1, 2, 3, 4, 5, 6, 7, 8, 9, 10, 11, 12]" by code_simp
  finally show ?thesis by (auto simp: daysIn_def month_start_def nth_Cons_numeral)
qed

lemma month_group_pad:
  "1 \<le> m \<Longrightarrow> m \<le> 12 \<Longrightarrow> month_group (CHR ''-'' # pad 2 (nat m) @ r) = Some (m, r)"
  by (simp add: month_group_def digits_pad)

lemma parse_format_month:
  assumes "in_range n"
  shows "parse_month (format_month n) = Some (Date (Year n) (Month n) 1)"
  using in_range_Year [OF assms] civil_bounds [of n] month_group_pad [of "Month n" "[]"]
  by (simp add: parse_month_def format_month_def digits_pad)

lemma parse_format_date:
  assumes "in_range n"
  shows "parse_date (format_date n) = Some n"
proof -
  have "Day n < 100" using civil_bounds [of n] daysIn_bound [of "Month n" "Year n"] by linarith
  then have "digits 2 (pad 2 (nat (Day n))) = Some (Day n, [])"
    using civil_bounds [of n] digits_pad [of "nat (Day n)" 2 "[]"] by simp
  then show ?thesis
    using in_range_Year [OF assms] civil_bounds [of n]
    by (simp add: parse_date_def format_date_def digits_pad month_group_pad)
qed

lemma scan_space_digit: "isDigit c \<Longrightarrow> scan_space (c # s) = c # s"
  by (auto simp: scan_space_def isDigit_def)

lemma takeWhile_digits:
  "list_all isDigit ds \<Longrightarrow> (case r of [] \<Rightarrow> True | c # _ \<Rightarrow> \<not> isDigit c) \<Longrightarrow>
     takeWhile isDigit (ds @ r) = ds \<and> dropWhile isDigit (ds @ r) = r"
  by (induction ds) (auto split: list.splits)

lemma scan_int_pad:
  assumes "n < 10 ^ k" "0 < k" "k \<le> 18" and r: "case r of [] \<Rightarrow> True | c # _ \<Rightarrow> \<not> isDigit c"
  shows "scan_int (pad k n @ r) = Some (int n, r)"
proof -
  note p = pad_digits [OF assms(1,2)]
  obtain c ds where c: "pad k n = c # ds" using p(1) assms(2) by (cases "pad k n") auto
  have d: "isDigit c" using p(2) c by simp
  have sign: "c \<noteq> CHR ''-''" "c \<noteq> CHR ''+''" using d by (auto simp: isDigit_def)
  have "(10 :: nat) ^ k \<le> 10 ^ 18" using assms(3) by (intro power_increasing) simp_all
  then have "int n < 2 ^ 63" using assms(1) by simp
  then show ?thesis
    using takeWhile_digits [OF p(2) r] p(3) sign
    by (simp add: scan_int_def c scan_space_digit [OF d])
qed

lemma scan_week_period:
  assumes "1 \<le> y" "y \<le> 9999" "1 \<le> w" "w \<le> 53"
  shows "scan_week (week_period (y, w)) = Some (y, w)"
proof -
  have "scan_int (pad 4 (nat y) @ ''-W'' @ pad 2 (nat w)) = Some (y, ''-W'' @ pad 2 (nat w))"
    using assms by (subst scan_int_pad) (simp_all add: isDigit_def)
  moreover have "scan_int (pad 2 (nat w)) = Some (w, [])"
    using assms scan_int_pad [of "nat w" 2 "[]"] by simp
  ultimately show ?thesis by (simp add: scan_week_def week_period_def)
qed

section \<open>Weeks\<close>

definition monday_of :: "day \<Rightarrow> day" where
  "monday_of n = n - n mod 7"

lemma week_index: "(Weekday n - 1) mod 7 = n mod 7" "(if Weekday n = 0 then 7 else Weekday n) - 1 = n mod 7"
proof -
  show "(Weekday n - 1) mod 7 = n mod 7" by (simp add: Weekday_def mod_diff_left_eq)
  define m where "m = n mod 7"
  have "Weekday n = (m + 1) mod 7" by (simp add: Weekday_def m_def mod_add_left_eq)
  moreover have "0 \<le> m" "m < 7" by (simp_all add: m_def)
  ultimately show "(if Weekday n = 0 then 7 else Weekday n) - 1 = n mod 7"
    unfolding m_def [symmetric] by (cases "m = 6") (simp_all add: mod_pos_pos_trivial)
qed

lemma ISOWeek_monday: "ISOWeek n = (Year (monday_of n + 3), YearDay (monday_of n + 3) div 7 + 1)"
  by (simp add: ISOWeek_def Let_def week_index monday_of_def)

lemma week_align:
  assumes "(t :: int) mod 7 = 3"
  shows "s + 3 - (s + 3) mod 7 + (t - s) div 7 * 7 = t - 3"
proof -
  define a b c where d: "a = (s + 3) div 7" "b = (s + 3) mod 7" "c = t div 7"
  have e: "s + 3 = 7 * a + b" "0 \<le> b" "b < 7" "t = 7 * c + 3"
    using assms mult_div_mod_eq [of 7 t] by (simp_all add: d)
  then have "t - s = 7 * (c - a) + (6 - b)" by simp
  then have "(t - s) div 7 = c - a" using e by (intro int_div_pos_eq [where r = "6 - b"]) simp_all
  then show ?thesis using e unfolding d(2) [symmetric] by simp
qed

lemma isoWeekStart_ISOWeek: "isoWeekStart (fst (ISOWeek n)) (snd (ISOWeek n)) = monday_of n"
proof -
  let ?t = "monday_of n + 3"
  have t: "?t mod 7 = 3" unfolding monday_of_def by presburger
  have "Date (Year ?t) 1 4 = year_start (Year ?t) + 3" by (simp add: Date_in_month)
  then show ?thesis
    using week_align [OF t]
    by (simp add: isoWeekStart_def Let_def week_index ISOWeek_monday YearDay_def)
qed

lemma ISOWeek_range:
  assumes "0 \<le> n" "in_range (n + 6)"
  shows "1 \<le> fst (ISOWeek n)" "fst (ISOWeek n) \<le> 9999" "1 \<le> snd (ISOWeek n)" "snd (ISOWeek n) \<le> 53"
proof -
  let ?t = "monday_of n + 3"
  have "0 \<le> ?t" "?t \<le> n + 6" using assms(1) unfolding monday_of_def by presburger+
  then have t: "in_range ?t" using assms(2) Year_mono [of ?t "n + 6"] by (simp add: in_range_def)
  then show "1 \<le> fst (ISOWeek n)" "fst (ISOWeek n) \<le> 9999"
    using in_range_Year(1) by (simp_all add: ISOWeek_monday in_range_def)
  have "0 \<le> YearDay ?t" "YearDay ?t < 366 + 5"
    using Year_bounds [of ?t] year_start_Suc [of "Year ?t"] by (simp_all add: YearDay_def split: if_splits)
  then show "1 \<le> snd (ISOWeek n)" "snd (ISOWeek n) \<le> 53"
    by (simp_all add: ISOWeek_monday pos_imp_zdiv_nonneg_iff)
qed

lemma weekly_as_of:
  assumes "0 \<le> n" "in_range (n + 6)"
  shows "periodAsOfDate ''weekly'' (week_period (ISOWeek n)) = Some (monday_of n + 6)"
proof -
  obtain y w where yw: "ISOWeek n = (y, w)" by (cases "ISOWeek n")
  then show ?thesis
    using scan_week_period [of y w] ISOWeek_range [OF assms] isoWeekStart_ISOWeek [of n]
    by (simp add: periodAsOfDate_def)
qed

section \<open>The schedule fits the periods\<close>

lemma weekly_due: "weeklyRollup date = Some j \<Longrightarrow> 7 \<le> date \<Longrightarrow> in_range date \<Longrightarrow>
    periodAsOfDate (rj_level j) (rj_period j) = Some (date - 1)"
proof -
  assume j: "weeklyRollup date = Some j" and d: "7 \<le> date" "in_range date"
  have mon: "date mod 7 = 0"
    using j week_index(2) [of date] by (auto simp: weeklyRollup_def Monday_def split: if_splits)
  have m: "monday_of (date - 1) = date - 7" using mon unfolding monday_of_def by presburger
  have same: "week_period (ISOWeek (date - 1)) = week_period (ISOWeek (date - 7))"
    using m mon by (simp add: ISOWeek_monday monday_of_def)
  have "in_range (date - 7 + 6)"
    using d Year_mono [of "date - 1" date] by (simp add: in_range_def)
  then have "periodAsOfDate ''weekly'' (week_period (ISOWeek (date - 7))) = Some (monday_of (date - 7) + 6)"
    using d by (intro weekly_as_of) simp_all
  moreover have "monday_of (date - 7) = date - 7" using mon by (simp add: monday_of_def)
  ultimately show ?thesis
    using j same by (auto simp: weeklyRollup_def Let_def split: if_splits)
qed

text \<open>The first of a month follows the last day of the month before.\<close>

lemma first_of_month:
  assumes "Day date = 1"
  shows "Date (Year (date - 1)) (Month (date - 1) + 1) 0 = date - 1"
    "Day (date - 1) = daysIn (Year (date - 1)) (Month (date - 1))"
proof -
  let ?y = "Year (date - 1)" and ?m = "Month (date - 1)" and ?d = "Day (date - 1)"
  note b = civil_bounds [of "date - 1"]
  have n: "date - 1 = year_start ?y + month_start ?y ?m + ?d - 1"
    using Date_civil [of "date - 1"] Date_in_month [OF b(1,2), of ?y ?d] by simp
  show last: "?d = daysIn ?y ?m"
  proof (rule ccontr)
    assume "?d \<noteq> daysIn ?y ?m"
    then have "?d + 1 \<le> daysIn ?y ?m" using b(4) by simp
    then have "Day (Date ?y ?m (?d + 1)) = ?d + 1" using b by (intro civil_Date(3)) simp_all
    moreover have "Date ?y ?m (?d + 1) = date" using n Date_in_month [OF b(1,2), of ?y "?d + 1"] by simp
    ultimately show False using assms b(3) by simp
  qed
  have e: "date - 1 = year_start ?y + month_start ?y (?m + 1) - 1" using n last by (simp add: daysIn_def)
  show "Date ?y (?m + 1) 0 = date - 1"
  proof (cases "?m = 12")
    case True
    then have "Date ?y (?m + 1) 0 = year_start (?y + 1) - 1" by (simp add: Date_def)
    then show ?thesis using e True year_start_Suc [of ?y] by (simp add: month_start_13)
  next
    case False
    then show ?thesis using e b Date_in_month [of "?m + 1" ?y 0] by simp
  qed
qed

lemma monthly_due:
  assumes "monthlyRollup date = Some j" "1 \<le> date" "in_range date"
  shows "periodAsOfDate (rj_level j) (rj_period j) = Some (date - 1)"
proof -
  let ?y = "Year (date - 1)" and ?m = "Month (date - 1)"
  have r: "in_range (date - 1)" using assms(2,3) Year_mono [of "date - 1" date] by (simp add: in_range_def)
  have d: "Day date = 1" using assms(1) by (simp add: monthlyRollup_def split: if_splits)
  have "1 \<le> daysIn ?y ?m" using first_of_month(2) [OF d] civil_bounds(3) [of "date - 1"] by linarith
  then have c: "Year (Date ?y ?m 1) = ?y" "Month (Date ?y ?m 1) = ?m" "Day (Date ?y ?m 1) = 1"
    using civil_bounds [of "date - 1"] civil_Date [of ?m 1 ?y] by simp_all
  have "format_month (Date ?y ?m 1) = format_month (date - 1)" by (simp add: format_month_def c)
  then have "periodAsOfDate ''monthly'' (format_month (Date ?y ?m 1)) = Some (date - 1)"
    using parse_format_month [OF r] first_of_month(1) [OF d]
    by (simp add: periodAsOfDate_def AddDate_def c)
  moreover have "rj_level j = ''monthly''" "rj_period j = format_month (Date ?y ?m 1)"
    using assms(1) d by (auto simp: monthlyRollup_def Let_def)
  ultimately show ?thesis by simp
qed

lemma yearly_due:
  assumes "yearlyRollup date = Some j" "1 \<le> date" "in_range date"
  shows "periodAsOfDate (rj_level j) (rj_period j) = Some (date - 1)"
proof -
  let ?y = "Year date"
  have d: "Month date = 1" "Day date = 1" using assms(1) by (simp_all add: yearlyRollup_def split: if_splits)
  have s: "date = year_start ?y" using Date_civil [of date] Date_in_month [of 1 ?y 1] d by simp
  have "?y \<noteq> 1" using s assms(2) by (auto simp: year_start_def)
  then have y: "0 \<le> ?y - 1" "nat (?y - 1) < 10 ^ 4" using in_range_Year [OF assms(3)] by simp_all
  have "digits 4 (pad 4 (nat (?y - 1))) = Some (?y - 1, [])"
    using digits_pad [OF y(2), of "[]"] y(1) by simp
  moreover have "Year (Date (?y - 1) 1 1) = ?y - 1" "Month (Date (?y - 1) 1 1) = 1" "Day (Date (?y - 1) 1 1) = 1"
    using civil_Date [of 1 1 "?y - 1"] month_start_step [of 1 "?y - 1"] by (simp_all add: daysIn_def)
  moreover have "Date ?y 1 0 = date - 1" using s by (simp add: Date_in_month)
  ultimately have "periodAsOfDate ''yearly'' (pad 4 (nat (?y - 1))) = Some (date - 1)"
    by (simp add: periodAsOfDate_def parse_year_def AddDate_def)
  moreover have "rj_level j = ''yearly''" "rj_period j = pad 4 (nat (?y - 1))"
    using assms(1) d by (auto simp: yearlyRollup_def Let_def)
  ultimately show ?thesis by simp
qed

lemma set_map_filter': "set (List.map_filter f xs) = {y. \<exists>x \<in> set xs. f x = Some y}"
  by (induction xs) (auto split: option.splits)

lemma year_2024: "year_start 2024 = 738885" "leap 2024"
  by (simp_all add: year_start_def leap_def)

lemma sample_date:
  assumes "1 \<le> m" "m \<le> 12" "1 \<le> d" "d \<le> daysIn 2024 m"
  shows "7 \<le> Date 2024 m d" "in_range (Date 2024 m d)" "Year (Date 2024 m d) = 2024"
proof -
  show y: "Year (Date 2024 m d) = 2024" by (rule civil_Date(1) [OF assms])
  have "0 \<le> month_start 2024 m" using month_start_mono [of 1 m 2024] assms by simp
  then show "7 \<le> Date 2024 m d"
    using assms(3) unfolding Date_in_month [OF assms(1,2)] year_2024 by linarith
  then show "in_range (Date 2024 m d)" by (simp add: in_range_def y)
qed

lemma july_2024: "month_start 2024 7 = 182" "daysIn 2024 7 = 31" "Date 2024 7 d = 739066 + d"
  using Date_in_month [of 7 2024 d] by (simp_all add: daysIn_def month_start_def year_2024)

text \<open>
  C24. The rollup scheduler and the period parser agree: whatever rollup \<open>dueRollups\<close> starts on a
  date (weekly on Mondays, monthly on the first, yearly on 1 January), the period string it builds
  is one \<open>periodAsOfDate\<close> reads as ending on the day before that date, across month lengths, leap
  years and ISO years that differ from the calendar year.
\<close>

theorem dueRollups_end_yesterday:
  assumes "j \<in> set (dueRollups date)" "7 \<le> date" "in_range date"
  shows "periodAsOfDate (rj_level j) (rj_period j) = Some (date - 1)"
proof -
  have "weeklyRollup date = Some j \<or> monthlyRollup date = Some j \<or> yearlyRollup date = Some j"
    using assms(1) unfolding dueRollups_def set_map_filter' by simp
  moreover have "1 \<le> date" using assms(2) by simp
  ultimately show ?thesis
    using weekly_due [OF _ assms(2,3)] monthly_due [OF _ _ assms(3)] yearly_due [OF _ _ assms(3)] by blast
qed

theorem dueRollups_end_yesterday_witness:
  "\<exists>j \<in> set (dueRollups (Date 2024 7 8)). rj_level j = ''weekly''
     \<and> periodAsOfDate (rj_level j) (rj_period j) = Some (Date 2024 7 7)"
proof -
  have "7 \<le> Date 2024 7 8" "in_range (Date 2024 7 8)" by (rule sample_date; simp add: july_2024)+
  moreover have "Date 2024 7 8 - 1 = Date 2024 7 7" unfolding july_2024 by simp
  moreover have "Weekday (Date 2024 7 8) = Monday" unfolding Weekday_def july_2024 Monday_def by simp
  ultimately have d: "7 \<le> Date 2024 7 8" "in_range (Date 2024 7 8)" "Date 2024 7 8 - 1 = Date 2024 7 7"
    "Weekday (Date 2024 7 8) = Monday" by blast+
  from d(4) obtain j where j: "weeklyRollup (Date 2024 7 8) = Some j" "rj_level j = ''weekly''"
    by (simp add: weeklyRollup_def Let_def)
  then have "j \<in> set (dueRollups (Date 2024 7 8))" unfolding dueRollups_def set_map_filter' by simp
  then show ?thesis using dueRollups_end_yesterday [OF _ d(1,2)] j(2) d(3) by auto
qed

text \<open>The week names of different weeks differ.\<close>

lemma week_period_inj:
  assumes "week_period (ISOWeek c) = week_period (ISOWeek d)"
    and "0 \<le> c" "in_range (c + 6)" "0 \<le> d" "in_range (d + 6)"
  shows "monday_of c = monday_of d"
  using weekly_as_of [of c] weekly_as_of [of d] assms by simp

text \<open>The monthly rollup that fires on \<open>date\<close> covers the weeks of exactly the Mondays of the month
  before.\<close>

lemma monthly_covers:
  assumes date: "Day date = 1" "1 \<le> date" "in_range (date + 6)" and d: "Weekday d = Monday" "0 \<le> d" "in_range (d + 6)"
  shows "(\<exists>j. monthlyRollup date = Some j \<and> week_period (ISOWeek d) \<in> set (rj_sourcePeriods j)) \<longleftrightarrow>
     Year d = Year (date - 1) \<and> Month d = Month (date - 1)" (is "?l \<longleftrightarrow> ?r")
proof -
  let ?y = "Year (date - 1)" and ?m = "Month (date - 1)"
  note b = civil_bounds [of "date - 1"] and e = first_of_month [OF date(1)]
  have mon: "monday_of k = k" if "Weekday k = Monday" for k
    using that week_index(2) [of k] by (simp add: Monday_def monday_of_def)
  have start: "Date ?y ?m 1 = year_start ?y + month_start ?y ?m" using Date_in_month [OF b(1,2)] by simp
  have last: "date - 1 = Date ?y ?m (daysIn ?y ?m)" using Date_civil [of "date - 1"] e(2) by simp
  have mem: "Date ?y ?m 1 \<le> k \<and> k \<le> date - 1 \<longleftrightarrow> Year k = ?y \<and> Month k = ?m" for k
  proof
    assume k: "Date ?y ?m 1 \<le> k \<and> k \<le> date - 1"
    define i where "i = k - Date ?y ?m 1 + 1"
    have "k = Date ?y ?m i" "1 \<le> i" "i \<le> daysIn ?y ?m"
      using k last Date_in_month [OF b(1,2), of ?y] by (simp_all add: i_def)
    then show "Year k = ?y \<and> Month k = ?m" using civil_Date [OF b(1,2)] by simp
  next
    assume k: "Year k = ?y \<and> Month k = ?m"
    then have "k = year_start ?y + month_start ?y ?m + Day k - 1"
      using Date_civil [of k] Date_in_month [OF b(1,2), of ?y "Day k"] by simp
    moreover have "1 \<le> Day k" "Day k \<le> daysIn ?y ?m" using civil_bounds [of k] k by simp_all
    moreover have "date - 1 = year_start ?y + month_start ?y ?m + daysIn ?y ?m - 1"
      using last Date_in_month [OF b(1,2), of ?y "daysIn ?y ?m"] by simp
    ultimately show "Date ?y ?m 1 \<le> k \<and> k \<le> date - 1" using start by linarith
  qed
  have src: "?l \<longleftrightarrow> (\<exists>k. Year k = ?y \<and> Month k = ?m \<and> Weekday k = Monday \<and> week_period (ISOWeek d) = week_period (ISOWeek k))"
    using date(1) mem by (auto simp: monthlyRollup_def Let_def)
  have ran: "0 \<le> k \<and> in_range (k + 6)" if "Year k = ?y" "Month k = ?m" for k
  proof -
    have k: "Date ?y ?m 1 \<le> k" "k \<le> date - 1" using mem [of k] that by simp_all
    have "1 \<le> ?y" using date(2) by (intro Year_pos) simp
    then have "year_start 1 \<le> year_start ?y" by (rule year_start_mono)
    moreover have "year_start 1 = 0" by (simp add: year_start_def)
    moreover have "0 \<le> month_start ?y ?m" using month_start_mono [of 1 ?m ?y] b by simp
    ultimately have "0 \<le> k" using k(1) start by linarith
    then show ?thesis using k(2) date(3) Year_mono [of "k + 6" "date + 6"] by (simp add: in_range_def)
  qed
  show ?thesis
  proof
    assume ?l
    then obtain k where k: "Year k = ?y" "Month k = ?m" "Weekday k = Monday" "week_period (ISOWeek d) = week_period (ISOWeek k)"
      using src by blast
    then have "d = k" using week_period_inj [OF k(4) d(2,3)] ran [OF k(1,2)] mon d(1) by simp
    then show ?r using k by simp
  next
    assume ?r
    then show ?l using src d(1) by blast
  qed
qed

text \<open>
  Monthly rollups never count a week twice and never skip one: every ISO week, named by its
  Monday, is a source of exactly one monthly rollup, the one that fires on the first of the month
  after that Monday's.
\<close>

lemma monthly_weeks_partition:
  assumes "Weekday d = Monday" "0 \<le> d" "Year d \<le> 9998"
  shows "\<exists>!date. Day date = 1 \<and> 1 \<le> date \<and> Year (date + 6) \<le> 9999
     \<and> (\<exists>j. monthlyRollup date = Some j \<and> week_period (ISOWeek d) \<in> set (rj_sourcePeriods j))"
proof -
  have "d + 6 < year_start (Year d + 2)"
    using Year_bounds(2) [of d] year_start_Suc [of "Year d + 1"] by (simp add: algebra_simps split: if_splits)
  then have "Year (d + 6) < Year d + 2"
    using Year_bounds(1) [of "d + 6"] year_start_mono [of "Year d + 2" "Year (d + 6)"] by linarith
  then have dr: "in_range (d + 6)" using assms(2,3) by (simp add: in_range_def)
  define n where "n = Date (Year d) (Month d) (daysIn (Year d) (Month d)) + 1"
  note b = civil_bounds [of d]
  have c: "Year (n - 1) = Year d" "Month (n - 1) = Month d" "Day (n - 1) = daysIn (Year d) (Month d)"
    using civil_Date [of "Month d" "daysIn (Year d) (Month d)" "Year d"] b by (simp_all add: n_def)
  have n: "n = year_start (Year d) + month_start (Year d) (Month d + 1)"
    using b by (simp add: n_def Date_in_month daysIn_def)
  have "d = year_start (Year d) + month_start (Year d) (Month d) + Day d - 1"
    using Date_civil [of d] Date_in_month [OF b(1,2)] by metis
  then have dn: "d < n" using n b by (simp add: daysIn_def)
  have first: "Day n = 1 \<and> Year n \<le> Year d + 1 \<and> n + 6 < year_start (Year d + 2)"
  proof (cases "Month d = 12")
    case True
    then have "n = Date (Year d + 1) 1 1"
      using n year_start_Suc [of "Year d"] by (simp add: Date_in_month month_start_13)
    moreover have "n + 6 < year_start (Year d + 2)"
      using n True year_start_Suc [of "Year d"] year_start_Suc [of "Year d + 1"]
      by (simp add: month_start_13 algebra_simps split: if_splits)
    ultimately show ?thesis
      using civil_Date [of 1 1 "Year d + 1"] month_start_step [of 1 "Year d + 1"] by (simp add: daysIn_def)
  next
    case False
    then have "n = Date (Year d) (Month d + 1) 1" "1 \<le> daysIn (Year d) (Month d + 1)"
      using n b month_start_step [of "Month d + 1" "Year d"] by (simp_all add: Date_in_month daysIn_def)
    moreover have "n \<le> year_start (Year d + 1)"
      using n b month_start_mono [of "Month d + 1" 13 "Year d"] year_start_Suc [of "Year d"] by (simp add: month_start_13)
    moreover have "year_start (Year d + 1) + 365 \<le> year_start (Year d + 2)"
      using year_start_Suc [of "Year d + 1"] by (simp add: add.assoc)
    moreover have "Year (Date (Year d) (Month d + 1) 1) = Year d" "Day (Date (Year d) (Month d + 1) 1) = 1"
      using False b civil_Date [of "Month d + 1" 1 "Year d"] calculation(2) by simp_all
    ultimately show ?thesis by (simp only: order_refl simp_thms) linarith
  qed
  have "Year (n + 6) < Year d + 2"
    using first Year_bounds(1) [of "n + 6"] year_start_mono [of "Year d + 2" "Year (n + 6)"] by linarith
  then have nr: "1 \<le> n" "Year (n + 6) \<le> 9999" using dn assms(2,3) by simp_all
  have cov: "(\<exists>j. monthlyRollup date = Some j \<and> week_period (ISOWeek d) \<in> set (rj_sourcePeriods j)) \<longleftrightarrow>
      Year d = Year (date - 1) \<and> Month d = Month (date - 1)"
    if "Day date = 1" "1 \<le> date" "Year (date + 6) \<le> 9999" for date
    using that assms dr by (intro monthly_covers) (simp_all add: in_range_def)
  show ?thesis
  proof (rule ex1I [of _ n])
    show "Day n = 1 \<and> 1 \<le> n \<and> Year (n + 6) \<le> 9999
     \<and> (\<exists>j. monthlyRollup n = Some j \<and> week_period (ISOWeek d) \<in> set (rj_sourcePeriods j))"
      using first nr cov [OF _ nr] c by simp
  next
    fix date
    assume date: "Day date = 1 \<and> 1 \<le> date \<and> Year (date + 6) \<le> 9999
     \<and> (\<exists>j. monthlyRollup date = Some j \<and> week_period (ISOWeek d) \<in> set (rj_sourcePeriods j))"
    then have "Year (date - 1) = Year d" "Month (date - 1) = Month d" "Day (date - 1) = daysIn (Year d) (Month d)"
      using cov [of date] first_of_month(2) [of date] by simp_all
    then show "date = n" using Date_civil [of "date - 1"] by (simp add: n_def)
  qed
qed

lemma monthly_weeks_partition_witness:
  "\<exists>!date. Day date = 1 \<and> 1 \<le> date \<and> Year (date + 6) \<le> 9999
     \<and> (\<exists>j. monthlyRollup date = Some j \<and> week_period (ISOWeek (Date 2024 7 29)) \<in> set (rj_sourcePeriods j))"
proof (rule monthly_weeks_partition)
  have "7 \<le> Date 2024 7 29" "Year (Date 2024 7 29) = 2024" by (rule sample_date; simp add: july_2024)+
  then show "0 \<le> Date 2024 7 29" "Year (Date 2024 7 29) \<le> 9998" by linarith+
  show "Weekday (Date 2024 7 29) = Monday" unfolding Weekday_def july_2024 Monday_def by simp
qed

end
