(* ===== verification/Pgfmt.thy ===== *)
theory Pgfmt
  imports Hupi_Prelude
begin

text \<open>
  \<open>internal/pgfmt/pgfmt.go\<close>: Go values as Postgres literals. The text-array literal written by
  \<open>TextArray\<close> and any array literal Postgres sends back are read by \<open>ParseTextArray\<close> as the
  list of items they stand for.
\<close>

section \<open>The literals\<close>

abbreviation dquote :: char where "dquote \<equiv> CHR 0x22"
abbreviation bslash :: char where "bslash \<equiv> CHR 0x5C"

definition quote_item :: "string \<Rightarrow> string" where
  "quote_item it =
     (let escaped = replace_byte bslash [bslash, bslash] it;
          escaped = replace_byte dquote [bslash, dquote] escaped
      in dquote # escaped @ [dquote])"

definition TextArray :: "string list \<Rightarrow> string" where
  "TextArray items =
     (if items = [] then ''{}'' else ''{'' @ join '','' (map quote_item items) @ ''}'')"

text \<open>The loop of \<open>ParseTextArray\<close> over the bytes between the braces. Its variables are
  \<open>out\<close>, \<open>current\<close>, \<open>inQuotes\<close> and \<open>escaped\<close>.\<close>

fun parse_items :: "string \<Rightarrow> string list \<Rightarrow> string \<Rightarrow> bool \<Rightarrow> bool \<Rightarrow> string list" where
  "parse_items [] out current inQuotes escaped = out @ [current]"
| "parse_items (c # cs) out current inQuotes escaped =
     (if escaped then parse_items cs out (current @ [c]) inQuotes False
      else if c = bslash then parse_items cs out current inQuotes True
      else if c = dquote then parse_items cs out current (\<not> inQuotes) escaped
      else if c = CHR '','' \<and> \<not> inQuotes then parse_items cs (out @ [current]) [] inQuotes escaped
      else parse_items cs out (current @ [c]) inQuotes escaped)"

definition ParseTextArray :: "string \<Rightarrow> string list" where
  "ParseTextArray literal =
     (let trimmed = trim_suffix ''}'' (trim_prefix ''{'' literal)
      in if trimmed = [] then [] else parse_items trimmed [] [] False False)"

definition Nullable :: "string \<Rightarrow> string option" where
  "Nullable s = (if s = [] then None else Some s)"

text \<open>\<open>strconv.FormatFloat\<close> is the parameter \<open>fmt\<close>.\<close>

definition VectorLiteral :: "('f \<Rightarrow> string) \<Rightarrow> 'f list \<Rightarrow> string" where
  "VectorLiteral fmt v = ''['' @ join '','' (map fmt v) @ '']''"

section \<open>Array literals\<close>

text \<open>
  Postgres quotes an item only where it has to. \<open>array_literal q\<close> is the literal in which the
  items chosen by \<open>q\<close> are quoted; a plain item may stand unquoted.
\<close>

definition plain_item :: "string \<Rightarrow> bool" where
  "plain_item it \<longleftrightarrow> it \<noteq> [] \<and> set it \<inter> {dquote, bslash, CHR '','', CHR ''{'', CHR ''}''} = {}"

definition array_item :: "(string \<Rightarrow> bool) \<Rightarrow> string \<Rightarrow> string" where
  "array_item q it = (if q it then quote_item it else it)"

definition array_literal :: "(string \<Rightarrow> bool) \<Rightarrow> string list \<Rightarrow> string" where
  "array_literal q items = ''{'' @ join '','' (map (array_item q) items) @ ''}''"

lemma TextArray_literal: "TextArray items = array_literal (\<lambda>_. True) items"
  by (simp add: TextArray_def array_literal_def array_item_def [abs_def])

lemma parse_escaped:
  "parse_items (replace_byte dquote [bslash, dquote] (replace_byte bslash [bslash, bslash] it) @ rest)
      out cur True False =
   parse_items rest out (cur @ it) True False"
  by (induction it arbitrary: cur) auto

lemma parse_quote_item:
  "parse_items (quote_item it @ rest) out cur False False = parse_items rest out (cur @ it) False False"
  by (simp add: quote_item_def Let_def parse_escaped)

lemma parse_plain:
  assumes "set it \<inter> {dquote, bslash, CHR '',''} = {}"
  shows "parse_items (it @ rest) out cur False False = parse_items rest out (cur @ it) False False"
  using assms by (induction it arbitrary: cur) auto

lemma parse_array_item:
  assumes "q it \<or> plain_item it"
  shows "parse_items (array_item q it @ rest) out cur False False =
         parse_items rest out (cur @ it) False False"
  using assms by (auto simp: array_item_def parse_quote_item plain_item_def parse_plain)

lemma parse_join:
  assumes "items \<noteq> []" and "\<And>it. it \<in> set items \<Longrightarrow> q it \<or> plain_item it"
  shows "parse_items (join '','' (map (array_item q) items)) out [] False False = out @ items"
  using assms
proof (induction items arbitrary: out rule: induct_list012)
  case (2 x)
  then show ?case
    using parse_array_item [of q x "[]" out "[]"] by simp
next
  case (3 x y zs)
  then show ?case by (simp add: parse_array_item)
qed simp

lemma array_item_nonempty:
  assumes "q it \<or> plain_item it"
  shows "array_item q it \<noteq> []"
  using assms by (auto simp: array_item_def quote_item_def Let_def plain_item_def)

lemma join_nonempty:
  assumes "xs \<noteq> []" "hd xs \<noteq> []"
  shows "join sep xs \<noteq> []"
  using assms by (cases "(sep, xs)" rule: join.cases) auto

text \<open>
  \<open>ParseTextArray\<close> reads back every array literal Postgres may send: whichever items are
  quoted, as long as an unquoted one is non-empty and free of quotes, backslashes, commas and
  braces, the parsed list is the list of items.
\<close>

lemma ParseTextArray_array_literal:
  assumes "\<And>it. it \<in> set items \<Longrightarrow> q it \<or> plain_item it"
  shows "ParseTextArray (array_literal q items) = items"
proof (cases "items = []")
  case True
  then show ?thesis
    by (simp add: ParseTextArray_def array_literal_def trim_prefix_def trim_suffix_def)
next
  case False
  let ?body = "join '','' (map (array_item q) items)"
  have "?body \<noteq> []"
    using False assms by (intro join_nonempty) (auto simp: hd_map array_item_nonempty)
  moreover have "trim_suffix ''}'' (trim_prefix ''{'' (array_literal q items)) = ?body"
    using trim_prefix_append [of "''{''" "?body @ ''}''"] trim_suffix_append [of "''}''" ?body]
    by (simp add: array_literal_def)
  ultimately show ?thesis
    using False assms by (simp add: ParseTextArray_def parse_join)
qed

lemma ParseTextArray_array_literal_witness:
  "ParseTextArray (array_literal (\<lambda>it. it \<noteq> ''2026-09-09'') [''2026-09-09'', ''a,b'']) =
     [''2026-09-09'', ''a,b'']"
  by (rule ParseTextArray_array_literal) (auto simp: plain_item_def)

text \<open>
  \<open>ParseTextArray\<close> reverses \<open>TextArray\<close> on every list of strings, items with commas,
  quotes, backslashes or no bytes at all included.
\<close>

lemma ParseTextArray_TextArray: "ParseTextArray (TextArray items) = items"
proof (cases "items = []")
  case True
  then show ?thesis
    by (simp add: TextArray_def ParseTextArray_def trim_prefix_def trim_suffix_def)
next
  case False
  let ?body = "join '','' (map (array_item (\<lambda>_. True)) items)"
  have "?body \<noteq> []"
    using False by (intro join_nonempty) (auto simp: hd_map array_item_nonempty)
  moreover have "trim_suffix ''}'' (trim_prefix ''{'' (TextArray items)) = ?body"
    using False trim_prefix_append [of "''{''" "?body @ ''}''"] trim_suffix_append [of "''}''" ?body]
    by (simp add: TextArray_literal array_literal_def)
  ultimately show ?thesis
    using False by (simp add: ParseTextArray_def parse_join)
qed

end
