(* ===== verification/Extract_Json.thy ===== *)
theory Extract_Json
  imports Pgfmt
begin

text \<open>
  \<open>extractJSON\<close> of \<open>internal/consolidation/prompts.go\<close> (and its verbatim copy in
  \<open>internal/gateway/attribution.go\<close>): cutting the first complete object out of a model
  response. The theorems relate the byte scanner to a grammar of balanced object texts.
\<close>

section \<open>The scanner\<close>

text \<open>
  The loop over \<open>s[start:]\<close> with its variables \<open>depth\<close>, \<open>inString\<close> and \<open>escaped\<close>: the number
  of bytes up to and including the brace that brings the depth back to 0, or \<open>None\<close> when the
  loop runs off the end. The depth is positive from the first byte on, so a natural number
  holds it.
\<close>

fun scan_object :: "string \<Rightarrow> nat \<Rightarrow> bool \<Rightarrow> bool \<Rightarrow> nat option" where
  "scan_object [] depth inString escaped = None"
| "scan_object (c # cs) depth inString escaped =
     (if escaped then map_option Suc (scan_object cs depth inString False)
      else if c = bslash \<and> inString then map_option Suc (scan_object cs depth inString True)
      else if c = dquote then map_option Suc (scan_object cs depth (\<not> inString) escaped)
      else if inString then map_option Suc (scan_object cs depth inString escaped)
      else if c = CHR ''{'' then map_option Suc (scan_object cs (depth + 1) inString escaped)
      else if c = CHR ''}'' then
        (if depth - 1 = 0 then Some 1
         else map_option Suc (scan_object cs (depth - 1) inString escaped))
      else map_option Suc (scan_object cs depth inString escaped))"

definition extractJSON :: "string \<Rightarrow> string" where
  "extractJSON s =
     (case dropWhile (\<lambda>c. c \<noteq> CHR ''{'') s of
        [] \<Rightarrow> s
      | t \<Rightarrow> (case scan_object t 0 False False of Some n \<Rightarrow> take n t | None \<Rightarrow> t))"

section \<open>Balanced object texts\<close>

text \<open>The inside of a string literal: any bytes but a bare quote; a backslash takes the next
  byte with it.\<close>

inductive string_body :: "string \<Rightarrow> bool" where
  body_nil: "string_body []"
| body_char: "c \<noteq> dquote \<Longrightarrow> c \<noteq> bslash \<Longrightarrow> string_body cs \<Longrightarrow> string_body (c # cs)"
| body_esc: "string_body cs \<Longrightarrow> string_body (bslash # c # cs)"

text \<open>Text whose braces outside string literals are balanced; every JSON text is of this
  form.\<close>

inductive balanced :: "string \<Rightarrow> bool" where
  bal_nil: "balanced []"
| bal_char: "c \<noteq> dquote \<Longrightarrow> c \<noteq> CHR ''{'' \<Longrightarrow> c \<noteq> CHR ''}'' \<Longrightarrow> balanced cs \<Longrightarrow> balanced (c # cs)"
| bal_string: "string_body b \<Longrightarrow> balanced cs \<Longrightarrow> balanced (dquote # b @ dquote # cs)"
| bal_object: "balanced b \<Longrightarrow> balanced cs \<Longrightarrow> balanced (CHR ''{'' # b @ CHR ''}'' # cs)"

inductive_cases balanced_ConsE: "balanced (c # cs)"

lemma scan_string_body:
  assumes "string_body b"
  shows "scan_object (b @ rest) d True False =
         map_option (\<lambda>n. length b + n) (scan_object rest d True False)"
  using assms
  by (induction rule: string_body.induct) (simp_all add: option.map_comp comp_def option.map_ident)

lemma scan_balanced:
  assumes "balanced b" and "d > 0"
  shows "scan_object (b @ rest) d False False =
         map_option (\<lambda>n. length b + n) (scan_object rest d False False)"
  using assms
proof (induction arbitrary: d rest rule: balanced.induct)
  case bal_nil
  then show ?case by (simp add: option.map_ident)
next
  case (bal_char c cs)
  then show ?case
    by (simp add: option.map_comp comp_def)
next
  case (bal_string b cs)
  then show ?case
    by (simp add: scan_string_body option.map_comp comp_def add.assoc)
next
  case (bal_object b cs)
  then show ?case
    by (simp add: option.map_comp comp_def add.assoc)
qed

text \<open>
  Whatever prose or code fence a model wraps around its answer, \<open>extractJSON\<close> returns
  exactly the first object: with no opening brace in what precedes it, the text from that
  object's opening brace to its own closing brace, even when its strings contain braces,
  escaped quotes or backslashes and whatever follows.
\<close>

lemma extractJSON_first_object:
  assumes "CHR ''{'' \<notin> set pre" and "balanced b"
  shows "extractJSON (pre @ CHR ''{'' # b @ CHR ''}'' # post) = CHR ''{'' # b @ ''}''"
proof -
  have drop: "dropWhile (\<lambda>c. c \<noteq> CHR ''{'') (pre @ CHR ''{'' # rest) = CHR ''{'' # rest" for rest
    using assms(1) by (induction pre) auto
  have "scan_object (CHR ''{'' # b @ CHR ''}'' # post) 0 False False = Some (Suc (length b + 1))"
    using scan_balanced [OF assms(2), of 1 "CHR ''}'' # post"] by simp
  then show ?thesis
    by (simp add: extractJSON_def drop)
qed

lemma extractJSON_first_object_witness:
  "extractJSON (''Sure: '' @ CHR ''{'' # [dquote, CHR ''}'', dquote] @ CHR ''}'' # '' {done}'') =
     CHR ''{'' # [dquote, CHR ''}'', dquote] @ ''}''"
proof (rule extractJSON_first_object)
  show "CHR ''{'' \<notin> set ''Sure: ''" by simp
  show "balanced [dquote, CHR ''}'', dquote]"
    using bal_string [of "[CHR ''}'']" "[]"] by (simp add: balanced.intros string_body.intros)
qed

lemma scan_object_bound: "scan_object t d q e = Some n \<Longrightarrow> n \<le> length t"
  by (induction t d q e arbitrary: n rule: scan_object.induct) (auto split: if_splits)

text \<open>
  \<open>extractJSON\<close> invents nothing: on every input its result is a contiguous part of that
  input, so a malformed response reaches the JSON decoder as it was received.
\<close>

lemma extractJSON_infix: "\<exists>pre post. s = pre @ extractJSON s @ post"
proof -
  let ?p = "\<lambda>c. c \<noteq> CHR ''{''"
  have s: "s = takeWhile ?p s @ dropWhile ?p s" by simp
  show ?thesis
  proof (cases "dropWhile ?p s")
    case Nil
    then have "s = [] @ extractJSON s @ []"
      by (simp only: extractJSON_def list.case append_Nil append_Nil2)
    then show ?thesis by blast
  next
    case (Cons c t)
    then obtain n where "extractJSON s = take n (dropWhile ?p s)"
      by (cases "scan_object (c # t) 0 False False")
         (auto simp: extractJSON_def intro: that [of "length (c # t)"])
    then have "s = takeWhile ?p s @ extractJSON s @ drop n (dropWhile ?p s)"
      by simp
    then show ?thesis by blast
  qed
qed

end
