(* ===== verification/Db_Frame.thy ===== *)
theory Db_Frame
  imports Key_Store
begin

text \<open>
  Frame reasoning for procedures: what relation between the database before and after a procedure
  holds whatever it returns, whatever faults strike and whatever an external service answers.
  The relation is a preorder (equality of some columns, a table that only grows, an invariant
  that is kept), so it composes along a program; the transaction's snapshot is related as well,
  because a rollback goes back to it.
\<close>

declare One_nat_def [simp del]

definition keeps :: "(database \<Rightarrow> database \<Rightarrow> bool) \<Rightarrow> (scope \<times> scope) option \<Rightarrow> 'a proc \<Rightarrow> bool" where
  "keeps R sess m \<longleftrightarrow> (\<forall>w r w'. session w = sess \<longrightarrow> m w = (r, w') \<longrightarrow>
     session w' = sess \<and> R (db w) (db w')
     \<and> (\<forall>a ws d d'. tx w = Some (a, ws, d) \<longrightarrow> tx w' = Some (a, ws, d') \<longrightarrow> R d d'))"

named_theorems keeps_intro

lemma keepsD:
  assumes "keeps R sess m" "session w = sess" "m w = (r, w')"
  shows "session w' = sess" "R (db w) (db w')"
  using assms unfolding keeps_def by blast+

lemma keeps_wp:
  assumes "keeps R sess m" "session w = sess"
  shows "wp m (\<lambda>_ t. session t = sess \<and> R (db w) (db t)) (\<lambda>_ t. session t = sess \<and> R (db w) (db t)) w"
proof (cases "m w")
  case (Pair r t)
  then show ?thesis using keepsD [OF assms Pair] by (simp add: wp_def split: sum.splits)
qed

lemma keeps_mono:
  assumes "keeps R sess m" "\<And>d d'. R d d' \<Longrightarrow> R' d d'"
  shows "keeps R' sess m"
  using assms unfolding keeps_def by blast

text \<open>Sequencing with different relations.\<close>

lemma keeps_seq:
  assumes m: "keeps R sess m" and k: "\<And>x w w'. m w = (Inr x, w') \<Longrightarrow> keeps S sess (k x)"
    and RT: "\<And>d d'. R d d' \<Longrightarrow> T d d'" and RS: "\<And>d d' d''. R d d' \<Longrightarrow> S d' d'' \<Longrightarrow> T d d''"
  shows "keeps T sess (bindM m k)"
  unfolding keeps_def
proof (intro allI impI)
  fix w r w'
  assume w: "session w = sess" and run: "bindM m k w = (r, w')"
  obtain r1 t where t: "m w = (r1, t)" by (cases "m w")
  note mt = m [unfolded keeps_def, rule_format, OF w t]
  show "session w' = sess \<and> T (db w) (db w')
     \<and> (\<forall>a ws d d'. tx w = Some (a, ws, d) \<longrightarrow> tx w' = Some (a, ws, d') \<longrightarrow> T d d')"
  proof (cases r1)
    case (Inl e)
    then show ?thesis using mt run t RT by (simp add: bindM_def)
  next
    case (Inr x)
    then have kx: "k x t = (r, w')" using run t by (simp add: bindM_def)
    have "session t = sess" using mt by blast
    note kt = k [unfolded keeps_def, rule_format, OF t [unfolded Inr] this kx]
    have "T d d'" if "tx w = Some (a, ws, d)" "tx w' = Some (a, ws, d')" for a ws d d'
    proof -
      have "session t = Some (a, ws)" using mt w that(1) by (simp add: session_def)
      then obtain d1 where "tx t = Some (a, ws, d1)" by (auto simp: session_def)
      then show ?thesis using mt kt that RS by blast
    qed
    then show ?thesis using mt kt RS by blast
  qed
qed

lemma keeps_checked:
  assumes "\<And>d. R d d" "\<And>w d. session w = sess \<Longrightarrow> f w (db w) = Some d \<Longrightarrow> R (db w) d"
  shows "keeps R sess (exec_check f)"
  using assms unfolding keeps_def
  by (auto simp: exec_check_def exec_def split: fault.splits option.splits)

text \<open>Outside a transaction the value of the first step may speak about the database it left.\<close>

lemma preserved_seq:
  assumes m: "keeps (\<lambda>d d'. I d \<longrightarrow> I d') None m"
    and J: "\<And>w x w'. tx w = None \<Longrightarrow> I (db w) \<Longrightarrow> m w = (Inr x, w') \<Longrightarrow> J x (db w')"
    and k: "\<And>x. keeps (\<lambda>d d'. J x d \<longrightarrow> I d') None (k x)"
  shows "keeps (\<lambda>d d'. I d \<longrightarrow> I d') None (bindM m k)"
  unfolding keeps_def
proof (intro allI impI)
  fix w r w'
  assume w: "session w = None" and run: "bindM m k w = (r, w')"
  obtain r1 t where t: "m w = (r1, t)" by (cases "m w")
  note mt = m [unfolded keeps_def, rule_format, OF w t]
  have "session w' = None \<and> (I (db w) \<longrightarrow> I (db w'))"
  proof (cases r1)
    case (Inl e)
    then show ?thesis using mt run t by (simp add: bindM_def)
  next
    case (Inr x)
    then have kx: "k x t = (r, w')" using run t by (simp add: bindM_def)
    have "session t = None" using mt by blast
    note kt = k [unfolded keeps_def, rule_format, OF this kx]
    show ?thesis using kt J [of w x t] w t Inr by auto
  qed
  then show "session w' = None \<and> (I (db w) \<longrightarrow> I (db w'))
     \<and> (\<forall>a ws d d'. tx w = Some (a, ws, d) \<longrightarrow> tx w' = Some (a, ws, d') \<longrightarrow> I d \<longrightarrow> I d')"
    using w by simp
qed

text \<open>Taking a run that succeeded apart.\<close>

lemma bind_success:
  "bindM m k w = (Inr y, w') \<Longrightarrow> \<exists>x t. m w = (Inr x, t) \<and> k x t = (Inr y, w')"
  by (auto simp: bindM_def split: prod.splits sum.splits)

lemma query_success: "query f w = (Inr y, w') \<Longrightarrow> y = f w \<and> w' = tick w"
  by (auto simp: query_def split: if_splits)

lemma query_row_success: "query_row f w = (Inr y, w') \<Longrightarrow> (\<exists>ys. f w = y # ys) \<and> w' = tick w"
  by (auto simp: query_row_def bindM_def query_def retM_def errM_def split: if_splits list.splits)

lemma Run_success:
  assumes "Run a ws fn w = (Inr x, w')" "tx w = None"
  shows "\<exists>t u. session t = Some (a, ws) \<and> db t = db w \<and> fn t = (Inr x, u) \<and> db w' = db u"
proof -
  let ?t = "(tick (tick w))\<lparr>tx := Some (a, ws, db w)\<rparr>"
  have ok: "fault_now w = NoFault" "fault_now (tick w) = NoFault"
    using assms(1) by (auto simp: Run_def bindM_def begin_tx_def SetSession_def query_def split: if_splits)
  obtain rf u where u: "fn ?t = (rf, u)" by (cases "fn ?t")
  have "rf = Inr x \<and> db w' = db u"
    using assms(1) ok u
    by (cases rf) (auto simp: Run_def bindM_def begin_tx_def SetSession_def query_def modM_def commit_def retM_def
        split: fault.splits)
  then show ?thesis using u by (intro exI [of _ ?t] exI [of _ u]) simp
qed

lemma keeps_transaction:
  assumes refl: "\<And>d. R d d" and fn: "keeps R (Some (a, ws)) fn"
  shows "keeps R None (Run a ws fn)"
  unfolding keeps_def
proof (intro allI impI)
  fix w r w'
  assume w: "session w = None" and run: "Run a ws fn w = (r, w')"
  have "R (db w) (db w') \<and> tx w' = None"
  proof (cases "fault_now w = NoFault \<and> fault_now (tick w) = NoFault")
    case False
    then show ?thesis
      using run w refl
      by (auto simp: Run_def bindM_def begin_tx_def SetSession_def query_def rollback_def split: if_splits)
  next
    case True
    let ?t = "(tick (tick w))\<lparr>tx := Some (a, ws, db w)\<rparr>"
    obtain rf u where u: "fn ?t = (rf, u)" by (cases "fn ?t")
    have "session ?t = Some (a, ws)" by simp
    note ku = fn [unfolded keeps_def, rule_format, OF this u]
    then obtain d' where d': "tx u = Some (a, ws, d')" by (auto simp: session_def)
    then have s: "R (db w) (db u)" "R (db w) d'" using ku by simp_all
    show ?thesis
      using run True u d' s
      by (auto simp: Run_def bindM_def begin_tx_def SetSession_def query_def modM_def commit_def retM_def
          rollback_def split: sum.splits fault.splits)
  qed
  then show "session w' = None \<and> R (db w) (db w')
     \<and> (\<forall>a ws d d'. tx w = Some (a, ws, d) \<longrightarrow> tx w' = Some (a, ws, d') \<longrightarrow> R d d')"
    using w by simp
qed

locale db_order =
  fixes R :: "database \<Rightarrow> database \<Rightarrow> bool"
  assumes refl: "R d d"
    and trans: "R d d' \<Longrightarrow> R d' d'' \<Longrightarrow> R d d''"
begin

lemma same_db:
  assumes "\<And>w r w'. m w = (r, w') \<Longrightarrow> db w' = db w \<and> tx w' = tx w"
  shows "keeps R sess m"
  using assms refl unfolding keeps_def session_def by fastforce

lemma ret: "keeps R sess (retM x)"
  by (rule same_db) (simp add: retM_def)

lemma err: "keeps R sess (errM e)"
  by (rule same_db) (simp add: errM_def)

lemma lift: "keeps R sess (liftM r)"
  by (rule same_db) (simp add: liftM_def)

lemma get: "keeps R sess (getM f)"
  by (rule same_db) (simp add: getM_def)

lemma query: "keeps R sess (query f)"
  by (rule same_db) (auto simp: query_def split: if_splits)

lemma rand_read: "keeps R sess (rand_read n)"
  by (rule same_db) (auto simp: rand_read_def split: if_splits)

lemma bind: "keeps R sess m \<Longrightarrow> (\<And>x. keeps R sess (k x)) \<Longrightarrow> keeps R sess (bindM m k)"
  using keeps_seq [of R sess m R k R] trans by blast

lemma attempt:
  assumes m: "keeps R sess m" and k: "\<And>x. keeps R sess (k x)"
  shows "keeps R sess (tryM m k)"
proof -
  have "tryM m k = bindM (\<lambda>w. case m w of (r, t) \<Rightarrow> (Inr r, t)) k"
    by (simp add: fun_eq_iff tryM_def bindM_def split: prod.splits)
  moreover have "keeps R sess (\<lambda>w. case m w of (r, t) \<Rightarrow> (Inr r, t))"
    using m unfolding keeps_def by (auto split: prod.splits)
  ultimately show ?thesis using k by (simp add: bind)
qed

lemma for_each: "(\<And>x. x \<in> set xs \<Longrightarrow> keeps R sess (f x)) \<Longrightarrow> keeps R sess (forM f xs)"
  by (induction xs) (simp_all add: ret bind)

lemma map_each: "(\<And>x. x \<in> set xs \<Longrightarrow> keeps R sess (f x)) \<Longrightarrow> keeps R sess (mapM f xs)"
  by (induction xs) (simp_all add: ret bind)

lemma fold_each: "(\<And>x acc. keeps R sess (f x acc)) \<Longrightarrow> keeps R sess (foldM f xs acc)"
  by (induction xs arbitrary: acc) (simp_all add: ret bind)

lemma if_else: "keeps R sess m \<Longrightarrow> keeps R sess m' \<Longrightarrow> keeps R sess (if b then m else m')"
  by simp

lemma case_option:
  "keeps R sess m \<Longrightarrow> (\<And>x. keeps R sess (k x)) \<Longrightarrow> keeps R sess (case z of None \<Rightarrow> m | Some x \<Rightarrow> k x)"
  by (cases z) simp_all

lemma case_sum:
  "(\<And>e. keeps R sess (h e)) \<Longrightarrow> (\<And>x. keeps R sess (k x)) \<Longrightarrow> keeps R sess (case z of Inl e \<Rightarrow> h e | Inr x \<Rightarrow> k x)"
  by (cases z) simp_all

lemma case_prod: "(\<And>x y. keeps R sess (k x y)) \<Longrightarrow> keeps R sess (case z of (x, y) \<Rightarrow> k x y)"
  by (cases z) simp

lemma query_row: "keeps R sess (query_row f)"
  unfolding query_row_def by (rule bind [OF query]) (simp add: ret err split: list.split)

lemma statement:
  assumes "\<And>w. session w = sess \<Longrightarrow> R (db w) (f w (db w))"
  shows "keeps R sess (exec f)" "keeps R sess (exec_ret f g)"
  using assms refl unfolding keeps_def
  by (auto simp: exec_def exec_ret_def split: fault.splits)

lemma checked_statement:
  assumes "\<And>w d. session w = sess \<Longrightarrow> f w (db w) = Some d \<Longrightarrow> R (db w) d"
  shows "keeps R sess (exec_check f)"
  using keeps_checked [of R] refl assms by blast

lemma other_connection:
  assumes "\<And>w d. R d (f w d)"
  shows "keeps R sess (exec_auto f)"
  using assms refl unfolding keeps_def
  by (auto simp: exec_auto_def split: fault.splits)

lemma transaction: "keeps R (Some (a, ws)) fn \<Longrightarrow> keeps R None (Run a ws fn)"
  using keeps_transaction [of R] refl by blast

lemma Encrypt: "keeps R sess (Encrypt A enc p)"
  unfolding Encrypt_def by (intro bind rand_read ret)

lemma cache_write: "keeps R sess (store_enc k enc)" "keeps R sess (cached k)" "keeps R sess (Evict sc v)"
  by (rule same_db; auto simp: store_enc_def cached_def Evict_def modM_def getM_def)+

lemma GetVersion: "keeps R sess (GetVersion A sc v)"
  unfolding GetVersion_def unwrap_def
  by (intro bind attempt cache_write case_option case_sum ret err query_row lift get if_else)

end

text \<open>A preorder that also allows one scope to get a key.\<close>

locale key_order = db_order +
  fixes key_scope :: scope
  assumes new_key: "R d (insert_key key_scope v wrapped d)"
begin

lemma GetOrCreate: "keeps R sess (GetOrCreate A key_scope)"
  unfolding GetOrCreate_def CurrentVersion_def createVersion_def persist_version_def GenerateDEK_def WrapDEK_def
  by (intro bind query if_else ret GetVersion rand_read get lift Encrypt other_connection new_key)

end

section \<open>Useful preorders\<close>

text \<open>Columns that do not change, and invariants that are kept.\<close>

definition unchanged :: "(database \<Rightarrow> 'a) \<Rightarrow> database \<Rightarrow> database \<Rightarrow> bool" where
  "unchanged F d d' \<longleftrightarrow> F d' = F d"

definition preserved :: "(database \<Rightarrow> bool) \<Rightarrow> database \<Rightarrow> database \<Rightarrow> bool" where
  "preserved I d d' \<longleftrightarrow> (I d \<longrightarrow> I d')"

definition both :: "(database \<Rightarrow> database \<Rightarrow> bool) \<Rightarrow> (database \<Rightarrow> database \<Rightarrow> bool) \<Rightarrow> database \<Rightarrow> database \<Rightarrow> bool" where
  "both R S d d' \<longleftrightarrow> R d d' \<and> S d d'"

interpretation unchanged: db_order "unchanged F"
  by unfold_locales (simp_all add: unchanged_def)

interpretation preserved: db_order "preserved I"
  by unfold_locales (simp_all add: preserved_def)

end
