(* ===== verification/Consolidation.thy ===== *)
theory Consolidation
  imports Calendar Pgfmt Extract_Json Db_Frame
begin

text \<open>
  The consolidation engine's inputs and its calls to language models
  (\<open>internal/consolidation\<close>: \<open>types.go\<close>, \<open>prompts.go\<close>, \<open>grounding.go\<close>, \<open>perepisode.go\<close>, the helpers of
  \<open>runner.go\<close>): source texts, the structured output a model is asked for, prompt construction,
  bounded retries, the per-episode pass and the grounding check.

  Outside the repository are the models behind the provider interface, \<open>encoding/json\<close> (one decoder
  per struct the code decodes into), Unicode lower-casing and the decimal form of floats; they are
  fields of the record \<open>runner\<close> that every definition takes.
\<close>

declare One_nat_def [simp del]

section \<open>Types\<close>

record textSource =
  ts_id :: string
  ts_text :: string
  ts_date :: string

record KeyFactOutput =
  Fact :: string
  SourceEpisodeIDs :: "string list"

text \<open>A \<open>map[string]string\<close>: \<open>None\<close> is the nil map, otherwise the entries in key order.\<close>

type_synonym attrs = "(string \<times> string) list option"

record EntityUpdate =
  eu_ID :: string
  eu_Kind :: string
  eu_Name :: string
  eu_Attributes :: attrs
  eu_SupersedesKeys :: "string list"

record RelationshipUpdate =
  SubjectKind :: string
  SubjectName :: string
  Predicate :: string
  ObjectKind :: string
  ObjectName :: string
  ValidFrom :: string
  ValidUntil :: string

record ConsolidationOutput =
  Summary :: string
  KeyFacts :: "KeyFactOutput list"
  EntitiesTouched :: "EntityUpdate list"
  Relationships :: "RelationshipUpdate list"

record contradictionResult =
  OldFact :: string
  Replacement :: string

record knownEntityContext =
  ke_id :: string
  ke_name :: string
  ke_attributes :: attrs

text \<open>A chat request: which system prompt it carries and the user message.\<close>

datatype system_prompt = SummarySystemPrompt | TeamPrompt string | GroundingSystemPrompt
  | PerEpisodeFactPrompt | ContradictionCheckPrompt

record ChatRequest =
  rq_system :: system_prompt
  rq_user :: string
  rq_max_tokens :: "nat option"

text \<open>A provider may answer every call differently; the number of calls made so far selects the
  answer.\<close>

record llm =
  Vendor :: string
  Model :: string
  ChatCompletion :: "nat \<Rightarrow> ChatRequest \<Rightarrow> err + string"

type_synonym vec = "rat list"

record embedding_provider =
  em_Vendor :: string
  em_Model :: string
  Embed :: "nat \<Rightarrow> string list \<Rightarrow> err + vec list"

record runner =
  run_aead :: aead
  run_consolidation :: llm
  run_grounding :: llm
  run_embedder :: embedding_provider
  TeamPromptOverride :: "scope \<Rightarrow> string option"
  lower :: "rune \<Rightarrow> rune"
  float_text :: "rat \<Rightarrow> string"
  math_Sqrt :: "rat \<Rightarrow> rat"
  max_clusters :: nat
  marshal_attrs :: "attrs \<Rightarrow> string"
  unmarshal_attrs :: "string \<Rightarrow> attrs option"
  unmarshal_output :: "string \<Rightarrow> ConsolidationOutput option"
  unmarshal_verdicts :: "string \<Rightarrow> (int \<times> bool) list option"
  unmarshal_facts :: "string \<Rightarrow> string list option"
  unmarshal_contradictions :: "string \<Rightarrow> (contradictionResult list \<times> string) option"

section \<open>Calls to providers\<close>

definition call :: "(nat \<Rightarrow> 'q \<Rightarrow> err + 'a) \<Rightarrow> 'q \<Rightarrow> 'a proc" where
  "call f q = (\<lambda>w. (f (calls w) q, w\<lparr>calls := calls w + 1\<rparr>))"

definition chat :: "llm \<Rightarrow> ChatRequest \<Rightarrow> string proc" where
  "chat l = call (ChatCompletion l)"

definition embed :: "runner \<Rightarrow> string list \<Rightarrow> vec list proc" where
  "embed r = call (Embed (run_embedder r))"

definition EmbedderIdentity :: "runner \<Rightarrow> string" where
  "EmbedderIdentity r = em_Vendor (run_embedder r) @ '':'' @ em_Model (run_embedder r)"

definition nl :: string where "nl = [CHR 0x0A]"
definition emdash :: string where "emdash = [CHR 0xE2, CHR 0x80, CHR 0x94]"

section \<open>Rendering sources\<close>

definition EpisodeEmbedText :: "string \<Rightarrow> string \<Rightarrow> string" where
  "EpisodeEmbedText input output = ''USER: '' @ input @ nl @ ''ASSISTANT: '' @ output"

definition source_label :: "textSource \<Rightarrow> string" where
  "source_label s =
     (if ts_date s \<noteq> [] then ''--- id: '' @ ts_id s @ '' (date: '' @ ts_date s @ '') ---'' @ nl @ ts_text s @ nl
      else ''--- id: '' @ ts_id s @ '' ---'' @ nl @ ts_text s @ nl)"

definition joinSources :: "textSource list \<Rightarrow> string" where
  "joinSources sources = concat (map (\<lambda>s. source_label s @ nl) sources)"

definition EntityEmbedText :: "string \<Rightarrow> string \<Rightarrow> attrs \<Rightarrow> string" where
  "EntityEmbedText kind name attrs = name @ '' ('' @ kind @ '')'' @
     concat (map (\<lambda>(k, v). nl @ k @ '': '' @ v) (case attrs of None \<Rightarrow> [] | Some kvs \<Rightarrow> kvs))"

definition formatKnownEntities :: "runner \<Rightarrow> knownEntityContext list \<Rightarrow> string" where
  "formatKnownEntities r known = concat (map
     (\<lambda>k. ''- '' @ ke_name k @ '' (id: '' @ ke_id k @ ''): '' @ marshal_attrs r (ke_attributes k) @ nl)
     (filter (\<lambda>k. case ke_attributes k of None \<Rightarrow> False | Some kvs \<Rightarrow> kvs \<noteq> []) known))"

definition buildSummaryPrompt ::
    "runner \<Rightarrow> string \<Rightarrow> string \<Rightarrow> textSource list \<Rightarrow> string \<Rightarrow> knownEntityContext list \<Rightarrow> string" where
  "buildSummaryPrompt r level period sources establishedRecord knownEntities =
     (if establishedRecord \<noteq> [] then
        ''ALREADY-ESTABLISHED RECORD for this '' @ level @ '' '' @ emdash @ '' the current, reviewed summary before this re-consolidation, which may already incorporate one or more deliberate human corrections not visible anywhere in the raw source texts below. Treat every fact in it as settled and correct. Only change something from it if a source text below EXPLICITLY states a new fact that supersedes it (the user or a later message clearly states a value changed, a decision was reversed, etc). Do NOT contradict, doubt, or walk back anything here merely because a raw source phrases something differently, states an earlier value in passing, or because your own past response in a source text differs from it '' @ emdash @ '' this record already reflects the outcome of any corrections that were made, even when the raw sources don't show that correction happening.'' @ nl @ nl @ establishedRecord @ nl @ nl
      else [])
     @ (let known = formatKnownEntities r knownEntities in
        if known \<noteq> [] then
          ''KNOWN ENTITIES already on record whose name appears in the source texts below, with their current attributes '' @ emdash @ '' if a source text below restates one of these entities' facts using a different attribute key name than shown here (e.g. the record already has \"preapproval_amount\" and a source states a new pre-approval amount), name that existing key in supersedes_keys for the corresponding entities_touched entry so the old, differently-spelled key doesn't stay stale. Only do this when a source text states an update to the SAME specific real-world fact '' @ emdash @ '' a source stating a different, unrelated fact about the same entity is not a supersession, just an additional attribute.'' @ nl @ nl @ known @ nl
        else [])
     @ ''Level: '' @ level @ nl @ ''Period: '' @ period @ nl @ nl @ ''Source texts:'' @ nl
     @ concat (map (\<lambda>s. nl @ source_label s) sources)"

section \<open>Generating a summary\<close>

definition consolidationParseRetries :: nat where "consolidationParseRetries = 2"
definition consolidationMaxTokens :: nat where "consolidationMaxTokens = 8192"

primrec generate_attempts :: "runner \<Rightarrow> ChatRequest \<Rightarrow> nat \<Rightarrow> ConsolidationOutput proc" where
  "generate_attempts r req 0 = errM ErrParse"
| "generate_attempts r req (Suc n) =
     bindM (chat (run_consolidation r) req) (\<lambda>content.
     case unmarshal_output r (extractJSON content) of
       Some out \<Rightarrow> retM out
     | None \<Rightarrow> generate_attempts r req n)"

definition generateSummary ::
    "runner \<Rightarrow> scope \<Rightarrow> string \<Rightarrow> string \<Rightarrow> textSource list \<Rightarrow> string \<Rightarrow> knownEntityContext list
     \<Rightarrow> ConsolidationOutput proc" where
  "generateSummary r sc level period sources establishedRecord knownEntities =
     generate_attempts r
       \<lparr>rq_system = (case TeamPromptOverride r sc of Some p \<Rightarrow> TeamPrompt p | None \<Rightarrow> SummarySystemPrompt),
        rq_user = buildSummaryPrompt r level period sources establishedRecord knownEntities,
        rq_max_tokens = Some consolidationMaxTokens\<rparr>
       consolidationParseRetries"

section \<open>The per-episode pass\<close>

text \<open>\<open>chunkText\<close> always returns for this limit (\<open>chunkText_partition\<close>).\<close>

definition episode_chunks :: "string \<Rightarrow> string list" where
  "episode_chunks t = (case chunkText t perEpisodeChunkCharLimit of Some cs \<Rightarrow> cs | None \<Rightarrow> [])"

definition chunk_facts :: "runner \<Rightarrow> string \<Rightarrow> string \<Rightarrow> KeyFactOutput list proc" where
  "chunk_facts r episode chunk =
     tryM (chat (run_consolidation r) \<lparr>rq_system = PerEpisodeFactPrompt, rq_user = chunk, rq_max_tokens = None\<rparr>)
       (\<lambda>res. case res of
          Inl _ \<Rightarrow> retM []
        | Inr content \<Rightarrow> (case unmarshal_facts r (extractJSON content) of
              None \<Rightarrow> retM []
            | Some facts \<Rightarrow> retM (map (\<lambda>f. \<lparr>Fact = f, SourceEpisodeIDs = [episode]\<rparr>)
                                   (filter (\<lambda>f. TrimSpace f \<noteq> []) facts))))"

definition extractPerEpisodeFacts :: "runner \<Rightarrow> textSource list \<Rightarrow> KeyFactOutput list proc" where
  "extractPerEpisodeFacts r sources =
     bindM (mapM (\<lambda>s. mapM (chunk_facts r (ts_id s)) (episode_chunks (ts_text s))) sources)
       (\<lambda>fss. retM (concat (map concat fss)))"

section \<open>The grounding check\<close>

definition buildGroundingPrompt :: "string \<Rightarrow> KeyFactOutput list \<Rightarrow> string" where
  "buildGroundingPrompt sourceText facts =
     ''Source text:'' @ nl @ sourceText @ nl @ nl @ ''Claimed facts:'' @ nl
     @ concat (map (\<lambda>(i, f). dec (i + 1) @ ''. '' @ Fact f @ nl) (enumerate 0 facts))"

definition groundingCheckBatchSize :: nat where "groundingCheckBatchSize = 20"

type_synonym groundingVerdicts = "int \<rightharpoonup> bool"

definition indexVerdicts :: "runner \<Rightarrow> string \<Rightarrow> groundingVerdicts option" where
  "indexVerdicts r content =
     map_option (foldl (\<lambda>out (i, ok). if out i = None then out(i \<mapsto> ok) else out) Map.empty)
       (unmarshal_verdicts r (extractJSON content))"

definition complete :: "groundingVerdicts \<Rightarrow> nat \<Rightarrow> bool" where
  "complete v n = list_all (\<lambda>i. v (int i) \<noteq> None) [1..<n + 1]"

definition resolve :: "groundingVerdicts \<Rightarrow> KeyFactOutput list \<Rightarrow> bool list" where
  "resolve v facts = map (\<lambda>i. case v (int i + 1) of None \<Rightarrow> False | Some ok \<Rightarrow> ok) [0..<length facts]"

definition groundingCheckOneAttempt :: "runner \<Rightarrow> string \<Rightarrow> KeyFactOutput list \<Rightarrow> groundingVerdicts proc" where
  "groundingCheckOneAttempt r sourceText facts =
     bindM (chat (run_grounding r) \<lparr>rq_system = GroundingSystemPrompt,
              rq_user = buildGroundingPrompt sourceText facts, rq_max_tokens = None\<rparr>) (\<lambda>content.
     case indexVerdicts r content of None \<Rightarrow> retM Map.empty | Some v \<Rightarrow> retM v)"

definition groundingCheckOne :: "runner \<Rightarrow> string \<Rightarrow> KeyFactOutput list \<Rightarrow> bool list proc" where
  "groundingCheckOne r sourceText facts =
     bindM (groundingCheckOneAttempt r sourceText facts) (\<lambda>verdicts.
     if complete verdicts (length facts) then retM (resolve verdicts facts)
     else tryM (groundingCheckOneAttempt r sourceText facts) (\<lambda>res. case res of
            Inr retried \<Rightarrow> retM (resolve retried facts)
          | Inl _ \<Rightarrow> retM (resolve verdicts facts)))"

function batches :: "nat \<Rightarrow> 'a list \<Rightarrow> 'a list list" where
  "batches n [] = []"
| "batches n (x # xs) = (x # take (n - 1) xs) # batches n (drop (n - 1) xs)"
  by pat_completeness auto
termination by (relation "measure (\<lambda>(_, xs). length xs)") auto

definition groundingCheck :: "runner \<Rightarrow> string \<Rightarrow> KeyFactOutput list \<Rightarrow> bool list proc" where
  "groundingCheck r sourceText facts =
     (if facts = [] then retM []
      else if length facts > groundingCheckBatchSize then
        bindM (mapM (groundingCheckOne r sourceText) (batches groundingCheckBatchSize facts)) (\<lambda>bs. retM (concat bs))
      else groundingCheckOne r sourceText facts)"

section \<open>An example\<close>

text \<open>A deployment whose models answer the same to every request: one fact about a greeting, found
  grounded.\<close>

definition sample_llm :: llm where
  "sample_llm = \<lparr>Vendor = ''vendor'', Model = ''model'', ChatCompletion = (\<lambda>_ _. Inr ''{}'')\<rparr>"

definition sample_output :: ConsolidationOutput where
  "sample_output = \<lparr>Summary = ''greeting'', KeyFacts = [\<lparr>Fact = ''hi'', SourceEpisodeIDs = [''ep_1'']\<rparr>],
     EntitiesTouched = [], Relationships = []\<rparr>"

definition sample_runner :: runner where
  "sample_runner = \<lparr>run_aead = prefix_aead, run_consolidation = sample_llm, run_grounding = sample_llm,
     run_embedder = \<lparr>em_Vendor = ''vendor'', em_Model = ''embed'', Embed = (\<lambda>_ ts. Inr (map (\<lambda>_. [1, 0]) ts))\<rparr>,
     TeamPromptOverride = (\<lambda>_. None), lower = (\<lambda>c. c), float_text = (\<lambda>_. ''1''), math_Sqrt = (\<lambda>x. x),
     max_clusters = 0, marshal_attrs = (\<lambda>_. ''{}''), unmarshal_attrs = (\<lambda>_. Some (Some [])),
     unmarshal_output = (\<lambda>_. Some sample_output), unmarshal_verdicts = (\<lambda>_. Some [(1, True)]),
     unmarshal_facts = (\<lambda>_. Some []), unmarshal_contradictions = (\<lambda>_. Some ([], []))\<rparr>"

end
