(* ===== verification/Entities.thy ===== *)
theory Entities
  imports Consolidation Content
begin

text \<open>
  The knowledge graph a consolidation run writes (\<open>internal/consolidation/store.go\<close>): entities with
  merged attributes (\<open>upsertEntities\<close>, \<open>mergeAttributes\<close>) and dated relationships between them
  (\<open>upsertRelationships\<close>), with the table constraints of \<open>schema/\<close> that may reject a statement.
\<close>

declare One_nat_def [simp del]

section \<open>Go maps as sorted lists\<close>

fun put :: "'k::linorder \<Rightarrow> 'v \<Rightarrow> ('k \<times> 'v) list \<Rightarrow> ('k \<times> 'v) list" where
  "put k v [] = [(k, v)]"
| "put k v ((a, b) # m) = (if k < a then (k, v) # (a, b) # m else if k = a then (k, v) # m else (a, b) # put k v m)"

definition del :: "'k \<Rightarrow> ('k \<times> 'v) list \<Rightarrow> ('k \<times> 'v) list" where
  "del k m = filter (\<lambda>(a, _). a \<noteq> k) m"

definition entries :: "attrs \<Rightarrow> (string \<times> string) list" where
  "entries m = (case m of None \<Rightarrow> [] | Some kvs \<Rightarrow> kvs)"

definition mergeAttributes :: "attrs \<Rightarrow> attrs \<Rightarrow> attrs" where
  "mergeAttributes existing incoming = (case existing of
       None \<Rightarrow> incoming
     | Some e \<Rightarrow> Some (fold (\<lambda>(k, v). put k v) (entries incoming) e))"

definition delete_keys :: "string list \<Rightarrow> attrs \<Rightarrow> attrs" where
  "delete_keys ks m = map_option (fold del ks) m"

section \<open>Entities\<close>

text \<open>The rows of a table that a statement of the session sees.\<close>

definition visible :: "world \<Rightarrow> ('r \<Rightarrow> scope) \<Rightarrow> 'r list \<Rightarrow> 'r list" where
  "visible w scope_of rows = filter (\<lambda>x. rls_visible w (scope_of x)) rows"

definition entity_kinds :: "string list" where   \<comment> \<open>\<open>entities_kind_check\<close>\<close>
  "entity_kinds = [''person'', ''project'', ''preference'', ''skill'', ''place'', ''organization'', ''self_model'']"

definition upsert_entity_row :: "entity \<Rightarrow> database \<Rightarrow> database" where
  "upsert_entity_row e d =
     (let same = (\<lambda>x. en_scope x = en_scope e \<and> en_id x = en_id e)
      in if list_ex same (entities d)
         then d\<lparr>entities := update_where same (\<lambda>x. x\<lparr>en_name := en_name e, en_attributes := en_attributes e,
                   en_key_version := en_key_version e, en_last_updated := en_last_updated e\<rparr>) (entities d)\<rparr>
         else d\<lparr>entities := entities d @ [e]\<rparr>)"

definition write_entity :: "runner \<Rightarrow> scope \<Rightarrow> encryptor \<Rightarrow> nat \<Rightarrow> date \<Rightarrow> EntityUpdate \<Rightarrow> attrs \<Rightarrow> unit proc" where
  "write_entity r sc enc keyVersion asOf e merged =
     bindM (Encrypt (run_aead r) enc (marshal_attrs r merged)) (\<lambda>attrsCT.
     exec_check (\<lambda>w d.
       if eu_Kind e \<in> set entity_kinds \<and> rls_check w sc
       then Some (upsert_entity_row \<lparr>en_id = eu_ID e, en_scope = sc, en_kind = eu_Kind e, en_name = eu_Name e,
              en_first_seen = asOf, en_last_updated = asOf, en_attributes = Some attrsCT,
              en_key_version = keyVersion, en_embedding = None, en_embedding_model = None\<rparr> d)
       else None))"

definition parse_attrs :: "runner \<Rightarrow> string \<Rightarrow> err + attrs" where
  "parse_attrs r js = (if js = [] then Inr None
     else case unmarshal_attrs r js of None \<Rightarrow> Inl ErrParse | Some m \<Rightarrow> Inr m)"

definition find_entity :: "scope \<Rightarrow> string \<Rightarrow> world \<Rightarrow> entity list" where
  "find_entity sc eid w = filter (\<lambda>x. en_scope x = sc \<and> en_id x = eid) (visible w en_scope (entities (db w)))"

definition upsert_entity :: "runner \<Rightarrow> scope \<Rightarrow> encryptor \<Rightarrow> nat \<Rightarrow> bool \<Rightarrow> date \<Rightarrow> EntityUpdate \<Rightarrow> unit proc" where
  "upsert_entity r sc enc keyVersion replace asOf e =
     (if eu_ID e = [] then retM ()
      else tryM (query_row (find_entity sc (eu_ID e))) (\<lambda>res. case res of
          Inl err \<Rightarrow> if err = ErrNoRows then write_entity r sc enc keyVersion asOf e (eu_Attributes e) else errM err
        | Inr row \<Rightarrow>
            if replace then write_entity r sc enc keyVersion asOf e (eu_Attributes e)
            else bindM (GetVersion (run_aead r) sc (en_key_version row)) (\<lambda>existingEnc.
              bindM (liftM (Decrypt (run_aead r) existingEnc (en_attributes row))) (\<lambda>existingJSON.
              bindM (liftM (parse_attrs r existingJSON)) (\<lambda>existing.
              write_entity r sc enc keyVersion asOf e
                (mergeAttributes (delete_keys (eu_SupersedesKeys e) existing) (eu_Attributes e)))))))"

definition upsertEntities :: "runner \<Rightarrow> scope \<Rightarrow> EntityUpdate list \<Rightarrow> bool \<Rightarrow> date \<Rightarrow> unit proc" where
  "upsertEntities r sc updates replace asOf =
     bindM (GetOrCreate (run_aead r) sc) (\<lambda>(enc, keyVersion).
     forM (upsert_entity r sc enc keyVersion replace asOf) updates)"

section \<open>Relationships\<close>

definition parseOptionalDate :: "string \<Rightarrow> date option" where
  "parseOptionalDate s = (if s = [] \<or> parse_date s = None then None else Some s)"

definition hex_digit :: "nat \<Rightarrow> char" where
  "hex_digit n = (if n < 10 then char_of (48 + n) else char_of (87 + n))"

definition hex_EncodeToString :: "bytes \<Rightarrow> string" where
  "hex_EncodeToString bs = concat (map (\<lambda>b. [hex_digit (byte_of b div 16), hex_digit (byte_of b mod 16)]) bs)"

definition newRelationshipID :: "string proc" where
  "newRelationshipID = bindM (rand_read 12) (\<lambda>buf. retM (''rel_'' @ hex_EncodeToString buf))"

definition entityExists :: "scope \<Rightarrow> string \<Rightarrow> bool proc" where
  "entityExists sc eid = query (\<lambda>w. find_entity sc eid w \<noteq> [])"

text \<open>The edges of a subject and predicate, and of a whole triple.\<close>

definition edges :: "scope \<Rightarrow> string \<Rightarrow> string \<Rightarrow> string \<Rightarrow> world \<Rightarrow> relationship list" where
  "edges sc subjectID predicate objectID w = filter (\<lambda>e. rel_scope e = sc \<and> rel_subject_id e = subjectID
     \<and> rel_predicate e = predicate \<and> rel_object_id e = objectID)
     (visible w rel_scope (entity_relationships (db w)))"

text \<open>\<open>entity_relationships_valid_date_order_check\<close>; dates of the form YYYY-MM-DD are ordered as
  strings.\<close>

definition date_order :: "relationship \<Rightarrow> bool" where
  "date_order e = (case (rel_valid_from e, rel_valid_until e) of (Some a, Some b) \<Rightarrow> a \<le> b | _ \<Rightarrow> True)"

definition close_edges :: "scope \<Rightarrow> string \<Rightarrow> string \<Rightarrow> string \<Rightarrow> date \<Rightarrow> world \<Rightarrow> database \<Rightarrow> database option" where
  "close_edges sc subjectID predicate objectID until w d =
     (let open_edge = (\<lambda>e. rls_visible w (rel_scope e) \<and> rel_scope e = sc \<and> rel_subject_id e = subjectID
            \<and> rel_predicate e = predicate \<and> rel_object_id e \<noteq> objectID \<and> rel_valid_until e = None);
          close = (\<lambda>e. e\<lparr>rel_valid_until := Some until\<rparr>)
      in if list_all (\<lambda>e. open_edge e \<longrightarrow> date_order (close e) \<and> rls_check w (rel_scope e)) (entity_relationships d)
         then Some (d\<lparr>entity_relationships := update_where open_edge close (entity_relationships d)\<rparr>) else None)"

definition insert_edge :: "relationship \<Rightarrow> world \<Rightarrow> database \<Rightarrow> database option" where
  "insert_edge e w d =
     (if rel_id e \<notin> rel_id ` set (entity_relationships d) \<and> date_order e \<and> rls_check w (rel_scope e)
         \<and> list_ex (\<lambda>x. en_scope x = rel_scope e \<and> en_id x = rel_subject_id e) (entities d)
         \<and> list_ex (\<lambda>x. en_scope x = rel_scope e \<and> en_id x = rel_object_id e) (entities d)
         \<and> (case rel_source_summary_id e of None \<Rightarrow> True | Some s \<Rightarrow> s \<in> sum_id ` set (summaries d))
      then Some (d\<lparr>entity_relationships := entity_relationships d @ [e\<lparr>rel_created_at := clock w\<rparr>]\<rparr>) else None)"

definition insert_relationship ::
    "scope \<Rightarrow> string \<Rightarrow> string \<Rightarrow> string \<Rightarrow> date option \<Rightarrow> date option \<Rightarrow> string \<Rightarrow> unit proc" where
  "insert_relationship sc subjectID predicate objectID validFrom validUntil sourceSummaryID =
     bindM (case validFrom of None \<Rightarrow> retM ()
            | Some from \<Rightarrow> exec_check (close_edges sc subjectID predicate objectID from)) (\<lambda>_.
     bindM newRelationshipID (\<lambda>relID.
     exec_check (insert_edge \<lparr>rel_id = relID, rel_scope = sc, rel_subject_id = subjectID, rel_predicate = predicate,
       rel_object_id = objectID, rel_valid_from = validFrom, rel_valid_until = validUntil,
       rel_source_summary_id = Nullable sourceSummaryID, rel_created_at = 0\<rparr>)))"

definition upsert_relationship :: "runner \<Rightarrow> scope \<Rightarrow> string \<Rightarrow> RelationshipUpdate \<Rightarrow> unit proc" where
  "upsert_relationship r sc sourceSummaryID u =
     (if SubjectKind u \<notin> set validEntityKinds \<or> ObjectKind u \<notin> set validEntityKinds then retM ()
      else let predicate = canonicalizePredicate (SubjectKind u) (sanitizePredicate (lower r) (Predicate u));
               subjectID = canonicalEntityID (lower r) (SubjectKind u) (SubjectName u) [];
               objectID = canonicalEntityID (lower r) (ObjectKind u) (ObjectName u) [];
               validFrom = parseOptionalDate (ValidFrom u);
               validUntil = parseOptionalDate (ValidUntil u)
           in if predicate = [] \<or> subjectID = [] \<or> objectID = [] then retM ()
              else bindM (entityExists sc subjectID) (\<lambda>subjectExists.
                bindM (entityExists sc objectID) (\<lambda>objectExists.
                if \<not> subjectExists \<or> \<not> objectExists then retM ()
                else bindM (query (\<lambda>w. list_ex (\<lambda>e. rel_valid_from e = validFrom \<and> rel_valid_until e = validUntil)
                              (edges sc subjectID predicate objectID w))) (\<lambda>exact.
                  if exact then retM ()
                  else bindM (if validFrom = None \<and> validUntil = None
                              then query (\<lambda>w. edges sc subjectID predicate objectID w \<noteq> []) else retM False) (\<lambda>anyExists.
                    if anyExists then retM ()
                    else insert_relationship sc subjectID predicate objectID validFrom validUntil sourceSummaryID)))))"

definition upsertRelationships :: "runner \<Rightarrow> scope \<Rightarrow> RelationshipUpdate list \<Rightarrow> string \<Rightarrow> unit proc" where
  "upsertRelationships r sc updates sourceSummaryID = forM (upsert_relationship r sc sourceSummaryID) updates"

end
