(* ===== verification/Summaries.thy ===== *)
theory Summaries
  imports Entities
begin

text \<open>
  Writing summaries (\<open>internal/consolidation/store.go\<close>, \<open>runner.go\<close>): version ids, the transaction of
  \<open>storeSummary\<close>, the best-effort embeddings, and the queries that load episodes and current
  summaries.
\<close>

declare One_nat_def [simp del]

section \<open>Versions\<close>

text \<open>\<open>substring(id from 'v([0-9]+)$')\<close>.\<close>

definition version_of :: "string \<Rightarrow> nat option" where
  "version_of sid = (let ds = rev (takeWhile isDigit (rev sid))
     in if ds \<noteq> [] \<and> (case dropWhile isDigit (rev sid) of c # _ \<Rightarrow> c = CHR ''v'' | [] \<Rightarrow> False)
        then Some (num ds) else None)"

definition same_period :: "scope \<Rightarrow> string \<Rightarrow> string \<Rightarrow> summary \<Rightarrow> bool" where
  "same_period sc lvl per s \<longleftrightarrow> sum_scope s = sc \<and> sum_level s = lvl \<and> sum_period s = per"

definition max_version :: "scope \<Rightarrow> string \<Rightarrow> string \<Rightarrow> world \<Rightarrow> nat" where
  "max_version sc lvl per w = foldr max (List.map_filter (\<lambda>s. version_of (sum_id s))
     (filter (same_period sc lvl per) (visible w sum_scope (summaries (db w))))) 0"

definition summary_id :: "scope \<Rightarrow> string \<Rightarrow> string \<Rightarrow> nat \<Rightarrow> string" where
  "summary_id sc lvl per v = ''sum_'' @ Owner sc @ ''_'' @ per @ ''_'' @ lvl @ ''_v'' @ dec v"

text \<open>A version beyond the range of Postgres' \<open>int\<close> makes the cast of the query fail.\<close>

definition nextSummaryID :: "scope \<Rightarrow> string \<Rightarrow> string \<Rightarrow> string proc" where
  "nextSummaryID sc lvl per =
     bindM (query (\<lambda>_. ())) (\<lambda>_.
     bindM (query (max_version sc lvl per)) (\<lambda>maxVersion.
     if maxVersion > 2147483647 then errM ErrDb else retM (summary_id sc lvl per (maxVersion + 1))))"

text \<open>A summary is current when no visible row supersedes it.\<close>

definition current :: "world \<Rightarrow> summary \<Rightarrow> bool" where
  "current w s \<longleftrightarrow> \<not> list_ex (\<lambda>newer. sum_supersedes newer = Some (sum_id s)) (visible w sum_scope (summaries (db w)))"

text \<open>\<open>order by s.created_at desc, s.id desc limit 1\<close>.\<close>

definition newest :: "summary list \<Rightarrow> summary list" where
  "newest ss = (case ss of [] \<Rightarrow> []
     | s # rest \<Rightarrow> [foldl (\<lambda>a b. 
         if sum_created_at a < sum_created_at b \<or> sum_created_at a = sum_created_at b \<and> sum_id a < sum_id b
         then b else a) s rest])"

definition currentSummaryID :: "scope \<Rightarrow> string \<Rightarrow> string \<Rightarrow> string proc" where
  "currentSummaryID sc lvl per =
     bindM (query (\<lambda>w. newest (filter (\<lambda>s. same_period sc lvl per s \<and> current w s) (visible w sum_scope (summaries (db w))))))
       (\<lambda>ss. case ss of [] \<Rightarrow> retM [] | s # _ \<Rightarrow> retM (sum_id s))"

section \<open>Embeddings\<close>

definition set_sum_embedding :: "(summary \<Rightarrow> bool) \<Rightarrow> string \<Rightarrow> string \<Rightarrow> database \<Rightarrow> database" where
  "set_sum_embedding P v model d = d\<lparr>summaries := update_where P
     (\<lambda>s. s\<lparr>sum_embedding := Some v, sum_embedding_model := Some model\<rparr>) (summaries d)\<rparr>"

definition set_ep_embedding :: "(episode \<Rightarrow> bool) \<Rightarrow> string \<Rightarrow> string \<Rightarrow> database \<Rightarrow> database" where
  "set_ep_embedding P v model d = d\<lparr>episodes := update_where P
     (\<lambda>e. e\<lparr>ep_embedding := Some v, ep_embedding_model := Some model\<rparr>) (episodes d)\<rparr>"

definition set_en_embedding :: "(entity \<Rightarrow> bool) \<Rightarrow> string \<Rightarrow> string \<Rightarrow> database \<Rightarrow> database" where
  "set_en_embedding P v model d = d\<lparr>entities := update_where P
     (\<lambda>e. e\<lparr>en_embedding := Some v, en_embedding_model := Some model\<rparr>) (entities d)\<rparr>"

definition set_kf_embedding :: "(key_fact \<Rightarrow> bool) \<Rightarrow> string \<Rightarrow> string \<Rightarrow> database \<Rightarrow> database" where
  "set_kf_embedding P v model d = d\<lparr>summary_key_facts := update_where P
     (\<lambda>f. f\<lparr>kf_embedding := Some v, kf_embedding_model := Some model\<rparr>) (summary_key_facts d)\<rparr>"

text \<open>One text's vector, as a literal.\<close>

definition embed_one :: "runner \<Rightarrow> string \<Rightarrow> string proc" where
  "embed_one r t =
     bindM (embed r [TruncateForEmbedding t]) (\<lambda>vectors. case vectors of
       [] \<Rightarrow> errM (ErrVectorCount 0 1)
     | v # _ \<Rightarrow> retM (VectorLiteral (float_text r) v))"

definition embedSummary :: "runner \<Rightarrow> scope \<Rightarrow> string \<Rightarrow> string \<Rightarrow> unit proc" where
  "embedSummary r sc sid t =
     bindM (embed_one r t) (\<lambda>v.
     Run sc sc (exec (\<lambda>w. set_sum_embedding (\<lambda>s. rls_visible w (sum_scope s) \<and> sum_id s = sid) v (EmbedderIdentity r))))"

text \<open>Each entity on its own: a failure is remembered and the next one is tried.\<close>

definition embed_entity :: "runner \<Rightarrow> scope \<Rightarrow> string \<Rightarrow> unit proc" where
  "embed_entity r sc eid =
     (if eid = [] then retM ()
      else bindM (Run sc sc (query_row (find_entity sc eid))) (\<lambda>row.
        bindM (GetVersion (run_aead r) sc (en_key_version row)) (\<lambda>enc.
        bindM (liftM (Decrypt (run_aead r) enc (en_attributes row))) (\<lambda>attrsJSON.
        bindM (liftM (parse_attrs r attrsJSON)) (\<lambda>attrs.
        bindM (embed_one r (EntityEmbedText (en_kind row) (en_name row) attrs)) (\<lambda>v.
        Run sc sc (exec (\<lambda>w. set_en_embedding
          (\<lambda>e. rls_visible w (en_scope e) \<and> en_id e = eid \<and> en_scope e = sc) v (EmbedderIdentity r)))))))))"

text \<open>\<open>errors.Join\<close>: the first error stands for the joined one.\<close>

definition each_best_effort :: "('a \<Rightarrow> unit proc) \<Rightarrow> 'a list \<Rightarrow> unit proc" where
  "each_best_effort f xs =
     bindM (mapM (\<lambda>x. tryM (f x) (\<lambda>res. retM (case res of Inl e \<Rightarrow> [e] | Inr _ \<Rightarrow> []))) xs) (\<lambda>errs.
     case concat errs of [] \<Rightarrow> retM () | e # _ \<Rightarrow> errM e)"

definition embedEntities :: "runner \<Rightarrow> scope \<Rightarrow> string list \<Rightarrow> unit proc" where
  "embedEntities r sc ids = each_best_effort (embed_entity r sc) ids"

record keyFactToEmbed =
  fe_rowID :: nat
  fe_text :: string

definition keyFactEmbedBatchSize :: nat where "keyFactEmbedBatchSize = 256"

definition embed_fact_batch :: "runner \<Rightarrow> scope \<Rightarrow> keyFactToEmbed list \<Rightarrow> unit proc" where
  "embed_fact_batch r sc chunk =
     bindM (embed r (map (\<lambda>f. fact_embed_text (fe_text f)) chunk)) (\<lambda>vectors.
     if length vectors \<noteq> length chunk then errM (ErrVectorCount (length vectors) (length chunk))
     else Run sc sc (forM (\<lambda>(f, v). exec (\<lambda>w. set_kf_embedding
            (\<lambda>x. rls_visible w (kf_scope x) \<and> kf_id x = fe_rowID f) (VectorLiteral (float_text r) v) (EmbedderIdentity r)))
          (zip chunk vectors)))"

definition embedKeyFacts :: "runner \<Rightarrow> scope \<Rightarrow> keyFactToEmbed list \<Rightarrow> unit proc" where
  "embedKeyFacts r sc facts = each_best_effort (embed_fact_batch r sc) (batches keyFactEmbedBatchSize facts)"

section \<open>Storing a summary\<close>

record storeSummaryInput =
  in_scope :: scope
  in_level :: string
  in_period :: string
  in_sourceEpisodeIDs :: "string list"
  in_sourceSummaryPeriods :: "string list"
  in_output :: ConsolidationOutput
  in_groundingSourceText :: string
  in_supersedes :: string
  in_correctionReason :: string
  in_actor :: string
  in_replaceEntityAttrs :: bool

definition systemActor :: string where "systemActor = ''system:consolidation''"
definition EventCapture :: string where "EventCapture = ''capture''"
definition EventCorrect :: string where "EventCorrect = ''correct''"

definition summary_levels :: "string list" where
  "summary_levels = [''daily'', ''weekly'', ''monthly'', ''yearly'']"

text \<open>The insert with its constraints: primary key, \<open>level\<close> check, the foreign key and the unique
  index on \<open>supersedes\<close>, row-level security.\<close>

definition insert_summary :: "summary \<Rightarrow> world \<Rightarrow> database \<Rightarrow> database option" where
  "insert_summary s w d =
     (if sum_id s \<notin> sum_id ` set (summaries d) \<and> sum_level s \<in> set summary_levels \<and> rls_check w (sum_scope s)
         \<and> (case sum_supersedes s of None \<Rightarrow> True
            | Some old \<Rightarrow> old \<in> sum_id ` set (summaries d)
                \<and> \<not> list_ex (\<lambda>x. sum_scope x = sum_scope s \<and> sum_supersedes x = Some old) (summaries d))
      then Some (d\<lparr>summaries := summaries d @ [s]\<rparr>) else None)"

definition insert_key_fact :: "key_fact \<Rightarrow> world \<Rightarrow> database \<Rightarrow> database option" where
  "insert_key_fact f w d =
     (if kf_summary_id f \<in> sum_id ` set (summaries d) \<and> rls_check w (kf_scope f)
      then Some (d\<lparr>summary_key_facts := summary_key_facts d @ [f\<lparr>kf_id := key_fact_seq d + 1\<rparr>],
                   key_fact_seq := key_fact_seq d + 1\<rparr>) else None)"

text \<open>\<open>returning id\<close> of a checked insert.\<close>

definition exec_check_ret :: "(world \<Rightarrow> database \<Rightarrow> database option) \<Rightarrow> (database \<Rightarrow> 'a) \<Rightarrow> 'a proc" where
  "exec_check_ret f g = bindM (exec_check f) (\<lambda>_. getM (\<lambda>w. g (db w)))"

definition touched_entities :: "runner \<Rightarrow> EntityUpdate list \<Rightarrow> EntityUpdate list" where
  "touched_entities r es = List.map_filter (\<lambda>e.
     if eu_ID e = [] then Some e
     else if eu_Kind e \<notin> set validEntityKinds then None
     else Some (e\<lparr>eu_ID := canonicalEntityID (lower r) (eu_Kind e) (eu_Name e) (eu_ID e)\<rparr>)) es"

definition cite_ids :: "storeSummaryInput \<Rightarrow> KeyFactOutput \<Rightarrow> string list" where
  "cite_ids i kf = (if in_level i = ''daily''
     then filter (\<lambda>e. e \<in> set (in_sourceEpisodeIDs i)) (SourceEpisodeIDs kf) else [])"

definition store_fact :: "runner \<Rightarrow> storeSummaryInput \<Rightarrow> encryptor \<Rightarrow> nat \<Rightarrow> string \<Rightarrow> KeyFactOutput \<times> bool
    \<Rightarrow> keyFactToEmbed list proc" where
  "store_fact r i enc keyVersion sid = (\<lambda>(kf, grounded).
     bindM (Encrypt (run_aead r) enc (Fact kf)) (\<lambda>factCT.
     bindM (exec_check_ret (insert_key_fact \<lparr>kf_id = 0, kf_scope = in_scope i, kf_summary_id = sid, kf_fact = factCT,
              kf_source_episode_ids = cite_ids i kf, kf_grounded = grounded, kf_key_version = keyVersion,
              kf_embedding = None, kf_embedding_model = None\<rparr>) key_fact_seq) (\<lambda>rowID.
     retM (if grounded then [\<lparr>fe_rowID = rowID, fe_text = Fact kf\<rparr>] else []))))"

definition unix_day :: int where "unix_day = 719162"   \<comment> \<open>1 January 1970\<close>

definition day_of :: "time \<Rightarrow> day" where
  "day_of t = t div 86400000000 + unix_day"

definition as_of :: "string \<Rightarrow> string \<Rightarrow> world \<Rightarrow> date" where
  "as_of lvl per w = format_date (case periodAsOfDate lvl per of Some d \<Rightarrow> d | None \<Rightarrow> day_of (clock w))"

definition store_rows :: "runner \<Rightarrow> storeSummaryInput \<Rightarrow> bool list \<Rightarrow> encryptor \<Rightarrow> nat \<Rightarrow> bytes
    \<Rightarrow> (string \<times> keyFactToEmbed list) proc" where
  "store_rows r i grounded enc keyVersion summaryCT =
     (let es = touched_entities r (EntitiesTouched (in_output i));
          entityIDs = filter (\<lambda>x. x \<noteq> []) (map eu_ID es)
      in bindM (nextSummaryID (in_scope i) (in_level i) (in_period i)) (\<lambda>sid.
         bindM (exec_check (\<lambda>w. insert_summary \<lparr>sum_id = sid, sum_scope = in_scope i, sum_period = in_period i,
             sum_level = in_level i, sum_status = ''draft'', sum_vendor = Some (Vendor (run_consolidation r)),
             sum_model = Some (Model (run_consolidation r)), sum_source_episode_ids = in_sourceEpisodeIDs i,
             sum_source_summary_periods = in_sourceSummaryPeriods i, sum_summary = Some summaryCT,
             sum_entities_touched = entityIDs, sum_grounding_checked = True,
             sum_supersedes = Nullable (in_supersedes i), sum_correction_reason = Nullable (in_correctionReason i),
             sum_created_at = clock w, sum_key_version = keyVersion, sum_embedding = None,
             sum_embedding_model = None\<rparr> w)) (\<lambda>_.
         bindM (mapM (store_fact r i enc keyVersion sid) (zip (KeyFacts (in_output i)) grounded)) (\<lambda>facts.
         bindM (getM (as_of (in_level i) (in_period i))) (\<lambda>asOf.
         bindM (upsertEntities r (in_scope i) es (in_replaceEntityAttrs i) asOf) (\<lambda>_.
         bindM (upsertRelationships r (in_scope i) (Relationships (in_output i)) sid) (\<lambda>_.
         bindM (audit_Write \<lparr>EventType = (if in_supersedes i \<noteq> [] then EventCorrect else EventCapture),
             Actor = (if in_actor i = [] then systemActor else in_actor i), ActingScope = in_scope i,
             WorkspaceScope = in_scope i,
             TargetRef = Some \<lparr>ref_kind = ''summary'', ref_scope = in_scope i, ref_id = sid\<rparr>,
             Detail = [(''level'', JStr (in_level i)), (''period'', JStr (in_period i))]\<rparr>) (\<lambda>_.
         retM (sid, concat facts)))))))))"

text \<open>A step whose error is only logged.\<close>

definition best_effort :: "unit proc \<Rightarrow> unit proc" where
  "best_effort m = tryM m (\<lambda>_. retM ())"

definition storeSummary :: "runner \<Rightarrow> storeSummaryInput \<Rightarrow> unit proc" where
  "storeSummary r i =
     bindM (groundingCheck r (in_groundingSourceText i) (KeyFacts (in_output i))) (\<lambda>grounded.
     bindM (GetOrCreate (run_aead r) (in_scope i)) (\<lambda>(enc, keyVersion).
     bindM (Encrypt (run_aead r) enc (Summary (in_output i))) (\<lambda>summaryCT.
     bindM (Run (in_scope i) (in_scope i) (store_rows r i grounded enc keyVersion summaryCT)) (\<lambda>(sid, groundedFacts).
     bindM (best_effort (embedSummary r (in_scope i) sid (Summary (in_output i)))) (\<lambda>_.
     bindM (best_effort (embedEntities r (in_scope i)
        (filter (\<lambda>x. x \<noteq> []) (map eu_ID (touched_entities r (EntitiesTouched (in_output i))))))) (\<lambda>_.
     best_effort (embedKeyFacts r (in_scope i) groundedFacts)))))))"

section \<open>Loading sources\<close>

definition scan_episode :: "runner \<Rightarrow> scope \<Rightarrow> episode \<Rightarrow> textSource proc" where
  "scan_episode r sc e =
     bindM (GetVersion (run_aead r) sc (ep_key_version e)) (\<lambda>enc.
     bindM (liftM (Decrypt (run_aead r) enc (ep_input_text e))) (\<lambda>input.
     bindM (liftM (Decrypt (run_aead r) enc (ep_output_text e))) (\<lambda>out.
     retM \<lparr>ts_id = ep_id e, ts_text = EpisodeEmbedText input out, ts_date = format_date (day_of (ep_ts e))\<rparr>)))"

definition scanEpisodeSources :: "runner \<Rightarrow> scope \<Rightarrow> episode list \<Rightarrow> textSource list proc" where
  "scanEpisodeSources r sc rows = mapM (scan_episode r sc) rows"

definition truncate_day :: "time \<Rightarrow> time" where   \<comment> \<open>\<open>date.Truncate(24 * time.Hour)\<close>\<close>
  "truncate_day t = t div 86400000000 * 86400000000"

definition in_day :: "time \<Rightarrow> episode \<Rightarrow> bool" where
  "in_day date e \<longleftrightarrow> truncate_day date \<le> ep_ts e \<and> ep_ts e < truncate_day date + 86400000000"

definition loadDailyEpisodes :: "runner \<Rightarrow> scope \<Rightarrow> time \<Rightarrow> textSource list proc" where
  "loadDailyEpisodes r sc date =
     bindM (query (\<lambda>w. sort_key ep_ts (filter (\<lambda>e. ep_type e = ''interaction'' \<and> in_day date e \<and> ep_scope e = sc)
        (visible w ep_scope (episodes (db w)))))) (scanEpisodeSources r sc)"

definition loadEpisodesByID :: "runner \<Rightarrow> scope \<Rightarrow> string list \<Rightarrow> textSource list proc" where
  "loadEpisodesByID r sc ids =
     (if ids = [] then retM []
      else bindM (query (\<lambda>w. sort_key ep_ts (filter (\<lambda>e. ep_id e \<in> set ids \<and> ep_scope e = sc)
        (visible w ep_scope (episodes (db w)))))) (scanEpisodeSources r sc))"

definition find_summary :: "scope \<Rightarrow> string \<Rightarrow> world \<Rightarrow> summary list" where
  "find_summary sc sid w = filter (\<lambda>s. sum_id s = sid \<and> sum_scope s = sc) (visible w sum_scope (summaries (db w)))"

definition summary_text :: "runner \<Rightarrow> scope \<Rightarrow> summary \<Rightarrow> string proc" where
  "summary_text r sc s =
     bindM (GetVersion (run_aead r) sc (sum_key_version s)) (\<lambda>enc.
     liftM (Decrypt (run_aead r) enc (sum_summary s)))"

definition loadSummaryText :: "runner \<Rightarrow> scope \<Rightarrow> string \<Rightarrow> string proc" where
  "loadSummaryText r sc sid = bindM (query_row (find_summary sc sid)) (summary_text r sc)"

definition loadSummaries :: "runner \<Rightarrow> scope \<Rightarrow> string \<Rightarrow> string list \<Rightarrow> textSource list proc" where
  "loadSummaries r sc lvl periods =
     bindM (query (\<lambda>w. sort_key sum_period (filter (\<lambda>s. sum_level s = lvl \<and> sum_period s \<in> set periods
         \<and> current w s \<and> sum_scope s = sc) (visible w sum_scope (summaries (db w))))))
       (mapM (\<lambda>s. bindM (summary_text r sc s) (\<lambda>t. retM \<lparr>ts_id = sum_id s, ts_text = t, ts_date = []\<rparr>)))"

definition findKnownEntities :: "runner \<Rightarrow> scope \<Rightarrow> string \<Rightarrow> knownEntityContext list proc" where
  "findKnownEntities r sc combined =
     bindM (query (\<lambda>w. filter (\<lambda>e. en_kind e \<noteq> ''self_model'' \<and> en_scope e = sc) (visible w en_scope (entities (db w)))))
       (\<lambda>rows. mapM (\<lambda>e.
          if blob_bytes (en_attributes e) = [] then retM \<lparr>ke_id = en_id e, ke_name = en_name e, ke_attributes = None\<rparr>
          else bindM (GetVersion (run_aead r) sc (en_key_version e)) (\<lambda>enc.
            bindM (liftM (Decrypt (run_aead r) enc (en_attributes e))) (\<lambda>js.
            bindM (liftM (parse_attrs r js)) (\<lambda>attrs.
            retM \<lparr>ke_id = en_id e, ke_name = en_name e, ke_attributes = attrs\<rparr>))))
         (filter (\<lambda>e. en_name e \<noteq> [] \<and> contains (ToLower (lower r) combined) (ToLower (lower r) (en_name e))) rows))"

end
