(* ===== verification/Cluster.thy ===== *)
theory Cluster
  imports Consolidation
begin

text \<open>
  Splitting a busy day into topics (\<open>internal/consolidation/cluster.go\<close>): union-find over pairwise
  cosine similarity, merging of the closest clusters down to the cap, one summary call per
  cluster and the mechanical merge of the outputs.

  Vectors are lists of exact rationals where the code has \<open>float32\<close>; \<open>math.Sqrt\<close> and the environment
  variable \<open>HUPI_MAX_CLUSTERS_PER_DAY\<close> are fields of \<open>runner\<close>. What is proved holds for every
  similarity function, so it does not depend on rounding.
\<close>

declare One_nat_def [simp del]

definition clusterEpisodeThreshold :: nat where "clusterEpisodeThreshold = 8"
definition clusterSimilarityThreshold :: rat where "clusterSimilarityThreshold = 60 / 100"
definition defaultMaxClustersPerDay :: nat where "defaultMaxClustersPerDay = 6"

text \<open>\<open>max_clusters r\<close> is the value the variable parses to, 0 when it is unset or not a number.\<close>

definition maxClustersPerDay :: "runner \<Rightarrow> nat" where
  "maxClustersPerDay r = (if max_clusters r > 0 then max_clusters r else defaultMaxClustersPerDay)"

definition cosineSimilarity :: "runner \<Rightarrow> vec \<Rightarrow> vec \<Rightarrow> rat" where
  "cosineSimilarity r a b =
     (if length a \<noteq> length b \<or> a = [] then 0
      else let dot = sum_list (map2 (*) a b); na = sum_list (map2 (*) a a); nb = sum_list (map2 (*) b b)
           in if na = 0 \<or> nb = 0 then 0 else dot / (math_Sqrt r na * math_Sqrt r nb))"

definition centroidOfVectors :: "vec list \<Rightarrow> vec" where
  "centroidOfVectors vs = (case vs of [] \<Rightarrow> []
     | v # _ \<Rightarrow> map (\<lambda>i. sum_list (map (\<lambda>x. if i < length x then x ! i else 0) vs) / of_nat (length vs)) [0..<length v])"

definition centroidOf :: "vec list \<Rightarrow> nat list \<Rightarrow> vec" where
  "centroidOf vectors idxs = centroidOfVectors (map (\<lambda>i. vectors ! i) idxs)"

section \<open>Union-find\<close>

text \<open>\<open>find\<close> with path halving. The loop ends because every parent chain reaches a root; \<open>None\<close>
  would be a chain that does not.\<close>

partial_function (option) find_root :: "nat list \<Rightarrow> nat \<Rightarrow> (nat \<times> nat list) option" where
  "find_root parent i =
     (if parent ! i = i then Some (i, parent)
      else let p = parent[i := parent ! (parent ! i)] in find_root p (p ! i))"

declare find_root.simps [code]

definition union :: "nat \<Rightarrow> nat \<Rightarrow> nat list \<Rightarrow> nat list option" where
  "union a b parent = (case find_root parent a of None \<Rightarrow> None | Some (ra, parent) \<Rightarrow>
     (case find_root parent b of None \<Rightarrow> None | Some (rb, parent) \<Rightarrow>
       Some (if ra \<noteq> rb then parent[ra := rb] else parent)))"

fun link_pairs :: "(nat \<Rightarrow> nat \<Rightarrow> bool) \<Rightarrow> (nat \<times> nat) list \<Rightarrow> nat list \<Rightarrow> nat list option" where
  "link_pairs similar [] parent = Some parent"
| "link_pairs similar ((i, j) # ps) parent =
     (if similar i j then (case union i j parent of None \<Rightarrow> None | Some p \<Rightarrow> link_pairs similar ps p)
      else link_pairs similar ps parent)"

definition pairs :: "nat \<Rightarrow> (nat \<times> nat) list" where
  "pairs n = concat (map (\<lambda>i. map (\<lambda>j. (i, j)) [i + 1..<n]) [0..<n])"

text \<open>The indices grouped by root, groups in the order their first member appears.\<close>

fun add_to_group :: "nat \<Rightarrow> nat \<Rightarrow> (nat \<times> nat list) list \<Rightarrow> (nat \<times> nat list) list" where
  "add_to_group rt i [] = [(rt, [i])]"
| "add_to_group rt i ((k, idxs) # gs) =
     (if k = rt then (k, idxs @ [i]) # gs else (k, idxs) # add_to_group rt i gs)"

fun group_by_root :: "nat list \<Rightarrow> nat list \<Rightarrow> (nat \<times> nat list) list \<Rightarrow> (nat \<times> nat list) list option" where
  "group_by_root [] parent gs = Some gs"
| "group_by_root (i # is) parent gs = (case find_root parent i of None \<Rightarrow> None
     | Some (rt, parent) \<Rightarrow> group_by_root is parent (add_to_group rt i gs))"

section \<open>Merging down to the cap\<close>

text \<open>There are as many centroids as clusters and the cap is at least 1 (\<open>clusterSources_partition\<close>
  rests on that), so the loop of the code runs whenever there are more clusters than the cap.\<close>

definition best_pair :: "(vec \<Rightarrow> vec \<Rightarrow> rat) \<Rightarrow> vec list \<Rightarrow> nat \<times> nat" where
  "best_pair sim cs = fst (foldl (\<lambda>((bi, bj), best) (i, j).
       if sim (cs ! i) (cs ! j) > best then ((i, j), sim (cs ! i) (cs ! j)) else ((bi, bj), best))
     ((0, 1), -2) (pairs (length cs)))"

definition delete_at :: "nat \<Rightarrow> 'a list \<Rightarrow> 'a list" where
  "delete_at j xs = take j xs @ drop (j + 1) xs"

function merge_clusters :: "(vec \<Rightarrow> vec \<Rightarrow> rat) \<Rightarrow> nat \<Rightarrow> 'a list list \<Rightarrow> vec list \<Rightarrow> 'a list list" where
  "merge_clusters sim cap clusters centroids =
     (if length clusters \<le> cap \<or> length clusters \<noteq> length centroids \<or> length clusters < 2 then clusters
      else let (bi, bj) = best_pair sim centroids
           in merge_clusters sim cap (delete_at bj (clusters[bi := clusters ! bi @ clusters ! bj]))
                (delete_at bj (centroids[bi := centroidOfVectors [centroids ! bi, centroids ! bj]])))"
  by pat_completeness auto

lemma pairs_set: "set (pairs n) = {(i, j). i < j \<and> j < n}"
proof -
  have "(i, j) \<in> set (pairs n) \<longleftrightarrow> i < j \<and> j < n" for i j
    unfolding pairs_def by (auto simp: image_iff)
  then show ?thesis by auto
qed

lemma best_pair_range:
  assumes "best_pair sim cs = (bi, bj)" "length cs \<ge> 2"
  shows "bi < bj" "bj < length cs"
proof -
  have "fst (fst (foldl (\<lambda>((bi, bj), best) (i, j).
       if sim (cs ! i) (cs ! j) > best then ((i, j), sim (cs ! i) (cs ! j)) else ((bi, bj), best)) st ps))
     < snd (fst (foldl (\<lambda>((bi, bj), best) (i, j).
       if sim (cs ! i) (cs ! j) > best then ((i, j), sim (cs ! i) (cs ! j)) else ((bi, bj), best)) st ps))
     \<and> snd (fst (foldl (\<lambda>((bi, bj), best) (i, j).
       if sim (cs ! i) (cs ! j) > best then ((i, j), sim (cs ! i) (cs ! j)) else ((bi, bj), best)) st ps)) < length cs"
    if "fst (fst st) < snd (fst st)" "snd (fst st) < length cs" "\<forall>(i, j) \<in> set ps. i < j \<and> j < length cs" for st ps
    using that by (induction ps arbitrary: st) (auto split: prod.splits)
  from this [of "((0, 1), -2)" "pairs (length cs)"]
  show "bi < bj" "bj < length cs" using assms by (auto simp: best_pair_def pairs_set)
qed

termination merge_clusters
proof (relation "measure (\<lambda>(_, _, cs, _). length cs)")
  fix sim cap and clusters :: "'a list list" and centroids x bi bj
  assume "\<not> (length clusters \<le> cap \<or> length clusters \<noteq> length centroids \<or> length clusters < 2)"
    "x = best_pair sim centroids" "(bi, bj) = x"
  then have "bj < length clusters" using best_pair_range [of sim centroids bi bj] by auto
  then show "((sim, cap, delete_at bj (clusters[bi := clusters ! bi @ clusters ! bj]),
          delete_at bj (centroids[bi := centroidOfVectors [centroids ! bi, centroids ! bj]])),
         sim, cap, clusters, centroids) \<in> measure (\<lambda>(_, _, cs, _). length cs)"
    by (simp add: delete_at_def)
qed simp

declare merge_clusters.simps [simp del]

definition clusterSources :: "runner \<Rightarrow> 'a list \<Rightarrow> vec list \<Rightarrow> 'a list list option" where
  "clusterSources r sources vectors =
     (let n = length sources
      in if n = 0 then Some []
         else if length vectors \<noteq> n then Some [sources]
         else case link_pairs (\<lambda>i j. cosineSimilarity r (vectors ! i) (vectors ! j) \<ge> clusterSimilarityThreshold)
                     (pairs n) [0..<n] of
             None \<Rightarrow> None
           | Some parent \<Rightarrow> (case group_by_root [0..<n] parent [] of
               None \<Rightarrow> None
             | Some groups \<Rightarrow> Some (merge_clusters (cosineSimilarity r) (maxClustersPerDay r)
                 (map (\<lambda>(_, idxs). map (\<lambda>i. sources ! i) idxs) groups)
                 (map (\<lambda>(_, idxs). centroidOf vectors idxs) groups))))"

section \<open>A day's summary\<close>

definition mergeConsolidationOutputs :: "ConsolidationOutput list \<Rightarrow> ConsolidationOutput" where
  "mergeConsolidationOutputs outputs =
     \<lparr>Summary = join (nl @ nl) (filter (\<lambda>s. TrimSpace s \<noteq> []) (map Summary outputs)),
      KeyFacts = concat (map KeyFacts outputs), EntitiesTouched = concat (map EntitiesTouched outputs),
      Relationships = concat (map Relationships outputs)\<rparr>"

definition add_episode_facts :: "runner \<Rightarrow> textSource list \<Rightarrow> ConsolidationOutput \<Rightarrow> ConsolidationOutput proc" where
  "add_episode_facts r sources out =
     bindM (extractPerEpisodeFacts r sources) (\<lambda>facts. retM (out\<lparr>KeyFacts := KeyFacts out @ facts\<rparr>))"

definition singlePassWithInsurance where
  "singlePassWithInsurance r sc period sources establishedRecord knownEntities =
     bindM (generateSummary r sc ''daily'' period sources establishedRecord knownEntities) (add_episode_facts r sources)"

definition generateDailySummary ::
    "runner \<Rightarrow> scope \<Rightarrow> string \<Rightarrow> textSource list \<Rightarrow> string \<Rightarrow> knownEntityContext list \<Rightarrow> ConsolidationOutput proc" where
  "generateDailySummary r sc period sources establishedRecord knownEntities =
     (let single = singlePassWithInsurance r sc period sources establishedRecord knownEntities
      in if length sources \<le> clusterEpisodeThreshold then single
         else tryM (embed r (map (\<lambda>s. TruncateForEmbedding (ts_text s)) sources)) (\<lambda>res. case res of
             Inl _ \<Rightarrow> single
           | Inr vectors \<Rightarrow>
               if length vectors \<noteq> length sources then single
               else (case clusterSources r sources vectors of
                   None \<Rightarrow> errM ErrParse
                 | Some clusters \<Rightarrow>
                     if length clusters \<le> 1 then single
                     else bindM (mapM (\<lambda>c. generateSummary r sc ''daily'' period c establishedRecord knownEntities) clusters)
                       (\<lambda>outputs. add_episode_facts r sources (mergeConsolidationOutputs outputs)))))"

end
