(* ===== verification/Runner.thy ===== *)
theory Runner
  imports Summaries Cluster
begin

text \<open>
  The operations of the consolidation runner (\<open>internal/consolidation/runner.go\<close>,
  \<open>contradiction.go\<close>): daily runs, rollups and their cascade, corrections, and the check of a new
  day's facts against other periods. Metrics and log lines are left out.
\<close>

declare One_nat_def [simp del]

section \<open>Levels\<close>

definition sourceLevelBelow :: "string \<Rightarrow> string" where
  "sourceLevelBelow lvl =
     (if lvl = ''weekly'' then ''daily'' else if lvl = ''monthly'' then ''weekly''
      else if lvl = ''yearly'' then ''monthly'' else [])"

definition rollupLevelAbove :: "string \<Rightarrow> string" where
  "rollupLevelAbove lvl =
     (if lvl = ''daily'' then ''weekly'' else if lvl = ''weekly'' then ''monthly''
      else if lvl = ''monthly'' then ''yearly'' else [])"

section \<open>Rollups\<close>

definition rollupIsStale :: "scope \<Rightarrow> string \<Rightarrow> string \<Rightarrow> string list \<Rightarrow> bool proc" where
  "rollupIsStale sc rollupID sourceLevel sourcePeriods =
     bindM (query_row (\<lambda>w. map sum_created_at (filter (\<lambda>s. sum_id s = rollupID) (visible w sum_scope (summaries (db w))))))
       (\<lambda>rollupCreatedAt.
     bindM (query (\<lambda>w. map sum_created_at (filter (\<lambda>s. sum_level s = sourceLevel \<and> sum_period s \<in> set sourcePeriods
         \<and> sum_supersedes s = None \<and> sum_scope s = sc) (visible w sum_scope (summaries (db w)))))) (\<lambda>created.
     retM (list_ex (\<lambda>t. t > rollupCreatedAt) created)))"

definition rollup_sources :: "runner \<Rightarrow> scope \<Rightarrow> string \<Rightarrow> string \<Rightarrow> string \<Rightarrow> string list \<Rightarrow> (string \<times> textSource list) proc" where
  "rollup_sources r sc lvl sourceLevel per sourcePeriods =
     bindM (currentSummaryID sc lvl per) (\<lambda>existing.
     bindM (if existing = [] then retM True else rollupIsStale sc existing sourceLevel sourcePeriods) (\<lambda>due.
     if due then bindM (loadSummaries r sc sourceLevel sourcePeriods) (\<lambda>sources. retM (existing, sources))
     else retM (existing, [])))"

text \<open>\<open>RunRollup\<close> with the cascade it ends in as an argument.\<close>

definition run_rollup :: "(string \<Rightarrow> string \<Rightarrow> unit proc) \<Rightarrow> runner \<Rightarrow> scope \<Rightarrow> string \<Rightarrow> string \<Rightarrow> string \<Rightarrow> string list \<Rightarrow> unit proc" where
  "run_rollup refresh r sc lvl sourceLevel per sourcePeriods =
     bindM (Run sc sc (rollup_sources r sc lvl sourceLevel per sourcePeriods)) (\<lambda>(existing, sources).
     if sources = [] then retM ()
     else bindM (generateSummary r sc lvl per sources [] []) (\<lambda>out.
       bindM (storeSummary r \<lparr>in_scope = sc, in_level = lvl, in_period = per, in_sourceEpisodeIDs = [],
           in_sourceSummaryPeriods = sourcePeriods, in_output = out, in_groundingSourceText = joinSources sources,
           in_supersedes = existing,
           in_correctionReason = (if existing \<noteq> []
              then ''automatic re-consolidation, not a human correction: a source period changed since this rollup was last generated''
              else []),
           in_actor = systemActor, in_replaceEntityAttrs = False\<rparr>) (\<lambda>_.
       refresh lvl per)))"

definition covering_rollups :: "scope \<Rightarrow> string \<Rightarrow> string \<Rightarrow> (string \<times> string list) list proc" where
  "covering_rollups sc rollupLevel correctedPeriod =
     Run sc sc (query (\<lambda>w. map (\<lambda>s. (sum_period s, sum_source_summary_periods s))
       (filter (\<lambda>s. sum_level s = rollupLevel \<and> correctedPeriod \<in> set (sum_source_summary_periods s)
          \<and> sum_supersedes s = None \<and> sum_scope s = sc) (visible w sum_scope (summaries (db w))))))"

text \<open>\<open>refreshRollupsCovering\<close> and \<open>RunRollup\<close> call each other one level up each time, so the
  recursion is as deep as there are levels above.\<close>

primrec refresh_levels :: "nat \<Rightarrow> runner \<Rightarrow> scope \<Rightarrow> string \<Rightarrow> string \<Rightarrow> unit proc" where
  "refresh_levels 0 r sc lvl per = retM ()"
| "refresh_levels (Suc n) r sc lvl per =
     (if rollupLevelAbove lvl = [] then retM ()
      else tryM (covering_rollups sc (rollupLevelAbove lvl) per) (\<lambda>res. case res of
          Inl _ \<Rightarrow> retM ()
        | Inr rollups \<Rightarrow> forM (\<lambda>(p, sourcePeriods). best_effort
            (run_rollup (refresh_levels n r sc) r sc (rollupLevelAbove lvl) lvl p sourcePeriods)) rollups))"

definition refreshRollupsCovering :: "runner \<Rightarrow> scope \<Rightarrow> string \<Rightarrow> string \<Rightarrow> unit proc" where
  "refreshRollupsCovering r sc = refresh_levels (length summary_levels) r sc"

definition RunRollup :: "runner \<Rightarrow> scope \<Rightarrow> string \<Rightarrow> string \<Rightarrow> string \<Rightarrow> string list \<Rightarrow> unit proc" where
  "RunRollup r sc lvl sourceLevel per sourcePeriods =
     run_rollup (refreshRollupsCovering r sc) r sc lvl sourceLevel per sourcePeriods"

section \<open>Corrections\<close>

definition load_sources :: "runner \<Rightarrow> scope \<Rightarrow> string \<Rightarrow> string list \<Rightarrow> string list \<Rightarrow> textSource list proc" where
  "load_sources r sc lvl sourceEpisodeIDs sourceSummaryPeriods =
     (if lvl = ''daily'' then Run sc sc (loadEpisodesByID r sc sourceEpisodeIDs)
      else Run sc sc (loadSummaries r sc (sourceLevelBelow lvl) sourceSummaryPeriods))"

definition load_to_correct :: "scope \<Rightarrow> string \<Rightarrow> (summary \<times> string option) proc" where
  "load_to_correct sc oldSummaryID =
     bindM (query_row (find_summary sc oldSummaryID)) (\<lambda>old.
     bindM (query (\<lambda>w. filter (\<lambda>s. sum_supersedes s = Some oldSummaryID \<and> sum_scope s = sc)
         (visible w sum_scope (summaries (db w))))) (\<lambda>newer.
     retM (old, case newer of [] \<Rightarrow> None | s # _ \<Rightarrow> Some (sum_id s))))"

definition Correct :: "runner \<Rightarrow> scope \<Rightarrow> string \<Rightarrow> ConsolidationOutput \<Rightarrow> string \<Rightarrow> string \<Rightarrow> string \<Rightarrow> unit proc" where
  "Correct r sc oldSummaryID out reason actor extraGroundingSourceText =
     (if reason = [] then errM ErrReasonRequired
      else bindM (Run sc sc (load_to_correct sc oldSummaryID)) (\<lambda>(old, supersededBy). case supersededBy of
          Some newer \<Rightarrow> errM (ErrAlreadySuperseded newer)
        | None \<Rightarrow>
            bindM (load_sources r sc (sum_level old) (sum_source_episode_ids old) (sum_source_summary_periods old)) (\<lambda>sources.
            storeSummary r \<lparr>in_scope = sc, in_level = sum_level old, in_period = sum_period old,
              in_sourceEpisodeIDs = sum_source_episode_ids old, in_sourceSummaryPeriods = sum_source_summary_periods old,
              in_output = out,
              in_groundingSourceText = joinSources sources
                @ (if extraGroundingSourceText \<noteq> [] then nl @ nl @ extraGroundingSourceText else []),
              in_supersedes = oldSummaryID, in_correctionReason = reason, in_actor = actor,
              in_replaceEntityAttrs = True\<rparr>)))"

definition content_entity :: "runner \<Rightarrow> scope \<Rightarrow> string \<Rightarrow> EntityUpdate list proc" where
  "content_entity r sc eid =
     tryM (query_row (find_entity sc eid)) (\<lambda>res. case res of
       Inl e \<Rightarrow> if e = ErrNoRows then retM [] else errM e
     | Inr row \<Rightarrow>
         bindM (GetVersion (run_aead r) sc (en_key_version row)) (\<lambda>enc.
         bindM (liftM (Decrypt (run_aead r) enc (en_attributes row))) (\<lambda>js.
         bindM (liftM (parse_attrs r js)) (\<lambda>attrs.
         retM [\<lparr>eu_ID = eid, eu_Kind = en_kind row, eu_Name = en_name row, eu_Attributes = attrs,
                eu_SupersedesKeys = []\<rparr>]))))"

definition CurrentContent :: "runner \<Rightarrow> scope \<Rightarrow> string \<Rightarrow> ConsolidationOutput proc" where
  "CurrentContent r sc summaryID =
     bindM (Run sc sc (query_row (find_summary sc summaryID))) (\<lambda>s.
     bindM (GetVersion (run_aead r) sc (sum_key_version s)) (\<lambda>enc.
     bindM (liftM (Decrypt (run_aead r) enc (sum_summary s))) (\<lambda>t.
     bindM (Run sc sc (bindM (query (\<lambda>w. filter (\<lambda>f. kf_summary_id f = summaryID) (visible w kf_scope (summary_key_facts (db w)))))
        (mapM (\<lambda>f. bindM (liftM (Decrypt (run_aead r) enc (Some (kf_fact f)))) (\<lambda>x.
           retM \<lparr>Fact = x, SourceEpisodeIDs = kf_source_episode_ids f\<rparr>))))) (\<lambda>keyFacts.
     bindM (Run sc sc (mapM (content_entity r sc) (sum_entities_touched s))) (\<lambda>ess.
     retM \<lparr>Summary = t, KeyFacts = keyFacts, EntitiesTouched = concat ess, Relationships = []\<rparr>)))))"

section \<open>Contradictions between periods\<close>

definition maxRelatedSummariesForContradictionCheck :: nat where "maxRelatedSummariesForContradictionCheck = 5"

definition buildContradictionCheckPrompt ::
    "string \<Rightarrow> string list \<Rightarrow> string \<Rightarrow> string \<Rightarrow> string \<Rightarrow> string list \<Rightarrow> string list \<Rightarrow> string" where
  "buildContradictionCheckPrompt newPeriod newFacts oldLevel oldPeriod oldProse oldFacts sharedEntityNames =
     ''Entities in common: '' @ join '', '' sharedEntityNames @ nl @ nl
     @ ''NEW facts (from '' @ newPeriod @ ''):'' @ nl @ concat (map (\<lambda>f. ''- '' @ f @ nl) newFacts)
     @ nl @ ''EXISTING prose (from '' @ oldLevel @ '' '' @ oldPeriod @ '', which may need rewriting):'' @ nl @ oldProse @ nl
     @ nl @ ''EXISTING facts (from the same '' @ oldLevel @ '' '' @ oldPeriod @ '', which may need updating):'' @ nl
     @ concat (map (\<lambda>f. ''- '' @ f @ nl) oldFacts)"

definition loadGroundedKeyFactsByID :: "runner \<Rightarrow> scope \<Rightarrow> string \<Rightarrow> string list proc" where
  "loadGroundedKeyFactsByID r sc summaryID =
     bindM (Run sc sc (query_row (find_summary sc summaryID))) (\<lambda>s.
     bindM (GetVersion (run_aead r) sc (sum_key_version s)) (\<lambda>enc.
     Run sc sc (bindM (query (\<lambda>w. sort_key kf_id (filter (\<lambda>f. kf_summary_id f = summaryID \<and> kf_grounded f)
         (visible w kf_scope (summary_key_facts (db w)))))) (\<lambda>rows.
       mapM (\<lambda>f. liftM (Decrypt (run_aead r) enc (Some (kf_fact f)))) rows))))"

record relatedSummary =
  rs_id :: string
  rs_level :: string
  rs_period :: string

text \<open>The sum over the shared entities of one over the number of current summaries touching it.\<close>

definition specificity :: "summary list \<Rightarrow> string list \<Rightarrow> summary \<Rightarrow> rat" where
  "specificity current_summaries touched s = sum_list (map (\<lambda>e.
       1 / of_nat (length (filter (\<lambda>x. x = e) (concat (map sum_entities_touched current_summaries)))))
     (filter (\<lambda>e. e \<in> set touched) (sum_entities_touched s)))"

definition findRelatedSummaries :: "scope \<Rightarrow> string \<Rightarrow> string list \<Rightarrow> relatedSummary list proc" where
  "findRelatedSummaries sc excludeID entitiesTouched =
     Run sc sc (query (\<lambda>w.
       let cur = filter (\<lambda>s. sum_scope s = sc \<and> current w s) (visible w sum_scope (summaries (db w)));
           candidates = filter (\<lambda>s. list_ex (\<lambda>e. e \<in> set entitiesTouched) (sum_entities_touched s) \<and> sum_id s \<noteq> excludeID) cur
       in take maxRelatedSummariesForContradictionCheck (map (\<lambda>s. \<lparr>rs_id = sum_id s, rs_level = sum_level s, rs_period = sum_period s\<rparr>)
            (sort_key (\<lambda>s. - specificity cur entitiesTouched s) (sort_key (\<lambda>s. - sum_created_at s) candidates)))))"

definition loadGroundingSourceTextForSummary :: "runner \<Rightarrow> scope \<Rightarrow> string \<Rightarrow> string proc" where
  "loadGroundingSourceTextForSummary r sc summaryID =
     bindM (Run sc sc (query_row (find_summary sc summaryID))) (\<lambda>s.
     bindM (load_sources r sc (sum_level s) (sum_source_episode_ids s) (sum_source_summary_periods s)) (\<lambda>sources.
     retM (joinSources sources)))"

text \<open>One contradiction applied to the facts: the first fact with exactly that text is replaced, or
  removed when there is no replacement; the flag says whether it was found.\<close>

fun apply_contradiction :: "contradictionResult \<Rightarrow> KeyFactOutput list \<Rightarrow> KeyFactOutput list \<times> bool" where
  "apply_contradiction c [] = ([], False)"
| "apply_contradiction c (f # fs) =
     (if Fact f = OldFact c then ((if Replacement c = [] then fs else f\<lparr>Fact := Replacement c\<rparr> # fs), True)
      else let (fs', hit) = apply_contradiction c fs in (f # fs', hit))"

definition apply_contradictions :: "contradictionResult list \<Rightarrow> KeyFactOutput list \<Rightarrow> KeyFactOutput list \<times> nat" where
  "apply_contradictions cs facts = foldl (\<lambda>(fs, applied) c.
     let (fs', hit) = apply_contradiction c fs in (fs', if hit then applied + 1 else applied)) (facts, 0) cs"

definition correct_related :: "runner \<Rightarrow> scope \<Rightarrow> string \<Rightarrow> string \<Rightarrow> relatedSummary \<Rightarrow> ConsolidationOutput \<Rightarrow> unit proc" where
  "correct_related r sc newSummaryID newPeriod old out =
     bindM (tryM (loadGroundingSourceTextForSummary r sc newSummaryID)
              (\<lambda>res. retM (case res of Inl _ \<Rightarrow> [] | Inr t \<Rightarrow> t))) (\<lambda>extraGrounding.
     bindM (Correct r sc (rs_id old) out
        (''system-detected contradiction: a '' @ newPeriod @ '' summary stated a different value for the same fact'')
        systemActor extraGrounding) (\<lambda>_.
     refreshRollupsCovering r sc (rs_level old) (rs_period old)))"

definition checkOneRelatedSummary ::
    "runner \<Rightarrow> scope \<Rightarrow> string \<Rightarrow> string \<Rightarrow> string list \<Rightarrow> relatedSummary \<Rightarrow> string list \<Rightarrow> unit proc" where
  "checkOneRelatedSummary r sc newSummaryID newPeriod newFacts old sharedEntityNames = best_effort (
     bindM (loadGroundedKeyFactsByID r sc (rs_id old)) (\<lambda>oldFacts.
     if oldFacts = [] then retM ()
     else bindM (CurrentContent r sc (rs_id old)) (\<lambda>content.
       bindM (chat (run_consolidation r) \<lparr>rq_system = ContradictionCheckPrompt,
           rq_user = buildContradictionCheckPrompt newPeriod newFacts (rs_level old) (rs_period old) (Summary content)
             oldFacts sharedEntityNames, rq_max_tokens = None\<rparr>) (\<lambda>answer.
       case unmarshal_contradictions r (extractJSON answer) of
         None \<Rightarrow> retM ()
       | Some (contradictions, correctedProse) \<Rightarrow>
           let (facts, applied) = apply_contradictions contradictions (KeyFacts content)
           in if applied = 0 then retM ()
              else correct_related r sc newSummaryID newPeriod old
                (content\<lparr>KeyFacts := facts, Summary := (if TrimSpace correctedProse \<noteq> [] then correctedProse else Summary content)\<rparr>)))))"

definition checkCrossPeriodContradictions :: "runner \<Rightarrow> scope \<Rightarrow> string \<Rightarrow> string \<Rightarrow> string list \<Rightarrow> unit proc" where
  "checkCrossPeriodContradictions r sc newSummaryID newPeriod entitiesTouched =
     (if entitiesTouched = [] then retM ()
      else best_effort (
        bindM (findRelatedSummaries sc newSummaryID entitiesTouched) (\<lambda>related.
        if related = [] then retM ()
        else bindM (loadGroundedKeyFactsByID r sc newSummaryID) (\<lambda>newFacts.
          if newFacts = [] then retM ()
          else forM (\<lambda>old. checkOneRelatedSummary r sc newSummaryID newPeriod newFacts old entitiesTouched) related))))"

section \<open>Daily runs\<close>

definition EpisodeEmbedImportanceThreshold :: rat where "EpisodeEmbedImportanceThreshold = 6 / 10"

definition embedHighImportanceEpisodes :: "runner \<Rightarrow> scope \<Rightarrow> time \<Rightarrow> unit proc" where
  "embedHighImportanceEpisodes r sc date =
     bindM (Run sc sc (bindM (query (\<lambda>w. filter (\<lambda>e. ep_type e = ''interaction'' \<and> in_day date e
            \<and> (case ep_importance e of None \<Rightarrow> False | Some i \<Rightarrow> i \<ge> EpisodeEmbedImportanceThreshold)
            \<and> (ep_embedding e = None \<or> ep_embedding_model e \<noteq> Some (EmbedderIdentity r)) \<and> ep_scope e = sc)
          (visible w ep_scope (episodes (db w))))) (scanEpisodeSources r sc))) (\<lambda>sources.
     forM (\<lambda>s. bindM (embed_one r (ts_text s)) (\<lambda>v.
       Run sc sc (exec (\<lambda>w. set_ep_embedding (\<lambda>e. rls_visible w (ep_scope e) \<and> ep_id e = ts_id s) v (EmbedderIdentity r)))))
       sources)"

definition entitiesMissingEmbeddings :: "runner \<Rightarrow> scope \<Rightarrow> string list proc" where
  "entitiesMissingEmbeddings r sc = Run sc sc (query (\<lambda>w. map en_id (filter (\<lambda>e.
     (en_embedding e = None \<or> en_embedding_model e \<noteq> Some (EmbedderIdentity r)) \<and> en_scope e = sc)
     (visible w en_scope (entities (db w))))))"

definition upsert_corpus_size :: "corpus_size \<Rightarrow> database \<Rightarrow> database" where
  "upsert_corpus_size c d =
     (if list_ex (\<lambda>x. cs_scope x = cs_scope c) (scope_corpus_sizes d)
      then d\<lparr>scope_corpus_sizes := update_where (\<lambda>x. cs_scope x = cs_scope c) (\<lambda>_. c) (scope_corpus_sizes d)\<rparr>
      else d\<lparr>scope_corpus_sizes := scope_corpus_sizes d @ [c]\<rparr>)"

definition updateScopeCorpusSize :: "scope \<Rightarrow> unit proc" where
  "updateScopeCorpusSize sc = Run sc sc (
     bindM (query (\<lambda>w. length (filter (\<lambda>e. ep_type e = ''interaction'' \<and> ep_scope e = sc) (visible w ep_scope (episodes (db w)))))) (\<lambda>episodeCount.
     bindM (query (\<lambda>w. length (filter (\<lambda>s. sum_scope s = sc \<and> current w s) (visible w sum_scope (summaries (db w)))))) (\<lambda>summaryCount.
     exec (\<lambda>w. upsert_corpus_size \<lparr>cs_scope = sc, cs_episode_count = episodeCount, cs_summary_count = summaryCount,
       cs_updated_at = clock w\<rparr>))))"

definition daily_sources :: "runner \<Rightarrow> scope \<Rightarrow> time \<Rightarrow> string \<Rightarrow> (textSource list \<times> string \<times> knownEntityContext list) proc" where
  "daily_sources r sc date period =
     bindM (loadDailyEpisodes r sc date) (\<lambda>sources.
     if sources = [] then retM ([], [], [])
     else bindM (currentSummaryID sc ''daily'' period) (\<lambda>existing.
       bindM (findKnownEntities r sc (joinSources sources)) (\<lambda>known. retM (sources, existing, known))))"

definition stored_daily :: "scope \<Rightarrow> string \<Rightarrow> (string \<times> string list) proc" where
  "stored_daily sc period = Run sc sc (query_row (\<lambda>w. map (\<lambda>s. (sum_id s, sum_entities_touched s))
     (filter (\<lambda>s. same_period sc ''daily'' period s \<and> current w s) (visible w sum_scope (summaries (db w))))))"

definition after_daily :: "runner \<Rightarrow> scope \<Rightarrow> time \<Rightarrow> string \<Rightarrow> unit proc" where
  "after_daily r sc date period =
     bindM (refreshRollupsCovering r sc ''daily'' period) (\<lambda>_.
     bindM (tryM (stored_daily sc period) (\<lambda>res. case res of
        Inl _ \<Rightarrow> retM ()
      | Inr (newSummaryID, touched) \<Rightarrow> checkCrossPeriodContradictions r sc newSummaryID period touched)) (\<lambda>_.
     bindM (best_effort (embedHighImportanceEpisodes r sc date)) (\<lambda>_.
     tryM (entitiesMissingEmbeddings r sc) (\<lambda>res. case res of
        Inl _ \<Rightarrow> retM ()
      | Inr missingIDs \<Rightarrow>
          bindM (best_effort (embedEntities r sc missingIDs)) (\<lambda>_.
          best_effort (updateScopeCorpusSize sc))))))"

definition RunDaily :: "runner \<Rightarrow> scope \<Rightarrow> time \<Rightarrow> unit proc" where
  "RunDaily r sc date =
     (let period = format_date (day_of date)
      in bindM (Run sc sc (daily_sources r sc date period)) (\<lambda>(sources, existing, known).
         if sources = [] then retM ()
         else bindM (if existing \<noteq> [] then Run sc sc (loadSummaryText r sc existing) else retM []) (\<lambda>establishedRecord.
           bindM (generateDailySummary r sc period sources establishedRecord known) (\<lambda>out.
           bindM (storeSummary r \<lparr>in_scope = sc, in_level = ''daily'', in_period = period,
               in_sourceEpisodeIDs = map ts_id sources, in_sourceSummaryPeriods = [], in_output = out,
               in_groundingSourceText = joinSources sources, in_supersedes = existing,
               in_correctionReason = (if existing \<noteq> []
                  then ''automatic re-consolidation, not a human correction: regenerated from the full day's episodes'' else []),
               in_actor = systemActor, in_replaceEntityAttrs = False\<rparr>) (\<lambda>_.
           after_daily r sc date period)))))"

end
