(* ===== verification/Runner_Frame.thy ===== *)
theory Runner_Frame
  imports Runner
begin

text \<open>
  What every operation of the consolidation runner keeps of the database, whatever faults strike
  and whatever the models answer. The locale states what a relation must allow, one assumption
  per statement the engine issues; its lemmas carry the relation through every operation, and the
  interpretations are the relations of interest: isolation of scopes, history that is only ever
  appended to, and the integrity of the entity graph.
\<close>

declare One_nat_def [simp del]

context db_order
begin

lemma call: "keeps R sess (call f q)"
  by (rule same_db) (auto simp: call_def)

lemmas combinators = bind attempt for_each map_each if_else case_option case_sum case_prod ret err lift get query query_row
  GetVersion Encrypt call

lemma generate_attempts: "keeps R sess (generate_attempts r req n)"
  by (induction n) (simp_all, (intro combinators | simp add: chat_def)+)

lemma generateSummary: "keeps R sess (generateSummary r sc lvl per sources rec known)"
  unfolding generateSummary_def by (rule generate_attempts)

lemma extractPerEpisodeFacts: "keeps R sess (extractPerEpisodeFacts r sources)"
  unfolding extractPerEpisodeFacts_def chunk_facts_def chat_def by (intro combinators)

lemma groundingCheck: "keeps R sess (groundingCheck r src facts)"
  unfolding groundingCheck_def groundingCheckOne_def groundingCheckOneAttempt_def chat_def by (intro combinators)

lemma generateDailySummary: "keeps R sess (generateDailySummary r sc per sources rec known)"
  unfolding generateDailySummary_def singlePassWithInsurance_def add_episode_facts_def embed_def Let_def
  by (intro combinators extractPerEpisodeFacts generateSummary)

lemma best_effort: "keeps R sess m \<Longrightarrow> keeps R sess (best_effort m)"
  unfolding best_effort_def by (intro combinators)

lemma case_list: "keeps R sess m \<Longrightarrow> (\<And>x xs. keeps R sess (k x xs)) \<Longrightarrow> keeps R sess (case z of [] \<Rightarrow> m | x # xs \<Rightarrow> k x xs)"
  by (cases z) simp_all

lemma each_best_effort: "(\<And>x. keeps R sess (f x)) \<Longrightarrow> keeps R sess (each_best_effort f xs)"
  unfolding each_best_effort_def by (intro combinators case_list)

lemma embed_one: "keeps R sess (embed_one r t)"
  unfolding embed_one_def embed_def by (intro combinators case_list)

lemma currentSummaryID: "keeps R sess (currentSummaryID sc lvl per)"
  unfolding currentSummaryID_def by (intro combinators case_list)

lemma nextSummaryID: "keeps R sess (nextSummaryID sc lvl per)"
  unfolding nextSummaryID_def by (intro combinators)

lemma loads:
  "keeps R sess (loadDailyEpisodes r sc date)" "keeps R sess (loadEpisodesByID r sc ids)"
  "keeps R sess (loadSummaryText r sc sid)" "keeps R sess (loadSummaries r sc lvl pers)"
  "keeps R sess (findKnownEntities r sc combined)" "keeps R sess (scanEpisodeSources r sc rows)"
  unfolding loadDailyEpisodes_def loadEpisodesByID_def loadSummaryText_def loadSummaries_def findKnownEntities_def
    scanEpisodeSources_def scan_episode_def summary_text_def
  by (intro combinators)+

lemma rollup_sources: "keeps R sess (rollup_sources r sc lvl sl per pers)"
  unfolding rollup_sources_def rollupIsStale_def by (intro combinators currentSummaryID loads)

lemma load_sources: "keeps R None (load_sources r sc lvl eps pers)"
  unfolding load_sources_def by (intro combinators transaction loads)

lemma CurrentContent: "keeps R None (CurrentContent r sc sid)"
  unfolding CurrentContent_def content_entity_def by (intro combinators transaction)

lemma covering_rollups: "keeps R None (covering_rollups sc lvl per)"
  unfolding covering_rollups_def by (intro combinators transaction)

lemma read_only:
  "keeps R None (loadGroundedKeyFactsByID r sc sid)" "keeps R None (findRelatedSummaries sc sid es)"
  "keeps R None (loadGroundingSourceTextForSummary r sc sid)" "keeps R None (stored_daily sc per)"
  "keeps R None (entitiesMissingEmbeddings r sc)" "keeps R sess (load_to_correct sc sid)"
  "keeps R sess (daily_sources r sc date per)"
  unfolding loadGroundedKeyFactsByID_def findRelatedSummaries_def loadGroundingSourceTextForSummary_def stored_daily_def
    entitiesMissingEmbeddings_def load_to_correct_def daily_sources_def
  by (intro combinators transaction load_sources loads currentSummaryID)+

end

section \<open>The statements of the engine\<close>

text \<open>Everything but new summaries, and summaries as well.\<close>

locale row_writes = key_order R sc for R :: "database \<Rightarrow> database \<Rightarrow> bool" and sc :: scope +
  assumes fact_row: "insert_key_fact f w d = Some d' \<Longrightarrow> kf_scope f = sc \<Longrightarrow> R d d'"
    and entity_row: "en_scope e = sc \<Longrightarrow> R d (upsert_entity_row e d)"
    and closed_edges: "close_edges sc a p b t w d = Some d' \<Longrightarrow> R d d'"
    and edge_row: "insert_edge edge w d = Some d' \<Longrightarrow> rel_scope edge = sc \<Longrightarrow> R d d'"
    and audit_row: "au_acting_scope entry = sc \<Longrightarrow> au_workspace_scope entry = sc \<Longrightarrow> R d (d\<lparr>audit_log := audit_log d @ [entry]\<rparr>)"
    and summary_embedding: "(\<And>s. P s \<Longrightarrow> sum_scope s = sc) \<Longrightarrow> R d (set_sum_embedding P v model d)"
    and episode_embedding: "(\<And>ep. Q ep \<Longrightarrow> ep_scope ep = sc) \<Longrightarrow> R d (set_ep_embedding Q v model d)"
    and entity_embedding: "(\<And>x. X x \<Longrightarrow> en_scope x = sc) \<Longrightarrow> R d (set_en_embedding X v model d)"
    and fact_embedding: "(\<And>f. F f \<Longrightarrow> kf_scope f = sc) \<Longrightarrow> R d (set_kf_embedding F v model d)"
    and corpus_row: "cs_scope c = sc \<Longrightarrow> R d (upsert_corpus_size c d)"
begin

lemma audit: "ActingScope a = sc \<Longrightarrow> WorkspaceScope a = sc \<Longrightarrow> keeps R sess (audit_Write a)"
  unfolding audit_Write_def by (rule checked_statement) (auto intro: audit_row split: if_splits)

lemma upsertEntities: "keeps R sess (upsertEntities r sc es repl asOf)"
  unfolding upsertEntities_def upsert_entity_def write_entity_def
  by (intro combinators GetOrCreate checked_statement) (auto intro: entity_row split: if_splits)

lemma upsertRelationships: "keeps R sess (upsertRelationships r sc us sid)"
  unfolding upsertRelationships_def upsert_relationship_def insert_relationship_def newRelationshipID_def entityExists_def Let_def
  by (intro combinators rand_read checked_statement) (erule closed_edges, erule edge_row, simp)

lemma store_fact: "in_scope i = sc \<Longrightarrow> keeps R sess (store_fact r i enc v sid f)"
  unfolding store_fact_def exec_check_ret_def by (intro combinators checked_statement) (erule fact_row, simp)

lemma embedSummary: "keeps R None (embedSummary r sc sid t)"
  unfolding embedSummary_def
  by (intro combinators embed_one transaction statement summary_embedding) (simp add: rls_session)

lemma embedEntities: "keeps R None (embedEntities r sc ids)"
  unfolding embedEntities_def embed_entity_def
  by (intro combinators each_best_effort embed_one transaction statement entity_embedding) simp

lemma embedKeyFacts: "keeps R None (embedKeyFacts r sc fs)"
  unfolding embedKeyFacts_def embed_fact_batch_def embed_def
  by (intro combinators each_best_effort transaction statement fact_embedding) (simp add: rls_session)

lemma embedHighImportanceEpisodes: "keeps R None (embedHighImportanceEpisodes r sc date)"
  unfolding embedHighImportanceEpisodes_def
  by (intro combinators transaction loads embed_one statement episode_embedding) (simp add: rls_session)

lemma updateScopeCorpusSize: "keeps R None (updateScopeCorpusSize sc)"
  unfolding updateScopeCorpusSize_def by (intro combinators transaction statement corpus_row) simp

end

locale scope_writes = row_writes +
  assumes summary_row: "insert_summary s w d = Some d' \<Longrightarrow> sum_scope s = sc \<Longrightarrow> R d d'"
begin

lemma store_rows:
  assumes i: "in_scope i = sc"
  shows "keeps R sess (store_rows r i gs enc v ct)"
  unfolding store_rows_def Let_def i
  by (intro combinators nextSummaryID store_fact [OF i] upsertEntities upsertRelationships audit checked_statement)
    (simp_all, erule summary_row, simp)

lemma storeSummary:
  assumes i: "in_scope i = sc"
  shows "keeps R None (storeSummary r i)"
  unfolding storeSummary_def i
  by (intro combinators groundingCheck GetOrCreate transaction store_rows [OF i] best_effort embedSummary embedEntities embedKeyFacts)

lemma run_rollup: "(\<And>l p. keeps R None (refresh l p)) \<Longrightarrow> keeps R None (run_rollup refresh r sc lvl sl per pers)"
  unfolding run_rollup_def by (intro combinators transaction rollup_sources generateSummary storeSummary) simp_all

lemma refreshRollupsCovering: "keeps R None (refreshRollupsCovering r sc lvl per)"
proof -
  have "keeps R None (refresh_levels n r sc lvl per)" for n
    by (induction n arbitrary: lvl per) (auto intro!: combinators covering_rollups best_effort run_rollup)
  then show ?thesis by (simp add: refreshRollupsCovering_def)
qed

lemma RunRollup: "keeps R None (RunRollup r sc lvl sl per pers)"
  unfolding RunRollup_def by (intro run_rollup refreshRollupsCovering)

lemma Correct: "keeps R None (Correct r sc sid out reason actor extra)"
  unfolding Correct_def by (intro combinators transaction read_only load_sources storeSummary) simp

lemma checkCrossPeriodContradictions: "keeps R None (checkCrossPeriodContradictions r sc sid per es)"
  unfolding checkCrossPeriodContradictions_def checkOneRelatedSummary_def correct_related_def chat_def Let_def
  by (intro combinators best_effort read_only CurrentContent Correct refreshRollupsCovering)

lemma RunDaily: "keeps R None (RunDaily r sc date)"
  unfolding RunDaily_def after_daily_def Let_def
  by (intro combinators transaction read_only loads generateDailySummary storeSummary refreshRollupsCovering best_effort
      checkCrossPeriodContradictions embedHighImportanceEpisodes embedEntities updateScopeCorpusSize) simp

end

end
