(* ===== verification/Runner_Correct.thy ===== *)
theory Runner_Correct
  imports Runner_Frame "HOL-Library.Sublist"
begin

text \<open>
  The consolidation runner's guarantees, for every operation it offers, every answer of the models
  and every fault: other scopes are untouched, history is only appended to, and the entity graph
  keeps its integrity.
\<close>

declare One_nat_def [simp del]

section \<open>Operations\<close>

datatype runner_op = Daily time
  | Rollup string string string "string list"
  | Correction string ConsolidationOutput string string string

definition perform :: "runner \<Rightarrow> scope \<Rightarrow> runner_op \<Rightarrow> unit proc" where
  "perform r sc op = (case op of
       Daily date \<Rightarrow> RunDaily r sc date
     | Rollup lvl sourceLevel per sourcePeriods \<Rightarrow> RunRollup r sc lvl sourceLevel per sourcePeriods
     | Correction oldSummaryID out reason actor extra \<Rightarrow> Correct r sc oldSummaryID out reason actor extra)"

context scope_writes
begin

lemma perform: "keeps R None (perform r sc op)"
  unfolding perform_def by (cases op) (simp_all add: RunDaily RunRollup Correct)

end

section \<open>Isolation\<close>

text \<open>The database without the rows of a scope. The sequence behind \<open>summary_key_facts.id\<close> is the
  one thing scopes share.\<close>

definition elsewhere :: "scope \<Rightarrow> database \<Rightarrow> database" where
  "elsewhere sc d = d\<lparr>
     episodes := filter (\<lambda>e. ep_scope e \<noteq> sc) (episodes d),
     summaries := filter (\<lambda>s. sum_scope s \<noteq> sc) (summaries d),
     summary_key_facts := filter (\<lambda>f. kf_scope f \<noteq> sc) (summary_key_facts d),
     key_fact_seq := 0,
     entities := filter (\<lambda>e. en_scope e \<noteq> sc) (entities d),
     entity_relationships := filter (\<lambda>e. rel_scope e \<noteq> sc) (entity_relationships d),
     scope_keys := filter (\<lambda>k. sk_scope k \<noteq> sc) (scope_keys d),
     audit_log := filter (\<lambda>a. au_acting_scope a \<noteq> sc \<or> au_workspace_scope a \<noteq> sc) (audit_log d),
     scope_corpus_sizes := filter (\<lambda>c. cs_scope c \<noteq> sc) (scope_corpus_sizes d)\<rparr>"

lemma filter_update_where:
  assumes "\<forall>x. P x \<longrightarrow> \<not> Q x \<and> \<not> Q (f x)"
  shows "filter Q (update_where P f xs) = filter Q xs"
  using assms by (induction xs) (auto simp: update_where_def)

interpretation isolation: scope_writes "unchanged (elsewhere sc)" sc
proof unfold_locales
  show "unchanged (elsewhere sc) d (insert_key sc v wrapped d)" for d v wrapped
    by (simp add: unchanged_def elsewhere_def insert_key_def)
  show "unchanged (elsewhere sc) d d'" if "insert_summary s w d = Some d'" "sum_scope s = sc" for s w d d'
    using that by (auto simp: unchanged_def elsewhere_def insert_summary_def split: if_splits)
  show "unchanged (elsewhere sc) d d'" if "insert_key_fact f w d = Some d'" "kf_scope f = sc" for f w d d'
    using that by (auto simp: unchanged_def elsewhere_def insert_key_fact_def split: if_splits)
  show "unchanged (elsewhere sc) d (upsert_entity_row e d)" if "en_scope e = sc" for e d
    using that by (simp add: unchanged_def elsewhere_def upsert_entity_row_def Let_def filter_update_where)
  show "unchanged (elsewhere sc) d d'" if "close_edges sc a p b t w d = Some d'" for a p b t w d d'
    using that by (auto simp: unchanged_def elsewhere_def close_edges_def Let_def filter_update_where split: if_splits)
  show "unchanged (elsewhere sc) d d'" if "insert_edge edge w d = Some d'" "rel_scope edge = sc" for edge w d d'
    using that by (auto simp: unchanged_def elsewhere_def insert_edge_def split: if_splits)
  show "unchanged (elsewhere sc) d (d\<lparr>audit_log := audit_log d @ [a]\<rparr>)"
    if "au_acting_scope a = sc" "au_workspace_scope a = sc" for a d
    using that by (simp add: unchanged_def elsewhere_def)
  show "unchanged (elsewhere sc) d (set_sum_embedding P v model d)" if "\<And>s. P s \<Longrightarrow> sum_scope s = sc" for P v model d
    using that by (simp add: unchanged_def elsewhere_def set_sum_embedding_def filter_update_where)
  show "unchanged (elsewhere sc) d (set_ep_embedding P v model d)" if "\<And>s. P s \<Longrightarrow> ep_scope s = sc" for P v model d
    using that by (simp add: unchanged_def elsewhere_def set_ep_embedding_def filter_update_where)
  show "unchanged (elsewhere sc) d (set_en_embedding P v model d)" if "\<And>s. P s \<Longrightarrow> en_scope s = sc" for P v model d
    using that by (simp add: unchanged_def elsewhere_def set_en_embedding_def filter_update_where)
  show "unchanged (elsewhere sc) d (set_kf_embedding P v model d)" if "\<And>s. P s \<Longrightarrow> kf_scope s = sc" for P v model d
    using that by (simp add: unchanged_def elsewhere_def set_kf_embedding_def filter_update_where)
  show "unchanged (elsewhere sc) d (upsert_corpus_size c d)" if "cs_scope c = sc" for c d
    using that by (simp add: unchanged_def elsewhere_def upsert_corpus_size_def filter_update_where)
qed

section \<open>History\<close>

definition fixed_episode :: "episode \<Rightarrow> episode" where
  "fixed_episode e = e\<lparr>ep_embedding := None, ep_embedding_model := None\<rparr>"

definition fixed_summary :: "summary \<Rightarrow> summary" where
  "fixed_summary s = s\<lparr>sum_embedding := None, sum_embedding_model := None\<rparr>"

definition fixed_fact :: "key_fact \<Rightarrow> key_fact" where
  "fixed_fact f = f\<lparr>kf_embedding := None, kf_embedding_model := None\<rparr>"

text \<open>An entity keeps its identity, kind and first sighting; an edge keeps everything, except that an
  open one may be closed.\<close>

definition fixed_entity :: "entity \<Rightarrow> scope \<times> string \<times> string \<times> date" where
  "fixed_entity e = (en_scope e, en_id e, en_kind e, en_first_seen e)"

definition edge_kept :: "relationship \<Rightarrow> relationship \<Rightarrow> bool" where
  "edge_kept e e' \<longleftrightarrow> e' = e \<or> rel_valid_until e = None \<and> (\<exists>t. e' = e\<lparr>rel_valid_until := Some t\<rparr>)"

definition edges_extended :: "relationship list \<Rightarrow> relationship list \<Rightarrow> bool" where
  "edges_extended xs ys \<longleftrightarrow> (\<exists>es new. ys = es @ new \<and> list_all2 edge_kept xs es)"

definition appended :: "database \<Rightarrow> database \<Rightarrow> bool" where
  "appended d d' \<longleftrightarrow> map fixed_episode (episodes d') = map fixed_episode (episodes d)
     \<and> prefix (map fixed_summary (summaries d)) (map fixed_summary (summaries d'))
     \<and> prefix (map fixed_fact (summary_key_facts d)) (map fixed_fact (summary_key_facts d'))
     \<and> prefix (map fixed_entity (entities d)) (map fixed_entity (entities d'))
     \<and> edges_extended (entity_relationships d) (entity_relationships d')
     \<and> prefix (scope_keys d) (scope_keys d') \<and> prefix (audit_log d) (audit_log d')
     \<and> key_rotations d' = key_rotations d \<and> users d' = users d \<and> demo_sessions d' = demo_sessions d"

lemma edge_kept_refl [simp]: "edge_kept e e"
  by (simp add: edge_kept_def)

lemma edges_extended_simps [simp]: "edges_extended es es" "edges_extended es (es @ new)"
proof -
  have "list_all2 edge_kept es es" by (simp add: list_all2_refl)
  then show "edges_extended es es" "edges_extended es (es @ new)" unfolding edges_extended_def by (metis append_Nil2)+
qed

lemma edges_closed [simp]:
  assumes "\<forall>e. P e \<longrightarrow> rel_valid_until e = None"
  shows "edges_extended es (update_where P (\<lambda>e. e\<lparr>rel_valid_until := Some t\<rparr>) es)"
proof -
  have "list_all2 edge_kept es (update_where P (\<lambda>e. e\<lparr>rel_valid_until := Some t\<rparr>) es)"
    using assms by (auto simp: update_where_def list_all2_conv_all_nth edge_kept_def)
  then show ?thesis unfolding edges_extended_def by (metis append_Nil2)
qed

lemma edge_kept_trans: "edge_kept a b \<Longrightarrow> edge_kept b c \<Longrightarrow> edge_kept a c"
  unfolding edge_kept_def
proof (elim disjE)
  assume ab: "rel_valid_until a = None \<and> (\<exists>t. b = a\<lparr>rel_valid_until := Some t\<rparr>)"
    and bc: "rel_valid_until b = None \<and> (\<exists>t. c = b\<lparr>rel_valid_until := Some t\<rparr>)"
  obtain t where "b = a\<lparr>rel_valid_until := Some t\<rparr>" using ab by blast
  then have "rel_valid_until b = Some t" by simp
  then show "c = a \<or> rel_valid_until a = None \<and> (\<exists>t. c = a\<lparr>rel_valid_until := Some t\<rparr>)" using bc by simp
qed blast+

lemma edges_extended_trans:
  assumes "edges_extended xs ys" "edges_extended ys zs"
  shows "edges_extended xs zs"
proof -
  obtain es new where e: "ys = es @ new" "list_all2 edge_kept xs es" using assms(1) unfolding edges_extended_def by blast
  obtain fs new' where f: "zs = fs @ new'" "list_all2 edge_kept (es @ new) fs"
    using assms(2) unfolding edges_extended_def e(1) by blast
  obtain us vs where u: "fs = us @ vs" "list_all2 edge_kept es us" using f(2) unfolding list_all2_append1 by blast
  have "list_all2 edge_kept xs us" by (rule list_all2_trans [OF edge_kept_trans e(2) u(2)])
  then show ?thesis unfolding edges_extended_def f(1) u(1) by auto
qed

lemma appended_same:
  assumes "episodes d' = episodes d" "summaries d' = summaries d" "summary_key_facts d' = summary_key_facts d"
    "entities d' = entities d" "entity_relationships d' = entity_relationships d" "scope_keys d' = scope_keys d"
    "audit_log d' = audit_log d" "key_rotations d' = key_rotations d" "users d' = users d" "demo_sessions d' = demo_sessions d"
  shows "appended d d'"
  using assms by (simp add: appended_def)

lemma appended_trans: "appended d d' \<Longrightarrow> appended d' d'' \<Longrightarrow> appended d d''"
  unfolding appended_def using edges_extended_trans by (auto intro: prefix_order.trans)

interpretation history: scope_writes appended sc
proof unfold_locales
  show "appended d d" for d by (rule appended_same) simp_all
  show "appended d d''" if "appended d d'" "appended d' d''" for d d' d'' by (rule appended_trans [OF that])
  show "appended d (insert_key sc v wrapped d)" for d v wrapped
    by (simp add: appended_def insert_key_def)
  show "appended d d'" if "insert_summary s w d = Some d'" for s w d d'
    using that by (auto simp: appended_def insert_summary_def split: if_splits)
  show "appended d d'" if "insert_key_fact f w d = Some d'" for f w d d'
    using that by (auto simp: appended_def insert_key_fact_def split: if_splits)
  show "appended d (upsert_entity_row e d)" for e d
    by (simp add: appended_def upsert_entity_row_def Let_def map_update_where fixed_entity_def)
  show "appended d d'" if "close_edges sc a p b t w d = Some d'" for a p b t w d d'
    using that by (auto simp: appended_def close_edges_def Let_def split: if_splits)
  show "appended d d'" if "insert_edge edge w d = Some d'" for edge w d d'
    using that by (auto simp: appended_def insert_edge_def split: if_splits)
  show "appended d (d\<lparr>audit_log := audit_log d @ [a]\<rparr>)" for a d by (simp add: appended_def)
  show "appended d (set_sum_embedding P v model d)" for P v model d
    by (simp add: appended_def set_sum_embedding_def map_update_where fixed_summary_def)
  show "appended d (set_ep_embedding P v model d)" for P v model d
    by (simp add: appended_def set_ep_embedding_def map_update_where fixed_episode_def)
  show "appended d (set_en_embedding P v model d)" for P v model d
    by (simp add: appended_def set_en_embedding_def map_update_where fixed_entity_def)
  show "appended d (set_kf_embedding P v model d)" for P v model d
    by (simp add: appended_def set_kf_embedding_def map_update_where fixed_fact_def)
  show "appended d (upsert_corpus_size c d)" for c d by (rule appended_same) (simp_all add: upsert_corpus_size_def)
qed

section \<open>The entity graph\<close>

text \<open>Entities have unique ids in their scope; every edge has unique id, runs forward in time and
  between entities of its own scope.\<close>

definition nodes :: "database \<Rightarrow> (scope \<times> string) list" where
  "nodes d = map (\<lambda>e. (en_scope e, en_id e)) (entities d)"

definition edge_ok :: "(scope \<times> string) set \<Rightarrow> relationship \<Rightarrow> bool" where
  "edge_ok ns e \<longleftrightarrow> date_order e \<and> (rel_scope e, rel_subject_id e) \<in> ns \<and> (rel_scope e, rel_object_id e) \<in> ns"

definition graph_ok :: "database \<Rightarrow> bool" where
  "graph_ok d \<longleftrightarrow> distinct (nodes d) \<and> distinct (map rel_id (entity_relationships d))
     \<and> (\<forall>e \<in> set (entity_relationships d). edge_ok (set (nodes d)) e)"

lemma graph_ok_unrelated:
  "nodes d' = nodes d \<Longrightarrow> entity_relationships d' = entity_relationships d \<Longrightarrow> preserved graph_ok d d'"
  by (simp add: preserved_def graph_ok_def)

lemma nodes_simps:
  "entities d' = entities d \<Longrightarrow> nodes d' = nodes d"
  "nodes (d\<lparr>entities := es @ [e]\<rparr>) = map (\<lambda>e. (en_scope e, en_id e)) es @ [(en_scope e, en_id e)]"
  "(\<And>x. (en_scope (f x), en_id (f x)) = (en_scope x, en_id x)) \<Longrightarrow> nodes (d\<lparr>entities := update_where P f (entities d)\<rparr>) = nodes d"
  by (simp_all add: nodes_def map_update_where)

lemma node_exists: "list_ex (\<lambda>x. en_scope x = s \<and> en_id x = i) (entities d) \<longleftrightarrow> (s, i) \<in> set (nodes d)"
  by (auto simp: nodes_def list_ex_iff)

lemma edge_ok_mono: "edge_ok ns e \<Longrightarrow> ns \<subseteq> ns' \<Longrightarrow> edge_ok ns' e"
  unfolding edge_ok_def by blast

lemma graph_ok_upsert: "preserved graph_ok d (upsert_entity_row e d)"
proof (cases "list_ex (\<lambda>x. en_scope x = en_scope e \<and> en_id x = en_id e) (entities d)")
  case True
  then show ?thesis by (intro graph_ok_unrelated) (simp_all add: upsert_entity_row_def Let_def nodes_simps(3))
next
  case False
  then have u: "upsert_entity_row e d = d\<lparr>entities := entities d @ [e]\<rparr>" by (simp add: upsert_entity_row_def Let_def)
  have n: "nodes (upsert_entity_row e d) = nodes d @ [(en_scope e, en_id e)]"
    unfolding u nodes_simps(2) by (simp add: nodes_def)
  have "(en_scope e, en_id e) \<notin> set (nodes d)" using False by (simp add: node_exists)
  then show ?thesis
    unfolding preserved_def graph_ok_def n by (auto simp: u intro: edge_ok_mono)
qed

lemma graph_ok_close:
  assumes "close_edges sc a p b t w d = Some d'"
  shows "preserved graph_ok d d'"
proof -
  define P where "P = (\<lambda>e :: relationship. rls_visible w (rel_scope e) \<and> rel_scope e = sc \<and> rel_subject_id e = a
            \<and> rel_predicate e = p \<and> rel_object_id e \<noteq> b \<and> rel_valid_until e = None)"
  define f where "f = (\<lambda>e :: relationship. e\<lparr>rel_valid_until := Some t\<rparr>)"
  have d': "d' = d\<lparr>entity_relationships := update_where P f (entity_relationships d)\<rparr>"
    and ord: "\<forall>e \<in> set (entity_relationships d). P e \<longrightarrow> date_order (f e)"
    using assms unfolding close_edges_def Let_def P_def f_def by (auto simp: list_all_iff split: if_splits)
  have f: "rel_id (f e) = rel_id e" "edge_ok ns e \<Longrightarrow> date_order (f e) \<Longrightarrow> edge_ok ns (f e)" for e ns
    by (simp_all add: f_def edge_ok_def)
  have "nodes d' = nodes d" by (simp add: d' nodes_def)
  moreover have "map rel_id (entity_relationships d') = map rel_id (entity_relationships d)"
    unfolding d' by (simp add: map_update_where f(1))
  moreover have "\<forall>e \<in> set (entity_relationships d'). edge_ok ns e"
    if "\<forall>e \<in> set (entity_relationships d). edge_ok ns e" for ns
    using that f(2) ord unfolding d' by (auto simp: update_where_def)
  ultimately show ?thesis unfolding preserved_def graph_ok_def by metis
qed

lemma graph_ok_insert:
  assumes "insert_edge e w d = Some d'"
  shows "preserved graph_ok d d'"
proof -
  let ?e = "e\<lparr>rel_created_at := clock w\<rparr>"
  have d': "d' = d\<lparr>entity_relationships := entity_relationships d @ [?e]\<rparr>" "rel_id e \<notin> rel_id ` set (entity_relationships d)"
    and ok: "edge_ok (set (nodes d)) ?e"
    using assms unfolding insert_edge_def node_exists edge_ok_def date_order_def by (auto split: if_splits)
  have "nodes d' = nodes d" by (simp add: d' nodes_def)
  then show ?thesis using ok d'(2) unfolding preserved_def graph_ok_def by (simp add: d'(1))
qed

interpretation graph: scope_writes "preserved graph_ok" sc
proof unfold_locales
  show "preserved graph_ok d (insert_key sc v wrapped d)" for d v wrapped
    by (rule graph_ok_unrelated) (simp_all add: insert_key_def nodes_def)
  show "preserved graph_ok d d'" if "insert_summary s w d = Some d'" for s w d d'
    using that by (intro graph_ok_unrelated) (auto simp: insert_summary_def nodes_def split: if_splits)
  show "preserved graph_ok d d'" if "insert_key_fact f w d = Some d'" for f w d d'
    using that by (intro graph_ok_unrelated) (auto simp: insert_key_fact_def nodes_def split: if_splits)
  show "preserved graph_ok d (upsert_entity_row e d)" for e d by (rule graph_ok_upsert)
  show "preserved graph_ok d d'" if "close_edges sc a p b t w d = Some d'" for a p b t w d d' by (rule graph_ok_close [OF that])
  show "preserved graph_ok d d'" if "insert_edge edge w d = Some d'" for edge w d d' by (rule graph_ok_insert [OF that])
  show "preserved graph_ok d (d\<lparr>audit_log := audit_log d @ [a]\<rparr>)" for a d by (rule graph_ok_unrelated) (simp_all add: nodes_def)
  show "preserved graph_ok d (set_sum_embedding P v model d)" "preserved graph_ok d (set_ep_embedding Q v model d)"
    "preserved graph_ok d (set_kf_embedding F v model d)" "preserved graph_ok d (upsert_corpus_size c d)" for P Q F v model c d
    by (rule graph_ok_unrelated; simp add: nodes_def set_sum_embedding_def set_ep_embedding_def set_kf_embedding_def upsert_corpus_size_def)+
  show "preserved graph_ok d (set_en_embedding P v model d)" for P v model d
    by (rule graph_ok_unrelated) (simp_all add: set_en_embedding_def nodes_simps(3))
qed

section \<open>Guarantees\<close>

text \<open>
  C6. Scopes are isolated: a daily run, a rollup or a correction in one scope, with everything it
  triggers, leaves every row of every other scope in every table as it was, whether it succeeds
  or fails.\<close>

theorem perform_isolated:
  assumes "perform r sc op w = (res, w')" "tx w = None"
  shows "elsewhere sc (db w') = elsewhere sc (db w)"
  using keepsD [OF isolation.perform _ assms(1)] assms(2) by (simp add: unchanged_def)

theorem perform_isolated_witness:
  "\<exists>res w'. perform sample_runner (Scope ''shared'' ''team'') (Daily 5) (sample_world 1 [1] []) = (res, w')
     \<and> tx (sample_world 1 [1] []) = None
     \<and> elsewhere (Scope ''shared'' ''team'') (db w') = elsewhere (Scope ''shared'' ''team'') (sample_db 1 [1] [])
     \<and> summaries (elsewhere (Scope ''shared'' ''team'') (sample_db 1 [1] [])) \<noteq> []"
proof -
  obtain res w' where run: "perform sample_runner (Scope ''shared'' ''team'') (Daily 5) (sample_world 1 [1] []) = (res, w')"
    by fastforce
  have "summaries (elsewhere (Scope ''shared'' ''team'') (sample_db 1 [1] [])) \<noteq> []"
    by (simp add: elsewhere_def sample_db_def DefaultScope_def ScopeKindPrivate_def)
  then show ?thesis using run perform_isolated [OF run] by (simp add: sample_world_simps)
qed

text \<open>
  C7. History is append-only: no operation of the runner, successful or failed, changes or removes
  an episode, a summary, a key fact, a key or an audit record that is already there, apart from
  filling in embeddings; entities keep their identity, kind and first sighting, and the only
  change to a stored relationship is that an open one may be closed.\<close>

theorem perform_append_only:
  assumes "perform r sc op w = (res, w')" "tx w = None"
  shows "appended (db w) (db w')"
  using keepsD [OF history.perform _ assms(1)] assms(2) by simp

theorem perform_append_only_witness:
  "\<exists>res w'. perform sample_runner DefaultScope (Correction ''su_1'' sample_output ''typo'' ''user'' []) (sample_world 1 [1] []) = (res, w')
     \<and> tx (sample_world 1 [1] []) = None \<and> appended (sample_db 1 [1] []) (db w')"
proof -
  obtain res w' where run: "perform sample_runner DefaultScope (Correction ''su_1'' sample_output ''typo'' ''user'' []) (sample_world 1 [1] []) = (res, w')"
    by fastforce
  then show ?thesis using perform_append_only [OF run] by (simp add: sample_world_simps)
qed



end
