(* ===== verification/Rollups.thy ===== *)
theory Rollups
  imports Runner_Frame
begin

text \<open>
  How rollups cascade, when they are skipped, and which corrections are refused
  (\<open>RunRollup\<close>, \<open>refreshRollupsCovering\<close>, \<open>rollupIsStale\<close> and \<open>Correct\<close> of \<open>runner.go\<close>).
\<close>

declare One_nat_def [simp del]

section \<open>The cascade\<close>

text \<open>How many levels there are above one.\<close>

definition levels_above :: "string \<Rightarrow> nat" where
  "levels_above lvl = (if lvl = ''daily'' then 3 else if lvl = ''weekly'' then 2 else if lvl = ''monthly'' then 1 else 0)"

lemma levels_above_step: "rollupLevelAbove lvl \<noteq> [] \<Longrightarrow> levels_above lvl = Suc (levels_above (rollupLevelAbove lvl))"
  unfolding rollupLevelAbove_def levels_above_def
  by (cases "lvl = ''daily''"; cases "lvl = ''weekly''"; cases "lvl = ''monthly''") simp_all

lemma run_rollup_cong:
  assumes "refresh lvl per = refresh' lvl per"
  shows "run_rollup refresh r sc lvl sl per pers = run_rollup refresh' r sc lvl sl per pers"
  unfolding run_rollup_def assms ..

lemma refresh_levels_enough:
  "levels_above lvl < n \<Longrightarrow> levels_above lvl < m \<Longrightarrow> refresh_levels n r sc lvl per = refresh_levels m r sc lvl per"
proof (induction n arbitrary: m lvl per)
  case (Suc n)
  then obtain m' where m: "m = Suc m'" by (cases m) auto
  show ?case
  proof (cases "rollupLevelAbove lvl = []")
    case False
    then have "levels_above (rollupLevelAbove lvl) < n" "levels_above (rollupLevelAbove lvl) < m'"
      using Suc.prems m levels_above_step by auto
    then have "refresh_levels n r sc (rollupLevelAbove lvl) p = refresh_levels m' r sc (rollupLevelAbove lvl) p" for p
      by (rule Suc.IH)
    then have "run_rollup (refresh_levels n r sc) r sc (rollupLevelAbove lvl) lvl p ps =
        run_rollup (refresh_levels m' r sc) r sc (rollupLevelAbove lvl) lvl p ps" for p ps
      by (rule run_rollup_cong)
    then show ?thesis using False by (simp add: m)
  qed (simp add: m)
qed simp

lemma levels_above_bound: "levels_above lvl < length summary_levels"
  by (simp add: levels_above_def summary_levels_def)


section \<open>Skipped rollups\<close>

definition in_period_of :: "scope \<Rightarrow> string \<Rightarrow> string list \<Rightarrow> summary \<Rightarrow> bool" where
  "in_period_of sc lvl pers s \<longleftrightarrow> sum_scope s = sc \<and> sum_level s = lvl \<and> sum_period s \<in> set pers"

text \<open>The current versions of a period, as a database has them.\<close>

definition current_in :: "database \<Rightarrow> scope \<Rightarrow> string \<Rightarrow> string \<Rightarrow> summary list" where
  "current_in d sc lvl per = filter (\<lambda>s. same_period sc lvl per s
     \<and> \<not> list_ex (\<lambda>n. sum_scope n = sc \<and> sum_supersedes n = Some (sum_id s)) (summaries d)) (summaries d)"

lemma current_rows:
  assumes "session t = Some (sc, sc)"
  shows "filter (\<lambda>s. same_period sc lvl per s \<and> current t s) (visible t sum_scope (summaries (db t))) = current_in (db t) sc lvl per"
  unfolding current_in_def current_def visible_def filter_filter
  by (rule filter_cong) (auto simp: rls_session [OF assms] same_period_def list_ex_iff)

lemma newest_in: "newest xs = y # ys \<Longrightarrow> y \<in> set xs" "newest xs = [] \<longleftrightarrow> xs = []"
proof -
  have "foldl (\<lambda>a b. if sum_created_at a < sum_created_at b \<or> sum_created_at a = sum_created_at b \<and> sum_id a < sum_id b then b else a) x zs
      \<in> insert x (set zs)" for x zs
  proof (induction zs arbitrary: x)
    case (Cons z zs)
    show ?case using Cons [of z] Cons [of x] by auto
  qed simp
  then show "newest xs = y # ys \<Longrightarrow> y \<in> set xs" by (auto simp: newest_def split: list.splits)
  show "newest xs = [] \<longleftrightarrow> xs = []" by (simp add: newest_def split: list.splits)
qed

lemma stale_rows:
  assumes ids: "distinct (map sum_id (summaries (db t)))" and c: "c \<in> set (summaries (db t))" "sum_scope c = sc"
    and t: "session t = Some (sc, sc)"
    and fresh: "\<forall>x \<in> set (summaries (db t)). in_period_of sc sl pers x \<and> sum_supersedes x = None \<longrightarrow> sum_created_at x \<le> sum_created_at c"
    and run: "rollupIsStale sc (sum_id c) sl pers t = (Inr b, u)"
  shows "\<not> b"
proof -
  have only: "x = c" if "x \<in> set (summaries (db t))" "sum_id x = sum_id c" for x
    using that c(1) ids by (auto simp: distinct_map inj_on_def)
  obtain t0 ts t1 where q: "map sum_created_at (filter (\<lambda>s. sum_id s = sum_id c) (visible t sum_scope (summaries (db t)))) = t0 # ts" "t1 = tick t"
    and b: "b \<longleftrightarrow> list_ex (\<lambda>t. t > t0) (map sum_created_at (filter (\<lambda>s. sum_level s = sl \<and> sum_period s \<in> set pers
         \<and> sum_supersedes s = None \<and> sum_scope s = sc) (visible t1 sum_scope (summaries (db t1)))))"
    using run unfolding rollupIsStale_def by (fastforce dest!: bind_success query_row_success query_success simp: retM_def)
  have "t0 \<in> sum_created_at ` set (filter (\<lambda>s. sum_id s = sum_id c) (visible t sum_scope (summaries (db t))))"
    using q(1) by (metis list.set_intros(1) list.set_map)
  then have "t0 = sum_created_at c" using only by (auto simp: visible_def)
  then show ?thesis using b fresh q(2) by (auto simp: list_ex_iff visible_def in_period_of_def)
qed

lemma rollup_sources_skip:
  assumes run: "rollup_sources r sc lvl sl per pers t = (Inr (old, sources), u)"
    and t: "session t = Some (sc, sc)" and ids: "distinct (map sum_id (summaries (db t)))" "[] \<notin> sum_id ` set (summaries (db t))"
    and some: "current_in (db t) sc lvl per \<noteq> []"
    and fresh: "\<forall>c \<in> set (current_in (db t) sc lvl per). \<forall>x \<in> set (summaries (db t)).
       in_period_of sc sl pers x \<and> sum_supersedes x = None \<longrightarrow> sum_created_at x \<le> sum_created_at c"
  shows "sources = []"
proof -
  obtain c cs where n: "newest (current_in (db t) sc lvl per) = c # cs" using some newest_in(2) by (metis neq_Nil_conv)
  then have c: "c \<in> set (current_in (db t) sc lvl per)" by (rule newest_in(1))
  then have cd: "c \<in> set (summaries (db t))" "sum_scope c = sc" by (auto simp: current_in_def same_period_def)
  have "sum_id c \<noteq> []" using ids(2) cd(1) by force
  obtain old' t1 where 1: "currentSummaryID sc lvl per t = (Inr old', t1)"
    "bindM (if old' = [] then retM True else rollupIsStale sc old' sl pers) (\<lambda>due.
       if due then bindM (loadSummaries r sc sl pers) (\<lambda>sources. retM (old', sources)) else retM (old', [])) t1 = (Inr (old, sources), u)"
    using bind_success [OF run [unfolded rollup_sources_def]] by blast
  have old: "old' = sum_id c" "t1 = tick t"
    using 1(1) n unfolding currentSummaryID_def current_rows [OF t]
    by (auto dest!: bind_success query_success simp: retM_def current_rows [OF t])
  obtain due t2 where 2: "rollupIsStale sc (sum_id c) sl pers t1 = (Inr due, t2)"
    "(if due then bindM (loadSummaries r sc sl pers) (\<lambda>sources. retM (old', sources)) else retM (old', [])) t2 = (Inr (old, sources), u)"
    using bind_success [OF 1(2)] old \<open>sum_id c \<noteq> []\<close> by auto
  have "\<not> due" using stale_rows [OF _ _ _ _ _ 2(1)] ids(1) cd t fresh c old(2) by simp
  then show ?thesis using 2(2) by (simp add: retM_def)
qed


text \<open>A week whose rollup was made at time 10 from a day that has been corrected at time 20.\<close>

definition corrected_week :: database where
  "corrected_week = (let day = hd (summaries (sample_db 1 [1] []))
     in (sample_db 1 [1] [])\<lparr>summaries := [day, day\<lparr>sum_id := ''su_2'', sum_supersedes := Some ''su_1'', sum_created_at := 20\<rparr>,
          day\<lparr>sum_id := ''su_w'', sum_level := ''weekly'', sum_period := ''2026-W01'', sum_source_summary_periods := [''2026-01-01''],
              sum_created_at := 10\<rparr>]\<rparr>)"


section \<open>Refused corrections\<close>



end
