(* ===== verification/Versions.thy ===== *)
theory Versions
  imports Runner_Correct Rollups
begin

text \<open>
  Versions of a summary: the versions of one period of one scope form a single chain in which each
  supersedes its predecessor and exactly one is current. Every operation of the runner keeps
  that, through faults, retries and the cascades it starts.
\<close>

declare One_nat_def [simp del]

section \<open>Chains\<close>

type_synonym period_key = "scope \<times> string \<times> string"
type_synonym 'k version = "string \<times> 'k \<times> string option"

definition chain :: "database \<Rightarrow> period_key version list" where
  "chain d = map (\<lambda>s. (sum_id s, (sum_scope s, sum_level s, sum_period s), sum_supersedes s)) (summaries d)"

definition targets :: "'k version list \<Rightarrow> string set" where
  "targets vs = {old. \<exists>n k. (n, k, Some old) \<in> set vs}"

definition current_ids :: "'k version list \<Rightarrow> 'k \<Rightarrow> string set" where
  "current_ids vs k = {c. (\<exists>s. (c, k, s) \<in> set vs) \<and> c \<notin> targets vs}"

text \<open>Ids are unique and not empty; a version supersedes an older one of the same period, which no
  other version supersedes; and a period with versions has exactly one that is current.\<close>

definition linear_versions :: "'k version list \<Rightarrow> bool" where
  "linear_versions vs \<longleftrightarrow> distinct (map fst vs) \<and> [] \<notin> fst ` set vs
     \<and> (\<forall>n k old. (n, k, Some old) \<in> set vs \<longrightarrow> (\<exists>s. (old, k, s) \<in> set vs))
     \<and> (\<forall>n n' k k' old. (n, k, Some old) \<in> set vs \<longrightarrow> (n', k', Some old) \<in> set vs \<longrightarrow> n = n')
     \<and> (\<forall>n k s. (n, k, s) \<in> set vs \<longrightarrow> (\<exists>c. current_ids vs k = {c}))"

text \<open>What a new version may name as its predecessor: the current version, or nothing when there is
  none.\<close>

definition fits :: "'k version list \<Rightarrow> 'k \<Rightarrow> string \<Rightarrow> bool" where
  "fits vs k old \<longleftrightarrow> (old = [] \<and> (\<forall>n s. (n, k, s) \<notin> set vs))
     \<or> (old \<noteq> [] \<and> old \<in> current_ids vs k)"

lemma linear_versionsD:
  assumes "linear_versions vs"
  shows "distinct (map fst vs)" "[] \<notin> fst ` set vs" "(n, k, Some old) \<in> set vs \<Longrightarrow> \<exists>s. (old, k, s) \<in> set vs"
    "(n, k, s) \<in> set vs \<Longrightarrow> \<exists>c. current_ids vs k = {c}"
proof -
  have d: "distinct (map fst vs)" "[] \<notin> fst ` set vs"
    and o: "\<forall>n k old. (n, k, Some old) \<in> set vs \<longrightarrow> (\<exists>s. (old, k, s) \<in> set vs)"
    and c: "\<forall>n k s. (n, k, s) \<in> set vs \<longrightarrow> (\<exists>c. current_ids vs k = {c})"
    using assms unfolding linear_versions_def by simp_all
  show "distinct (map fst vs)" "[] \<notin> fst ` set vs" by (rule d)+
  show "(n, k, Some old) \<in> set vs \<Longrightarrow> \<exists>s. (old, k, s) \<in> set vs" using o by blast
  show "(n, k, s) \<in> set vs \<Longrightarrow> \<exists>c. current_ids vs k = {c}" using c by blast
qed

lemma version_nonempty: "linear_versions vs \<Longrightarrow> (n, k, s) \<in> set vs \<Longrightarrow> n \<noteq> []"
  using linear_versionsD(2) [of vs] image_eqI [of n fst "(n, k, s)" "set vs"] by fastforce

lemma current_idsD: "c \<in> current_ids vs k \<Longrightarrow> (\<exists>s. (c, k, s) \<in> set vs) \<and> c \<notin> targets vs"
  by (simp add: current_ids_def)

lemma version_unique: "linear_versions vs \<Longrightarrow> (n, k, s) \<in> set vs \<Longrightarrow> (n, k', s') \<in> set vs \<Longrightarrow> k = k' \<and> s = s'"
  unfolding linear_versions_def using eq_key_imp_eq_value [of vs n "(k, s)" "(k', s')"] by simp

lemma fresh_not_target:
  assumes "linear_versions vs" "sid \<notin> fst ` set vs"
  shows "sid \<notin> targets vs"
proof
  assume "sid \<in> targets vs"
  then obtain n k where "(n, k, Some sid) \<in> set vs" by (auto simp: targets_def)
  then obtain s where "(sid, k, s) \<in> set vs" using linear_versionsD(3) [OF assms(1)] by blast
  then have "sid \<in> fst ` set vs" by (metis fst_conv image_eqI)
  then show False using assms(2) by simp
qed

lemma linear_snocI:
  assumes lin: "linear_versions vs" and sid: "sid \<noteq> []" "sid \<notin> fst ` set vs"
    and cur: "\<And>k'. current_ids (vs @ [(sid, k, old)]) k' = (if k' = k then {sid} else current_ids vs k')"
    and old: "\<And>x. old = Some x \<Longrightarrow> x \<notin> targets vs \<and> (\<exists>s. (x, k, s) \<in> set vs)"
  shows "linear_versions (vs @ [(sid, k, old)])" (is "linear_versions ?ws")
proof -
  have mem: "v \<in> set ?ws \<longleftrightarrow> v \<in> set vs \<or> v = (sid, k, old)" for v by auto
  have "n = n'" if n: "(n, k1, Some x) \<in> set ?ws" "(n', k2, Some x) \<in> set ?ws" for n n' k1 k2 x
  proof (cases "x \<in> targets vs")
    case True
    then have "old \<noteq> Some x" using old by blast
    then have "(n, k1, Some x) \<in> set vs" "(n', k2, Some x) \<in> set vs" using n by auto
    then show ?thesis using lin unfolding linear_versions_def by blast
  next
    case False
    then have "(n0, k0, Some x) \<notin> set vs" for n0 k0 unfolding targets_def by blast
    then show ?thesis using n by auto
  qed
  moreover have "\<exists>s. (x, k1, s) \<in> set ?ws" if "(n, k1, Some x) \<in> set ?ws" for n k1 x
    using that old [of x] lin unfolding mem linear_versions_def prod.inject by metis
  moreover have "\<exists>c. current_ids ?ws k' = {c}" if "(n, k', s) \<in> set ?ws" for n k' s
    using that lin unfolding cur mem linear_versions_def prod.inject by metis
  moreover have "distinct (map fst ?ws)" "[] \<notin> fst ` set ?ws" using lin sid unfolding linear_versions_def by auto
  ultimately show ?thesis unfolding linear_versions_def by blast
qed

lemma linear_snoc:
  assumes lin: "linear_versions vs" and fit: "fits vs k old" and sid: "sid \<noteq> []" "sid \<notin> fst ` set vs"
  shows "linear_versions (vs @ [(sid, k, Nullable old)])" (is "linear_versions ?ws")
proof (cases "old = []")
  case True
  then have k: "\<And>n s. (n, k, s) \<notin> set vs" using fit by (simp add: fits_def)
  have N: "Nullable old = None" using True by (simp add: Nullable_def)
  have t: "targets ?ws = targets vs" by (auto simp: targets_def N)
  have "sid \<notin> targets vs" by (rule fresh_not_target [OF lin sid(2)])
  then have "current_ids ?ws k' = (if k' = k then {sid} else current_ids vs k')" for k'
    using k unfolding current_ids_def t by auto
  then show ?thesis by (rule linear_snocI [OF lin sid]) (simp add: N)
next
  case False
  then have old: "old \<in> current_ids vs k" using fit by (simp add: fits_def)
  then obtain so where so: "(old, k, so) \<in> set vs" "old \<notin> targets vs" by (auto simp: current_ids_def)
  have N: "Nullable old = Some old" using False by (simp add: Nullable_def)
  have t: "targets ?ws = insert old (targets vs)" by (auto simp: targets_def N)
  have fresh: "sid \<notin> targets vs" by (rule fresh_not_target [OF lin sid(2)])
  have one: "current_ids vs k = {old}" using linear_versionsD(4) [OF lin so(1)] old by (metis singletonD)
  have "sid \<noteq> old" using sid(2) image_eqI [of old fst, OF _ so(1)] by auto
  have "current_ids ?ws k' = (if k' = k then {sid} else current_ids vs k')" for k'
  proof (cases "k' = k")
    case True
    have "c = sid" if c: "c \<in> current_ids ?ws k" for c
    proof (rule ccontr)
      assume "c \<noteq> sid"
      then have "c \<in> current_ids vs k" using c unfolding current_ids_def t by auto
      then show False using one c unfolding current_ids_def t by auto
    qed
    moreover have "sid \<in> current_ids ?ws k" using fresh \<open>sid \<noteq> old\<close> unfolding current_ids_def t by auto
    ultimately show ?thesis using True by auto
  next
    case ne: False
    have "c \<noteq> old" if "(c, k', s) \<in> set vs" for c s using version_unique [OF lin so(1)] that ne by blast
    then show ?thesis using ne unfolding current_ids_def t by auto
  qed
  then show ?thesis by (rule linear_snocI [OF lin sid]) (use so N in auto)
qed

section \<open>What the statements do to the chain\<close>

interpretation chain: row_writes "unchanged chain" sc
proof unfold_locales
  show "unchanged chain d (insert_key sc v wrapped d)" for d v wrapped
    by (simp add: unchanged_def chain_def insert_key_def)
  show "unchanged chain d d'" if "insert_key_fact f w d = Some d'" for f w d d'
    using that by (auto simp: unchanged_def chain_def insert_key_fact_def split: if_splits)
  show "unchanged chain d (upsert_entity_row e d)" for e d
    by (simp add: unchanged_def chain_def upsert_entity_row_def Let_def)
  show "unchanged chain d d'" if "close_edges sc a p b t w d = Some d'" for a p b t w d d'
    using that by (auto simp: unchanged_def chain_def close_edges_def Let_def split: if_splits)
  show "unchanged chain d d'" if "insert_edge edge w d = Some d'" for edge w d d'
    using that by (auto simp: unchanged_def chain_def insert_edge_def split: if_splits)
  show "unchanged chain d (d\<lparr>audit_log := audit_log d @ [a]\<rparr>)" for a d by (simp add: unchanged_def chain_def)
  show "unchanged chain d (set_sum_embedding P v model d)" for P v model d
    by (simp add: unchanged_def chain_def set_sum_embedding_def map_update_where)
  show "unchanged chain d (set_ep_embedding Q v model d)" "unchanged chain d (set_en_embedding X v model d)"
    "unchanged chain d (set_kf_embedding F v model d)" "unchanged chain d (upsert_corpus_size c d)" for Q X F v model c d
    by (simp_all add: unchanged_def chain_def set_ep_embedding_def set_en_embedding_def set_kf_embedding_def upsert_corpus_size_def)
qed

text \<open>Storing a summary adds at most one version, with the predecessor it was given.\<close>

definition input_key :: "storeSummaryInput \<Rightarrow> period_key" where
  "input_key i = (in_scope i, in_level i, in_period i)"

definition one_version :: "storeSummaryInput \<Rightarrow> database \<Rightarrow> database \<Rightarrow> bool" where
  "one_version i d d' \<longleftrightarrow> chain d' = chain d
     \<or> (\<exists>sid. sid \<noteq> [] \<and> sid \<notin> fst ` set (chain d) \<and> chain d' = chain d @ [(sid, input_key i, Nullable (in_supersedes i))])"

lemma one_version_insert:
  assumes "insert_summary s w d = Some d'" "sum_id s \<noteq> []" "(sum_scope s, sum_level s, sum_period s) = input_key i"
    "sum_supersedes s = Nullable (in_supersedes i)"
  shows "one_version i d d'"
proof -
  have "d' = d\<lparr>summaries := summaries d @ [s]\<rparr>" "sum_id s \<notin> sum_id ` set (summaries d)"
    using assms(1) by (auto simp: insert_summary_def split: if_splits)
  then have "chain d' = chain d @ [(sum_id s, input_key i, Nullable (in_supersedes i))]" "sum_id s \<notin> fst ` set (chain d)"
    using assms(3,4) by (auto simp: chain_def image_iff)
  then show ?thesis using assms(2) unfolding one_version_def by blast
qed

lemma one_version_before: "unchanged chain d d' \<Longrightarrow> one_version i d' d'' \<Longrightarrow> one_version i d d''"
  by (simp add: unchanged_def one_version_def)

lemma one_version_after: "one_version i d d' \<Longrightarrow> unchanged chain d' d'' \<Longrightarrow> one_version i d d''"
  by (simp add: unchanged_def one_version_def)

lemma one_version_none: "unchanged chain d d' \<Longrightarrow> one_version i d d'"
  by (simp add: unchanged_def one_version_def)

lemma then_one_version:
  assumes "keeps (unchanged chain) sess m" "\<And>x w w'. m w = (Inr x, w') \<Longrightarrow> keeps (one_version i) sess (k x)"
  shows "keeps (one_version i) sess (bindM m k)"
proof (rule keeps_seq [OF assms(1)])
  show "m w = (Inr x, w') \<Longrightarrow> keeps (one_version i) sess (k x)" for x w w' by (rule assms(2))
qed (auto intro: one_version_none one_version_before)

lemma one_version_then:
  assumes "keeps (one_version i) sess m" "\<And>x. keeps (unchanged chain) sess (k x)"
  shows "keeps (one_version i) sess (bindM m k)"
proof (rule keeps_seq [OF assms(1)])
  show "keeps (unchanged chain) sess (k x)" for x by (rule assms(2))
qed (auto intro: one_version_after)

lemma nextSummaryID_nonempty: "nextSummaryID sc lvl per w = (Inr sid, w') \<Longrightarrow> sid \<noteq> []"
  by (auto simp: nextSummaryID_def bindM_def query_def retM_def errM_def summary_id_def split: if_splits)

lemma store_rows_one_version: "keeps (one_version i) sess (store_rows r i gs enc v ct)"
  unfolding store_rows_def Let_def
proof (rule then_one_version [OF unchanged.nextSummaryID], rule one_version_then)
  fix sid w w'
  assume sid: "nextSummaryID (in_scope i) (in_level i) (in_period i) w = (Inr sid, w')"
  show "keeps (one_version i) sess (exec_check (\<lambda>w. insert_summary
      \<lparr>sum_id = sid, sum_scope = in_scope i, sum_period = in_period i,
       sum_level = in_level i, sum_status = ''draft'', sum_vendor = Some (Vendor (run_consolidation r)),
       sum_model = Some (Model (run_consolidation r)), sum_source_episode_ids = in_sourceEpisodeIDs i,
       sum_source_summary_periods = in_sourceSummaryPeriods i, sum_summary = Some ct,
       sum_entities_touched = filter (\<lambda>x. x \<noteq> []) (map eu_ID (touched_entities r (EntitiesTouched (in_output i)))),
       sum_grounding_checked = True,
       sum_supersedes = Nullable (in_supersedes i), sum_correction_reason = Nullable (in_correctionReason i),
       sum_created_at = clock w, sum_key_version = v, sum_embedding = None, sum_embedding_model = None\<rparr> w))"
    using nextSummaryID_nonempty [OF sid]
    by (intro keeps_checked) (simp add: one_version_def, erule one_version_insert, simp_all add: input_key_def)
qed (intro unchanged.combinators chain.store_fact chain.upsertEntities chain.upsertRelationships chain.audit, simp_all)

lemma storeSummary_one_version: "keeps (one_version i) None (storeSummary r i)"
proof -
  have Run: "keeps (one_version i) None (Run (in_scope i) (in_scope i) (store_rows r i gs enc v ct))" for gs enc v ct
    by (rule keeps_transaction [OF _ store_rows_one_version]) (simp add: one_version_def)
  show ?thesis
    unfolding storeSummary_def
    apply (rule then_one_version [OF unchanged.groundingCheck])
    apply (rule then_one_version [OF chain.GetOrCreate])
    apply (simp only: split_paired_all prod.case)
    apply (rule then_one_version [OF unchanged.Encrypt])
    apply (rule one_version_then [OF Run])
     apply (intro unchanged.combinators unchanged.best_effort chain.embedSummary chain.embedEntities chain.embedKeyFacts)
    done
qed

abbreviation versions_ok :: "database \<Rightarrow> bool" where
  "versions_ok d \<equiv> linear_versions (chain d)"

section \<open>What is read before a summary is stored\<close>

lemma chain_mem: "(n, (sc, lvl, per), s) \<in> set (chain d) \<longleftrightarrow>
    (\<exists>x \<in> set (summaries d). sum_id x = n \<and> same_period sc lvl per x \<and> sum_supersedes x = s)"
  by (auto simp: chain_def same_period_def)

lemma current_iff:
  assumes "versions_ok (db w)" "session w = Some (sc, sc)" "x \<in> set (summaries (db w))" "same_period sc lvl per x"
  shows "current w x \<longleftrightarrow> sum_id x \<in> current_ids (chain (db w)) (sc, lvl, per)"
proof -
  have "sum_id x \<in> targets (chain (db w)) \<longleftrightarrow>
      (\<exists>y \<in> set (summaries (db w)). sum_scope y = sc \<and> sum_supersedes y = Some (sum_id x))"
  proof
    assume "sum_id x \<in> targets (chain (db w))"
    then obtain n s l p where n: "(n, (s, l, p), Some (sum_id x)) \<in> set (chain (db w))" by (auto simp: targets_def)
    then obtain z where z: "(sum_id x, (s, l, p), z) \<in> set (chain (db w))" using linear_versionsD(3) [OF assms(1) n] by blast
    have "(sum_id x, (sc, lvl, per), sum_supersedes x) \<in> set (chain (db w))" using assms(3,4) unfolding chain_mem by blast
    then have "s = sc" using version_unique [OF assms(1) z] by blast
    then show "\<exists>y \<in> set (summaries (db w)). sum_scope y = sc \<and> sum_supersedes y = Some (sum_id x)"
      using n unfolding chain_mem same_period_def by blast
  next
    assume "\<exists>y \<in> set (summaries (db w)). sum_scope y = sc \<and> sum_supersedes y = Some (sum_id x)"
    then obtain y where "y \<in> set (summaries (db w))" "sum_supersedes y = Some (sum_id x)" by blast
    then show "sum_id x \<in> targets (chain (db w))" unfolding targets_def chain_def by (simp add: image_iff) (metis prod_cases3)
  qed
  moreover have "\<exists>s. (sum_id x, (sc, lvl, per), s) \<in> set (chain (db w))" using assms(3,4) unfolding chain_mem by blast
  ultimately show ?thesis
    using assms(2) unfolding current_def visible_def current_ids_def
    by (auto simp: list_ex_iff rls_session)
qed

lemma currentSummaryID_fits:
  assumes run: "currentSummaryID sc lvl per w = (Inr old, w')"
    and ok: "versions_ok (db w)" and sess: "session w = Some (sc, sc)"
  shows "fits (chain (db w)) (sc, lvl, per) old"
proof -
  let ?L = "filter (\<lambda>s. same_period sc lvl per s \<and> current w s) (visible w sum_scope (summaries (db w)))"
  have mem: "x \<in> set ?L \<longleftrightarrow> x \<in> set (summaries (db w)) \<and> same_period sc lvl per x
      \<and> sum_id x \<in> current_ids (chain (db w)) (sc, lvl, per)" for x
    using current_iff [OF ok sess] sess by (auto simp: visible_def rls_session same_period_def)
  have res: "old = (case newest ?L of [] \<Rightarrow> [] | x # _ \<Rightarrow> sum_id x)"
    using run unfolding currentSummaryID_def by (auto simp: bindM_def query_def retM_def split: if_splits list.splits)
  show ?thesis
  proof (cases "newest ?L")
    case Nil
    then have "?L = []" by (simp add: newest_in(2))
    then have none: "sum_id x \<notin> current_ids (chain (db w)) (sc, lvl, per)"
      if "x \<in> set (summaries (db w))" "same_period sc lvl per x" for x using mem that by force
    have "(n, (sc, lvl, per), s) \<notin> set (chain (db w))" for n s
    proof
      assume n: "(n, (sc, lvl, per), s) \<in> set (chain (db w))"
      then obtain c where c: "current_ids (chain (db w)) (sc, lvl, per) = {c}" using linear_versionsD(4) [OF ok n] by blast
      then obtain z where "(c, (sc, lvl, per), z) \<in> set (chain (db w))" unfolding current_ids_def by blast
      then show False using none c unfolding chain_mem by blast
    qed
    then show ?thesis using res Nil by (simp add: fits_def)
  next
    case (Cons y ys)
    then have "y \<in> set ?L" by (rule newest_in(1))
    then have y: "y \<in> set (summaries (db w))" "old \<in> current_ids (chain (db w)) (sc, lvl, per)" using mem res Cons by auto
    moreover have "old \<noteq> []"
      using current_idsD [OF y(2)] version_nonempty [OF ok] by blast
    ultimately show ?thesis by (simp add: fits_def)
  qed
qed

lemma chain_read:
  assumes "keeps (unchanged chain) (Some (sc, sc)) m" "m t = (res, u)" "session t = Some (sc, sc)"
  shows "chain (db u) = chain (db t)" "session u = Some (sc, sc)"
  using keepsD [OF assms(1,3,2)] by (simp_all add: unchanged_def)

lemma rollup_sources_fits:
  assumes "Run sc sc (rollup_sources r sc lvl sl per pers) w = (Inr (old, sources), w')" "tx w = None" "versions_ok (db w)"
  shows "versions_ok (db w') \<and> fits (chain (db w')) (sc, lvl, per) old"
proof -
  obtain t u where t: "session t = Some (sc, sc)" "db t = db w" "rollup_sources r sc lvl sl per pers t = (Inr (old, sources), u)" "db w' = db u"
    using Run_success [OF assms(1,2)] by blast
  have "chain (db u) = chain (db t)" by (rule chain_read [OF unchanged.rollup_sources t(3,1)])
  moreover obtain old' t1 where c: "currentSummaryID sc lvl per t = (Inr old', t1)"
    "bindM (if old' = [] then retM True else rollupIsStale sc old' sl pers) (\<lambda>due.
       if due then bindM (loadSummaries r sc sl pers) (\<lambda>sources. retM (old', sources)) else retM (old', [])) t1 = (Inr (old, sources), u)"
    using bind_success [OF t(3) [unfolded rollup_sources_def]] by blast
  moreover have "old = old'"
    using bind_success [OF c(2)] by (auto simp: retM_def dest!: bind_success split: if_splits)
  ultimately show ?thesis using currentSummaryID_fits [OF c(1)] t assms(3) by simp
qed

lemma daily_sources_fits:
  assumes "Run sc sc (daily_sources r sc date per) w = (Inr (sources, old, known), w')" "tx w = None" "versions_ok (db w)"
  shows "versions_ok (db w') \<and> (sources \<noteq> [] \<longrightarrow> fits (chain (db w')) (sc, ''daily'', per) old)"
proof -
  obtain t u where t: "session t = Some (sc, sc)" "db t = db w" "daily_sources r sc date per t = (Inr (sources, old, known), u)" "db w' = db u"
    using Run_success [OF assms(1,2)] by blast
  have cu: "chain (db u) = chain (db t)" by (rule chain_read [OF unchanged.read_only(7) t(3,1)])
  obtain srcs t1 where l: "loadDailyEpisodes r sc date t = (Inr srcs, t1)"
    "(if srcs = [] then retM ([], [], []) else bindM (currentSummaryID sc ''daily'' per) (\<lambda>existing.
       bindM (findKnownEntities r sc (joinSources srcs)) (\<lambda>known. retM (srcs, existing, known)))) t1 = (Inr (sources, old, known), u)"
    using bind_success [OF t(3) [unfolded daily_sources_def]] by blast
  have t1: "chain (db t1) = chain (db t)" "session t1 = Some (sc, sc)"
    using chain_read [OF unchanged.loads(1) l(1) t(1)] by simp_all
  have "fits (chain (db u)) (sc, ''daily'', per) old" if "sources \<noteq> []"
  proof -
    have "srcs \<noteq> []" using l(2) that by (auto simp: retM_def)
    then have "bindM (currentSummaryID sc ''daily'' per) (\<lambda>existing.
       bindM (findKnownEntities r sc (joinSources srcs)) (\<lambda>known. retM (srcs, existing, known))) t1 = (Inr (sources, old, known), u)"
      using l(2) by simp
    from bind_success [OF this] obtain old' t2 where c: "currentSummaryID sc ''daily'' per t1 = (Inr old', t2)"
      "bindM (findKnownEntities r sc (joinSources srcs)) (\<lambda>known. retM (srcs, old', known)) t2 = (Inr (sources, old, known), u)"
      by blast
    have "old = old'" using bind_success [OF c(2)] by (auto simp: retM_def)
    then show ?thesis using currentSummaryID_fits [OF c(1) _ t1(2)] t1(1) cu t(2) assms(3) by simp
  qed
  then show ?thesis using cu t(2,4) assms(3) by simp
qed

lemma load_to_correct_fits:
  assumes "Run sc sc (load_to_correct sc sid) w = (Inr (old, newer), w')" "tx w = None" "versions_ok (db w)"
  shows "versions_ok (db w') \<and> (newer = None \<longrightarrow> fits (chain (db w')) (sc, sum_level old, sum_period old) sid)"
proof -
  obtain t u where t: "session t = Some (sc, sc)" "db t = db w" "load_to_correct sc sid t = (Inr (old, newer), u)" "db w' = db u"
    using Run_success [OF assms(1,2)] by blast
  have cu: "chain (db u) = chain (db t)" by (rule chain_read [OF unchanged.read_only(6) t(3,1)])
  have ok: "versions_ok (db t)" using assms(3) t(2) by simp
  from t(3) have old: "\<exists>xs. find_summary sc sid t = old # xs"
    and newer: "newer = None \<Longrightarrow> filter (\<lambda>s. sum_supersedes s = Some sid \<and> sum_scope s = sc) (visible t sum_scope (summaries (db t))) = []"
    unfolding load_to_correct_def
    by (auto dest!: bind_success query_row_success query_success simp: retM_def visible_def rls_visible_def split: list.splits)
  have o: "old \<in> set (summaries (db t))" "sum_id old = sid" "same_period sc (sum_level old) (sum_period old) old"
  proof -
    have "old \<in> set (find_summary sc sid t)" using old by (metis list.set_intros(1))
    then show "old \<in> set (summaries (db t))" "sum_id old = sid" "same_period sc (sum_level old) (sum_period old) old"
      by (simp_all add: find_summary_def visible_def same_period_def)
  qed
  have "fits (chain (db t)) (sc, sum_level old, sum_period old) sid" if "newer = None"
  proof -
    have "current t old" using newer [OF that] o(2) t(1) unfolding current_def visible_def
      by (auto simp: list_ex_iff filter_empty_conv rls_session)
    then have c: "sid \<in> current_ids (chain (db t)) (sc, sum_level old, sum_period old)"
      using current_iff [OF ok t(1) o(1,3)] o(2) by simp
    then have "\<exists>z. (sid, (sc, sum_level old, sum_period old), z) \<in> set (chain (db t))" by (rule current_idsD [THEN conjunct1])
    then have "sid \<noteq> []" using version_nonempty [OF ok] by fast
    then show ?thesis using c by (simp add: fits_def)
  qed
  then show ?thesis using cu t(2,4) assms(3) by simp
qed

section \<open>The operations\<close>

text \<open>What the step that stores the summary is given and what it has to keep.\<close>

definition keeps_linear :: "period_key \<Rightarrow> string \<Rightarrow> database \<Rightarrow> database \<Rightarrow> bool" where
  "keeps_linear k old d d' \<longleftrightarrow> (versions_ok d \<longrightarrow> fits (chain d) k old \<longrightarrow> versions_ok d')"

lemma chain_then:
  assumes "keeps (unchanged chain) None m" "\<And>x. keeps (keeps_linear k old) None (f x)"
  shows "keeps (keeps_linear k old) None (bindM m f)"
proof (rule keeps_seq [OF assms(1)])
  show "keeps (keeps_linear k old) None (f x)" for x by (rule assms(2))
qed (auto simp: unchanged_def keeps_linear_def)

lemma then_linear:
  assumes "keeps (keeps_linear k old) None m" "\<And>x. keeps (preserved versions_ok) None (f x)"
  shows "keeps (keeps_linear k old) None (bindM m f)"
proof (rule keeps_seq [OF assms(1)])
  show "keeps (preserved versions_ok) None (f x)" for x by (rule assms(2))
qed (auto simp: preserved_def keeps_linear_def)

lemma keeps_linear_weaken: "keeps (preserved versions_ok) None m \<Longrightarrow> keeps (keeps_linear k old) None m"
  by (erule keeps_mono) (simp add: preserved_def keeps_linear_def)

lemma storeSummary_linear:
  "input_key i = k \<Longrightarrow> in_supersedes i = old \<Longrightarrow> keeps (keeps_linear k old) None (storeSummary r i)"
  by (rule keeps_mono [OF storeSummary_one_version]) (auto simp: one_version_def keeps_linear_def intro: linear_snoc)

text \<open>Reading in a transaction and then storing.\<close>

lemma read_then_store:
  assumes "keeps (preserved versions_ok) (Some (sc, sc)) m"
    and "\<And>w x w'. Run sc sc m w = (Inr x, w') \<Longrightarrow> tx w = None \<Longrightarrow> versions_ok (db w) \<Longrightarrow>
           versions_ok (db w') \<and> (P x \<longrightarrow> fits (chain (db w')) (k x) (old x))"
    and "\<And>x. P x \<Longrightarrow> keeps (keeps_linear (k x) (old x)) None (f x)"
    and "\<And>x. \<not> P x \<Longrightarrow> keeps (preserved versions_ok) None (f x)"
  shows "keeps (preserved versions_ok) None (bindM (Run sc sc m) f)"
  unfolding preserved_def
proof (rule preserved_seq [where J = "\<lambda>x d. versions_ok d \<and> (P x \<longrightarrow> fits (chain d) (k x) (old x))"], goal_cases)
  case 1
  then show ?case using preserved.transaction [OF assms(1)] unfolding preserved_def .
next
  case (2 w x w')
  then show ?case using assms(2) by blast
next
  case (3 x)
  then show ?case
    using assms(3,4) [of x] by (cases "P x") (auto simp: keeps_linear_def preserved_def elim!: keeps_mono)
qed

lemma run_rollup_linear:
  assumes "\<And>l p. keeps (preserved versions_ok) None (refresh l p)"
  shows "keeps (preserved versions_ok) None (run_rollup refresh r sc lvl sl per pers)"
  unfolding run_rollup_def
proof (rule read_then_store [where P = "\<lambda>(old, sources). sources \<noteq> []" and k = "\<lambda>_. (sc, lvl, per)" and old = fst], goal_cases)
  case 1
  then show ?case by (rule preserved.rollup_sources)
next
  case (2 w x w')
  then show ?case using rollup_sources_fits by (cases x) simp
next
  case (3 x)
  then show ?case
    by (cases x) (simp split del: if_split, rule chain_then [OF unchanged.generateSummary],
      rule then_linear [OF storeSummary_linear assms], simp_all add: input_key_def)
next
  case (4 x)
  then show ?case by (cases x) (simp add: preserved.ret)
qed

lemma refresh_linear: "keeps (preserved versions_ok) None (refreshRollupsCovering r sc lvl per)"
proof -
  have "keeps (preserved versions_ok) None (refresh_levels n r sc lvl per)" for n
    by (induction n arbitrary: lvl per)
      (auto intro!: preserved.combinators preserved.covering_rollups preserved.best_effort run_rollup_linear)
  then show ?thesis by (simp add: refreshRollupsCovering_def)
qed

lemma Correct_linear: "keeps (preserved versions_ok) None (Correct r sc sid out reason actor extra)"
proof (cases "reason = []")
  case True
  then show ?thesis by (simp add: Correct_def preserved.err)
next
  case False
  have "keeps (preserved versions_ok) None (bindM (Run sc sc (load_to_correct sc sid)) f)"
    if "\<And>old. keeps (keeps_linear (sc, sum_level old, sum_period old) sid) None (f (old, None))"
      "\<And>old n. keeps (preserved versions_ok) None (f (old, Some n))" for f
  proof (rule read_then_store [where P = "\<lambda>(old, newer). newer = None"
        and k = "\<lambda>(old, _). (sc, sum_level old, sum_period old)" and old = "\<lambda>_. sid"], goal_cases)
    case 1
    then show ?case by (rule preserved.read_only)
  next
    case (2 w x w')
    then show ?case using load_to_correct_fits by (cases x) simp
  next
    case (3 x)
    then show ?case using that by (cases x) simp
  next
    case (4 x)
    then show ?case using that by (cases x) auto
  qed
  note read = this
  show ?thesis unfolding Correct_def if_not_P [OF False]
  proof (rule read, goal_cases)
    case (1 old)
    show ?case
      by (simp only: prod.case option.case, rule chain_then [OF unchanged.load_sources], rule storeSummary_linear)
        (simp_all add: input_key_def)
  next
    case (2 old n)
    show ?case by (simp add: preserved.err)
  qed
qed

lemma checkCrossPeriodContradictions_linear:
  "keeps (preserved versions_ok) None (checkCrossPeriodContradictions r sc sid per es)"
  unfolding checkCrossPeriodContradictions_def checkOneRelatedSummary_def correct_related_def chat_def Let_def
  by (intro preserved.combinators preserved.best_effort preserved.read_only preserved.CurrentContent Correct_linear refresh_linear)

lemma unchanged_linear: "keeps (unchanged chain) sess m \<Longrightarrow> keeps (preserved versions_ok) sess m"
  by (erule keeps_mono) (simp add: unchanged_def preserved_def)

lemma after_daily_linear: "keeps (preserved versions_ok) None (after_daily r sc date per)"
  unfolding after_daily_def
  by (intro preserved.combinators preserved.best_effort refresh_linear checkCrossPeriodContradictions_linear preserved.read_only
      unchanged_linear [OF chain.embedHighImportanceEpisodes] unchanged_linear [OF chain.embedEntities]
      unchanged_linear [OF chain.updateScopeCorpusSize])

lemma RunDaily_linear: "keeps (preserved versions_ok) None (RunDaily r sc date)"
  unfolding RunDaily_def Let_def
proof (rule read_then_store [where P = "\<lambda>(sources, _, _). sources \<noteq> []"
      and k = "\<lambda>_. (sc, ''daily'', format_date (day_of date))" and old = "\<lambda>(_, old, _). old"], goal_cases)
  case 1
  then show ?case by (rule preserved.read_only)
next
  case (2 w x w')
  then show ?case using daily_sources_fits by (cases x) simp
next
  case (3 x)
  then obtain sources old known where x: "x = (sources, old, known)" "sources \<noteq> []" by (cases x) auto
  show ?case
    unfolding x(1) prod.case if_not_P [OF x(2)]
    by (rule chain_then, rule unchanged.if_else [OF unchanged.transaction [OF unchanged.loads(3)] unchanged.ret],
        rule chain_then [OF unchanged.generateDailySummary], rule then_linear [OF storeSummary_linear after_daily_linear])
      (simp_all add: input_key_def)
next
  case (4 x)
  then show ?case by (cases x) (simp add: preserved.ret)
qed

lemma perform_linear: "keeps (preserved versions_ok) None (perform r sc op)"
proof (cases op)
  case (Rollup lvl sl per pers)
  then show ?thesis unfolding perform_def RunRollup_def by (simp add: run_rollup_linear refresh_linear)
qed (simp_all add: perform_def RunDaily_linear Correct_linear)

text \<open>
  C5. Versions stay linear. Whatever the models answer and whatever statement or commit fails, a
  daily run, a rollup or a correction (with the cascade of rollups and automatic corrections it
  starts) leaves every period of every scope with versions that form one chain: unique ids, each
  version superseding one older version of the same period that nothing else supersedes, and
  exactly one current version.\<close>

theorem versions_stay_linear:
  assumes "perform r sc op w = (res, w')" "tx w = None" "linear_versions (chain (db w))"
  shows "linear_versions (chain (db w'))"
  using keepsD [OF perform_linear _ assms(1)] assms(2,3) by (simp add: preserved_def)

theorem versions_stay_linear_witness:
  "\<exists>res w'. perform sample_runner DefaultScope (Daily 5) (sample_world 1 [1] []) = (res, w')
     \<and> tx (sample_world 1 [1] []) = None \<and> chain (db (sample_world 1 [1] [])) \<noteq> []
     \<and> linear_versions (chain (db (sample_world 1 [1] []))) \<and> linear_versions (chain (db w'))"
proof -
  obtain res w' where run: "perform sample_runner DefaultScope (Daily 5) (sample_world 1 [1] []) = (res, w')"
    by fastforce
  have c: "chain (db (sample_world 1 [1] [])) = [(''su_1'', (DefaultScope, ''daily'', ''2026-01-01''), None)]"
    by (simp add: chain_def sample_world_simps sample_db_def)
  have lin: "linear_versions (chain (db (sample_world 1 [1] [])))"
    unfolding c linear_versions_def current_ids_def targets_def by auto
  show ?thesis using run versions_stay_linear [OF run _ lin] lin c by (simp add: sample_world_simps)
qed

end
