(* ===== verification/Cluster_Correct.thy ===== *)
theory Cluster_Correct
  imports Cluster "HOL-Library.Multiset"
begin

text \<open>
  Topic clustering is a partition: every source is in exactly one cluster, similar sources share
  one, and as long as the cap does not bind the clusters are the connected components of the
  similarity graph. The union-find forest is related to its equivalence by the inductive
  predicate \<open>rooted\<close>.
\<close>

declare One_nat_def [simp del]

section \<open>The forest\<close>

inductive rooted :: "nat list \<Rightarrow> nat \<Rightarrow> nat \<Rightarrow> bool" for p where
  root: "p ! i = i \<Longrightarrow> rooted p i i"
| step: "p ! i \<noteq> i \<Longrightarrow> rooted p (p ! i) r \<Longrightarrow> rooted p i r"

inductive_cases rootedE: "rooted p i r"

lemma rooted_unique: "rooted p i r \<Longrightarrow> rooted p i s \<Longrightarrow> r = s"
  by (induction rule: rooted.induct) (auto elim: rootedE)

lemma rooted_root: "rooted p i r \<Longrightarrow> p ! r = r"
  by (induction rule: rooted.induct) auto

text \<open>A forest: parents in range, and a rank that falls along parents.\<close>

definition forest :: "nat list \<Rightarrow> (nat \<Rightarrow> nat) \<Rightarrow> bool" where
  "forest p rk \<longleftrightarrow> (\<forall>i < length p. p ! i < length p \<and> (p ! i \<noteq> i \<longrightarrow> rk (p ! i) < rk i))"

lemma forest_rooted: "forest p rk \<Longrightarrow> i < length p \<Longrightarrow> \<exists>r < length p. rooted p i r"
proof (induction "rk i" arbitrary: i rule: less_induct)
  case less
  show ?case
  proof (cases "p ! i = i")
    case True
    then show ?thesis using less.prems rooted.root by blast
  next
    case False
    then have "rk (p ! i) < rk i" "p ! i < length p" using less.prems by (auto simp: forest_def)
    then obtain r where "r < length p" "rooted p (p ! i) r" using less by blast
    then show ?thesis using rooted.step [OF False] by blast
  qed
qed

definition same_roots :: "nat list \<Rightarrow> nat list \<Rightarrow> bool" where
  "same_roots p q \<longleftrightarrow> length q = length p \<and> (\<forall>k < length p. \<forall>r. rooted q k r = rooted p k r)"

lemma same_rootsI:
  assumes "forest p rk" "length q = length p" "\<And>k r. k < length p \<Longrightarrow> rooted p k r \<Longrightarrow> rooted q k r"
  shows "same_roots p q"
proof -
  have "rooted p k r" if "k < length p" "rooted q k r" for k r
  proof -
    have "\<exists>s. rooted p k s" using forest_rooted [OF assms(1) that(1)] by blast
    then show ?thesis using assms(3) [OF that(1)] rooted_unique that(2) by blast
  qed
  then show ?thesis using assms(2,3) by (auto simp: same_roots_def)
qed

text \<open>Path halving keeps the forest and its roots.\<close>

lemma halving:
  assumes f: "forest p rk" and i: "i < length p" "p ! i \<noteq> i"
  defines "q \<equiv> p[i := p ! (p ! i)]"
  shows "forest q rk" "same_roots p q" "rk (q ! i) < rk i" "q ! i < length p"
proof -
  let ?g = "p ! (p ! i)"
  have b: "p ! i < length p" "rk (p ! i) < rk i" using f i by (auto simp: forest_def)
  have g: "?g < length p" "?g \<noteq> p ! i \<Longrightarrow> rk ?g < rk (p ! i)" using f b(1) by (auto simp: forest_def)
  have gi: "rk ?g < rk i" using g(2) b(2) by (cases "?g = p ! i") auto
  have qi: "q ! i = ?g" "\<And>k. k \<noteq> i \<Longrightarrow> q ! k = p ! k" using i(1) by (simp_all add: q_def)
  show "rk (q ! i) < rk i" "q ! i < length p" using gi g(1) by (simp_all add: qi)
  show "forest q rk"
    unfolding forest_def
  proof (intro allI impI)
    fix k
    assume "k < length q"
    then have k: "k < length p" by (simp add: q_def)
    show "q ! k < length q \<and> (q ! k \<noteq> k \<longrightarrow> rk (q ! k) < rk k)"
      using f k g(1) gi qi by (cases "k = i") (simp_all add: forest_def q_def)
  qed
  have "rooted q k r" if "rooted p k r" for k r
    using that
  proof (induction rule: rooted.induct)
    case (root k)
    then show ?case using i(2) qi(2) by (metis rooted.root)
  next
    case (step k r)
    show ?case
    proof (cases "k = i")
      case False
      then show ?thesis using step qi(2) by (metis rooted.step)
    next
      case True
      have ne: "q ! i \<noteq> i" using gi qi(1) by auto
      have "rooted q ?g r"
      proof (cases "?g = p ! i")
        case False
        have "q ! (p ! i) = ?g" using i(2) qi(2) by simp
        then show ?thesis using step.IH True False by (auto elim: rootedE)
      next
        case True
        then show ?thesis using step.IH \<open>k = i\<close> by simp
      qed
      then show ?thesis using rooted.step [OF ne] qi(1) True by simp
    qed
  qed
  then show "same_roots p q" by (intro same_rootsI [OF f]) (simp_all add: q_def)
qed

lemma find_root_ok:
  assumes "forest p rk" "i < length p"
  shows "\<exists>r q. find_root p i = Some (r, q) \<and> forest q rk \<and> same_roots p q \<and> rooted p i r"
  using assms
proof (induction "rk i" arbitrary: p i rule: less_induct)
  case less
  show ?case
  proof (cases "p ! i = i")
    case True
    then show ?thesis using less.prems rooted.root by (auto simp: find_root.simps same_roots_def)
  next
    case False
    let ?q = "p[i := p ! (p ! i)]"
    note h = halving [OF less.prems False]
    obtain r q where q: "find_root ?q (?q ! i) = Some (r, q)" "forest q rk" "same_roots ?q q" "rooted ?q (?q ! i) r"
      using less.hyps [OF h(3) h(1)] h(4) by auto
    have "?q ! i \<noteq> i" using h(3) by auto
    then have "rooted ?q i r" using q(4) rooted.step by blast
    then have "rooted p i r" "same_roots p q" using h(2) q(3) less.prems(2) by (auto simp: same_roots_def)
    then show ?thesis using q False by (subst find_root.simps) (simp add: Let_def)
  qed
qed

definition joined :: "nat list \<Rightarrow> nat \<Rightarrow> nat \<Rightarrow> bool" where
  "joined p i j \<longleftrightarrow> (\<exists>r. rooted p i r \<and> rooted p j r)"

lemma joined_iff: "rooted p k s \<Longrightarrow> rooted p l t \<Longrightarrow> joined p k l \<longleftrightarrow> s = t"
  using rooted_unique unfolding joined_def by metis

text \<open>Linking two roots joins exactly their classes.\<close>

lemma link_roots:
  assumes f: "forest p rk" and a: "p ! a = a" "a < length p" and b: "p ! b = b" "b < length p" "a \<noteq> b"
  defines "q \<equiv> p[a := b]"
  shows "\<exists>rk'. forest q rk'" "k < length p \<Longrightarrow> rooted q k r \<longleftrightarrow> (if r = a then False else rooted p k r \<or> (r = b \<and> rooted p k a))"
proof -
  have q: "q ! a = b" "\<And>k. k \<noteq> a \<Longrightarrow> q ! k = p ! k" using a(2) by (simp_all add: q_def)
  have "forest q (\<lambda>k. if rooted p k a then rk k + rk b + 1 else rk k)"
    unfolding forest_def
  proof (intro allI impI conjI)
    fix k
    assume k: "k < length q"
    then show "q ! k < length q" using f b(2) q by (cases "k = a") (auto simp: forest_def q_def nth_list_update)
    assume ne: "q ! k \<noteq> k"
    have nb: "\<not> rooted p b a" using b rooted_unique [OF rooted.root [of p b]] by auto
    show "(if rooted p (q ! k) a then rk (q ! k) + rk b + 1 else rk (q ! k)) < (if rooted p k a then rk k + rk b + 1 else rk k)"
    proof (cases "k = a")
      case True
      then show ?thesis using q(1) nb rooted.root [OF a(1)] by simp
    next
      case False
      then have e: "q ! k = p ! k" "p ! k \<noteq> k" "rk (p ! k) < rk k" using q ne f k by (auto simp: forest_def q_def)
      have "rooted p (p ! k) a \<longleftrightarrow> rooted p k a" using e(2) rooted.step rootedE by metis
      then show ?thesis using e by simp
    qed
  qed
  then show "\<exists>rk'. forest q rk'" by blast
  have qb: "rooted q b b" using b a q by (intro rooted.root) simp
  have fwd: "rooted q k (if r = a then b else r)" if "rooted p k r" for k r
    using that
  proof (induction rule: rooted.induct)
    case (root k)
    have "rooted q a b" using rooted.step [of q a b] qb q(1) b(3) by simp
    then show ?case using root q by (cases "k = a") (auto intro: rooted.root)
  next
    case (step k r)
    then have "k \<noteq> a" using a(1) by auto
    then show ?case using step q(2) by (metis rooted.step)
  qed
  assume k: "k < length p"
  obtain s where s: "rooted p k s" using forest_rooted [OF f k] by blast
  show "rooted q k r \<longleftrightarrow> (if r = a then False else rooted p k r \<or> (r = b \<and> rooted p k a))"
    using fwd [OF s] s rooted_unique b(3) by (metis (full_types))
qed

lemma union_ok:
  assumes f: "forest p rk" and i: "i < length p" "j < length p"
  shows "\<exists>q rk'. union i j p = Some q \<and> forest q rk' \<and> length q = length p
     \<and> (\<forall>k < length p. \<forall>l < length p. joined q k l \<longleftrightarrow>
          joined p k l \<or> (joined p k i \<and> joined p l j) \<or> (joined p k j \<and> joined p l i))"
proof -
  obtain ra p1 where a: "find_root p i = Some (ra, p1)" "forest p1 rk" "same_roots p p1" "rooted p i ra"
    using find_root_ok [OF f i(1)] by blast
  obtain rb p2 where b: "find_root p1 j = Some (rb, p2)" "forest p2 rk" "same_roots p1 p2" "rooted p1 j rb"
    using find_root_ok [OF a(2), of j] i(2) a(3) by (auto simp: same_roots_def)
  have len: "length p2 = length p" using a(3) b(3) by (simp add: same_roots_def)
  have same: "rooted p2 k r \<longleftrightarrow> rooted p k r" if "k < length p" for k r
    using a(3) b(3) that by (simp add: same_roots_def)
  have j: "rooted p j rb" using b(4) a(3) i(2) by (simp add: same_roots_def)
  have tot: "\<exists>r < length p. rooted p k r" if "k < length p" for k using forest_rooted [OF f that] .
  show ?thesis
  proof (cases "ra = rb")
    case True
    then have "union i j p = Some p2" using a(1) b(1) by (simp add: union_def)
    moreover have "joined p i j" using a(4) j True by (auto simp: joined_def)
    moreover have "joined p2 k l \<longleftrightarrow> joined p k l" if "k < length p" "l < length p" for k l
      using same that by (simp add: joined_def)
    ultimately show ?thesis using b(2) len rooted_unique a(4) j
      by (metis (no_types, lifting) joined_def)
  next
    case False
    have rl: "ra < length p2" "rb < length p2" "p2 ! ra = ra" "p2 ! rb = rb"
      using tot [OF i(1)] tot [OF i(2)] a(4) j rooted_unique len same i rooted_root by metis+
    note L = link_roots [OF b(2) rl(3,1,4,2) False]
    obtain rk' where "forest (p2[ra := rb]) rk'" using L(1) by blast
    moreover have "joined (p2[ra := rb]) k l \<longleftrightarrow>
          joined p k l \<or> (joined p k i \<and> joined p l j) \<or> (joined p k j \<and> joined p l i)"
      if k: "k < length p" "l < length p" for k l
    proof -
      obtain s t where st: "rooted p k s" "rooted p l t" using tot k by blast
      have jn: "joined p k l \<longleftrightarrow> s = t" "joined p k i \<longleftrightarrow> s = ra" "joined p k j \<longleftrightarrow> s = rb"
        "joined p l i \<longleftrightarrow> t = ra" "joined p l j \<longleftrightarrow> t = rb"
        using st a(4) j by (simp_all add: joined_iff)
      have "rooted (p2[ra := rb]) k (if s = ra then rb else s)" "rooted (p2[ra := rb]) l (if t = ra then rb else t)"
        using L(2) same st k len False by auto
      then have "joined (p2[ra := rb]) k l \<longleftrightarrow> (if s = ra then rb else s) = (if t = ra then rb else t)"
        by (rule joined_iff)
      then show ?thesis using jn False by auto
    qed
    ultimately show ?thesis using a(1) b(1) False len by (auto simp: union_def)
  qed
qed

section \<open>Linking every similar pair\<close>

text \<open>The reference: the reflexive transitive closure of similarity.\<close>

definition links :: "(nat \<Rightarrow> nat \<Rightarrow> bool) \<Rightarrow> (nat \<times> nat) list \<Rightarrow> (nat \<times> nat) set" where
  "links similar ps = {(i, j). similar i j \<and> (i, j) \<in> set ps \<or> similar j i \<and> (j, i) \<in> set ps}"

definition classes :: "nat list \<Rightarrow> (nat \<times> nat) set" where
  "classes p = {(k, l). k < length p \<and> l < length p \<and> joined p k l}"

lemma links_Cons [simp]:
  "links similar ((i, j) # ps) = (if similar i j then {(i, j), (j, i)} else {}) \<union> links similar ps"
  by (auto simp: links_def)

lemma links_Nil [simp]: "links similar [] = {}"
  by (simp add: links_def)

lemma joined_refl: "forest p rk \<Longrightarrow> k < length p \<Longrightarrow> joined p k k"
  using forest_rooted unfolding joined_def by blast

lemma joined_sym: "joined p k l \<Longrightarrow> joined p l k"
  by (auto simp: joined_def)

lemma trans_classes: "trans (classes p)"
  by (rule transI) (auto simp: classes_def joined_def dest: rooted_unique)

lemma classes_after_union:
  assumes f: "forest p rk" and i: "i < length p" "j < length p" and l: "length q = length p"
    and q: "\<forall>k < length p. \<forall>l < length p. joined q k l \<longleftrightarrow>
          joined p k l \<or> (joined p k i \<and> joined p l j) \<or> (joined p k j \<and> joined p l i)"
  shows "(classes q \<union> S)\<^sup>* = (classes p \<union> ({(i, j), (j, i)} \<union> S))\<^sup>*"
proof (rule subset_antisym; rule rtrancl_subset_rtrancl)
  have "(k, m) \<in> (classes p \<union> ({(i, j), (j, i)} \<union> S))\<^sup>*" if "(k, m) \<in> classes q" for k m
  proof -
    let ?R = "classes p \<union> ({(i, j), (j, i)} \<union> S)"
    have b: "k < length p" "m < length p" and jq: "joined q k m" using that l by (auto simp: classes_def)
    have c: "(x, y) \<in> ?R\<^sup>*" if "joined p x y" "x < length p" "y < length p" for x y
      using that by (auto simp: classes_def)
    have e: "(i, j) \<in> ?R\<^sup>*" "(j, i) \<in> ?R\<^sup>*" by auto
    consider "joined p k m" | "joined p k i" "joined p j m" | "joined p k j" "joined p i m"
      using q b jq joined_sym by blast
    then show ?thesis
    proof cases
      case 1 then show ?thesis using c b by blast
    next
      case 2 then show ?thesis using c b i e by (meson rtrancl_trans)
    next
      case 3 then show ?thesis using c b i e by (meson rtrancl_trans)
    qed
  qed
  then show "classes q \<union> S \<subseteq> (classes p \<union> ({(i, j), (j, i)} \<union> S))\<^sup>*" by auto
  have "(i, j) \<in> classes q" "(j, i) \<in> classes q"
    using q i l joined_refl [OF f] by (auto simp: classes_def)
  moreover have "classes p \<subseteq> classes q" using q l by (auto simp: classes_def)
  ultimately show "classes p \<union> ({(i, j), (j, i)} \<union> S) \<subseteq> (classes q \<union> S)\<^sup>*" by auto
qed

lemma link_pairs_ok:
  assumes "forest p rk" "\<forall>(i, j) \<in> set ps. i < length p \<and> j < length p"
  shows "\<exists>q rk'. link_pairs similar ps p = Some q \<and> forest q rk' \<and> length q = length p
     \<and> (classes q)\<^sup>* = (classes p \<union> links similar ps)\<^sup>*"
  using assms
proof (induction ps arbitrary: p rk)
  case (Cons ij ps)
  obtain i j where [simp]: "ij = (i, j)" by (cases ij)
  have i: "i < length p" "j < length p" using Cons.prems(2) by auto
  show ?case
  proof (cases "similar i j")
    case False
    then show ?thesis using Cons.IH [OF Cons.prems(1)] Cons.prems(2) by auto
  next
    case True
    obtain q rk' where q: "union i j p = Some q" "forest q rk'" "length q = length p"
      "\<forall>k < length p. \<forall>l < length p. joined q k l \<longleftrightarrow>
          joined p k l \<or> (joined p k i \<and> joined p l j) \<or> (joined p k j \<and> joined p l i)"
      using union_ok [OF Cons.prems(1) i] by blast
    note e = classes_after_union [OF Cons.prems(1) i q(3,4)]
    show ?thesis using Cons.IH [OF q(2)] Cons.prems(2) q(1,3) True e by auto
  qed
qed auto

section \<open>Grouping\<close>

definition grouped :: "nat list \<Rightarrow> (nat \<times> nat list) list \<Rightarrow> bool" where
  "grouped p gs \<longleftrightarrow> distinct (map fst gs) \<and> (\<forall>(rt, idxs) \<in> set gs. idxs \<noteq> [] \<and> (\<forall>i \<in> set idxs. rooted p i rt))"

lemma fst_add_to_group: "set (map fst (add_to_group rt i gs)) = insert rt (set (map fst gs))"
  by (induction rt i gs rule: add_to_group.induct) auto

lemma mset_add_to_group: "mset (concat (map snd (add_to_group rt i gs))) = add_mset i (mset (concat (map snd gs)))"
  by (induction rt i gs rule: add_to_group.induct) auto

lemma grouped_add: "grouped p gs \<Longrightarrow> rooted p i rt \<Longrightarrow> grouped p (add_to_group rt i gs)"
proof (induction rt i gs rule: add_to_group.induct)
  case (2 rt i k idxs gs)
  have "fst ` set (add_to_group rt i gs) = insert rt (fst ` set gs)"
    using fst_add_to_group [of rt i gs] by simp
  then show ?case using 2 by (auto simp: grouped_def)
qed (simp add: grouped_def)

lemma group_by_root_ok:
  assumes "forest p rk" "same_roots p0 p" "set is \<subseteq> {..<length p0}" "grouped p0 gs"
  shows "\<exists>gs'. group_by_root is p gs = Some gs' \<and> grouped p0 gs'
     \<and> mset (concat (map snd gs')) = mset is + mset (concat (map snd gs))"
  using assms
proof (induction "is" arbitrary: p gs)
  case (Cons i "is")
  have i: "i < length p" using Cons.prems(2,3) by (simp add: same_roots_def)
  obtain rt q where q: "find_root p i = Some (rt, q)" "forest q rk" "same_roots p q" "rooted p i rt"
    using find_root_ok [OF Cons.prems(1) i] by blast
  have "same_roots p0 q" "rooted p0 i rt" using Cons.prems(2,3) q(3,4) by (simp_all add: same_roots_def)
  then have "grouped p0 (add_to_group rt i gs)" using grouped_add Cons.prems(4) by blast
  from Cons.IH [OF q(2) \<open>same_roots p0 q\<close> _ this] Cons.prems(3)
  show ?case by (auto simp: q(1) mset_add_to_group)
qed simp

section \<open>Merging down to the cap\<close>

lemma two_positions:
  assumes "bi < bj" "bj < length cs"
  obtains xs a ys b zs where "cs = xs @ a # ys @ b # zs" "length xs = bi" "length ys = bj - bi - 1"
proof -
  have 1: "cs = take bi cs @ cs ! bi # drop (Suc bi) cs" using assms id_take_nth_drop [of bi cs] by simp
  let ?ds = "drop (Suc bi) cs"
  have "bj - bi - 1 < length ?ds" using assms by simp
  from id_take_nth_drop [OF this] 1 show thesis
    using that [of "take bi cs" "cs ! bi" "take (bj - bi - 1) ?ds" "?ds ! (bj - bi - 1)" "drop (Suc (bj - bi - 1)) ?ds"] assms
    by (simp add: min_def)
qed

lemma merge_step:
  assumes "length xs = bi" "length ys = bj - bi - 1" "bi < bj"
  shows "delete_at bj ((xs @ a # ys @ b # zs)[bi := c]) = xs @ c # ys @ zs"
    "(xs @ a # ys @ b # zs) ! bi = a" "(xs @ a # ys @ b # zs) ! bj = b"
proof -
  have "bj = length xs + length ys + 1" using assms by simp
  then show "delete_at bj ((xs @ a # ys @ b # zs)[bi := c]) = xs @ c # ys @ zs"
    "(xs @ a # ys @ b # zs) ! bi = a" "(xs @ a # ys @ b # zs) ! bj = b"
    using assms(1) by (auto simp: delete_at_def nth_append list_update_append nth_Cons' One_nat_def)
qed

definition coarser :: "'a list list \<Rightarrow> 'a list list \<Rightarrow> bool" where
  "coarser cs ds \<longleftrightarrow> mset (concat ds) = mset (concat cs) \<and> ([] \<notin> set cs \<longrightarrow> [] \<notin> set ds)
     \<and> (\<forall>c \<in> set cs. \<exists>d \<in> set ds. set c \<subseteq> set d)"

lemma coarser_trans: "coarser cs ds \<Longrightarrow> coarser ds es \<Longrightarrow> coarser cs es"
  unfolding coarser_def by (metis subset_trans)

lemma merge_clusters_ok:
  assumes "length clusters = length centroids" "cap \<ge> 1"
  shows "coarser clusters (merge_clusters sim cap clusters centroids)
     \<and> length (merge_clusters sim cap clusters centroids) = min cap (length clusters)"
  using assms
proof (induction sim cap clusters centroids rule: merge_clusters.induct)
  case (1 sim cap clusters centroids)
  show ?case
  proof (cases "length clusters \<le> cap")
    case True
    then show ?thesis by (subst (1 2) merge_clusters.simps) (auto simp: coarser_def)
  next
    case False
    obtain bi bj where b: "best_pair sim centroids = (bi, bj)" by force
    let ?ds = "delete_at bj (clusters[bi := clusters ! bi @ clusters ! bj])"
    let ?es = "delete_at bj (centroids[bi := centroidOfVectors [centroids ! bi, centroids ! bj]])"
    have 2: "length clusters \<ge> 2" using False 1(3) by simp
    have r: "bi < bj" "bj < length clusters" using best_pair_range [OF b] 2 1(2) by auto
    obtain xs a ys c zs where s: "clusters = xs @ a # ys @ c # zs" "length xs = bi" "length ys = bj - bi - 1"
      using two_positions [OF r] .
    have d: "?ds = xs @ (a @ c) # ys @ zs" using merge_step [OF s(2,3) r(1), of a c zs] by (simp add: s(1))
    have co: "coarser clusters ?ds" unfolding d by (auto simp: coarser_def s(1))
    have l: "length ?ds = length ?es" "length ?ds = length clusters - 1" using r 1(2) by (auto simp: delete_at_def)
    have st: "merge_clusters sim cap clusters centroids = merge_clusters sim cap ?ds ?es"
      using False 2 1(2) by (subst merge_clusters.simps) (simp add: b)
    have "coarser ?ds (merge_clusters sim cap ?ds ?es) \<and> length (merge_clusters sim cap ?ds ?es) = min cap (length ?ds)"
      using 1(1) [OF _ b [symmetric] refl l(1) 1(3)] False 2 1(2) by simp
    then show ?thesis using coarser_trans [OF co] False l(2) by (simp add: st)
  qed
qed

lemma merge_clusters_map:
  "merge_clusters sim cap (map (map f) clusters) centroids = map (map f) (merge_clusters sim cap clusters centroids)"
proof (induction sim cap clusters centroids rule: merge_clusters.induct)
  case (1 sim cap clusters centroids)
  show ?case
  proof (cases "length clusters \<le> cap \<or> length clusters \<noteq> length centroids \<or> length clusters < 2")
    case True
    then show ?thesis by (subst (1 2) merge_clusters.simps) auto
  next
    case False
    obtain bi bj where b: "best_pair sim centroids = (bi, bj)" by force
    have r: "bi < bj" "bj < length clusters" using best_pair_range [OF b] False by auto
    show ?thesis using 1 [OF False b [symmetric] refl] False r
      by (subst (1 2) merge_clusters.simps)
        (simp add: b delete_at_def take_map drop_map map_update take_update_swap drop_update_swap)
  qed
qed

section \<open>The clusters of a day\<close>

text \<open>The reference: topics are the connected components of the similarity graph.\<close>

definition similarity_graph :: "runner \<Rightarrow> vec list \<Rightarrow> (nat \<times> nat) set" where
  "similarity_graph r vs = {(i, j). i < length vs \<and> j < length vs
     \<and> cosineSimilarity r (vs ! i) (vs ! j) \<ge> clusterSimilarityThreshold}"

definition topic :: "runner \<Rightarrow> vec list \<Rightarrow> nat \<Rightarrow> nat set" where
  "topic r vs i = {j. j < length vs \<and> (i, j) \<in> (similarity_graph r vs)\<^sup>*}"

definition topics :: "runner \<Rightarrow> vec list \<Rightarrow> nat set set" where
  "topics r vs = topic r vs ` {..<length vs}"

lemma dot_commute: "sum_list (map2 (*) a b) = sum_list (map2 (*) b (a :: vec))"
proof (induction a arbitrary: b)
  case (Cons x a)
  then show ?case by (cases b) (auto simp: mult.commute)
qed simp

lemma cosineSimilarity_commute: "cosineSimilarity r a b = cosineSimilarity r b a"
  using dot_commute [of a b] by (auto simp: cosineSimilarity_def Let_def mult.commute)

lemma same_class:
  assumes "(classes q)\<^sup>* = (classes [0..<n] \<union> links (\<lambda>i j. cosineSimilarity r (vs ! i) (vs ! j) \<ge> clusterSimilarityThreshold) (pairs n))\<^sup>*"
    and f: "forest q rk" and q: "length q = n" "length vs = n" and ij: "i < n" "j < n"
  shows "(i, j) \<in> (similarity_graph r vs)\<^sup>* \<longleftrightarrow> joined q i j"
proof -
  let ?sim = "\<lambda>i j. cosineSimilarity r (vs ! i) (vs ! j) \<ge> clusterSimilarityThreshold"
  have l: "links ?sim (pairs n) = similarity_graph r vs - Id"
    using q(2) cosineSimilarity_commute by (auto simp: links_def pairs_set similarity_graph_def)
  have "rooted [0..<n] k s \<longleftrightarrow> s = k" if "k < n" for k s
    using that rooted.root [of "[0..<n]" k] rooted_unique by fastforce
  then have "classes [0..<n] \<subseteq> Id" by (auto simp: classes_def joined_def)
  then have "(classes [0..<n] \<union> links ?sim (pairs n))\<^sup>* = (similarity_graph r vs)\<^sup>*"
    unfolding l by (metis Un_Diff_cancel2 Un_absorb1 Un_commute rtrancl_r_diff_Id rtrancl_reflcl sup_assoc)
  then have e: "(similarity_graph r vs)\<^sup>* = (classes q)\<^sup>*" using assms(1) by simp
  have "(i, j) \<in> (classes q)\<^sup>* \<longleftrightarrow> i = j \<or> (i, j) \<in> classes q"
    using trans_classes [of q] by (metis rtrancl_eq_or_trancl trancl_id)
  then show ?thesis unfolding e using joined_refl [OF f] ij q(1) by (auto simp: classes_def)
qed

lemma distinct_sets: "distinct (concat xss) \<Longrightarrow> [] \<notin> set xss \<Longrightarrow> distinct (map set xss)"
proof (induction xss)
  case (Cons xs xss)
  have "set xs \<noteq> set ys" if "ys \<in> set xss" for ys
    using Cons.prems that by (cases xs) auto
  then show ?case using Cons by auto
qed simp

lemma groups_are_topics:
  assumes g: "grouped q gs" "mset (concat (map snd gs)) = mset [0..<n]"
    and t: "\<And>i j. i < n \<Longrightarrow> j < n \<Longrightarrow> (i, j) \<in> (similarity_graph r vs)\<^sup>* \<longleftrightarrow> joined q i j"
    and n: "length vs = n"
  shows "set ` snd ` set gs = topics r vs" "length gs = card (topics r vs)" "[] \<notin> snd ` set gs"
proof -
  have ne: "[] \<notin> snd ` set gs" using g(1) by (auto simp: grouped_def)
  have elems: "(\<Union>(k, idxs) \<in> set gs. set idxs) = {..<n}"
    using mset_eq_setD [OF g(2)] by (simp add: case_prod_unfold atLeast0LessThan)
  have cl: "topic r vs i = set idxs" if gi: "(k, idxs) \<in> set gs" "i \<in> set idxs" for k idxs i
  proof -
    have i: "i < n" "rooted q i k" using gi elems g(1) by (auto simp: grouped_def)
    have "j \<in> set idxs \<longleftrightarrow> j < n \<and> joined q i j" for j
    proof
      assume "j \<in> set idxs"
      then have "j < n" "rooted q j k" using gi elems g(1) by (auto simp: grouped_def)
      then show "j < n \<and> joined q i j" using i(2) by (auto simp: joined_def)
    next
      assume j: "j < n \<and> joined q i j"
      then have "j \<in> (\<Union>(k, idxs) \<in> set gs. set idxs)" using elems by simp
      then obtain k' idxs' where k': "(k', idxs') \<in> set gs" "j \<in> set idxs'" by auto
      then have "rooted q j k'" using g(1) by (auto simp: grouped_def)
      then have "k' = k" using j i(2) joined_iff by blast
      then have "idxs' = idxs" using k'(1) gi(1) g(1) eq_key_imp_eq_value [of gs k idxs' idxs] by (simp add: grouped_def)
      then show "j \<in> set idxs" using k'(2) by simp
    qed
    then show ?thesis using t i(1) n by (auto simp: topic_def)
  qed
  show s: "set ` snd ` set gs = topics r vs"
  proof (rule subset_antisym)
    show "set ` snd ` set gs \<subseteq> topics r vs"
    proof clarify
      fix k idxs
      assume gi: "(k, idxs) \<in> set gs"
      then obtain i where "i \<in> set idxs" using ne by (cases idxs) force+
      then have "topic r vs i = set idxs" "i < n" using cl gi elems by auto
      then show "set (snd (k, idxs)) \<in> topics r vs" using n by (auto simp: topics_def)
    qed
    show "topics r vs \<subseteq> set ` snd ` set gs"
    proof
      fix t
      assume "t \<in> topics r vs"
      then obtain i where i: "i < n" "t = topic r vs i" using n by (auto simp: topics_def)
      then have "i \<in> (\<Union>(k, idxs) \<in> set gs. set idxs)" using elems by simp
      then obtain k idxs where k: "(k, idxs) \<in> set gs" "i \<in> set idxs" by auto
      then show "t \<in> set ` snd ` set gs" using cl [OF k] i(2) by force
    qed
  qed
  have "distinct (concat (map snd gs))" using mset_eq_imp_distinct_iff [OF g(2)] by simp
  then have "distinct (map set (map snd gs))" using ne by (intro distinct_sets) simp_all
  then show "length gs = card (topics r vs)" using distinct_card s
    by (metis (no_types, lifting) length_map list.set_map)
  show "[] \<notin> snd ` set gs" by (rule ne)
qed

lemma clusterSources_ok:
  assumes n: "length vectors = length sources"
  shows "\<exists>idx. clusterSources r sources vectors = Some (map (map ((!) sources)) idx)
     \<and> mset (concat idx) = mset [0..<length sources] \<and> [] \<notin> set idx
     \<and> length idx = min (maxClustersPerDay r) (card (topics r vectors))
     \<and> (\<forall>t \<in> topics r vectors. \<exists>c \<in> set idx. t \<subseteq> set c)
     \<and> (card (topics r vectors) \<le> maxClustersPerDay r \<longrightarrow> set ` set idx = topics r vectors)"
proof (cases "sources = []")
  case True
  then show ?thesis using n by (intro exI [of _ "[]"]) (simp add: clusterSources_def topics_def)
next
  case False
  let ?n = "length sources" and ?cap = "maxClustersPerDay r"
  let ?sim = "\<lambda>i j. cosineSimilarity r (vectors ! i) (vectors ! j) \<ge> clusterSimilarityThreshold"
  have f0: "forest [0..<?n] (\<lambda>_. 0)" by (simp add: forest_def)
  obtain q rk where q: "link_pairs ?sim (pairs ?n) [0..<?n] = Some q" "forest q rk" "length q = ?n"
    "(classes q)\<^sup>* = (classes [0..<?n] \<union> links ?sim (pairs ?n))\<^sup>*"
    using link_pairs_ok [OF f0, of "pairs ?n" ?sim] by (auto simp: pairs_set)
  obtain gs where gs: "group_by_root [0..<?n] q [] = Some gs" "grouped q gs" "mset (concat (map snd gs)) = mset [0..<?n]"
    using group_by_root_ok [OF q(2), of q "[0..<?n]" "[]"] q(3)
    by (auto simp: grouped_def same_roots_def atLeast0LessThan)
  note T = groups_are_topics [OF gs(2,3) same_class [OF q(4,2,3) n] n]
  let ?idx = "merge_clusters (cosineSimilarity r) ?cap (map snd gs) (map (\<lambda>(_, idxs). centroidOf vectors idxs) gs)"
  have m: "coarser (map snd gs) ?idx" "length ?idx = min ?cap (length gs)"
    using merge_clusters_ok [of "map snd gs" "map (\<lambda>(_, idxs). centroidOf vectors idxs) gs" ?cap "cosineSimilarity r"]
    by (auto simp: maxClustersPerDay_def defaultMaxClustersPerDay_def)
  have "map (\<lambda>(_, idxs). map (\<lambda>i. sources ! i) idxs) gs = map (map ((!) sources)) (map snd gs)" by auto
  then have c: "clusterSources r sources vectors = Some (map (map ((!) sources)) ?idx)"
    using False n by (simp add: clusterSources_def q(1) gs(1) merge_clusters_map del: map_map)
  have cap: "set ` set ?idx = topics r vectors" if "card (topics r vectors) \<le> ?cap"
  proof -
    have "?idx = map snd gs" using that T(2) by (subst merge_clusters.simps) simp
    then show ?thesis using T(1) by simp
  qed
  have fine: "\<forall>t \<in> topics r vectors. \<exists>c \<in> set ?idx. t \<subseteq> set c"
  proof
    fix t
    assume "t \<in> topics r vectors"
    then have "t \<in> set ` snd ` set gs" by (simp add: T(1))
    then obtain g where g: "g \<in> set (map snd gs)" "t = set g" by auto
    then show "\<exists>c \<in> set ?idx. t \<subseteq> set c" using m(1) unfolding coarser_def by blast
  qed
  have all: "mset (concat ?idx) = mset [0..<?n]" using m(1) gs(3) unfolding coarser_def by simp
  have ne: "[] \<notin> set ?idx" using m(1) T(3) unfolding coarser_def by simp
  have len: "length ?idx = min ?cap (card (topics r vectors))" using m(2) T(2) by simp
  show ?thesis using c all ne len fine cap by blast
qed

text \<open>
  Clustering a day is a partition of its sources: it returns, every source is in exactly one
  cluster, no cluster is empty, and there are never more clusters than the configured cap.\<close>

lemma clusterSources_partition:
  assumes "length vectors = length sources"
  shows "\<exists>idx. clusterSources r sources vectors = Some (map (map ((!) sources)) idx)
     \<and> mset (concat idx) = mset [0..<length sources] \<and> [] \<notin> set idx
     \<and> length idx = min (maxClustersPerDay r) (card (topics r vectors))"
  using clusterSources_ok [OF assms, of r] by blast

lemma clusterSources_partition_witness:
  "\<exists>idx. clusterSources sample_runner [''a'', ''b'', ''c''] [[1, 0], [0, 1], [1, 0]] = Some (map (map ((!) [''a'', ''b'', ''c''])) idx)
     \<and> mset (concat idx) = {#0, 1, 2#} \<and> [] \<notin> set idx
     \<and> length idx = min (maxClustersPerDay sample_runner) (card (topics sample_runner [[1, 0], [0, 1], [1, 0]]))"
  using clusterSources_partition [of "[[1, 0], [0, 1], [1, 0]]" "[''a'', ''b'', ''c'']" sample_runner] by (simp add: numeral_2_eq_2 One_nat_def)

text \<open>
  C23. The union-find routine computes connected components: a topic, that is a component of the
  graph of sufficiently similar sources, is never split between two clusters, and when there are
  no more topics than the cap the clusters are exactly the topics.\<close>

theorem clusterSources_topics:
  assumes "length vectors = length sources"
  shows "\<exists>idx. clusterSources r sources vectors = Some (map (map ((!) sources)) idx)
     \<and> (\<forall>t \<in> topics r vectors. \<exists>c \<in> set idx. t \<subseteq> set c)
     \<and> (card (topics r vectors) \<le> maxClustersPerDay r \<longrightarrow> set ` set idx = topics r vectors)"
  using clusterSources_ok [OF assms, of r] by blast

theorem clusterSources_topics_witness:
  "\<exists>idx. clusterSources sample_runner [''a'', ''b'', ''c''] [[1, 0], [0, 1], [1, 0]] = Some (map (map ((!) [''a'', ''b'', ''c''])) idx)
     \<and> (\<forall>t \<in> topics sample_runner [[1, 0], [0, 1], [1, 0]]. \<exists>c \<in> set idx. t \<subseteq> set c)
     \<and> set ` set idx = topics sample_runner [[1, 0], [0, 1], [1, 0]]"
proof -
  have "card (topics sample_runner [[1, 0], [0, 1], [1, 0]]) \<le> card {..<3 :: nat}"
    unfolding topics_def using card_image_le [of "{..<3 :: nat}"] by (simp add: numeral_3_eq_3)
  then have "card (topics sample_runner [[1, 0], [0, 1], [1, 0]]) \<le> maxClustersPerDay sample_runner"
    by (simp add: maxClustersPerDay_def defaultMaxClustersPerDay_def sample_runner_def)
  then show ?thesis
    using clusterSources_topics [of "[[1, 0], [0, 1], [1, 0]]" "[''a'', ''b'', ''c'']" sample_runner] by auto
qed

end
