(* ===== verification/Grounding.thy ===== *)
theory Grounding
  imports Consolidation
begin

text \<open>
  The grounding check fails closed (\<open>internal/consolidation/grounding.go\<close>): whatever the model
  answers, every fact gets exactly one verdict, and a fact is grounded only when the model said so
  for that fact's own number in the batch that holds it.
\<close>

declare One_nat_def [simp del]

definition grounding_request :: "string \<Rightarrow> KeyFactOutput list \<Rightarrow> ChatRequest" where
  "grounding_request src facts = \<lparr>rq_system = GroundingSystemPrompt,
     rq_user = buildGroundingPrompt src facts, rq_max_tokens = None\<rparr>"

text \<open>In the answer to call \<open>n\<close> about \<open>facts\<close> the first verdict for number \<open>i + 1\<close> is positive.\<close>

definition says_grounded :: "runner \<Rightarrow> string \<Rightarrow> KeyFactOutput list \<Rightarrow> nat \<Rightarrow> nat \<Rightarrow> bool" where
  "says_grounded r src facts n i \<longleftrightarrow> (\<exists>content vs. ChatCompletion (run_grounding r) n (grounding_request src facts) = Inr content
     \<and> unmarshal_verdicts r (extractJSON content) = Some vs \<and> map_of vs (int i + 1) = Some True)"

definition batch_of :: "nat \<Rightarrow> 'a list \<Rightarrow> 'a list" where
  "batch_of i xs = take groundingCheckBatchSize (drop (groundingCheckBatchSize * (i div groundingCheckBatchSize)) xs)"

lemma indexVerdicts_map_of:
  "foldl (\<lambda>out (i, ok). if out i = None then out(i \<mapsto> ok) else out) m vs = map_of vs ++ m"
proof (induction vs arbitrary: m)
  case (Cons v vs)
  obtain i ok where [simp]: "v = (i, ok)" by (cases v)
  show ?case
  proof (cases "m i")
    case None
    then show ?thesis by (simp add: Cons) (auto simp: fun_eq_iff map_add_def split: option.splits)
  next
    case (Some b)
    then show ?thesis by (simp add: Cons) (auto simp: fun_eq_iff map_add_def split: option.splits)
  qed
qed simp

lemma attempt_spec:
  assumes "groundingCheckOneAttempt r src facts w = (res, w')"
  shows "w' = w\<lparr>calls := calls w + 1\<rparr>"
    and "res = Inr v \<Longrightarrow> v (int i + 1) = Some True \<Longrightarrow> says_grounded r src facts (calls w) i"
proof -
  have "w' = w\<lparr>calls := calls w + 1\<rparr> \<and> (res = Inr v \<longrightarrow> v (int i + 1) = Some True \<longrightarrow> says_grounded r src facts (calls w) i)"
    using assms unfolding groundingCheckOneAttempt_def says_grounded_def grounding_request_def
    by (auto simp: bindM_def chat_def call_def retM_def indexVerdicts_def indexVerdicts_map_of split: sum.splits option.splits)
  then show "w' = w\<lparr>calls := calls w + 1\<rparr>"
    "res = Inr v \<Longrightarrow> v (int i + 1) = Some True \<Longrightarrow> says_grounded r src facts (calls w) i" by blast+
qed

definition checked :: "runner \<Rightarrow> string \<Rightarrow> (nat \<Rightarrow> KeyFactOutput list) \<Rightarrow> nat \<Rightarrow> world \<Rightarrow> world \<Rightarrow> bool list \<Rightarrow> bool" where
  "checked r src batch len w w' bs \<longleftrightarrow> length bs = len
     \<and> (\<forall>i < len. bs ! i \<longrightarrow> (\<exists>n. calls w \<le> n \<and> n < calls w'
          \<and> says_grounded r src (batch i) n (i mod groundingCheckBatchSize)))"

definition only_calls :: "nat \<Rightarrow> world \<Rightarrow> world \<Rightarrow> bool" where
  "only_calls k w w' \<longleftrightarrow> w' = w\<lparr>calls := calls w'\<rparr> \<and> calls w \<le> calls w' \<and> calls w' \<le> calls w + k"

lemma only_calls_trans: "only_calls j w w1 \<Longrightarrow> only_calls k w1 w' \<Longrightarrow> only_calls (j + k) w w'"
  unfolding only_calls_def by (auto, metis world.surjective world.update_convs(11))

lemma resolve_true: "length (resolve v facts) = length facts"
  "i < length facts \<Longrightarrow> resolve v facts ! i \<longleftrightarrow> v (int i + 1) = Some True"
  by (simp_all add: resolve_def split: option.splits)

lemma one_spec:
  assumes "groundingCheckOne r src facts w = (res, w')" "length facts \<le> groundingCheckBatchSize"
  shows "only_calls 2 w w' \<and> (\<forall>bs. res = Inr bs \<longrightarrow> checked r src (\<lambda>_. facts) (length facts) w w' bs)"
proof -
  obtain r1 w1 where 1: "groundingCheckOneAttempt r src facts w = (r1, w1)" by (cases "groundingCheckOneAttempt r src facts w")
  obtain r2 w2 where 2: "groundingCheckOneAttempt r src facts w1 = (r2, w2)" by (cases "groundingCheckOneAttempt r src facts w1")
  note s1 = attempt_spec [OF 1] and s2 = attempt_spec [OF 2]
  have m: "i mod groundingCheckBatchSize = i" if "i < length facts" for i using that assms(2) by simp
  show ?thesis
  proof (cases r1)
    case (Inl e)
    then show ?thesis using assms(1) 1 s1 by (auto simp: groundingCheckOne_def bindM_def only_calls_def)
  next
    case (Inr v)
    show ?thesis
    proof (cases "complete v (length facts)")
      case True
      then have "res = Inr (resolve v facts)" "w' = w1" using assms(1) 1 Inr by (auto simp: groundingCheckOne_def bindM_def retM_def)
      then show ?thesis using s1(1) s1(2) [OF Inr] m
        by (auto simp: only_calls_def checked_def resolve_true)
    next
      case False
      then have "w' = w2 \<and> res = Inr (resolve (case r2 of Inr v' \<Rightarrow> v' | Inl _ \<Rightarrow> v) facts)"
        using assms(1) 1 2 Inr by (auto simp: groundingCheckOne_def bindM_def tryM_def retM_def split: sum.splits)
      moreover have "says_grounded r src facts (calls w) i \<or> says_grounded r src facts (calls w + 1) i"
        if "(case r2 of Inr v' \<Rightarrow> v' | Inl _ \<Rightarrow> v) (int i + 1) = Some True" for i
        using that s1(1) s1(2) [OF Inr] s2(2) by (cases r2) auto
      ultimately show ?thesis using s1(1) s2(1) m
        by (simp add: only_calls_def checked_def resolve_true)
          (metis le_add1 less_add_one add_lessD1 le_refl add.commute add_less_cancel_left less_one trans_less_add1)
    qed
  qed
qed

section \<open>Batches\<close>

lemma batch_of_first: "i < groundingCheckBatchSize \<Longrightarrow> batch_of i xs = take groundingCheckBatchSize xs"
  by (simp add: batch_of_def)

lemma batch_of_later:
  "batch_of (i + groundingCheckBatchSize) xs = batch_of i (drop groundingCheckBatchSize xs)"
  by (simp add: batch_of_def groundingCheckBatchSize_def div_add_self2 add.commute)

lemma checked_weaken:
  "checked r src batch len w w' bs \<Longrightarrow> calls w0 \<le> calls w \<Longrightarrow> calls w' \<le> calls w1 \<Longrightarrow> checked r src batch len w0 w1 bs"
  unfolding checked_def by (meson le_trans less_le_trans)

lemma checked_append:
  assumes "checked r src (\<lambda>_. take groundingCheckBatchSize xs) (min groundingCheckBatchSize (length xs)) w w1 bs"
    and "checked r src (\<lambda>i. batch_of i (drop groundingCheckBatchSize xs)) (length xs - groundingCheckBatchSize) w1 w' cs"
    and "calls w \<le> calls w1" "calls w1 \<le> calls w'"
  shows "checked r src (\<lambda>i. batch_of i xs) (length xs) w w' (bs @ cs)"
proof -
  let ?N = groundingCheckBatchSize
  have b: "checked r src (\<lambda>_. take ?N xs) (min ?N (length xs)) w w' bs"
    and c: "checked r src (\<lambda>i. batch_of i (drop ?N xs)) (length xs - ?N) w w' cs"
    using assms checked_weaken by blast+
  have len: "length bs = min ?N (length xs)" "length cs = length xs - ?N" using b c by (simp_all add: checked_def)
  have "\<exists>n. calls w \<le> n \<and> n < calls w' \<and> says_grounded r src (batch_of i xs) n (i mod ?N)"
    if i: "i < length xs" "(bs @ cs) ! i" for i
  proof (cases "i < ?N")
    case True
    then show ?thesis using b i len by (auto simp: checked_def nth_append batch_of_first)
  next
    case False
    then obtain j where j: "i = j + ?N" by (metis add.commute le_Suc_ex not_less)
    have "bs = [] \<or> length bs = ?N" using len i False by auto
    then have "cs ! j" "j < length xs - ?N" using i j len by (auto simp: nth_append)
    then show ?thesis using c unfolding checked_def j batch_of_later by auto
  qed
  then show ?thesis using len by (simp add: checked_def)
qed

lemma batches_step:
  "xs \<noteq> [] \<Longrightarrow> batches groundingCheckBatchSize xs
     = take groundingCheckBatchSize xs # batches groundingCheckBatchSize (drop groundingCheckBatchSize xs)"
  by (cases xs) (simp_all add: groundingCheckBatchSize_def take_Cons' drop_Cons')

lemma batches_spec:
  assumes "mapM (groundingCheckOne r src) (batches groundingCheckBatchSize facts) w = (res, w')"
  shows "only_calls (2 * length (batches groundingCheckBatchSize facts)) w w'
     \<and> (\<forall>bss. res = Inr bss \<longrightarrow> checked r src (\<lambda>i. batch_of i facts) (length facts) w w' (concat bss))"
  using assms
proof (induction "length facts" arbitrary: facts w res rule: less_induct)
  case less
  let ?N = groundingCheckBatchSize
  show ?case
  proof (cases "facts = []")
    case True
    then show ?thesis using less.prems by (auto simp: retM_def only_calls_def checked_def)
  next
    case False
    obtain r1 w1 where 1: "groundingCheckOne r src (take ?N facts) w = (r1, w1)"
      by (cases "groundingCheckOne r src (take ?N facts) w")
    have s1: "only_calls 2 w w1" "r1 = Inr bs \<Longrightarrow> checked r src (\<lambda>_. take ?N facts) (min ?N (length facts)) w w1 bs" for bs
      using one_spec [OF 1] by (auto simp: min.commute)
    show ?thesis
    proof (cases r1)
      case (Inl e)
      then show ?thesis using less.prems 1 s1(1) False by (auto simp: batches_step bindM_def only_calls_def)
    next
      case (Inr bs)
      obtain r2 w2 where 2: "mapM (groundingCheckOne r src) (batches ?N (drop ?N facts)) w1 = (r2, w2)"
        by (cases "mapM (groundingCheckOne r src) (batches ?N (drop ?N facts)) w1")
      have e: "w' = w2" "res = (case r2 of Inl e \<Rightarrow> Inl e | Inr bss \<Rightarrow> Inr (bs # bss))"
        using less.prems 1 2 Inr False by (auto simp: batches_step bindM_def retM_def split: sum.splits)
      have "length (drop ?N facts) < length facts" using False by (simp add: groundingCheckBatchSize_def)
      from less.hyps [OF this, of w1 r2] 2 e(1)
      have IH: "only_calls (2 * length (batches ?N (drop ?N facts))) w1 w'"
        "\<And>bss. r2 = Inr bss \<Longrightarrow> checked r src (\<lambda>i. batch_of i (drop ?N facts)) (length facts - ?N) w1 w' (concat bss)"
        by auto
      have "checked r src (\<lambda>i. batch_of i facts) (length facts) w w' (concat bss)" if "res = Inr bss" for bss
        using that e(2) IH s1 Inr checked_append
        by (cases r2) (auto simp: only_calls_def)
      moreover have "only_calls (2 * length (batches ?N facts)) w w'"
        using only_calls_trans [OF s1(1) IH(1)] False by (simp add: batches_step)
      ultimately show ?thesis by blast
    qed
  qed
qed

lemma length_batches:
  "length (batches groundingCheckBatchSize xs) = (length xs + groundingCheckBatchSize - 1) div groundingCheckBatchSize"
proof (induction "length xs" arbitrary: xs rule: less_induct)
  case less
  let ?N = groundingCheckBatchSize
  show ?case
  proof (cases "length xs \<le> ?N")
    case True
    then show ?thesis
      by (cases "xs = []") (auto simp: batches_step groundingCheckBatchSize_def Suc_le_eq div_if [of _ 20] neq_Nil_conv)
  next
    case False
    then have "length (drop ?N xs) < length xs" "xs \<noteq> []" by (auto simp: groundingCheckBatchSize_def)
    from less [OF this(1)] batches_step [OF this(2)] False show ?thesis
      by (simp add: groundingCheckBatchSize_def le_div_geq)
  qed
qed

lemma batch_of_small: "length xs \<le> groundingCheckBatchSize \<Longrightarrow> i < length xs \<Longrightarrow> batch_of i xs = xs"
  by (simp add: batch_of_first)

lemma groundingCheck_spec:
  assumes "groundingCheck r src facts w = (res, w')"
  shows "only_calls (2 * length (batches groundingCheckBatchSize facts)) w w'
     \<and> (\<forall>bs. res = Inr bs \<longrightarrow> checked r src (\<lambda>i. batch_of i facts) (length facts) w w' bs)"
proof -
  consider "facts = []" | "facts \<noteq> []" "length facts \<le> groundingCheckBatchSize" | "length facts > groundingCheckBatchSize" by linarith
  then show ?thesis
  proof cases
    case 1
    then show ?thesis using assms by (auto simp: groundingCheck_def retM_def only_calls_def checked_def)
  next
    case 2
    then have "groundingCheckOne r src facts w = (res, w')" using assms by (simp add: groundingCheck_def)
    from one_spec [OF this 2(2)] 2 show ?thesis
      by (auto simp: checked_def batch_of_small batches_step only_calls_def)
  next
    case 3
    obtain r1 w1 where 1: "mapM (groundingCheckOne r src) (batches groundingCheckBatchSize facts) w = (r1, w1)"
      by (cases "mapM (groundingCheckOne r src) (batches groundingCheckBatchSize facts) w")
    then have "w' = w1" "res = (case r1 of Inl e \<Rightarrow> Inl e | Inr bss \<Rightarrow> Inr (concat bss))"
      using assms 3 by (auto simp: groundingCheck_def bindM_def retM_def split: sum.splits if_splits)
    then show ?thesis using batches_spec [OF 1] by (auto split: sum.splits)
  qed
qed

text \<open>
  C9. The grounding check fails closed. It makes at most two model calls per batch of twenty facts,
  changes nothing else, and when it returns there is exactly one flag per fact; a flag is set only
  if in one of those calls, about the batch that holds the fact, the model's first verdict for the
  fact's own number was positive. Missing, duplicate, malformed or out-of-range verdicts never
  ground a fact.\<close>

theorem groundingCheck_fails_closed:
  assumes "groundingCheck r src facts w = (res, w')"
  shows "w' = w\<lparr>calls := calls w'\<rparr>
     \<and> calls w' \<le> calls w + 2 * ((length facts + groundingCheckBatchSize - 1) div groundingCheckBatchSize)
     \<and> (\<forall>bs. res = Inr bs \<longrightarrow> length bs = length facts
          \<and> (\<forall>i < length facts. bs ! i \<longrightarrow> (\<exists>n. calls w \<le> n \<and> n < calls w'
               \<and> says_grounded r src (batch_of i facts) n (i mod groundingCheckBatchSize))))"
  using groundingCheck_spec [OF assms] unfolding checked_def only_calls_def length_batches by blast

theorem groundingCheck_fails_closed_witness:
  "\<exists>w' bs. groundingCheck sample_runner ''hi'' (KeyFacts sample_output) init_world = (Inr bs, w') \<and> bs = [True]
     \<and> w' = init_world\<lparr>calls := calls w'\<rparr> \<and> calls w' \<le> calls init_world + 2
     \<and> says_grounded sample_runner ''hi'' (batch_of 0 (KeyFacts sample_output)) 0 0"
proof -
  let ?w = "init_world\<lparr>calls := 1\<rparr>"
  have run: "groundingCheck sample_runner ''hi'' (KeyFacts sample_output) init_world = (Inr [True], ?w)"
    by (simp add: groundingCheck_def groundingCheckOne_def groundingCheckOneAttempt_def groundingCheckBatchSize_def
      sample_output_def sample_runner_def sample_llm_def indexVerdicts_def complete_def resolve_def
      bindM_def chat_def call_def retM_def init_world_def upt_rec all_bool_eq)
  have "\<exists>n. calls init_world \<le> n \<and> n < calls ?w
      \<and> says_grounded sample_runner ''hi'' (batch_of 0 (KeyFacts sample_output)) n 0"
    using groundingCheck_fails_closed [OF run] by (simp add: sample_output_def)
  then have "says_grounded sample_runner ''hi'' (batch_of 0 (KeyFacts sample_output)) 0 0"
    by (simp add: init_world_def)
  then show ?thesis using run groundingCheck_fails_closed [OF run]
    by (intro exI [of _ ?w] exI [of _ "[True]"]) (simp add: sample_output_def groundingCheckBatchSize_def)
qed

end
