(* ===== verification/Entities_Correct.thy ===== *)
theory Entities_Correct
  imports Entities
begin

text \<open>
  Attribute maps as the engine merges them, and the one way a relationship takes a whole day's
  consolidation down.
\<close>

declare One_nat_def [simp del]

section \<open>Attributes\<close>

definition go_map :: "('k::linorder \<times> 'v) list \<Rightarrow> bool" where
  "go_map m \<longleftrightarrow> sorted_wrt (<) (map fst m)"

lemma map_of_put: "map_of (put k v m) = (map_of m)(k \<mapsto> v)" if "go_map m"
  using that by (induction k v m rule: put.induct) (auto simp: go_map_def fun_eq_iff map_of_eq_None_iff)

lemma fst_put: "fst ` set (put k v m) = insert k (fst ` set m)"
  by (induction k v m rule: put.induct) auto

lemma go_map_put: "go_map m \<Longrightarrow> go_map (put k v m)"
  by (induction k v m rule: put.induct) (auto simp: go_map_def fst_put image_iff dest!: equalityD1 [OF fst_put, THEN subsetD, OF imageI])

lemma go_map_fold_put: "go_map m \<Longrightarrow> go_map (fold (\<lambda>(k, v). put k v) kvs m)"
  by (induction kvs arbitrary: m) (auto simp: go_map_put)

lemma map_of_fold_put:
  "go_map m \<Longrightarrow> distinct (map fst kvs) \<Longrightarrow> map_of (fold (\<lambda>(k, v). put k v) kvs m) = map_of m ++ map_of kvs"
proof (induction kvs arbitrary: m)
  case (Cons kv kvs)
  obtain k v where [simp]: "kv = (k, v)" by (cases kv)
  have "map_of (fold (\<lambda>(k, v). put k v) (kv # kvs) m) = (map_of m)(k \<mapsto> v) ++ map_of kvs"
    using Cons go_map_put [of m k v] by (simp add: map_of_put)
  moreover have "map_of kvs k = None" using Cons.prems(2) by (simp add: map_of_eq_None_iff)
  ultimately show ?case by (auto simp: fun_eq_iff map_add_def split: option.splits)
qed simp

lemma map_of_del: "map_of (del k m) = (map_of m)(k := None)"
  by (induction m) (auto simp: del_def fun_eq_iff)

lemma go_map_del: "go_map m \<Longrightarrow> go_map (del k m)"
  by (induction m) (auto simp: go_map_def del_def)

lemma map_of_fold_del: "map_of (fold del ks m) = (\<lambda>k. if k \<in> set ks then None else map_of m k)"
  by (induction ks arbitrary: m) (auto simp: map_of_del fun_eq_iff)

lemma go_map_fold_del: "go_map m \<Longrightarrow> go_map (fold del ks m)"
  by (induction ks arbitrary: m) (auto simp: go_map_del)

text \<open>
  C28. Merging an update into an entity's attributes is the override of maps: an attribute the update
  mentions takes its new value, a superseded key that it does not mention disappears, every other
  attribute stays, and the result is again a map with one value per key.\<close>

theorem mergeAttributes_overrides:
  assumes "go_map (entries existing)" "go_map (entries incoming)"
  shows "go_map (entries (mergeAttributes (delete_keys ks existing) incoming))
     \<and> map_of (entries (mergeAttributes (delete_keys ks existing) incoming)) k =
         (case map_of (entries incoming) k of Some v \<Rightarrow> Some v
          | None \<Rightarrow> if k \<in> set ks then None else map_of (entries existing) k)"
proof (cases existing)
  case None
  then show ?thesis using assms(2) by (simp add: mergeAttributes_def delete_keys_def entries_def split: option.splits)
next
  case (Some e)
  have e: "go_map e" using assms(1) Some by (simp add: entries_def)
  have d: "distinct (map fst (entries incoming))" using assms(2) by (simp add: go_map_def strict_sorted_iff)
  have m: "entries (mergeAttributes (delete_keys ks existing) incoming) = fold (\<lambda>(k, v). put k v) (entries incoming) (fold del ks e)"
    by (simp add: Some mergeAttributes_def delete_keys_def entries_def)
  have s: "entries existing = e" by (simp add: Some entries_def)
  show ?thesis
    unfolding m s
    using go_map_fold_put [OF go_map_fold_del [OF e]] map_of_fold_put [OF go_map_fold_del [OF e] d]
    by (simp add: map_of_fold_del map_add_def split: option.splits)
qed

theorem mergeAttributes_overrides_witness:
  "go_map (entries (Some [(''city'', ''Rome''), (''job'', ''cook'')])) \<and> go_map (entries (Some [(''home'', ''Oslo'')]))
   \<and> entries (mergeAttributes (delete_keys [''city''] (Some [(''city'', ''Rome''), (''job'', ''cook'')])) (Some [(''home'', ''Oslo'')]))
       = [(''home'', ''Oslo''), (''job'', ''cook'')]
   \<and> go_map (entries (mergeAttributes (delete_keys [''city''] (Some [(''city'', ''Rome''), (''job'', ''cook'')])) (Some [(''home'', ''Oslo'')])))"
proof -
  have 1: "go_map (entries (Some [(''city'', ''Rome''), (''job'', ''cook'')]))" "go_map (entries (Some [(''home'', ''Oslo'')]))"
    unfolding go_map_def entries_def by code_simp+
  have 2: "entries (mergeAttributes (delete_keys [''city''] (Some [(''city'', ''Rome''), (''job'', ''cook'')])) (Some [(''home'', ''Oslo'')]))
       = [(''home'', ''Oslo''), (''job'', ''cook'')]" by code_simp
  show ?thesis using 1 2 mergeAttributes_overrides [OF 1, of "[''city'']" "[]", THEN conjunct1] by (intro conjI)
qed

section \<open>A relationship that begins in the past\<close>

lemma earlier_edge_close:
  assumes "session w = Some (sc, sc)" "e \<in> set (entity_relationships (db w))" "rel_scope e = sc"
    "rel_subject_id e = subj" "rel_predicate e = pred" "rel_object_id e \<noteq> obj"
    "rel_valid_until e = None" "rel_valid_from e = Some b" "a < b"
  shows "close_edges sc subj pred obj a w (db w) = None"
  using assms by (auto simp: close_edges_def Let_def list_all_iff date_order_def rls_session)

lemma find_entity_tick [simp]: "find_entity sc eid (tick w) = find_entity sc eid w" "edges sc a p b (tick w) = edges sc a p b w"
  by (simp_all add: find_entity_def edges_def visible_def rls_visible_def)


definition moved :: RelationshipUpdate where
  "moved = \<lparr>SubjectKind = ''person'', SubjectName = ''ann'', Predicate = ''in'', ObjectKind = ''place'',
     ObjectName = ''oslo'', ValidFrom = ''2020-01-01'', ValidUntil = []\<rparr>"

lemma segments_ascii: "(\<And>c. c \<in> set s \<Longrightarrow> of_char c < (128::nat)) \<Longrightarrow> segments s = map (\<lambda>c. [c]) s"
proof (induction s)
  case (Cons c s)
  then have "decode_rune (c # s) = (of_char c, 1)" by (simp add: decode_rune_def)
  then show ?case using Cons by (subst segments.simps) (simp add: One_nat_def)
qed simp

lemma ToLower_ascii: "list_all (\<lambda>c. of_char c < (128::nat)) s \<Longrightarrow> ToLower (\<lambda>c. c) s = s"
  by (simp add: ToLower_def runes_ascii string_of_runes_ascii list_all_iff)

lemma TrimSpace_ascii:
  assumes "list_all (\<lambda>c. of_char c < (128::nat) \<and> \<not> IsSpace (of_char c)) s"
  shows "TrimSpace s = s"
proof -
  have seg: "segments s = map (\<lambda>c. [c]) s" using assms by (intro segments_ascii) (auto simp: list_all_iff)
  have sp: "\<not> IsSpace (fst (decode_rune [c]))" if "c \<in> set s" for c
    using assms that by (auto simp: list_all_iff decode_rune_def)
  have "dropWhile (\<lambda>seg. IsSpace (fst (decode_rune seg))) xs = xs" if "set xs \<subseteq> (\<lambda>c. [c]) ` set s" for xs
    using that sp by (cases xs) auto
  then have "TrimSpace s = concat (map (\<lambda>c. [c]) s)" unfolding TrimSpace_def seg Let_def by simp
  then show ?thesis by (simp add: concat_map_singleton)
qed

lemma moved_ids:
  "canonicalEntityID (\<lambda>c. c) (SubjectKind moved) (SubjectName moved) [] = ''person:ann''"
  "canonicalEntityID (\<lambda>c. c) (ObjectKind moved) (ObjectName moved) [] = ''place:oslo''"
proof -
  have runes: "runes ''ann'' = [97, 110, 110]" "runes ''oslo'' = [111, 115, 108, 111]"
    by (subst runes_ascii; auto)+
  have "trim_suffix ''-'' (slug_loop [97, 110, 110] True) = ''ann''" "trim_suffix ''-'' (slug_loop [111, 115, 108, 111] True) = ''oslo''"
    by code_simp+
  then show "canonicalEntityID (\<lambda>c. c) (SubjectKind moved) (SubjectName moved) [] = ''person:ann''"
    "canonicalEntityID (\<lambda>c. c) (ObjectKind moved) (ObjectName moved) [] = ''place:oslo''"
    by (simp_all add: moved_def canonicalEntityID_def slugify_def ToLower_ascii runes)
qed

lemma moved_predicate:
  "canonicalizePredicate (SubjectKind moved) (sanitizePredicate (\<lambda>c. c) (Predicate moved)) = ''in''"
  by (simp add: moved_def sanitizePredicate_def TrimSpace_ascii ToLower_ascii IsSpace_def relationshipPredicateMaxLen_def
      canonicalizePredicate_def personPredicateAliases_def)

lemma moved_date: "parseOptionalDate (ValidFrom moved) = Some ''2020-01-01''"
  by code_simp

text \<open>Ann is known to live in Rome since 2025; then it is learned that she lived in Oslo from 2020.\<close>

definition known_move :: relationship where
  "known_move = \<lparr>rel_id = ''rel_1'', rel_scope = DefaultScope, rel_subject_id = ''person:ann'', rel_predicate = ''in'',
     rel_object_id = ''place:rome'', rel_valid_from = Some ''2025-01-01'', rel_valid_until = None, rel_source_summary_id = None, rel_created_at = 0\<rparr>"

definition moving_db :: database where
  "moving_db = (let e = hd (entities (sample_db 1 [1] []))
     in empty_db\<lparr>entities := [e\<lparr>en_id := ''person:ann''\<rparr>, e\<lparr>en_id := ''place:rome''\<rparr>, e\<lparr>en_id := ''place:oslo''\<rparr>],
          entity_relationships := [known_move]\<rparr>)"

definition moving_world :: world where
  "moving_world = init_world\<lparr>db := moving_db, tx := Some (DefaultScope, DefaultScope, moving_db)\<rparr>"


end
