(* ===== verification/Ranking.thy ===== *)
theory Ranking
  imports Summaries "HOL-Library.Product_Lexorder"
begin

text \<open>
  Ranking for retrieval (\<open>internal/store/bm25.go\<close> and the pure part of
  \<open>internal/store/retrieve.go\<close>): tokens, BM25 scores, the ranking of key facts, selection by maximal
  marginal relevance, and the functions that cut text to a budget.

  A \<open>float64\<close> score is a rational number. The Unicode tables, \<open>math.Log\<close>, the decimal reading of a
  float, pgvector's distance and the process environment are fields of the record \<open>store\<close>.
\<close>

declare One_nat_def [simp del]

section \<open>The store\<close>

record store =
  st_aead :: aead
  embedder :: embedding_provider
  st_lower :: "rune \<Rightarrow> rune"
  IsLetter :: "rune \<Rightarrow> bool"
  IsDigit :: "rune \<Rightarrow> bool"
  math_Log :: "rat \<Rightarrow> rat"
  st_float_text :: "rat \<Rightarrow> string"
  ParseFloat :: "string \<Rightarrow> rat option"
  distance :: "string \<Rightarrow> string \<Rightarrow> rat"    \<comment> \<open>pgvector's \<open><=>\<close> on vector literals\<close>
  Getenv :: "string \<Rightarrow> string"

definition currentEmbeddingModel :: "store \<Rightarrow> string" where
  "currentEmbeddingModel st = em_Vendor (embedder st) @ '':'' @ em_Model (embedder st)"

text \<open>\<open>strconv.Atoi\<close>.\<close>

definition Atoi :: "string \<Rightarrow> int option" where
  "Atoi s = (let neg = (case s of c # _ \<Rightarrow> c = CHR ''-'' | [] \<Rightarrow> False);
       ds = (case s of c # r \<Rightarrow> if c = CHR ''-'' \<or> c = CHR ''+'' then r else s | [] \<Rightarrow> []);
       v = (if neg then - int (num ds) else int (num ds))
     in if ds = [] \<or> \<not> list_all isDigit ds \<or> v < - (2 ^ 63) \<or> v \<ge> 2 ^ 63 then None else Some v)"

text \<open>The settings: a positive number in the environment, or the default.\<close>

definition positive_setting :: "store \<Rightarrow> string \<Rightarrow> nat \<Rightarrow> nat" where
  "positive_setting st var def = (case Atoi (Getenv st var) of
       Some n \<Rightarrow> if n > 0 then nat n else def
     | None \<Rightarrow> def)"

definition defaultMaxVectorResults :: nat where "defaultMaxVectorResults = 5"
definition defaultContextCharBudget :: nat where "defaultContextCharBudget = 2000"
definition defaultKeywordSearchNarrowThreshold :: nat where "defaultKeywordSearchNarrowThreshold = 500"
definition defaultKeywordSearchDisableThreshold :: nat where "defaultKeywordSearchDisableThreshold = 3000"

definition keywordSearchEnabled :: "store \<Rightarrow> bool" where
  "keywordSearchEnabled st \<longleftrightarrow> Getenv st ''HUPI_ENABLE_KEYWORD_SEARCH'' \<noteq> ''false''"

definition keywordSearchNarrowThreshold :: "store \<Rightarrow> nat" where
  "keywordSearchNarrowThreshold st =
     positive_setting st ''HUPI_KEYWORD_SEARCH_NARROW_THRESHOLD'' defaultKeywordSearchNarrowThreshold"

definition keywordSearchDisableThreshold :: "store \<Rightarrow> nat" where
  "keywordSearchDisableThreshold st =
     positive_setting st ''HUPI_KEYWORD_SEARCH_DISABLE_THRESHOLD'' defaultKeywordSearchDisableThreshold"

definition graphWalkEnabled :: "store \<Rightarrow> bool" where
  "graphWalkEnabled st \<longleftrightarrow> Getenv st ''HUPI_ENABLE_RELATIONSHIP_GRAPH_WALK'' = ''true''"

definition contextCharBudget :: "store \<Rightarrow> nat" where
  "contextCharBudget st = positive_setting st ''HUPI_CONTEXT_CHAR_BUDGET'' defaultContextCharBudget"

definition maxVectorResults :: "store \<Rightarrow> nat" where
  "maxVectorResults st = positive_setting st ''HUPI_MAX_VECTOR_RESULTS'' defaultMaxVectorResults"

definition mmrLambda :: "store \<Rightarrow> rat" where
  "mmrLambda st = (let v = Getenv st ''HUPI_MMR_LAMBDA'' in
     if v = [] then 7 / 10
     else case ParseFloat st v of Some f \<Rightarrow> if 0 \<le> f \<and> f \<le> 1 then f else 7 / 10 | None \<Rightarrow> 7 / 10)"

definition semanticFactRankingEnabled :: "store \<Rightarrow> bool" where
  "semanticFactRankingEnabled st \<longleftrightarrow> Getenv st ''HUPI_ENABLE_SEMANTIC_FACT_RANKING'' \<noteq> ''false''"

section \<open>BM25\<close>

definition bm25K1 :: rat where "bm25K1 = 3 / 2"
definition bm25B :: rat where "bm25B = 3 / 4"

definition bm25StopWords :: "string list" where
  "bm25StopWords =
     [''a'', ''an'', ''the'', ''is'', ''are'', ''was'', ''were'', ''be'', ''been'', ''am'', ''in'', ''on'',
      ''at'', ''to'', ''of'', ''and'', ''or'', ''but'', ''for'', ''with'', ''what'', ''when'', ''where'',
      ''who'', ''how'', ''do'', ''does'', ''did'', ''it'', ''this'', ''that'', ''my'', ''i'', ''you'', ''your'']"

text \<open>\<open>strings.FieldsFunc\<close> on the runes of a text: the maximal runs without a separator.\<close>

function FieldsFunc :: "(rune \<Rightarrow> bool) \<Rightarrow> rune list \<Rightarrow> rune list list" where
  "FieldsFunc sep [] = []"
| "FieldsFunc sep (r # rs) =
     (if sep r then FieldsFunc sep rs
      else (r # takeWhile (\<lambda>x. \<not> sep x) rs) # FieldsFunc sep (dropWhile (\<lambda>x. \<not> sep x) rs))"
  by pat_completeness auto
termination
  by (relation "measure (\<lambda>(_, rs). length rs)") (auto simp: le_imp_less_Suc length_dropWhile_le)

definition tokenize :: "store \<Rightarrow> string \<Rightarrow> string list" where
  "tokenize st t =
     (let raw = map string_of_runes (FieldsFunc (\<lambda>r. \<not> IsLetter st r \<and> \<not> IsDigit st r) (runes (ToLower (st_lower st) t)))
      in filter (\<lambda>s. \<not> length s < 2 \<and> s \<notin> set bm25StopWords) raw)"

text \<open>A \<open>map[string]int\<close> that is only ever counted up: a term that is not a key has count 0.\<close>

record bm25Document =
  doc_id :: string
  termFreq :: "string \<Rightarrow> nat"
  docLength :: nat

definition newBM25Document :: "store \<Rightarrow> string \<Rightarrow> string \<Rightarrow> bm25Document" where
  "newBM25Document st i t =
     (let terms = tokenize st t
      in \<lparr>doc_id = i, termFreq = fold (\<lambda>s tf. tf(s := tf s + 1)) terms (\<lambda>_. 0), docLength = length terms\<rparr>)"

definition bm25DocFrequency :: "bm25Document list \<Rightarrow> string \<Rightarrow> nat" where
  "bm25DocFrequency docs = (\<lambda>term. length (filter (\<lambda>d. termFreq d term > 0) docs))"

definition bm25AverageDocLength :: "bm25Document list \<Rightarrow> rat" where
  "bm25AverageDocLength docs =
     (if docs = [] then 0 else of_nat (sum_list (map docLength docs)) / of_nat (length docs))"

definition term_score :: "store \<Rightarrow> bm25Document \<Rightarrow> (string \<Rightarrow> nat) \<Rightarrow> nat \<Rightarrow> rat \<Rightarrow> rat \<Rightarrow> string \<Rightarrow> rat" where
  "term_score st doc docFreq corpusSize avgDocLen b term =
     (let tf = termFreq doc term; df = docFreq term in
      if tf = 0 \<or> df = 0 then 0
      else let idf = math_Log st (1 + (of_nat corpusSize - of_nat df + 1 / 2) / (of_nat df + 1 / 2));
               numerator = of_nat tf * (bm25K1 + 1);
               lengthNorm = (if b \<noteq> 0 then 1 - b + b * of_nat (docLength doc) / avgDocLen else 1);
               denominator = of_nat tf + bm25K1 * lengthNorm
           in idf * numerator / denominator)"

definition bm25ScoreWithB ::
    "store \<Rightarrow> bm25Document \<Rightarrow> string list \<Rightarrow> (string \<Rightarrow> nat) \<Rightarrow> nat \<Rightarrow> rat \<Rightarrow> rat \<Rightarrow> rat" where
  "bm25ScoreWithB st doc queryTerms docFreq corpusSize avgDocLen b =
     (if b \<noteq> 0 \<and> avgDocLen = 0 then 0
      else foldl (\<lambda>score term. score + term_score st doc docFreq corpusSize avgDocLen b term) 0 queryTerms)"

definition bm25Score :: "store \<Rightarrow> bm25Document \<Rightarrow> string list \<Rightarrow> (string \<Rightarrow> nat) \<Rightarrow> nat \<Rightarrow> rat \<Rightarrow> rat" where
  "bm25Score st doc queryTerms docFreq corpusSize avgDocLen =
     bm25ScoreWithB st doc queryTerms docFreq corpusSize avgDocLen bm25B"

definition bm25ScoreNoLengthNorm :: "store \<Rightarrow> bm25Document \<Rightarrow> string list \<Rightarrow> (string \<Rightarrow> nat) \<Rightarrow> nat \<Rightarrow> rat" where
  "bm25ScoreNoLengthNorm st doc queryTerms docFreq corpusSize =
     bm25ScoreWithB st doc queryTerms docFreq corpusSize 0 0"

text \<open>The documents with a positive score, best first and equal scores in the order of their ids.\<close>

definition scored_docs :: "store \<Rightarrow> bm25Document list \<Rightarrow> string list \<Rightarrow> (string \<times> rat) list" where
  "scored_docs st docs queryTerms =
     (let docFreq = bm25DocFrequency docs; avgDocLen = bm25AverageDocLength docs
      in sort_key (\<lambda>(i, score). (- score, i)) (filter (\<lambda>(_, score). score > 0)
           (map (\<lambda>doc. (doc_id doc, bm25Score st doc queryTerms docFreq (length docs) avgDocLen)) docs)))"

definition rankBM25 :: "store \<Rightarrow> bm25Document list \<Rightarrow> string list \<Rightarrow> string list" where
  "rankBM25 st docs queryTerms = map fst (take (maxVectorResults st) (scored_docs st docs queryTerms))"

section \<open>Cutting text to a budget\<close>

definition truncateToBudget :: "string \<Rightarrow> nat \<Rightarrow> string" where
  "truncateToBudget s maxChars =
     (if length (runes s) \<le> maxChars then s
      else string_of_runes (take maxChars (runes s)) @ nl @ ''...[truncated to fit context budget]'')"

definition hardTruncate :: "string \<Rightarrow> nat \<Rightarrow> string" where
  "hardTruncate s maxChars =
     (if length (runes s) \<le> maxChars then s else string_of_runes (take maxChars (runes s)))"

text \<open>\<open>strings.Index\<close>, and the byte offsets at which the loop of \<open>centeredExcerpt\<close> finds a term: from
  left to right, without overlaps.\<close>

fun Index :: "string \<Rightarrow> string \<Rightarrow> nat option" where
  "Index [] p = (if p = [] then Some 0 else None)"
| "Index (x # s) p = (if take (length p) (x # s) = p then Some 0 else map_option Suc (Index s p))"

function offsets :: "string \<Rightarrow> nat \<Rightarrow> string \<Rightarrow> nat list" where
  "offsets t i s =
     (if t = [] \<or> length s < length t then []
      else case Index s t of None \<Rightarrow> []
        | Some idx \<Rightarrow> (i + idx) # offsets t (i + idx + length t) (drop (idx + length t) s))"
  by pat_completeness auto
termination
  by (relation "measure (\<lambda>(t, i, s). length s)") (auto simp: neq_Nil_conv)

declare offsets.simps [simp del]

text \<open>\<open>utf8.RuneCountInString(text[:bytePos])\<close>; the slice panics beyond the end of the text.\<close>

definition rune_position :: "string \<Rightarrow> nat \<Rightarrow> int option" where
  "rune_position t bytePos = (if bytePos \<le> length t then Some (int (length (runes (take bytePos t)))) else None)"

definition count_near :: "int list \<Rightarrow> int \<Rightarrow> int \<Rightarrow> nat" where
  "count_near positions half p = length (filter (\<lambda>q. q \<ge> p - half \<and> q \<le> p + half) positions)"

definition densest :: "int list \<Rightarrow> int \<Rightarrow> int" where
  "densest positions half = fst (foldl (\<lambda>(best, bestCount) p.
       let count = int (count_near positions half p) in if count > bestCount then (p, count) else (best, bestCount))
     (hd positions, - 1) positions)"

definition excerpt_around :: "rune list \<Rightarrow> nat \<Rightarrow> int \<Rightarrow> string" where
  "excerpt_around rs maxChars pos =
     (let start0 = max 0 (pos - int maxChars div 2);
          end0 = start0 + int maxChars;
          start = (if end0 > int (length rs) then max 0 (int (length rs) - int maxChars) else start0);
          stop = (if end0 > int (length rs) then int (length rs) else end0);
          excerpt = string_of_runes (take (nat (stop - start)) (drop (nat start) rs))
      in (if start > 0 then ''...[excerpt] '' else []) @ excerpt
         @ (if stop < int (length rs) then '' ...[truncated]'' else []))"

text \<open>A panic is \<open>None\<close>.\<close>

definition centeredExcerpt :: "store \<Rightarrow> string \<Rightarrow> string list \<Rightarrow> nat \<Rightarrow> string option" where
  "centeredExcerpt st t queryTerms maxChars =
     (let rs = runes t in
      if length rs \<le> maxChars then Some t
      else let low = ToLower (st_lower st) t;
               found = map (rune_position t) (concat (map (\<lambda>q. offsets q 0 low) queryTerms))
           in if None \<in> set found then None
              else if found = [] then Some (hardTruncate t maxChars)
              else Some (excerpt_around rs maxChars (densest (map the found) (int maxChars div 2))))"

section \<open>Ranking key facts\<close>

definition rrfK :: rat where "rrfK = 1"

definition reciprocalRank :: "nat \<Rightarrow> rat" where
  "reciprocalRank rank = 1 / (rrfK + of_nat (rank + 1))"

record keyFact =
  fact_text :: string
  similarity :: "rat option"

definition keyFactTexts :: "keyFact list \<Rightarrow> string list" where
  "keyFactTexts facts = map fact_text facts"

definition factScores :: "store \<Rightarrow> string list \<Rightarrow> string list \<Rightarrow> rat list" where
  "factScores st facts queryTerms =
     (let docs = map (newBM25Document st []) facts; docFreq = bm25DocFrequency docs
      in map (\<lambda>doc. bm25ScoreNoLengthNorm st doc queryTerms docFreq (length docs)) docs)"

text \<open>The index of the one fact with the best score; \<open>None\<close> is the code's \<open>-1\<close>.\<close>

definition mostRelevantFactIndex :: "store \<Rightarrow> string list \<Rightarrow> string list \<Rightarrow> nat option" where
  "mostRelevantFactIndex st facts queryTerms =
     (if length facts < 2 \<or> queryTerms = [] then None
      else case foldl (\<lambda>(best, bestScore, tied) (i, score).
               if score > bestScore then (Some i, score, False)
               else if score = bestScore \<and> Some i \<noteq> best then (best, bestScore, True)
               else (best, bestScore, tied))
             (None, 0, False) (enumerate 0 (factScores st facts queryTerms)) of
           (best, bestScore, tied) \<Rightarrow> if bestScore = 0 \<or> tied then None else best)"

text \<open>\<open>sort.SliceStable\<close> of the indices below \<open>n\<close>, best score first.\<close>

definition order_by :: "nat \<Rightarrow> (nat \<Rightarrow> rat) \<Rightarrow> nat list" where
  "order_by n score = sort_key (\<lambda>i. - score i) [0..<n]"

definition rankFactsByRelevance :: "store \<Rightarrow> string list \<Rightarrow> string list \<Rightarrow> nat list" where
  "rankFactsByRelevance st facts queryTerms =
     (if queryTerms = [] then [0..<length facts]
      else let scores = factScores st facts queryTerms in order_by (length facts) (\<lambda>i. scores ! i))"

definition factMarkerFusedMargin :: rat where "factMarkerFusedMargin = 1 / 10"

text \<open>The place of every index in an order.\<close>

definition rank_in :: "nat list \<Rightarrow> nat \<Rightarrow> nat" where
  "rank_in order i = length (takeWhile (\<lambda>x. x \<noteq> i) order)"

definition rankKeyFacts :: "store \<Rightarrow> keyFact list \<Rightarrow> string list \<Rightarrow> nat list \<times> nat option" where
  "rankKeyFacts st facts queryTerms =
     (let texts = keyFactTexts facts;
          lexOrder = rankFactsByRelevance st texts queryTerms;
          lexBest = mostRelevantFactIndex st texts queryTerms
      in if \<not> semanticFactRankingEnabled st \<or> facts = [] then (lexOrder, lexBest)
         else if list_ex (\<lambda>f. similarity f = None) facts then (lexOrder, lexBest)
         else let semOrder = order_by (length facts) (\<lambda>i. the (similarity (facts ! i)));
                  fused = (\<lambda>i. reciprocalRank (rank_in lexOrder i) + reciprocalRank (rank_in semOrder i));
                  order = order_by (length facts) fused
              in (order, if length order \<ge> 2 \<and> fused (order ! 0) - fused (order ! 1) \<ge> factMarkerFusedMargin
                         then Some (order ! 0) else None))"

definition writeKeyFacts :: "store \<Rightarrow> keyFact list \<Rightarrow> string list \<Rightarrow> string" where
  "writeKeyFacts st facts queryTerms = (case rankKeyFacts st facts queryTerms of (order, best) \<Rightarrow>
     concat (map (\<lambda>idx. nl @ (if Some idx = best then ''  - (most relevant) '' else ''  - '') @ fact_text (facts ! idx)) order))"

definition guaranteedFactMaxCount :: nat where "guaranteedFactMaxCount = 3"
definition guaranteedProseFallbackChars :: nat where "guaranteedProseFallbackChars = 300"

definition guaranteedFact :: "store \<Rightarrow> string \<Rightarrow> keyFact list \<Rightarrow> string list \<Rightarrow> string" where
  "guaranteedFact st prose facts queryTerms =
     (if facts = [] then truncateToBudget prose guaranteedProseFallbackChars
      else if length facts \<le> guaranteedFactMaxCount then join '' '' (keyFactTexts facts)
      else fact_text (facts ! (fst (rankKeyFacts st facts queryTerms) ! 0)))"

definition guaranteeMinPerSummary :: nat where "guaranteeMinPerSummary = 220"
definition guaranteeMinFactChars :: nat where "guaranteeMinFactChars = 60"

text \<open>Half of the budget (\<open>guaranteeSectionFraction\<close>) is shared by the picks.\<close>

definition guaranteeBudgetPerSummary :: "store \<Rightarrow> nat \<Rightarrow> nat" where
  "guaranteeBudgetPerSummary st numPicks =
     (if numPicks = 0 then 0
      else max guaranteeMinPerSummary (contextCharBudget st div 2 div numPicks))"

definition proseDepthCap :: nat where "proseDepthCap = 500"
definition summaryDepthCap :: nat where "summaryDepthCap = 700"

definition depthText :: "store \<Rightarrow> string \<Rightarrow> keyFact list \<Rightarrow> string list \<Rightarrow> string" where
  "depthText st prose facts queryTerms =
     writeKeyFacts st facts queryTerms @ nl @ truncateToBudget prose proseDepthCap"

definition summaryCitationSnippet :: "store \<Rightarrow> string \<Rightarrow> keyFact list \<Rightarrow> string list \<Rightarrow> string" where
  "summaryCitationSnippet st prose facts queryTerms = (case snd (rankKeyFacts st facts queryTerms) of
       Some best \<Rightarrow> prose @ nl @ ''  - (most relevant) '' @ fact_text (facts ! best)
     | None \<Rightarrow> prose)"

section \<open>Maximal marginal relevance\<close>

text \<open>A \<open>map[string]bool\<close> of tokens is a list without repetitions.\<close>

definition tokenSet :: "store \<Rightarrow> string \<Rightarrow> string list" where
  "tokenSet st t = remdups (tokenize st t)"

definition jaccardOverlap :: "string list \<Rightarrow> string list \<Rightarrow> rat" where
  "jaccardOverlap a b =
     (if a = [] \<or> b = [] then 0
      else let (small, large) = (if length b < length a then (b, a) else (a, b));
               intersection = length (filter (\<lambda>t. t \<in> set large) small);
               un = length a + length b - intersection
           in if un = 0 then 0 else of_nat intersection / of_nat un)"

record mmrCandidate =
  relevance :: rat
  tokens :: "string list"

definition max_sim :: "mmrCandidate list \<Rightarrow> nat list \<Rightarrow> nat \<Rightarrow> rat" where
  "max_sim pool selected idx = foldl (\<lambda>maxSim s.
     let sim = jaccardOverlap (tokens (pool ! idx)) (tokens (pool ! s)) in if sim > maxSim then sim else maxSim) 0 selected"

definition mmr_score :: "mmrCandidate list \<Rightarrow> rat \<Rightarrow> nat list \<Rightarrow> nat \<Rightarrow> rat" where
  "mmr_score pool lambda selected idx =
     lambda * relevance (pool ! idx) - (1 - lambda) * max_sim pool selected idx"

text \<open>The scan for the best remaining candidate; the score before the first one is \<open>math.Inf(-1)\<close>,
  \<open>None\<close> here.\<close>

definition best_position :: "(nat \<Rightarrow> rat) \<Rightarrow> nat list \<Rightarrow> nat" where
  "best_position score remaining = fst (foldl (\<lambda>(bestPos, bestScore) (pos, idx).
       case bestScore of None \<Rightarrow> (pos, Some (score idx))
       | Some b \<Rightarrow> if score idx > b then (pos, Some (score idx)) else (bestPos, bestScore))
     (0, None) (enumerate 0 remaining))"

primrec mmr_loop :: "mmrCandidate list \<Rightarrow> rat \<Rightarrow> nat \<Rightarrow> nat list \<Rightarrow> nat list \<Rightarrow> nat list" where
  "mmr_loop pool lambda 0 selected remaining = selected"
| "mmr_loop pool lambda (Suc k) selected remaining =
     (if remaining = [] then selected
      else let bestPos = best_position (mmr_score pool lambda selected) remaining
           in mmr_loop pool lambda k (selected @ [remaining ! bestPos])
                (take bestPos remaining @ drop (bestPos + 1) remaining))"

text \<open>\<open>sort.Slice\<close> leaves the order of equal candidates open; the model keeps them in place, as the
  insertion sort does that the library uses for a dozen elements.\<close>

definition mmrSelect :: "mmrCandidate list \<Rightarrow> nat \<Rightarrow> rat \<Rightarrow> nat list" where
  "mmrSelect pool k lambda =
     (if k \<ge> length pool then order_by (length pool) (\<lambda>i. relevance (pool ! i))
      else mmr_loop pool lambda k [] [0..<length pool])"

section \<open>What kind of question it is\<close>

definition stage1SignalKeywords :: "string list" where
  "stage1SignalKeywords = [''remember'', ''recall'', ''decided'', ''decide'', ''prefer'',
     ''we discussed'', ''last time'', ''again'', ''what did'', ''earlier'', ''before'']"

definition recommendationKeywords :: "string list" where
  "recommendationKeywords = [''recommend'', ''suggest'', ''should i'', ''any tips'', ''any advice'',
     ''do you think'', ''any ideas'', ''what would you'', ''any suggestions'',
     ''could there be a reason'', ''why might'', ''any idea why'']"

definition orderingKeywords :: "string list" where
  "orderingKeywords = [''order of'', ''which came first'', ''came first'', ''first or'', ''or first'',
     ''which task did i'', ''which item did i'', ''which did i'',
     ''how many months'', ''how many weeks'', ''how many days'',
     ''in a row'', ''consecutive'', ''earliest to latest'', ''earliest'']"

definition mentions :: "store \<Rightarrow> string list \<Rightarrow> string \<Rightarrow> bool" where
  "mentions st keywords q = list_ex (contains (ToLower (st_lower st) q)) keywords"

definition looksLikeRecommendationRequest :: "store \<Rightarrow> string \<Rightarrow> bool" where
  "looksLikeRecommendationRequest st = mentions st recommendationKeywords"

definition looksLikeOrderingRequest :: "store \<Rightarrow> string \<Rightarrow> bool" where
  "looksLikeOrderingRequest st = mentions st orderingKeywords"

definition stage1KeywordSignal :: "store \<Rightarrow> string \<Rightarrow> bool" where
  "stage1KeywordSignal st = mentions st stage1SignalKeywords"

definition stage1QuestionStarters :: "string list" where
  "stage1QuestionStarters = [''what'', ''whats'', ''when'', ''whens'', ''where'', ''wheres'',
     ''who'', ''whos'', ''whom'', ''whose'', ''why'', ''whys'', ''how'', ''hows'',
     ''is'', ''are'', ''was'', ''were'', ''do'', ''does'', ''did'',
     ''can'', ''could'', ''should'', ''would'', ''will'', ''has'', ''have'', ''had'']"

definition HasPrefix :: "string \<Rightarrow> string \<Rightarrow> bool" where
  "HasPrefix s p \<longleftrightarrow> take (length p) s = p"

definition stage1QuestionSignal :: "store \<Rightarrow> string \<Rightarrow> bool" where
  "stage1QuestionSignal st q =
     (let trimmed = TrimSpace q in
      if trimmed = [] then False
      else if last trimmed = CHR ''?'' then True
      else let low = ToLower (st_lower st) trimmed
           in list_ex (\<lambda>w. low = w \<or> HasPrefix low (w @ '' '')) stage1QuestionStarters)"

definition slugPart :: "string \<Rightarrow> string" where
  "slugPart i = (case dropWhile (\<lambda>c. c \<noteq> CHR '':'') i of [] \<Rightarrow> i | _ # s \<Rightarrow> s)"

definition refIDsOfKind :: "ref list \<Rightarrow> string \<Rightarrow> string list" where
  "refIDsOfKind refs kind = map ref_id (filter (\<lambda>r. ref_kind r = kind) refs)"

record Message =
  msg_role :: string
  msg_content :: string

definition lastUserMessage :: "Message list \<Rightarrow> string" where
  "lastUserMessage msgs = (case filter (\<lambda>m. msg_role m = ''user'') (rev msgs) of [] \<Rightarrow> [] | m # _ \<Rightarrow> msg_content m)"

section \<open>An example\<close>

text \<open>A deployment for the concrete instances: ASCII letters, a logarithm that is positive above 1, a
  distance that calls every vector a perfect match.\<close>

definition sample_store :: store where
  "sample_store = \<lparr>st_aead = prefix_aead,
     embedder = \<lparr>em_Vendor = ''vendor'', em_Model = ''embed'', Embed = (\<lambda>_ ts. Inr (map (\<lambda>_. [1, 0]) ts))\<rparr>,
     st_lower = ascii_lower_only, IsLetter = (\<lambda>r. 97 \<le> r \<and> r \<le> 122), IsDigit = (\<lambda>r. 48 \<le> r \<and> r \<le> 57),
     math_Log = (\<lambda>x. x - 1), st_float_text = (\<lambda>_. ''1''), ParseFloat = (\<lambda>_. None), distance = (\<lambda>_ _. 0),
     Getenv = (\<lambda>_. [])\<rparr>"

end
