(* ===== verification/Temporal.thy ===== *)
theory Temporal
  imports Ranking
begin

text \<open>
  Timeframes in questions and dates in answers (\<open>internal/store/temporal.go\<close>): the phrases that name
  a timeframe, the range of days a summary's period covers, and the label that says how long ago
  something was. Times are UTC.
\<close>

declare One_nat_def [simp del]

definition midnight :: "day \<Rightarrow> time" where
  "midnight d = (d - unix_day) * 86400000000"

definition temporalRelevanceBoost :: rat where
  "temporalRelevanceBoost = reciprocalRank 0"

definition mondayOfWeek :: "day \<Rightarrow> day" where
  "mondayOfWeek d = (let wd = (if Weekday d = 0 then 7 else Weekday d) in AddDate d 0 0 (- (wd - 1)))"

text \<open>The resolvers take today and return the first day and the day after the last.\<close>

definition timeframeKeywords :: "(string \<times> (day \<Rightarrow> day \<times> day)) list" where
  "timeframeKeywords =
     [(''yesterday'', \<lambda>today. let y = AddDate today 0 0 (- 1) in (y, AddDate y 0 0 1)),
      (''today'', \<lambda>today. (today, AddDate today 0 0 1)),
      (''last week'', \<lambda>today. let monday = AddDate (mondayOfWeek today) 0 0 (- 7) in (monday, AddDate monday 0 0 7)),
      (''this week'', \<lambda>today. let monday = mondayOfWeek today in (monday, AddDate monday 0 0 7)),
      (''last month'', \<lambda>today. let thisMonthStart = Date (Year today) (Month today) 1
          in (AddDate thisMonthStart 0 (- 1) 0, thisMonthStart)),
      (''this month'', \<lambda>today. let thisMonthStart = Date (Year today) (Month today) 1
          in (thisMonthStart, AddDate thisMonthStart 0 1 0)),
      (''last year'', \<lambda>today. let thisYearStart = Date (Year today) 1 1
          in (AddDate thisYearStart (- 1) 0 0, thisYearStart)),
      (''this year'', \<lambda>today. let thisYearStart = Date (Year today) 1 1
          in (thisYearStart, AddDate thisYearStart 1 0 0))]"

definition resolveQueryTimeframe :: "store \<Rightarrow> string \<Rightarrow> time \<Rightarrow> (time \<times> time) option" where
  "resolveQueryTimeframe st q now =
     (let low = ToLower (st_lower st) q; today = day_of now in
      map_option (\<lambda>(_, resolver). case resolver today of (s, e) \<Rightarrow> (midnight s, midnight e))
        (find (\<lambda>(phrase, _). contains low phrase) timeframeKeywords))"

definition store_isoWeekStart :: "int \<Rightarrow> int \<Rightarrow> day" where
  "store_isoWeekStart year week =
     (let jan4 = Date year 1 4 in AddDate (mondayOfWeek jan4) 0 0 ((week - 1) * 7))"

definition period_days :: "string \<Rightarrow> (day \<times> day) option" where
  "period_days period =
     (case parse_date period of Some t \<Rightarrow> Some (t, AddDate t 0 0 1) | None \<Rightarrow>
       (case parse_month period of Some t \<Rightarrow> Some (t, AddDate t 0 1 0) | None \<Rightarrow>
         (case (if length period = 8 \<and> period ! 4 = CHR ''-'' \<and> period ! 5 = CHR ''W''
                then scan_week period else None) of
            Some (year, week) \<Rightarrow> (let s = store_isoWeekStart year week in Some (s, AddDate s 0 0 7))
          | None \<Rightarrow> (case parse_year period of Some t \<Rightarrow> Some (t, AddDate t 1 0 0) | None \<Rightarrow> None))))"

definition parsePeriodRange :: "string \<Rightarrow> (time \<times> time) option" where
  "parsePeriodRange period = map_option (\<lambda>(s, e). (midnight s, midnight e)) (period_days period)"

definition periodsOverlap :: "time \<Rightarrow> time \<Rightarrow> time \<Rightarrow> time \<Rightarrow> bool" where
  "periodsOverlap aStart aEnd bStart bEnd \<longleftrightarrow> aStart < bEnd \<and> bStart < aEnd"

text \<open>\<open>math.Round\<close>: half away from zero.\<close>

definition math_Round :: "rat \<Rightarrow> int" where
  "math_Round x = (if x < 0 then - \<lfloor>- x + 1 / 2\<rfloor> else \<lfloor>x + 1 / 2\<rfloor>)"

definition pluralUnit :: "int \<Rightarrow> string \<Rightarrow> string" where
  "pluralUnit n unit =
     (let count = (if n \<le> 0 then 1 else n) in
      if count = 1 then ''1 '' @ unit @ '' before now'' else dec (nat count) @ '' '' @ unit @ ''s before now'')"

text \<open>\<open>now.Sub(start)\<close> is a 64-bit number of nanoseconds that saturates; the conversion to \<open>int\<close>
  drops the fraction of a day.\<close>

definition Sub :: "time \<Rightarrow> time \<Rightarrow> int" where
  "Sub now start = max (- (2 ^ 63)) (min (2 ^ 63 - 1) ((now - start) * 1000))"

definition whole_days :: "int \<Rightarrow> int" where
  "whole_days ns = (if ns \<ge> 0 then ns div 86400000000000 else - ((- ns) div 86400000000000))"

definition relativeDateLabel :: "time \<Rightarrow> time \<Rightarrow> string" where
  "relativeDateLabel start now =
     (let days = whole_days (Sub now start) in
      if days < 0 then []
      else if days = 0 then ''today''
      else if days = 1 then ''1 day before now''
      else if days < 7 then dec (nat days) @ '' days before now''
      else if days < 60 then pluralUnit (math_Round (of_int days / 7)) ''week''
      else let months = math_Round (of_int days / (3044 / 100)) in
        if months < 12 then pluralUnit months ''month''
        else pluralUnit (math_Round (of_int days / (36525 / 100))) ''year'')"

end
