(* ===== verification/Retrieve.thy ===== *)
theory Retrieve
  imports Temporal
begin

text \<open>
  The episode store (\<open>internal/store/capture.go\<close>, \<open>internal/store/retrieve.go\<close>): capturing an exchange,
  and assembling the context for a question: an anchor, the entities the question names, summaries
  ranked by vector, keyword and fact search together, episodes, entities and the relationship graph.

  The functions that take \<open>*strings.Builder\<close>, \<open>*bool\<close> and \<open>*[]Citation\<close> take and return a \<open>sink\<close>.
\<close>

declare One_nat_def [simp del]

section \<open>Results\<close>

definition RefKindSummary :: string where "RefKindSummary = ''summary''"
definition RefKindEntity :: string where "RefKindEntity = ''entity''"
definition RefKindEpisode :: string where "RefKindEpisode = ''episode''"

definition GateSkipped :: string where "GateSkipped = ''skipped''"
definition GatePartial :: string where "GatePartial = ''partial''"
definition GateFull :: string where "GateFull = ''full''"

record Citation =
  ct_Ref :: ref
  Snippet :: string

record RetrievalResult =
  Gate :: string
  ContextMessage :: string
  Refs :: "ref list"
  Citations :: "Citation list"
  NeedsAggregationPass :: bool

record sink =
  sb :: string
  strongHit :: bool
  citations :: "Citation list"

text \<open>One hit: its line, its citation, and the strong-hit flag; with the reference it adds.\<close>

definition hit :: "ref \<Rightarrow> string \<Rightarrow> string \<Rightarrow> sink \<Rightarrow> sink" where
  "hit r line snippet out = out\<lparr>sb := sb out @ line, strongHit := True,
     citations := citations out @ [\<lparr>ct_Ref = r, Snippet = snippet\<rparr>]\<rparr>"

definition mk_ref :: "string \<Rightarrow> scope \<Rightarrow> string \<Rightarrow> ref" where
  "mk_ref k sc i = \<lparr>ref_kind = k, ref_scope = sc, ref_id = i\<rparr>"

section \<open>Thresholds\<close>

definition vectorSimilarityThreshold :: rat where "vectorSimilarityThreshold = 40 / 100"
definition entityVectorSimilarityThreshold :: rat where "entityVectorSimilarityThreshold = 50 / 100"
definition recommendationEntitySimilarityThreshold :: rat where "recommendationEntitySimilarityThreshold = 25 / 100"
definition recommendationEntityMaxResults :: nat where "recommendationEntityMaxResults = 10"
definition orderingSummarySimilarityThreshold :: rat where "orderingSummarySimilarityThreshold = 25 / 100"
definition orderingSummaryMaxResults :: nat where "orderingSummaryMaxResults = 15"
definition episodeVectorSimilarityThreshold :: rat where "episodeVectorSimilarityThreshold = 55 / 100"
definition summaryOverfetchFactor :: nat where "summaryOverfetchFactor = 3"
definition episodeExchangeCap :: nat where "episodeExchangeCap = 400"
definition graphWalkMaxHops :: nat where "graphWalkMaxHops = 2"
definition graphWalkMaxResults :: nat where "graphWalkMaxResults = 10"

section \<open>Shared pieces of the queries\<close>

text \<open>\<open>embedding_model is null or embedding_model = $n\<close>, and the rows nearest to the query vector.\<close>

definition usable_model :: "store \<Rightarrow> string option \<Rightarrow> bool" where
  "usable_model st m \<longleftrightarrow> m = None \<or> m = Some (currentEmbeddingModel st)"

definition nearest :: "store \<Rightarrow> string \<Rightarrow> nat \<Rightarrow> ('r \<Rightarrow> string option) \<Rightarrow> 'r list \<Rightarrow> ('r \<times> rat) list" where
  "nearest st queryVector n emb rows = take n (sort_key snd
     (List.map_filter (\<lambda>x. map_option (\<lambda>v. (x, distance st v queryVector)) (emb x)) rows))"

text \<open>A \<open>date\<close> column read as a \<open>time.Time\<close>.\<close>

definition date_time :: "date \<Rightarrow> time" where
  "date_time s = (case parse_date s of Some d \<Rightarrow> midnight d | None \<Rightarrow> 0)"

definition a_day :: time where "a_day = 86400000000"

definition date_label :: "string \<Rightarrow> string \<Rightarrow> time \<Rightarrow> time \<Rightarrow> string" where
  "date_label verb shown t now = (let rel = relativeDateLabel t now in
     if rel \<noteq> [] then '', '' @ verb @ '' '' @ shown @ '' ('' @ rel @ '')'' else [])"

definition format_time :: "time \<Rightarrow> string" where   \<comment> \<open>\<open>Format("2006-01-02")\<close>\<close>
  "format_time t = format_date (day_of t)"

definition decrypt_with :: "store \<Rightarrow> scope \<Rightarrow> nat \<Rightarrow> bytes option \<Rightarrow> (encryptor \<times> string) proc" where
  "decrypt_with st sc version ct =
     bindM (GetVersion (st_aead st) sc version) (\<lambda>enc.
     bindM (liftM (Decrypt (st_aead st) enc ct)) (\<lambda>t. retM (enc, t)))"

section \<open>The anchor and the entities a question names\<close>

definition self_models :: "scope \<Rightarrow> world \<Rightarrow> entity list" where
  "self_models sc w = filter (\<lambda>e. en_kind e = ''self_model'' \<and> en_scope e = sc) (visible w en_scope (entities (db w)))"

definition latest_daily :: "scope \<Rightarrow> world \<Rightarrow> string list" where
  "latest_daily sc w = rev (sort (map sum_period (filter (\<lambda>s. sum_level s = ''daily'' \<and> sum_scope s = sc \<and> current w s)
     (visible w sum_scope (summaries (db w))))))"

definition no_rows :: "'a proc \<Rightarrow> 'a option proc" where   \<comment> \<open>\<open>errors.Is(err, sql.ErrNoRows)\<close> is no error\<close>
  "no_rows m = tryM m (\<lambda>res. case res of Inr x \<Rightarrow> retM (Some x)
     | Inl e \<Rightarrow> if e = ErrNoRows then retM None else errM e)"

definition buildAnchor :: "store \<Rightarrow> scope \<Rightarrow> scope \<Rightarrow> (string \<times> ref list \<times> Citation list) proc" where
  "buildAnchor st actingUser workspace =
     bindM (no_rows (query_row (self_models actingUser))) (\<lambda>self.
     bindM (case self of None \<Rightarrow> retM ([], [], [])
        | Some e \<Rightarrow> bindM (decrypt_with st actingUser (en_key_version e) (en_attributes e)) (\<lambda>(_, attrs).
            let r = mk_ref RefKindEntity actingUser (en_id e)
            in retM (''self_model: '' @ attrs @ nl, [r], [\<lparr>ct_Ref = r, Snippet = ''self_model: '' @ attrs\<rparr>]))) (\<lambda>(t, refs, cits).
     bindM (no_rows (query_row (latest_daily workspace))) (\<lambda>latest.
     retM (t @ (case latest of None \<Rightarrow> [] | Some period \<Rightarrow> ''(latest daily summary: '' @ period @ '')'' @ nl), refs, cits))))"

record entityMatch =
  em_id :: string
  em_lastUpdated :: time

definition stage1EntityMatches :: "store \<Rightarrow> scope \<Rightarrow> string \<Rightarrow> entityMatch list proc" where
  "stage1EntityMatches st sc q =
     bindM (query (\<lambda>w. filter (\<lambda>e. en_kind e \<noteq> ''self_model'' \<and> en_scope e = sc) (visible w en_scope (entities (db w)))))
       (\<lambda>rows. let lowerQuery = ToLower (st_lower st) q in
        retM (map (\<lambda>e. \<lparr>em_id = en_id e, em_lastUpdated = date_time (en_last_updated e)\<rparr>)
          (filter (\<lambda>e. (en_name e \<noteq> [] \<and> contains lowerQuery (ToLower (st_lower st) (en_name e)))
             \<or> (let slug = slugPart (en_id e) in slug \<noteq> [] \<and> contains lowerQuery (ToLower (st_lower st) slug))) rows)))"

definition formatEntity :: "store \<Rightarrow> scope \<Rightarrow> string \<Rightarrow> string \<Rightarrow> string proc" where
  "formatEntity st sc i dateLabel =
     bindM (query_row (find_entity sc i)) (\<lambda>e.
     bindM (decrypt_with st sc (en_key_version e) (en_attributes e)) (\<lambda>(_, attrs).
     retM (''entity '' @ i @ dateLabel @ '' ('' @ en_name e @ ''): '' @ attrs)))"

definition in_timeframe :: "(time \<times> time) option \<Rightarrow> time \<Rightarrow> bool" where   \<comment> \<open>a day, or no timeframe\<close>
  "in_timeframe tf t = (case tf of None \<Rightarrow> True | Some (tfStart, tfEnd) \<Rightarrow> periodsOverlap t (t + a_day) tfStart tfEnd)"

section \<open>Summaries: vector, keyword and fact search fused\<close>

record candidate =
  cd_id :: string
  cd_text :: string
  cd_period :: string
  cd_enc :: encryptor
  vectorRank :: "nat option"
  keywordRank :: "nat option"
  factRank :: "nat option"

type_synonym candidates = "(string \<times> candidate) list"   \<comment> \<open>a map, in the order of the ids\<close>

definition load_candidate :: "store \<Rightarrow> scope \<Rightarrow> summary \<Rightarrow> candidate proc" where
  "load_candidate st sc s =
     bindM (decrypt_with st sc (sum_key_version s) (sum_summary s)) (\<lambda>(enc, t).
     retM \<lparr>cd_id = sum_id s, cd_text = t, cd_period = sum_period s, cd_enc = enc,
           vectorRank = None, keywordRank = None, factRank = None\<rparr>)"

definition current_summaries :: "scope \<Rightarrow> world \<Rightarrow> summary list" where
  "current_summaries sc w = filter (\<lambda>s. current w s \<and> sum_scope s = sc) (visible w sum_scope (summaries (db w)))"

definition vector_step :: "store \<Rightarrow> scope \<Rightarrow> rat \<Rightarrow> summary \<times> rat \<Rightarrow> candidates \<times> nat \<Rightarrow> (candidates \<times> nat) proc" where
  "vector_step st sc threshold = (\<lambda>(s, dist) (byID, rank).
     if 1 - dist < threshold then retM (byID, rank)
     else bindM (load_candidate st sc s) (\<lambda>c. retM (put (sum_id s) (c\<lparr>vectorRank := Some rank\<rparr>) byID, rank + 1)))"

definition vector_candidates :: "store \<Rightarrow> scope \<Rightarrow> string \<Rightarrow> rat \<Rightarrow> nat \<Rightarrow> candidates proc" where
  "vector_candidates st sc queryVector threshold maxResults =
     bindM (query (\<lambda>w. nearest st queryVector (maxResults * summaryOverfetchFactor) sum_embedding
        (filter (\<lambda>s. usable_model st (sum_embedding_model s)) (current_summaries sc w)))) (\<lambda>rows.
     bindM (foldM (vector_step st sc threshold) rows ([], 0)) (\<lambda>(byID, _). retM byID))"

definition keyword_doc :: "store \<Rightarrow> scope \<Rightarrow> candidates \<Rightarrow> summary \<Rightarrow> bm25Document list \<times> candidates
    \<Rightarrow> (bm25Document list \<times> candidates) proc" where
  "keyword_doc st sc byID s = (\<lambda>(docs, loaded).
     case map_of byID (sum_id s) of
       Some c \<Rightarrow> retM (docs @ [newBM25Document st (sum_id s) (cd_text c)], loaded)
     | None \<Rightarrow> bindM (load_candidate st sc s) (\<lambda>c.
         retM (docs @ [newBM25Document st (sum_id s) (cd_text c)], put (sum_id s) c loaded)))"

definition rank_keyword :: "candidates \<Rightarrow> nat \<times> string \<Rightarrow> candidates \<Rightarrow> candidates" where
  "rank_keyword loaded = (\<lambda>(rank, i) byID. case map_of byID i of
       Some c \<Rightarrow> put i (c\<lparr>keywordRank := Some rank\<rparr>) byID
     | None \<Rightarrow> (case map_of loaded i of Some c \<Rightarrow> put i (c\<lparr>keywordRank := Some rank\<rparr>) byID | None \<Rightarrow> byID))"

datatype keywordSearchTier = keywordSearchFull | keywordSearchNarrowed | keywordSearchDisabled

definition keyword_candidates :: "store \<Rightarrow> scope \<Rightarrow> string list \<Rightarrow> nat \<Rightarrow> keywordSearchTier \<Rightarrow> string list
    \<Rightarrow> candidates \<Rightarrow> candidates proc" where
  "keyword_candidates st sc queryTerms maxResults tier matchedEntityIDs byID =
     (if tier = keywordSearchDisabled \<or> queryTerms = [] then retM byID
      else let narrow = (tier = keywordSearchNarrowed \<and> matchedEntityIDs \<noteq> [])
           in bindM (query (\<lambda>w. filter (\<lambda>s. sum_summary s \<noteq> None
                  \<and> (narrow \<longrightarrow> list_ex (\<lambda>x. x \<in> set matchedEntityIDs) (sum_entities_touched s))) (current_summaries sc w))) (\<lambda>rows.
              bindM (foldM (keyword_doc st sc byID) rows ([], [])) (\<lambda>(docs, loaded).
              let matches = take (maxResults * summaryOverfetchFactor) (scored_docs st docs queryTerms)
              in retM (fold (rank_keyword loaded) (enumerate 0 (map fst matches)) byID))))"

definition fact_rows :: "store \<Rightarrow> scope \<Rightarrow> string \<Rightarrow> world \<Rightarrow> (summary \<times> rat) list" where
  "fact_rows st sc queryVector w =
     (let facts = filter (\<lambda>f. usable_model st (kf_embedding_model f) \<and> kf_grounded f \<and> kf_scope f = sc)
                    (visible w kf_scope (summary_key_facts (db w)))
      in sort_key snd (List.map_filter (\<lambda>s.
           case List.map_filter (\<lambda>f. if kf_summary_id f = sum_id s
                                     then map_option (\<lambda>v. distance st v queryVector) (kf_embedding f) else None) facts of
             [] \<Rightarrow> None | d # ds \<Rightarrow> Some (s, foldl min d ds))
         (filter (current w) (visible w sum_scope (summaries (db w))))))"

definition fact_step :: "store \<Rightarrow> scope \<Rightarrow> rat \<Rightarrow> summary \<times> rat \<Rightarrow> candidates \<times> nat \<Rightarrow> (candidates \<times> nat) proc" where
  "fact_step st sc threshold = (\<lambda>(s, dist) (byID, rank).
     if 1 - dist < threshold then retM (byID, rank)
     else case map_of byID (sum_id s) of
         Some c \<Rightarrow> retM (put (sum_id s) (c\<lparr>factRank := Some rank\<rparr>) byID, rank + 1)
       | None \<Rightarrow> bindM (load_candidate st sc s) (\<lambda>c. retM (put (sum_id s) (c\<lparr>factRank := Some rank\<rparr>) byID, rank + 1)))"

definition fact_candidates :: "store \<Rightarrow> scope \<Rightarrow> string \<Rightarrow> rat \<Rightarrow> nat \<Rightarrow> candidates \<Rightarrow> candidates proc" where
  "fact_candidates st sc queryVector threshold maxResults byID =
     bindM (query (\<lambda>w. take (maxResults * summaryOverfetchFactor) (fact_rows st sc queryVector w))) (\<lambda>rows.
     bindM (foldM (fact_step st sc threshold) rows (byID, 0)) (\<lambda>(byID', _). retM byID'))"

text \<open>The pool: candidates whose period lies outside the timeframe of the question are left out,
  unless that leaves none.\<close>

definition overlaps :: "time \<times> time \<Rightarrow> candidate \<Rightarrow> bool" where
  "overlaps tf c = (case parsePeriodRange (cd_period c) of Some (pStart, pEnd) \<Rightarrow> periodsOverlap pStart pEnd (fst tf) (snd tf)
     | None \<Rightarrow> False)"

definition excluded :: "time \<times> time \<Rightarrow> candidate \<Rightarrow> bool" where
  "excluded tf c \<longleftrightarrow> parsePeriodRange (cd_period c) \<noteq> None \<and> \<not> overlaps tf c"

definition candidate_pool :: "(time \<times> time) option \<Rightarrow> candidate list \<Rightarrow> candidate list" where
  "candidate_pool tf cs = (case tf of None \<Rightarrow> cs
     | Some r \<Rightarrow> let keep = filter (\<lambda>c. \<not> excluded r c) cs in if keep \<noteq> [] then keep else cs)"

definition rank_score :: "nat option \<Rightarrow> rat" where
  "rank_score rank = (case rank of None \<Rightarrow> 0 | Some n \<Rightarrow> reciprocalRank n)"

definition fused_score :: "(time \<times> time) option \<Rightarrow> candidate \<Rightarrow> rat" where
  "fused_score tf c = rank_score (vectorRank c) + rank_score (keywordRank c) + rank_score (factRank c)
     + (case tf of None \<Rightarrow> 0 | Some r \<Rightarrow> if overlaps r c then temporalRelevanceBoost else 0)"

definition loadKeyFacts :: "store \<Rightarrow> string \<Rightarrow> encryptor \<Rightarrow> string \<Rightarrow> keyFact list proc" where
  "loadKeyFacts st summaryID enc queryVector =
     bindM (query (\<lambda>w. sort_key kf_id (filter (\<lambda>f. kf_summary_id f = summaryID \<and> kf_grounded f)
        (visible w kf_scope (summary_key_facts (db w)))))) (mapM (\<lambda>f.
       bindM (liftM (Decrypt (st_aead st) enc (Some (kf_fact f)))) (\<lambda>t.
       retM \<lparr>fact_text = t, similarity = (if kf_embedding_model f = Some (currentEmbeddingModel st)
               then map_option (\<lambda>v. 1 - distance st v queryVector) (kf_embedding f) else None)\<rparr>)))"

definition match_label :: "candidate \<Rightarrow> string" where
  "match_label c = (if vectorRank c \<noteq> None \<and> keywordRank c \<noteq> None then '', vector+keyword match''
     else if keywordRank c \<noteq> None then '', keyword match'' else [])"

definition period_label :: "candidate \<Rightarrow> time \<Rightarrow> string" where
  "period_label c now = (case parsePeriodRange (cd_period c) of None \<Rightarrow> []
     | Some (pStart, _) \<Rightarrow> date_label ''dated'' (cd_period c) pStart now)"

definition guarantee_line :: "store \<Rightarrow> string list \<Rightarrow> time \<Rightarrow> nat \<Rightarrow> candidate \<times> keyFact list \<Rightarrow> string" where
  "guarantee_line st queryTerms now cap = (\<lambda>(c, facts).
     let prefix = nl @ ''related memory (summary '' @ cd_id c @ period_label c now @ match_label c @ ''): '';
         factCap = max guaranteeMinFactChars (cap - length prefix)
     in prefix @ hardTruncate (guaranteedFact st (cd_text c) facts queryTerms) factCap)"

definition cite_summary :: "store \<Rightarrow> scope \<Rightarrow> string list \<Rightarrow> candidate \<times> keyFact list \<Rightarrow> sink \<Rightarrow> sink" where
  "cite_summary st sc queryTerms = (\<lambda>(c, facts).
     hit (mk_ref RefKindSummary sc (cd_id c)) (nl @ hardTruncate (depthText st (cd_text c) facts queryTerms) summaryDepthCap)
       (summaryCitationSnippet st (cd_text c) facts queryTerms))"

definition pick_summaries :: "store \<Rightarrow> (time \<times> time) option \<Rightarrow> nat \<Rightarrow> candidates \<Rightarrow> candidate list" where
  "pick_summaries st tf maxResults byID =
     (let pool = candidate_pool tf (map snd byID)
      in map (\<lambda>i. pool ! i) (mmrSelect (map (\<lambda>c. \<lparr>relevance = fused_score tf c, tokens = tokenSet st (cd_text c)\<rparr>) pool)
           maxResults (mmrLambda st)))"

definition fusedSearchSummaries :: "store \<Rightarrow> scope \<Rightarrow> string \<Rightarrow> string list \<Rightarrow> rat \<Rightarrow> nat \<Rightarrow> string \<Rightarrow> time
    \<Rightarrow> keywordSearchTier \<Rightarrow> string list \<Rightarrow> sink \<Rightarrow> (ref list \<times> sink) proc" where
  "fusedSearchSummaries st sc queryVector queryTerms threshold maxResults q now tier matchedEntityIDs out =
     bindM (vector_candidates st sc queryVector threshold maxResults) (\<lambda>byVector.
     bindM (keyword_candidates st sc queryTerms maxResults tier matchedEntityIDs byVector) (\<lambda>byKeyword.
     bindM (fact_candidates st sc queryVector threshold maxResults byKeyword) (\<lambda>byID.
     if byID = [] then retM ([], out)
     else bindM (mapM (\<lambda>c. bindM (loadKeyFacts st (cd_id c) (cd_enc c) queryVector) (\<lambda>facts. retM (c, facts)))
            (pick_summaries st (resolveQueryTimeframe st q now) maxResults byID)) (\<lambda>picks.
          let guarantees = concat (map (guarantee_line st queryTerms now (guaranteeBudgetPerSummary st (length picks))) picks)
          in retM (map (\<lambda>(c, _). mk_ref RefKindSummary sc (cd_id c)) picks,
                   fold (cite_summary st sc queryTerms) picks (out\<lparr>sb := sb out @ guarantees\<rparr>))))))"

section \<open>Episodes\<close>

record exchange =
  ex_id :: string
  ex_input :: string
  ex_output :: string
  ex_ts :: time

definition load_exchange :: "store \<Rightarrow> scope \<Rightarrow> episode \<Rightarrow> exchange proc" where
  "load_exchange st sc e =
     bindM (GetVersion (st_aead st) sc (ep_key_version e)) (\<lambda>enc.
     bindM (liftM (Decrypt (st_aead st) enc (ep_input_text e))) (\<lambda>input.
     bindM (liftM (Decrypt (st_aead st) enc (ep_output_text e))) (\<lambda>output.
     retM \<lparr>ex_id = ep_id e, ex_input = input, ex_output = output, ex_ts = ep_ts e\<rparr>)))"

text \<open>Only exchanges within the timeframe, unless there are none.\<close>

definition prefer_timeframe :: "(time \<times> time) option \<Rightarrow> exchange list \<Rightarrow> exchange list" where
  "prefer_timeframe tf ms = (case tf of None \<Rightarrow> ms
     | Some (tfStart, tfEnd) \<Rightarrow>
         let keep = filter (\<lambda>m. \<not> (ex_ts m < tfStart \<or> \<not> ex_ts m < tfEnd)) ms in if keep \<noteq> [] then keep else ms)"

definition exchange_text :: "exchange \<Rightarrow> string" where
  "exchange_text m = ''USER: '' @ ex_input m @ '' ASSISTANT: '' @ ex_output m"

definition cite_exchange :: "store \<Rightarrow> scope \<Rightarrow> string list \<Rightarrow> time \<Rightarrow> string \<Rightarrow> exchange \<Rightarrow> ref list \<times> sink \<Rightarrow> (ref list \<times> sink) proc" where
  "cite_exchange st sc queryTerms now label m = (\<lambda>(refs, out).
     case centeredExcerpt st (exchange_text m) queryTerms episodeExchangeCap of
       None \<Rightarrow> errM ErrPanic
     | Some excerpt \<Rightarrow>
         let r = mk_ref RefKindEpisode sc (ex_id m);
             line = nl @ ''related exchange (episode '' @ ex_id m @ date_label ''dated'' (format_time (ex_ts m)) (ex_ts m) now
                      @ label @ ''): '' @ excerpt
         in retM (refs @ [r], hit r line (exchange_text m) out))"

definition interactions :: "scope \<Rightarrow> world \<Rightarrow> episode list" where
  "interactions sc w = filter (\<lambda>e. ep_type e = ''interaction'' \<and> ep_scope e = sc) (visible w ep_scope (episodes (db w)))"

definition vectorSearchEpisodes :: "store \<Rightarrow> scope \<Rightarrow> string \<Rightarrow> string list \<Rightarrow> string \<Rightarrow> time \<Rightarrow> sink \<Rightarrow> (ref list \<times> sink) proc" where
  "vectorSearchEpisodes st sc queryVector queryTerms q now out =
     bindM (query (\<lambda>w. nearest st queryVector (maxVectorResults st) ep_embedding
        (filter (\<lambda>e. usable_model st (ep_embedding_model e)) (interactions sc w)))) (\<lambda>rows.
     bindM (mapM (\<lambda>(e, _). load_exchange st sc e) (filter (\<lambda>(_, dist). \<not> 1 - dist < episodeVectorSimilarityThreshold) rows)) (\<lambda>ms.
     foldM (cite_exchange st sc queryTerms now []) (prefer_timeframe (resolveQueryTimeframe st q now) ms) ([], out)))"

text \<open>The exchanges of a ranking, in its order.\<close>

definition by_id :: "('r \<Rightarrow> string) \<Rightarrow> 'r list \<Rightarrow> string list \<Rightarrow> 'r list" where
  "by_id key rs ids = List.map_filter (\<lambda>i. find (\<lambda>x. key x = i) rs) ids"

definition keywordSearchEpisodes :: "store \<Rightarrow> scope \<Rightarrow> string list \<Rightarrow> string list \<Rightarrow> string \<Rightarrow> time \<Rightarrow> sink
    \<Rightarrow> (ref list \<times> sink) proc" where
  "keywordSearchEpisodes st sc queryTerms excludeIDs q now out =
     bindM (query (\<lambda>w. filter (\<lambda>e. ep_id e \<notin> set excludeIDs) (interactions sc w))) (\<lambda>rows.
     bindM (mapM (load_exchange st sc) rows) (\<lambda>ms.
     let docs = map (\<lambda>m. newBM25Document st (ex_id m) (ex_input m @ '' '' @ ex_output m)) ms;
         matches = by_id ex_id ms (rankBM25 st docs queryTerms)
     in foldM (cite_exchange st sc queryTerms now '', keyword match'')
          (prefer_timeframe (resolveQueryTimeframe st q now) matches) ([], out)))"

section \<open>Entities\<close>

record entityHit =
  eh_id :: string
  eh_name :: string
  eh_attrs :: string
  eh_lastUpdated :: time

definition load_entity_hit :: "store \<Rightarrow> scope \<Rightarrow> entity \<Rightarrow> entityHit proc" where
  "load_entity_hit st sc e =
     bindM (decrypt_with st sc (en_key_version e) (en_attributes e)) (\<lambda>(_, attrs).
     retM \<lparr>eh_id = en_id e, eh_name = en_name e, eh_attrs = attrs, eh_lastUpdated = date_time (en_last_updated e)\<rparr>)"

definition cite_entity :: "scope \<Rightarrow> time \<Rightarrow> string \<Rightarrow> entityHit \<Rightarrow> sink \<Rightarrow> sink" where
  "cite_entity sc now label m = hit (mk_ref RefKindEntity sc (eh_id m))
     (nl @ ''related memory (entity '' @ eh_id m @ date_label ''last updated'' (format_time (eh_lastUpdated m)) (eh_lastUpdated m) now
        @ '', '' @ eh_name m @ label @ ''): '' @ eh_attrs m)
     (''entity '' @ eh_id m @ '' ('' @ eh_name m @ ''): '' @ eh_attrs m)"

definition known_entities :: "scope \<Rightarrow> string list \<Rightarrow> world \<Rightarrow> entity list" where
  "known_entities sc excludeIDs w = filter (\<lambda>e. en_kind e \<noteq> ''self_model'' \<and> en_id e \<notin> set excludeIDs \<and> en_scope e = sc)
     (visible w en_scope (entities (db w)))"

definition vectorSearchEntities :: "store \<Rightarrow> scope \<Rightarrow> string \<Rightarrow> string list \<Rightarrow> rat \<Rightarrow> nat \<Rightarrow> string \<Rightarrow> time \<Rightarrow> sink
    \<Rightarrow> (ref list \<times> sink) proc" where
  "vectorSearchEntities st sc queryVector excludeIDs threshold maxResults q now out =
     bindM (query (\<lambda>w. nearest st queryVector maxResults en_embedding
        (filter (\<lambda>e. usable_model st (en_embedding_model e)) (known_entities sc excludeIDs w)))) (\<lambda>rows.
     bindM (mapM (\<lambda>(e, _). load_entity_hit st sc e)
        (filter (\<lambda>(e, dist). \<not> 1 - dist < threshold
            \<and> in_timeframe (resolveQueryTimeframe st q now) (date_time (en_last_updated e))) rows)) (\<lambda>ms.
     retM (map (\<lambda>m. mk_ref RefKindEntity sc (eh_id m)) ms, fold (cite_entity sc now []) ms out)))"

definition keywordSearchEntities :: "store \<Rightarrow> scope \<Rightarrow> string list \<Rightarrow> string list \<Rightarrow> string \<Rightarrow> time \<Rightarrow> sink
    \<Rightarrow> (ref list \<times> sink) proc" where
  "keywordSearchEntities st sc queryTerms excludeIDs q now out =
     bindM (query (\<lambda>w. filter (\<lambda>e. en_attributes e \<noteq> None) (known_entities sc excludeIDs w))) (\<lambda>rows.
     bindM (mapM (load_entity_hit st sc) rows) (\<lambda>ms.
     let docs = map (\<lambda>m. newBM25Document st (eh_id m) (eh_name m @ '' '' @ eh_attrs m)) ms;
         matches = filter (\<lambda>m. in_timeframe (resolveQueryTimeframe st q now) (eh_lastUpdated m))
                     (by_id eh_id ms (rankBM25 st docs queryTerms))
     in retM (map (\<lambda>m. mk_ref RefKindEntity sc (eh_id m)) matches, fold (cite_entity sc now '', keyword match'') matches out)))"

section \<open>The relationship graph\<close>

record walk =
  visited :: "string list"
  discovered :: "string list"
  frontier :: "string list"

definition visit :: "string \<Rightarrow> walk \<Rightarrow> walk" where
  "visit c wk = (if c \<in> set (visited wk) \<or> length (discovered wk) \<ge> graphWalkMaxResults then wk
     else \<lparr>visited = c # visited wk, discovered = discovered wk @ [c], frontier = frontier wk @ [c]\<rparr>)"

definition open_edges :: "scope \<Rightarrow> string list \<Rightarrow> world \<Rightarrow> relationship list" where
  "open_edges sc ids w = filter (\<lambda>e. rel_scope e = sc \<and> (rel_subject_id e \<in> set ids \<or> rel_object_id e \<in> set ids)
     \<and> rel_valid_until e = None) (visible w rel_scope (entity_relationships (db w)))"

definition hop :: "relationship list \<Rightarrow> walk \<Rightarrow> walk" where
  "hop rows wk = fold (\<lambda>e wk. visit (rel_object_id e) (visit (rel_subject_id e) wk)) rows (wk\<lparr>frontier := []\<rparr>)"

primrec walk_hops :: "scope \<Rightarrow> nat \<Rightarrow> walk \<Rightarrow> walk proc" where
  "walk_hops sc 0 wk = retM wk"
| "walk_hops sc (Suc n) wk =
     (if frontier wk = [] \<or> \<not> length (discovered wk) < graphWalkMaxResults then retM wk
      else bindM (query (open_edges sc (frontier wk))) (\<lambda>rows. walk_hops sc n (hop rows wk)))"

definition cite_walked :: "store \<Rightarrow> scope \<Rightarrow> string \<Rightarrow> ref list \<times> sink \<Rightarrow> (ref list \<times> sink) proc" where
  "cite_walked st sc i = (\<lambda>(refs, out).
     bindM (formatEntity st sc i []) (\<lambda>line.
     let r = mk_ref RefKindEntity sc i
     in retM (refs @ [r], hit r (nl @ line @ '', relationship graph'') (line @ '', relationship graph'') out)))"

definition graphWalkRelationships :: "store \<Rightarrow> scope \<Rightarrow> string list \<Rightarrow> sink \<Rightarrow> (ref list \<times> sink) proc" where
  "graphWalkRelationships st sc seedEntityIDs out =
     (if seedEntityIDs = [] \<or> \<not> graphWalkEnabled st then retM ([], out)
      else bindM (walk_hops sc graphWalkMaxHops
             \<lparr>visited = seedEntityIDs, discovered = [], frontier = seedEntityIDs\<rparr>) (\<lambda>wk.
           foldM (cite_walked st sc) (discovered wk) ([], out)))"

section \<open>Retrieval\<close>

definition keywordSearchTierForScope :: "store \<Rightarrow> scope \<Rightarrow> keywordSearchTier proc" where
  "keywordSearchTierForScope st sc =
     (if \<not> keywordSearchEnabled st then retM keywordSearchDisabled
      else bindM (no_rows (query_row (\<lambda>w. filter (\<lambda>c. cs_scope c = sc) (visible w cs_scope (scope_corpus_sizes (db w)))))) (\<lambda>row.
        retM (case row of None \<Rightarrow> keywordSearchFull
          | Some c \<Rightarrow> let n = cs_episode_count c + cs_summary_count c in
              if n > keywordSearchDisableThreshold st then keywordSearchDisabled
              else if n > keywordSearchNarrowThreshold st then keywordSearchNarrowed
              else keywordSearchFull)))"

text \<open>The first transaction: the anchor and the entities the question names, with their lines.\<close>

definition stage1 :: "store \<Rightarrow> scope \<Rightarrow> scope \<Rightarrow> string \<Rightarrow> time
    \<Rightarrow> ((string \<times> ref list \<times> Citation list) \<times> (entityMatch \<times> string) list) proc" where
  "stage1 st actingUser workspace q now =
     bindM (buildAnchor st actingUser workspace) (\<lambda>anchor.
     if q = [] then retM (anchor, [])
     else bindM (stage1EntityMatches st workspace q) (\<lambda>ms.
       bindM (mapM (\<lambda>m. bindM (formatEntity st workspace (em_id m)
            (date_label ''last updated'' (format_time (em_lastUpdated m)) (em_lastUpdated m) now)) (\<lambda>line. retM (m, line)))
          (filter (\<lambda>m. in_timeframe (resolveQueryTimeframe st q now) (em_lastUpdated m)) ms)) (\<lambda>lines.
       retM (anchor, lines))))"

text \<open>The second transaction: the searches, in the order in which they add to the context.\<close>

definition searches :: "store \<Rightarrow> scope \<Rightarrow> string \<Rightarrow> string list \<Rightarrow> string \<Rightarrow> time \<Rightarrow> string list \<Rightarrow> ref list \<Rightarrow> sink
    \<Rightarrow> (ref list \<times> sink) proc" where
  "searches st sc queryVector queryTerms q now matchedEntityIDs refs0 out0 =
     (let recommend = looksLikeRecommendationRequest st q; ordering = looksLikeOrderingRequest st q in
      bindM (keywordSearchTierForScope st sc) (\<lambda>tier.
      bindM (fusedSearchSummaries st sc queryVector queryTerms
         (if ordering then orderingSummarySimilarityThreshold else vectorSimilarityThreshold)
         (if ordering then orderingSummaryMaxResults else maxVectorResults st) q now tier matchedEntityIDs out0) (\<lambda>(r1, out1).
      bindM (vectorSearchEpisodes st sc queryVector queryTerms q now out1) (\<lambda>(r2, out2).
      bindM (vectorSearchEntities st sc queryVector matchedEntityIDs
         (if recommend then recommendationEntitySimilarityThreshold else entityVectorSimilarityThreshold)
         (if recommend then recommendationEntityMaxResults else maxVectorResults st) q now out2) (\<lambda>(r3, out3).
      bindM (let refs = refs0 @ r1 @ r2 @ r3 in
             if queryTerms \<noteq> [] \<and> tier \<noteq> keywordSearchDisabled
             then bindM (keywordSearchEpisodes st sc queryTerms (refIDsOfKind refs RefKindEpisode) q now out3) (\<lambda>(r4, out4).
                  bindM (keywordSearchEntities st sc queryTerms (refIDsOfKind (refs @ r4) RefKindEntity) q now out4) (\<lambda>(r5, out5).
                  retM (refs @ r4 @ r5, out5)))
             else retM (refs, out3)) (\<lambda>(refs, out5).
      bindM (graphWalkRelationships st sc (refIDsOfKind refs RefKindEntity) out5) (\<lambda>(r6, out6).
      retM (refs @ r6, out6))))))))"

definition embed_query :: "store \<Rightarrow> string \<Rightarrow> string proc" where
  "embed_query st q =
     bindM (call (Embed (embedder st)) [TruncateForEmbedding q]) (\<lambda>vectors. case vectors of
       [] \<Rightarrow> errM (ErrVectorCount 0 1)
     | v # _ \<Rightarrow> retM (VectorLiteral (st_float_text st) v))"

definition cite_matched :: "scope \<Rightarrow> entityMatch \<times> string \<Rightarrow> sink \<Rightarrow> sink" where
  "cite_matched workspace = (\<lambda>(m, line). hit (mk_ref RefKindEntity workspace (em_id m)) (nl @ line) line)"

definition after_stage1 :: "store \<Rightarrow> scope \<Rightarrow> string \<Rightarrow> time \<Rightarrow> string \<Rightarrow> ref list \<Rightarrow> Citation list
    \<Rightarrow> (entityMatch \<times> string) list \<Rightarrow> RetrievalResult proc" where
  "after_stage1 st workspace q now anchor anchorRefs anchorCitations matched =
     (if q = [] \<or> (matched = [] \<and> \<not> (stage1KeywordSignal st q \<or> stage1QuestionSignal st q))
      then retM \<lparr>Gate = GateSkipped, ContextMessage = anchor, Refs = anchorRefs, Citations = anchorCitations,
                 NeedsAggregationPass = False\<rparr>
      else let ids = map (\<lambda>(m, _). em_id m) matched;
               refs = anchorRefs @ map (mk_ref RefKindEntity workspace) ids;
               out = fold (cite_matched workspace) matched \<lparr>sb = anchor, strongHit = False, citations = anchorCitations\<rparr>
           in bindM (embed_query st q) (\<lambda>queryVector.
              bindM (Run workspace workspace (searches st workspace queryVector (tokenize st q) q now ids refs out)) (\<lambda>(refs', out').
              retM \<lparr>Gate = (if strongHit out' then GateFull else GatePartial),
                    ContextMessage = truncateToBudget (sb out') (contextCharBudget st),
                    Refs = refs', Citations = citations out', NeedsAggregationPass = looksLikeOrderingRequest st q\<rparr>)))"

definition retrieve :: "store \<Rightarrow> scope \<Rightarrow> scope \<Rightarrow> Message list \<Rightarrow> time \<Rightarrow> RetrievalResult proc" where
  "retrieve st actingUser workspace messages now =
     (let q = lastUserMessage messages in
      bindM (Run actingUser workspace (stage1 st actingUser workspace q now)) (\<lambda>((anchor, anchorRefs, anchorCitations), matched).
      after_stage1 st workspace q now anchor anchorRefs anchorCitations matched))"

definition EventRetrieve :: string where "EventRetrieve = ''retrieve''"

definition Retrieve :: "store \<Rightarrow> scope \<Rightarrow> scope \<Rightarrow> Message list \<Rightarrow> time \<Rightarrow> RetrievalResult proc" where
  "Retrieve st actingUser workspace messages now =
     bindM (retrieve st actingUser workspace messages now) (\<lambda>res.
     bindM (best_effort (Run actingUser workspace (audit_Write \<lparr>EventType = EventRetrieve, Actor = Owner actingUser,
         ActingScope = actingUser, WorkspaceScope = workspace, TargetRef = None,
         Detail = [(''gate'', JStr (Gate res)), (''ref_count'', JInt (int (length (Refs res))))]\<rparr>))) (\<lambda>_.
     retM res))"

section \<open>Capture\<close>

record Episode =
  ep_ID :: string
  TS :: time
  Type :: string
  ProviderVendor :: string
  ProviderModel :: string
  InputText :: string
  OutputText :: string
  Importance :: rat
  Hash :: string
  Truncated :: bool
  MemoryGate :: string
  RetrievedRefs :: "ref list"
  ActorUserID :: string
  RefersTo :: string
  Rating :: string
  Note :: string

definition episode_types :: "string list" where "episode_types = [''interaction'', ''note'', ''event'', ''feedback'']"
definition memory_gates :: "string list" where "memory_gates = [''skipped'', ''partial'', ''full'']"
definition ratings :: "string list" where "ratings = [''memory_correct'', ''memory_wrong'', ''memory_missing'']"

definition optional_in :: "string list \<Rightarrow> string option \<Rightarrow> bool" where
  "optional_in allowed v = (case v of None \<Rightarrow> True | Some x \<Rightarrow> x \<in> set allowed)"

text \<open>\<open>insert ... on conflict (id) do nothing\<close>: the checks of the table, row-level security and the
  foreign key of \<open>refers_to\<close>; an id that is taken, in whatever scope, leaves the table as it is.\<close>

definition insert_episode :: "episode \<Rightarrow> world \<Rightarrow> database \<Rightarrow> database option" where
  "insert_episode e w d =
     (if ep_type e \<in> set episode_types \<and> optional_in memory_gates (ep_memory_gate e) \<and> optional_in ratings (ep_rating e)
         \<and> (case ep_importance e of None \<Rightarrow> True | Some i \<Rightarrow> 0 \<le> i \<and> i \<le> 1)
         \<and> Kind (ep_scope e) \<in> {ScopeKindPrivate, ScopeKindShared} \<and> rls_check w (ep_scope e)
      then if ep_id e \<in> ep_id ` set (episodes d) then Some d
           else if (case ep_refers_to e of None \<Rightarrow> True | Some i \<Rightarrow> i \<in> insert (ep_id e) (ep_id ` set (episodes d)))
           then Some (d\<lparr>episodes := episodes d @ [e]\<rparr>) else None
      else None)"

definition feedback_target :: "Episode \<Rightarrow> unit proc" where
  "feedback_target ep =
     (if Type ep = ''feedback'' \<and> RefersTo ep \<noteq> []
      then bindM (query (\<lambda>w. list_ex (\<lambda>e. ep_id e = RefersTo ep) (visible w ep_scope (episodes (db w))))) (\<lambda>found.
           if found then retM () else errM ErrFeedbackEpisodeNotFound)
      else retM ())"

definition episode_row :: "scope \<Rightarrow> Episode \<Rightarrow> bytes \<Rightarrow> bytes \<Rightarrow> bytes option \<Rightarrow> nat \<Rightarrow> episode" where
  "episode_row sc ep inputCT outputCT noteCT keyVersion =
     \<lparr>ep_id = ep_ID ep, ep_scope = sc, ep_ts = TS ep, ep_type = Type ep, ep_vendor = Nullable (ProviderVendor ep),
      ep_model = Nullable (ProviderModel ep), ep_endpoint = None, ep_context_tags = [],
      ep_input_text = Some inputCT, ep_output_text = Some outputCT, ep_importance = Some (Importance ep),
      ep_hash = Hash ep, ep_supersedes = None, ep_externalized = False, ep_truncated = Truncated ep,
      ep_memory_gate = Nullable (MemoryGate ep), ep_retrieved_refs = RetrievedRefs ep,
      ep_refers_to = Nullable (RefersTo ep), ep_rating = Nullable (Rating ep), ep_note = noteCT,
      ep_key_version = keyVersion, ep_embedding = None, ep_embedding_model = None\<rparr>"

definition Capture :: "store \<Rightarrow> scope \<Rightarrow> Episode \<Rightarrow> unit proc" where
  "Capture st sc ep =
     bindM (GetOrCreate (st_aead st) sc) (\<lambda>(enc, keyVersion).
     bindM (Encrypt (st_aead st) enc (InputText ep)) (\<lambda>inputCT.
     bindM (Encrypt (st_aead st) enc (OutputText ep)) (\<lambda>outputCT.
     bindM (if Type ep = ''feedback'' then bindM (Encrypt (st_aead st) enc (Note ep)) (\<lambda>ct. retM (Some ct)) else retM None) (\<lambda>noteCT.
     Run sc sc (bindM (feedback_target ep) (\<lambda>_.
       bindM (exec_check (insert_episode (episode_row sc ep inputCT outputCT noteCT keyVersion))) (\<lambda>_.
       audit_Write \<lparr>EventType = EventCapture, Actor = (if ActorUserID ep = [] then Owner sc else ActorUserID ep),
         ActingScope = sc, WorkspaceScope = sc,
         TargetRef = Some (mk_ref RefKindEpisode sc (ep_ID ep)), Detail = [(''episode_type'', JStr (Type ep))]\<rparr>)))))))"

end
