(* ===== verification/Scope_View.thy ===== *)
theory Scope_View
  imports Summaries
begin

text \<open>
  Two runs of the same procedure: on databases that look the same to an observer, a procedure of
  which every statement only reads what the observer sees returns the same value and leaves the
  databases looking the same. The observer of interest sees the rows of some scopes.
\<close>

declare One_nat_def [simp del]

section \<open>Worlds that look the same\<close>

definition process :: "world \<Rightarrow> _" where
  "process w = (kek w, cache w, clock w, faults w, ticks w, rand w, rand_pos w, rand_ok w, calls w)"

inductive same_tx :: "(database \<Rightarrow> 'v) \<Rightarrow> scope set \<Rightarrow> (scope \<times> scope \<times> database) option
    \<Rightarrow> (scope \<times> scope \<times> database) option \<Rightarrow> bool" for V S where
  no_tx: "same_tx V S None None"
| in_tx: "a \<in> S \<Longrightarrow> ws \<in> S \<Longrightarrow> V d' = V d \<Longrightarrow> same_tx V S (Some (a, ws, d)) (Some (a, ws, d'))"

definition agree :: "(database \<Rightarrow> 'v) \<Rightarrow> scope set \<Rightarrow> world \<Rightarrow> world \<Rightarrow> bool" where
  "agree V S w w' \<longleftrightarrow> process w' = process w \<and> V (db w') = V (db w) \<and> same_tx V S (tx w) (tx w')"

definition alike :: "(database \<Rightarrow> 'v) \<Rightarrow> scope set \<Rightarrow> 'a proc \<Rightarrow> bool" where
  "alike V S m \<longleftrightarrow> (\<forall>w w'. agree V S w w' \<longrightarrow>
     fst (m w') = fst (m w) \<and> agree V S (snd (m w)) (snd (m w')))"

lemma agreeD:
  assumes "agree V S w w'"
  shows "kek w' = kek w" "cache w' = cache w" "clock w' = clock w" "faults w' = faults w" "ticks w' = ticks w"
    "rand w' = rand w" "rand_pos w' = rand_pos w" "rand_ok w' = rand_ok w" "calls w' = calls w"
    "V (db w') = V (db w)" "fault_now w' = fault_now w"
  using assms by (simp_all add: agree_def process_def fault_now_def)

lemma agree_session: "agree V S w w' \<Longrightarrow> session w' = session w"
  by (auto simp: agree_def session_def elim: same_tx.cases)

lemma agree_rls: "agree V S w w' \<Longrightarrow> rls_visible w' = rls_visible w" "agree V S w w' \<Longrightarrow> rls_check w' = rls_check w"
  by (auto simp: agree_def rls_visible_def rls_check_def fun_eq_iff elim: same_tx.cases)

lemma agree_seen: "agree V S w w' \<Longrightarrow> rls_visible w sc \<Longrightarrow> sc \<in> S"
  by (auto simp: agree_def rls_visible_def elim: same_tx.cases)

lemma agree_tick: "agree V S w w' \<Longrightarrow> agree V S (tick w) (tick w')"
  by (simp add: agree_def tick_def process_def)

lemma alikeI:
  assumes "\<And>w w'. agree V S w w' \<Longrightarrow> fst (m w') = fst (m w) \<and> agree V S (snd (m w)) (snd (m w'))"
  shows "alike V S m"
  using assms by (simp add: alike_def)

lemma alikeD:
  assumes "alike V S m" "agree V S w w'"
  shows "fst (m w') = fst (m w)" "agree V S (snd (m w)) (snd (m w'))"
  using assms by (simp_all add: alike_def)

section \<open>Composition\<close>

lemma alike_ret: "alike V S (retM x)"
  by (rule alikeI) (simp add: retM_def)

lemma alike_err: "alike V S (errM e)"
  by (rule alikeI) (simp add: errM_def)

lemma alike_lift: "alike V S (liftM r)"
  by (rule alikeI) (simp add: liftM_def)

lemma alike_get: "(\<And>w w'. agree V S w w' \<Longrightarrow> f w' = f w) \<Longrightarrow> alike V S (getM f)"
  by (rule alikeI) (simp add: getM_def)

lemma alike_mod: "(\<And>w w'. agree V S w w' \<Longrightarrow> agree V S (f w) (f w')) \<Longrightarrow> alike V S (modM f)"
  by (rule alikeI) (simp add: modM_def)

lemma alike_query: "(\<And>w w'. agree V S w w' \<Longrightarrow> f w' = f w) \<Longrightarrow> alike V S (query f)"
  by (rule alikeI) (simp add: query_def agreeD agree_tick)

lemma alike_bind:
  assumes m: "alike V S m" and k: "\<And>x. alike V S (k x)"
  shows "alike V S (bindM m k)"
proof (rule alikeI)
  fix w w'
  assume a: "agree V S w w'"
  note m' = alikeD [OF m a]
  obtain r t where t: "m w = (r, t)" by (cases "m w")
  obtain r' t' where t': "m w' = (r', t')" by (cases "m w'")
  have "r' = r" "agree V S t t'" using m' t t' by simp_all
  then show "fst (bindM m k w') = fst (bindM m k w) \<and> agree V S (snd (bindM m k w)) (snd (bindM m k w'))"
    using alikeD [OF k] t t' by (cases r) (simp_all add: bindM_def)
qed

lemma alike_try:
  assumes m: "alike V S m" and k: "\<And>x. alike V S (k x)"
  shows "alike V S (tryM m k)"
proof (rule alikeI)
  fix w w'
  assume a: "agree V S w w'"
  note m' = alikeD [OF m a]
  obtain r t where t: "m w = (r, t)" by (cases "m w")
  obtain r' t' where t': "m w' = (r', t')" by (cases "m w'")
  have "r' = r" "agree V S t t'" using m' t t' by simp_all
  then show "fst (tryM m k w') = fst (tryM m k w) \<and> agree V S (snd (tryM m k w)) (snd (tryM m k w'))"
    using alikeD [OF k] t t' by (simp add: tryM_def)
qed

lemma alike_map: "(\<And>x. x \<in> set xs \<Longrightarrow> alike V S (f x)) \<Longrightarrow> alike V S (mapM f xs)"
  by (induction xs) (auto intro!: alike_bind alike_ret)

lemma alike_for: "(\<And>x. x \<in> set xs \<Longrightarrow> alike V S (f x)) \<Longrightarrow> alike V S (forM f xs)"
  by (induction xs) (auto intro!: alike_bind alike_ret)

lemma alike_fold: "(\<And>x acc. alike V S (f x acc)) \<Longrightarrow> alike V S (foldM f xs acc)"
  by (induction xs arbitrary: acc) (auto intro!: alike_bind alike_ret)

lemma alike_if: "alike V S m \<Longrightarrow> alike V S m' \<Longrightarrow> alike V S (if b then m else m')"
  by simp

lemma alike_option:
  "alike V S m \<Longrightarrow> (\<And>x. alike V S (k x)) \<Longrightarrow> alike V S (case z of None \<Rightarrow> m | Some x \<Rightarrow> k x)"
  by (cases z) simp_all

lemma alike_sum:
  "(\<And>e. alike V S (h e)) \<Longrightarrow> (\<And>x. alike V S (k x)) \<Longrightarrow> alike V S (case z of Inl e \<Rightarrow> h e | Inr x \<Rightarrow> k x)"
  by (cases z) simp_all

lemma alike_list:
  "alike V S m \<Longrightarrow> (\<And>x xs. alike V S (k x xs)) \<Longrightarrow> alike V S (case z of [] \<Rightarrow> m | x # xs \<Rightarrow> k x xs)"
  by (cases z) simp_all

lemma alike_pair: "(\<And>x y. alike V S (k x y)) \<Longrightarrow> alike V S (case z of (x, y) \<Rightarrow> k x y)"
  by (cases z) simp

lemma alike_pair_arg: "(\<And>x y. alike V S (k x y a)) \<Longrightarrow> alike V S ((case z of (x, y) \<Rightarrow> k x y) a)"
  by (cases z) simp

lemma alike_let: "(\<And>x. alike V S (k x)) \<Longrightarrow> alike V S (let x = e in k x)"
  by simp

lemma alike_query_row: "(\<And>w w'. agree V S w w' \<Longrightarrow> f w' = f w) \<Longrightarrow> alike V S (query_row f)"
  unfolding query_row_def by (intro alike_bind alike_query alike_list alike_err alike_ret)

lemma alike_call: "alike V S (call f q)"
  by (rule alikeI) (simp add: call_def agree_def process_def)

lemma alike_checked:
  assumes "\<And>w w'. agree V S w w' \<Longrightarrow> rel_option (\<lambda>d d'. V d' = V d) (f w (db w)) (f w' (db w'))"
  shows "alike V S (exec_check f)"
proof (rule alikeI)
  fix w w'
  assume a: "agree V S w w'"
  have ex: "agree V S (map_db (\<lambda>_. d) (tick w)) (map_db (\<lambda>_. d') (tick w'))" if "V d' = V d" for d d'
    using agree_tick [OF a] that by (simp add: agree_def process_def map_db_def)
  show "fst (exec_check f w') = fst (exec_check f w) \<and> agree V S (snd (exec_check f w)) (snd (exec_check f w'))"
    using assms [OF a] agreeD(11) [OF a] agree_tick [OF a] ex
    by (cases "f w (db w)"; cases "f w' (db w')") (simp_all add: exec_check_def exec_def split: fault.splits)
qed

lemma alike_Run:
  assumes fn: "alike V S fn" and S: "a \<in> S" "ws \<in> S"
  shows "alike V S (Run a ws fn)"
proof (rule alikeI)
  fix w w'
  assume ag: "agree V S w w'"
  have set_session: "alike V S (SetSession a ws)"
    unfolding SetSession_def
    by (intro alike_bind alike_query alikeI) (simp_all add: modM_def agree_def process_def S in_tx)
  have closed: "agree V S ((tick t)\<lparr>tx := None\<rparr>) ((tick t')\<lparr>tx := None\<rparr>)" if "agree V S t t'" for t t'
    using agree_tick [OF that] by (simp add: agree_def process_def no_tx)
  have commit: "alike V S commit"
    by (rule alikeI) (simp add: commit_def agreeD agree_tick closed split: fault.splits)
  let ?body = "bindM begin_tx (\<lambda>_. bindM (SetSession a ws) (\<lambda>_. bindM fn (\<lambda>x. bindM commit (\<lambda>_. retM x))))"
  have "alike V S ?body"
    unfolding begin_tx_def by (intro alike_bind alike_query set_session fn commit alike_ret) simp
  note b = alikeD [OF this ag]
  obtain r t where t: "?body w = (r, t)" by (cases "?body w")
  obtain r' t' where t': "?body w' = (r', t')" by (cases "?body w'")
  have r: "r' = r" "agree V S t t'" using b t t' by simp_all
  have "agree V S (rollback t) (rollback t')"
    using r(2) unfolding agree_def by (auto elim!: same_tx.cases simp: rollback_def process_def intro: same_tx.intros)
  then show "fst (Run a ws fn w') = fst (Run a ws fn w) \<and> agree V S (snd (Run a ws fn w)) (snd (Run a ws fn w'))"
    using r t t' by (cases r) (simp_all add: Run_def)
qed

lemma alike_audit:
  assumes "\<And>d l. V (d\<lparr>audit_log := l\<rparr>) = V d"
  shows "alike V S (audit_Write e)"
  unfolding audit_Write_def
proof (rule alike_checked)
  fix w w'
  assume a: "agree V S w w'"
  have "audit_policy w' e = audit_policy w e"
    using a by (auto simp: audit_policy_def agree_def elim: same_tx.cases)
  then show "rel_option (\<lambda>d d'. V d' = V d)
      (if audit_policy w e then Some ((db w)\<lparr>audit_log := audit_log (db w) @ [\<lparr>au_ts = clock w, au_event_type = EventType e,
         au_actor = Actor e, au_acting_scope = ActingScope e, au_workspace_scope = WorkspaceScope e,
         au_target_ref = TargetRef e, au_detail = Detail e\<rparr>]\<rparr>) else None)
      (if audit_policy w' e then Some ((db w')\<lparr>audit_log := audit_log (db w') @ [\<lparr>au_ts = clock w', au_event_type = EventType e,
         au_actor = Actor e, au_acting_scope = ActingScope e, au_workspace_scope = WorkspaceScope e,
         au_target_ref = TargetRef e, au_detail = Detail e\<rparr>]\<rparr>) else None)"
    using a by (simp add: assms agreeD)
qed

section \<open>The interface of a view\<close>

text \<open>What an observer of some scopes has to see: their rows and their keys, and nothing of the audit
  log.\<close>

locale db_view =
  fixes V :: "database \<Rightarrow> 'v" and S :: "scope set"
  assumes keys: "V d' = V d \<Longrightarrow> sc \<in> S \<Longrightarrow> key_rows sc v d' = key_rows sc v d"
    and audit: "V (d\<lparr>audit_log := l\<rparr>) = V d"
    and rows: "V d' = V d \<Longrightarrow> (\<And>sc. P sc \<Longrightarrow> sc \<in> S) \<Longrightarrow>
        filter (\<lambda>e. P (ep_scope e)) (episodes d') = filter (\<lambda>e. P (ep_scope e)) (episodes d)
      \<and> filter (\<lambda>s. P (sum_scope s)) (summaries d') = filter (\<lambda>s. P (sum_scope s)) (summaries d)
      \<and> filter (\<lambda>f. P (kf_scope f)) (summary_key_facts d') = filter (\<lambda>f. P (kf_scope f)) (summary_key_facts d)
      \<and> filter (\<lambda>e. P (en_scope e)) (entities d') = filter (\<lambda>e. P (en_scope e)) (entities d)
      \<and> filter (\<lambda>x. P (rel_scope x)) (entity_relationships d') = filter (\<lambda>x. P (rel_scope x)) (entity_relationships d)
      \<and> filter (\<lambda>c. P (cs_scope c)) (scope_corpus_sizes d') = filter (\<lambda>c. P (cs_scope c)) (scope_corpus_sizes d)"
begin

lemma seen:
  assumes "agree V S w w'"
  shows "visible w' ep_scope (episodes (db w')) = visible w ep_scope (episodes (db w))"
    "visible w' sum_scope (summaries (db w')) = visible w sum_scope (summaries (db w))"
    "visible w' kf_scope (summary_key_facts (db w')) = visible w kf_scope (summary_key_facts (db w))"
    "visible w' en_scope (entities (db w')) = visible w en_scope (entities (db w))"
    "visible w' rel_scope (entity_relationships (db w')) = visible w rel_scope (entity_relationships (db w))"
    "visible w' cs_scope (scope_corpus_sizes (db w')) = visible w cs_scope (scope_corpus_sizes (db w))"
  using rows [OF agreeD(10) [OF assms] agree_seen [OF assms]] assms
  by (simp_all add: visible_def agree_rls)

lemma seen_current: "agree V S w w' \<Longrightarrow> current w' = current w"
  by (simp add: current_def seen fun_eq_iff)

lemma seen_entity: "agree V S w w' \<Longrightarrow> find_entity sc i w' = find_entity sc i w"
  by (simp add: find_entity_def seen)

lemmas look = seen seen_current seen_entity

lemma alike_GetVersion:
  assumes "sc \<in> S"
  shows "alike V S (GetVersion A sc v)"
proof -
  have k: "map sk_wrapped_dek (key_rows sc v (db w')) = map sk_wrapped_dek (key_rows sc v (db w))" if "agree V S w w'" for w w'
    using keys [OF agreeD(10) [OF that] assms] by simp
  have "alike V S (store_enc (sc, v) enc)" for enc
    unfolding store_enc_def by (rule alike_mod) (simp add: agree_def process_def)
  moreover have "alike V S (cached (sc, v))"
    unfolding cached_def by (rule alike_get) (simp add: agreeD(2))
  moreover have "alike V S (unwrap A wrapped)" for wrapped
    unfolding unwrap_def by (intro alike_bind alike_lift alike_get) (rule agreeD(1))
  ultimately show ?thesis
    unfolding GetVersion_def
    by (intro alike_bind alike_option alike_ret alike_try alike_query_row k alike_sum alike_err)
qed

lemma alike_Audit: "alike V S (audit_Write e)"
  by (rule alike_audit) (rule audit)

end

section \<open>The rows of some scopes\<close>

definition view_of :: "scope set \<Rightarrow> database \<Rightarrow> _" where
  "view_of S d = (filter (\<lambda>e. ep_scope e \<in> S) (episodes d), filter (\<lambda>s. sum_scope s \<in> S) (summaries d),
     filter (\<lambda>f. kf_scope f \<in> S) (summary_key_facts d), filter (\<lambda>e. en_scope e \<in> S) (entities d),
     filter (\<lambda>x. rel_scope x \<in> S) (entity_relationships d), filter (\<lambda>c. cs_scope c \<in> S) (scope_corpus_sizes d),
     filter (\<lambda>k. sk_scope k \<in> S) (scope_keys d))"

lemma filter_within:
  assumes "filter (\<lambda>x. f x \<in> S) xs = filter (\<lambda>x. f x \<in> S) ys" "\<And>sc. P sc \<Longrightarrow> sc \<in> S"
  shows "filter (\<lambda>x. P (f x)) xs = filter (\<lambda>x. P (f x)) ys"
proof -
  have *: "filter (\<lambda>x. P (f x)) (filter (\<lambda>x. f x \<in> S) zs) = filter (\<lambda>x. P (f x)) zs" for zs
    unfolding filter_filter using assms(2) by (intro filter_cong) auto
  from assms(1) have "filter (\<lambda>x. P (f x)) (filter (\<lambda>x. f x \<in> S) xs) = filter (\<lambda>x. P (f x)) (filter (\<lambda>x. f x \<in> S) ys)"
    by (rule arg_cong)
  then show ?thesis unfolding * .
qed

lemma filter_key_rows: "key_rows sc v d = filter (\<lambda>r. sk_version r = v) (filter (\<lambda>r. sk_scope r = sc) (scope_keys d))"
  by (simp add: key_rows_def conj_commute)

interpretation scopes: db_view "view_of S" S
proof
  fix d d' :: database and sc v
  assume "view_of S d' = view_of S d" "sc \<in> S"
  then have "filter (\<lambda>r. sk_scope r = sc) (scope_keys d') = filter (\<lambda>r. sk_scope r = sc) (scope_keys d)"
    by (intro filter_within [where S = S and P = "\<lambda>x. x = sc"]) (auto simp: view_of_def)
  then show "key_rows sc v d' = key_rows sc v d"
    by (simp only: filter_key_rows)
next
  fix d d' :: database and P
  assume v: "view_of S d' = view_of S d" and P: "\<And>sc. P sc \<Longrightarrow> sc \<in> S"
  show "filter (\<lambda>e. P (ep_scope e)) (episodes d') = filter (\<lambda>e. P (ep_scope e)) (episodes d)
      \<and> filter (\<lambda>s. P (sum_scope s)) (summaries d') = filter (\<lambda>s. P (sum_scope s)) (summaries d)
      \<and> filter (\<lambda>f. P (kf_scope f)) (summary_key_facts d') = filter (\<lambda>f. P (kf_scope f)) (summary_key_facts d)
      \<and> filter (\<lambda>e. P (en_scope e)) (entities d') = filter (\<lambda>e. P (en_scope e)) (entities d)
      \<and> filter (\<lambda>x. P (rel_scope x)) (entity_relationships d') = filter (\<lambda>x. P (rel_scope x)) (entity_relationships d)
      \<and> filter (\<lambda>c. P (cs_scope c)) (scope_corpus_sizes d') = filter (\<lambda>c. P (cs_scope c)) (scope_corpus_sizes d)"
    using v P by (intro conjI filter_within [where S = S and P = P]) (simp_all add: view_of_def)
qed (simp add: view_of_def)

end
