(* ===== verification/Retrieve_Isolated.thy ===== *)
theory Retrieve_Isolated
  imports Retrieve Scope_View Runner_Frame
begin

text \<open>
  What retrieval may look at and what it may write: the answer to a question is a function of the
  rows of the acting and the workspace scope, and the only trace it leaves is one audit record.
\<close>

declare One_nat_def [simp del]

section \<open>Retrieval reads nothing but its scopes\<close>

context db_view
begin

lemmas alikes = alike_bind alike_ret alike_err alike_lift alike_option alike_sum alike_list alike_pair alike_pair_arg alike_let
  alike_map alike_fold alike_if alike_try alike_call

lemma alike_no_rows: "alike V S m \<Longrightarrow> alike V S (no_rows m)"
  unfolding no_rows_def by (intro alikes)

lemma alike_decrypt: "sc \<in> S \<Longrightarrow> alike V S (decrypt_with st sc v ct)"
  unfolding decrypt_with_def by (intro alikes alike_GetVersion)

lemma alike_formatEntity: "sc \<in> S \<Longrightarrow> alike V S (formatEntity st sc i lbl)"
  unfolding formatEntity_def by (intro alikes alike_query_row seen_entity alike_decrypt)

lemma alike_buildAnchor:
  assumes "a \<in> S" "ws \<in> S"
  shows "alike V S (buildAnchor st a ws)"
  unfolding buildAnchor_def
  by (intro alikes alike_no_rows alike_query_row alike_decrypt assms)
     (simp_all add: self_models_def latest_daily_def look)

lemma alike_stage1:
  assumes "a \<in> S" "ws \<in> S"
  shows "alike V S (stage1 st a ws q now)"
  unfolding stage1_def stage1EntityMatches_def
  by (intro alikes alike_buildAnchor alike_query alike_formatEntity assms) (simp add: look)

lemma alike_load_candidate: "sc \<in> S \<Longrightarrow> alike V S (load_candidate st sc s)"
  unfolding load_candidate_def by (intro alikes alike_decrypt)

lemma seen_summaries: "agree V S w w' \<Longrightarrow> current_summaries sc w' = current_summaries sc w"
  by (simp add: current_summaries_def look)

lemma alike_vector_candidates: "sc \<in> S \<Longrightarrow> alike V S (vector_candidates st sc qv thr n)"
  unfolding vector_candidates_def vector_step_def
  by (intro alikes alike_query alike_load_candidate) (simp_all add: seen_summaries)

lemma alike_keyword_candidates: "sc \<in> S \<Longrightarrow> alike V S (keyword_candidates st sc terms n tier ids byID)"
  unfolding keyword_candidates_def keyword_doc_def
  by (intro alikes alike_query alike_load_candidate) (simp_all add: seen_summaries)

lemma alike_fact_candidates: "sc \<in> S \<Longrightarrow> alike V S (fact_candidates st sc qv thr n byID)"
  unfolding fact_candidates_def fact_step_def
  by (intro alikes alike_query alike_load_candidate) (simp_all add: fact_rows_def look)

lemma alike_loadKeyFacts: "alike V S (loadKeyFacts st i enc qv)"
  unfolding loadKeyFacts_def by (intro alikes alike_query) (simp add: look)

lemma alike_fusedSearchSummaries:
  "sc \<in> S \<Longrightarrow> alike V S (fusedSearchSummaries st sc qv terms thr n q now tier ids out)"
  unfolding fusedSearchSummaries_def
  by (intro alikes alike_vector_candidates alike_keyword_candidates alike_fact_candidates alike_loadKeyFacts)

lemma alike_load_exchange: "sc \<in> S \<Longrightarrow> alike V S (load_exchange st sc e)"
  unfolding load_exchange_def by (intro alikes alike_GetVersion)

lemma alike_cite_exchange: "alike V S (cite_exchange st sc terms now lbl m acc)"
  unfolding cite_exchange_def by (intro alikes)

lemma seen_interactions: "agree V S w w' \<Longrightarrow> interactions sc w' = interactions sc w"
  by (simp add: interactions_def look)

lemma alike_episodes:
  "sc \<in> S \<Longrightarrow> alike V S (vectorSearchEpisodes st sc qv terms q now out)"
  "sc \<in> S \<Longrightarrow> alike V S (keywordSearchEpisodes st sc terms ids q now out)"
  unfolding vectorSearchEpisodes_def keywordSearchEpisodes_def
  by (intro alikes alike_query alike_load_exchange alike_cite_exchange; simp add: seen_interactions)+

lemma alike_load_entity_hit: "sc \<in> S \<Longrightarrow> alike V S (load_entity_hit st sc e)"
  unfolding load_entity_hit_def by (intro alikes alike_decrypt)

lemma seen_known: "agree V S w w' \<Longrightarrow> known_entities sc ids w' = known_entities sc ids w"
  by (simp add: known_entities_def look)

lemma alike_entities:
  "sc \<in> S \<Longrightarrow> alike V S (vectorSearchEntities st sc qv ids thr n q now out)"
  "sc \<in> S \<Longrightarrow> alike V S (keywordSearchEntities st sc terms ids q now out)"
  unfolding vectorSearchEntities_def keywordSearchEntities_def
  by (intro alikes alike_query alike_load_entity_hit; simp add: seen_known)+

lemma alike_walk_hops: "alike V S (walk_hops sc n wk)"
proof (induction n arbitrary: wk)
  case (Suc n)
  have "open_edges sc ids w' = open_edges sc ids w" if "agree V S w w'" for ids w w'
    using that by (simp add: open_edges_def look)
  then show ?case using Suc by (auto intro!: alikes alike_query)
qed (simp add: alike_ret)

lemma alike_graphWalk: "sc \<in> S \<Longrightarrow> alike V S (graphWalkRelationships st sc seeds out)"
  unfolding graphWalkRelationships_def cite_walked_def
  by (intro alikes alike_walk_hops alike_formatEntity)

lemma alike_tier: "alike V S (keywordSearchTierForScope st sc)"
  unfolding keywordSearchTierForScope_def
  by (intro alikes alike_no_rows alike_query_row) (simp add: look)

lemma alike_searches: "sc \<in> S \<Longrightarrow> alike V S (searches st sc qv terms q now ids refs out)"
  unfolding searches_def
  by (intro alikes alike_tier alike_fusedSearchSummaries alike_episodes alike_entities alike_graphWalk)

lemma alike_retrieve:
  assumes "a \<in> S" "ws \<in> S"
  shows "alike V S (retrieve st a ws msgs now)"
  unfolding retrieve_def after_stage1_def embed_query_def
  by (intro alikes alike_Run alike_stage1 alike_searches assms)

lemma alike_Retrieve:
  assumes "a \<in> S" "ws \<in> S"
  shows "alike V S (Retrieve st a ws msgs now)"
  unfolding Retrieve_def best_effort_def
  by (intro alikes alike_Run alike_retrieve alike_Audit assms)

end

definition alice :: scope where "alice = Scope ScopeKindPrivate ''user:alice''"
definition bob :: scope where "bob = Scope ScopeKindPrivate ''user:bob''"


definition bobs_entity :: entity where
  "bobs_entity = \<lparr>en_id = ''project:falcon'', en_scope = bob, en_kind = ''project'', en_name = ''Falcon'',
     en_first_seen = ''2024-01-01'', en_last_updated = ''2024-01-01'', en_attributes = None, en_key_version = 1,
     en_embedding = None, en_embedding_model = None\<rparr>"


section \<open>Retrieval writes one audit record\<close>

context db_order
begin

lemma pair_arg: "(\<And>x y. keeps R sess (k x y a)) \<Longrightarrow> keeps R sess ((case z of (x, y) \<Rightarrow> k x y) a)"
  by (cases z) simp

lemma let_in: "(\<And>x. keeps R sess (k x)) \<Longrightarrow> keeps R sess (let x = e in k x)"
  by simp

lemmas reads = bind ret err lift query query_row attempt case_option case_sum case_list case_prod pair_arg let_in
  map_each fold_each if_else call GetVersion

lemma hops: "keeps R sess (walk_hops sc n wk)"
  by (induction n arbitrary: wk) (auto intro!: reads)

lemma stage1_reads: "keeps R sess (stage1 st a ws q now)"
  unfolding stage1_def buildAnchor_def no_rows_def decrypt_with_def stage1EntityMatches_def formatEntity_def
  by (intro reads)

lemma searches_reads: "keeps R sess (searches st sc qv terms q now ids refs out)"
  unfolding searches_def keywordSearchTierForScope_def no_rows_def fusedSearchSummaries_def vector_candidates_def
    vector_step_def keyword_candidates_def keyword_doc_def fact_candidates_def fact_step_def load_candidate_def
    decrypt_with_def loadKeyFacts_def vectorSearchEpisodes_def keywordSearchEpisodes_def load_exchange_def
    cite_exchange_def vectorSearchEntities_def keywordSearchEntities_def load_entity_hit_def
    graphWalkRelationships_def cite_walked_def formatEntity_def
  by (intro reads hops)

lemma retrieve_reads: "keeps R None (retrieve st a ws msgs now)"
  unfolding retrieve_def after_stage1_def embed_query_def
  by (intro reads transaction stage1_reads searches_reads)

end

text \<open>At most one more audit record of a retrieval in these scopes, and nothing else.\<close>

definition one_record :: "scope \<Rightarrow> scope \<Rightarrow> database \<Rightarrow> database \<Rightarrow> bool" where
  "one_record actingUser workspace d d' \<longleftrightarrow> d' = d \<or> (\<exists>row. au_event_type row = EventRetrieve
     \<and> au_actor row = Owner actingUser \<and> au_acting_scope row = actingUser \<and> au_workspace_scope row = workspace
     \<and> d' = d\<lparr>audit_log := audit_log d @ [row]\<rparr>)"

lemma one_record_refl: "one_record a ws d d"
  by (simp add: one_record_def)

lemma one_record_append:
  assumes "au_event_type row = EventRetrieve" "au_actor row = Owner a" "au_acting_scope row = a" "au_workspace_scope row = ws"
  shows "one_record a ws d (d\<lparr>audit_log := audit_log d @ [row]\<rparr>)"
  unfolding one_record_def using assms by (intro disjI2 exI [of _ row]) simp

lemma Retrieve_keeps: "keeps (one_record actingUser workspace) None (Retrieve st actingUser workspace messages now)"
proof -
  have audit: "keeps (one_record actingUser workspace) None (Run actingUser workspace (audit_Write \<lparr>EventType = EventRetrieve,
       Actor = Owner actingUser, ActingScope = actingUser, WorkspaceScope = workspace, TargetRef = None, Detail = dt\<rparr>))" for dt
    unfolding audit_Write_def
    by (intro keeps_transaction keeps_checked)
       (auto simp: one_record_refl intro!: one_record_append split: if_splits)
  show ?thesis
    unfolding Retrieve_def
  proof (rule keeps_seq [where R = "unchanged (\<lambda>d. d)" and S = "one_record actingUser workspace"])
    show "keeps (unchanged (\<lambda>d. d)) None (retrieve st actingUser workspace messages now)"
      by (rule unchanged.retrieve_reads)
    show "keeps (one_record actingUser workspace) None
       (bindM (best_effort (Run actingUser workspace (audit_Write \<lparr>EventType = EventRetrieve, Actor = Owner actingUser,
          ActingScope = actingUser, WorkspaceScope = workspace, TargetRef = None,
          Detail = [(''gate'', JStr (Gate res)), (''ref_count'', JInt (int (length (Refs res))))]\<rparr>))) (\<lambda>_. retM res))" for res
    proof -
      let ?m = "Run actingUser workspace (audit_Write \<lparr>EventType = EventRetrieve, Actor = Owner actingUser,
          ActingScope = actingUser, WorkspaceScope = workspace, TargetRef = None,
          Detail = [(''gate'', JStr (Gate res)), (''ref_count'', JInt (int (length (Refs res))))]\<rparr>)"
      have "bindM (best_effort ?m) (\<lambda>_. retM res) = (\<lambda>w. (Inr res, snd (?m w)))"
        by (simp add: fun_eq_iff best_effort_def bindM_def tryM_def retM_def split: prod.splits)
      then show ?thesis using audit unfolding keeps_def by (metis prod.collapse prod.inject)
    qed
  qed (simp_all add: unchanged_def one_record_def)
qed

text \<open>
  Retrieval is read-only: whatever happens, faults and panics included, the database afterwards is
  the one before or that one with a single audit record of this retrieval at the end of the log, and
  no transaction stays open.
\<close>

lemma Retrieve_read_only:
  assumes "tx w = None"
  shows "one_record actingUser workspace (db w) (db (snd (Retrieve st actingUser workspace messages now w)))
       \<and> tx (snd (Retrieve st actingUser workspace messages now w)) = None"
proof -
  have "keeps (one_record actingUser workspace) None (Retrieve st actingUser workspace messages now)" by (rule Retrieve_keeps)
  then show ?thesis
    using assms keepsD [of "one_record actingUser workspace" None "Retrieve st actingUser workspace messages now" w]
    by (cases "Retrieve st actingUser workspace messages now w") simp
qed

lemma Retrieve_read_only_witness:
  "one_record alice alice empty_db
     (db (snd (Retrieve sample_store alice alice [\<lparr>msg_role = ''user'', msg_content = ''what is falcon?''\<rparr>] 0 init_world)))"
proof -
  have "tx init_world = None" "db init_world = empty_db" by (simp_all add: init_world_def)
  then show ?thesis
    using Retrieve_read_only [of init_world alice alice sample_store
        "[\<lparr>msg_role = ''user'', msg_content = ''what is falcon?''\<rparr>]" 0] by simp
qed

end
