(* ===== verification/Ranking_Correct.thy ===== *)
theory Ranking_Correct
  imports Temporal
begin

text \<open>
  Correctness of the rankings: selection by maximal marginal relevance is greedy, BM25 ranks exactly
  the documents that share a token with the question, and cut text stays within its budget.
\<close>

declare One_nat_def [simp del]

section \<open>Maximal marginal relevance\<close>

definition best_scan :: "(nat \<Rightarrow> rat) \<Rightarrow> nat list \<Rightarrow> nat \<times> rat option" where
  "best_scan score remaining = foldl (\<lambda>(bestPos, bestScore) (pos, idx).
       case bestScore of None \<Rightarrow> (pos, Some (score idx))
       | Some b \<Rightarrow> if score idx > b then (pos, Some (score idx)) else (bestPos, bestScore))
     (0, None) (enumerate 0 remaining)"

lemma best_scan_ok:
  "xs \<noteq> [] \<Longrightarrow> \<exists>p. best_scan score xs = (p, Some (score (xs ! p))) \<and> p < length xs
     \<and> (\<forall>x \<in> set xs. score x \<le> score (xs ! p))"
proof (induction xs rule: rev_induct)
  case (snoc x xs)
  have step: "best_scan score (xs @ [x]) = (case best_scan score xs of (bestPos, bestScore) \<Rightarrow>
      case bestScore of None \<Rightarrow> (length xs, Some (score x))
      | Some b \<Rightarrow> if score x > b then (length xs, Some (score x)) else (bestPos, bestScore))"
    by (simp add: best_scan_def enumerate_append_eq split: prod.split)
  show ?case
  proof (cases "xs = []")
    case True
    then show ?thesis by (simp add: step) (simp add: best_scan_def)
  next
    case False
    then obtain p where p: "best_scan score xs = (p, Some (score (xs ! p)))" "p < length xs"
      "\<forall>y \<in> set xs. score y \<le> score (xs ! p)" using snoc.IH by blast
    show ?thesis
    proof (cases "score x > score (xs ! p)")
      case True
      then show ?thesis using p by (intro exI [of _ "length xs"]) (auto simp: step)
    next
      case False
      then show ?thesis using p by (intro exI [of _ p]) (auto simp: step nth_append)
    qed
  qed
qed simp

lemma best_position_ok:
  assumes "xs \<noteq> []"
  shows "best_position score xs < length xs" "\<And>x. x \<in> set xs \<Longrightarrow> score x \<le> score (xs ! best_position score xs)"
  using best_scan_ok [OF assms, of score] by (auto simp: best_position_def best_scan_def)

text \<open>Every pick has the best score, given the picks before it, of all that were not picked yet.\<close>

definition greedy :: "mmrCandidate list \<Rightarrow> rat \<Rightarrow> nat list \<Rightarrow> bool" where
  "greedy pool lambda sel \<longleftrightarrow> (\<forall>i < length sel. \<forall>j < length pool. j \<notin> set (take i sel) \<longrightarrow>
     mmr_score pool lambda (take i sel) j \<le> mmr_score pool lambda (take i sel) (sel ! i))"

lemma greedy_snoc:
  assumes "greedy pool lambda sel"
    and "\<And>j. j < length pool \<Longrightarrow> j \<notin> set sel \<Longrightarrow> mmr_score pool lambda sel j \<le> mmr_score pool lambda sel x"
  shows "greedy pool lambda (sel @ [x])"
  using assms by (auto simp: greedy_def nth_append less_Suc_eq)

lemma mmr_loop_greedy:
  assumes "greedy pool lambda sel" "distinct (sel @ rest)" "set (sel @ rest) = {..<length pool}"
  shows "greedy pool lambda (mmr_loop pool lambda k sel rest) \<and> distinct (mmr_loop pool lambda k sel rest)
    \<and> set (mmr_loop pool lambda k sel rest) \<subseteq> {..<length pool}
    \<and> length (mmr_loop pool lambda k sel rest) = min (length sel + k) (length pool)"
  using assms
proof (induction k arbitrary: sel rest)
  case 0
  have "length sel \<le> length pool"
    using 0(2,3) distinct_card [OF 0(2)] by simp
  then show ?case using 0 by auto
next
  case (Suc k)
  have len: "length sel + length rest = length pool"
    using Suc.prems(2,3) distinct_card [OF Suc.prems(2)] by simp
  show ?case
  proof (cases "rest = []")
    case True
    then show ?thesis using Suc.prems len by auto
  next
    case False
    let ?p = "best_position (mmr_score pool lambda sel) rest"
    let ?x = "rest ! ?p" and ?rest = "take ?p rest @ drop (?p + 1) rest"
    have p: "?p < length rest" by (rule best_position_ok(1) [OF False])
    have split: "rest = take ?p rest @ ?x # drop (?p + 1) rest"
      using id_take_nth_drop [OF p] by (simp only: Suc_eq_plus1)
    have "greedy pool lambda (sel @ [?x])"
    proof (rule greedy_snoc [OF Suc.prems(1)])
      fix j
      assume "j < length pool" "j \<notin> set sel"
      then have "j \<in> set rest" using Suc.prems(3) by auto
      then show "mmr_score pool lambda sel j \<le> mmr_score pool lambda sel ?x" by (rule best_position_ok(2) [OF False])
    qed
    moreover have "distinct ((sel @ [?x]) @ ?rest)"
      using Suc.prems(2) by (subst (asm) split) auto
    moreover have "set ((sel @ [?x]) @ ?rest) = {..<length pool}"
      using Suc.prems(3) by (subst (asm) split) auto
    ultimately show ?thesis
      using Suc.IH [of "sel @ [?x]" ?rest] False by (simp add: Let_def)
  qed
qed

lemma set_order_by: "set (order_by n score) = {..<n}" "distinct (order_by n score)" "length (order_by n score) = n"
  "sorted (map (\<lambda>i. - score i) (order_by n score))"
  by (auto simp: order_by_def)

lemma mmrSelect_bound: "i \<in> set (mmrSelect pool k lambda) \<Longrightarrow> i < length pool"
  using mmr_loop_greedy [of pool lambda "[]" "[0..<length pool]" k]
  by (auto simp: mmrSelect_def set_order_by greedy_def lessThan_atLeast0 split: if_splits)


section \<open>BM25\<close>

lemma fold_count: "fold (\<lambda>s tf. tf(s := tf s + 1)) terms tf x = tf x + count_list terms (x :: string)"
  for tf :: "string \<Rightarrow> nat"
  by (induction terms arbitrary: tf) auto

lemma newBM25Document_simps:
  "doc_id (newBM25Document st i t) = i" "termFreq (newBM25Document st i t) x = count_list (tokenize st t) x"
  "docLength (newBM25Document st i t) = length (tokenize st t)"
  by (simp_all add: newBM25Document_def Let_def fold_count)

definition log_ok :: "store \<Rightarrow> bool" where   \<comment> \<open>\<open>math.Log\<close> above 1\<close>
  "log_ok st \<longleftrightarrow> (\<forall>x > 1. math_Log st x > 0)"

lemma term_score_positive:
  assumes "log_ok st" "termFreq doc term > 0" "docFreq term > 0" "docFreq term \<le> n" "avg > 0" "0 \<le> b" "b < 1"
  shows "term_score st doc docFreq n avg b term > 0"
proof -
  have "(of_nat n - of_nat (docFreq term) + 1 / 2) / (of_nat (docFreq term) + 1 / 2) > (0 :: rat)"
    using assms(4) by (intro divide_pos_pos) (simp_all add: add_nonneg_pos)
  then have idf: "math_Log st (1 + (of_nat n - of_nat (docFreq term) + 1 / 2) / (of_nat (docFreq term) + 1 / 2)) > 0"
    using assms(1) by (simp add: log_ok_def)
  have norm: "(if b \<noteq> 0 then 1 - b + b * of_nat (docLength doc) / avg else 1) > 0"
    using assms(5,6,7) by (auto intro!: add_pos_nonneg divide_nonneg_pos mult_nonneg_nonneg)
  have "of_nat (termFreq doc term) + bm25K1 * (if b \<noteq> 0 then 1 - b + b * of_nat (docLength doc) / avg else 1) > 0"
    using assms(2) norm by (intro add_pos_pos mult_pos_pos) (simp_all add: bm25K1_def)
  moreover have "of_nat (termFreq doc term) * (bm25K1 + 1) > (0 :: rat)"
    using assms(2) by (simp add: bm25K1_def)
  ultimately show ?thesis
    using assms(2,3) idf by (simp add: term_score_def Let_def)
qed

lemma foldl_sum: "foldl (\<lambda>acc x. acc + f x) a xs = a + sum_list (map f xs)" for f :: "'a \<Rightarrow> rat"
  by (induction xs arbitrary: a) (simp_all add: add.assoc)

lemma sum_list_positive:
  assumes "\<And>x. x \<in> set xs \<Longrightarrow> 0 \<le> f x" "\<exists>x \<in> set xs. 0 < (f x :: rat)"
  shows "0 < sum_list (map f xs)"
  using assms
proof (induction xs)
  case (Cons x xs)
  have nonneg: "0 \<le> sum_list (map f xs)" using Cons.prems(1) by (intro sum_list_nonneg) auto
  show ?case
  proof (cases "0 < f x")
    case True
    then show ?thesis using nonneg by simp
  next
    case False
    then have "0 < sum_list (map f xs)" using Cons by auto
    then show ?thesis using Cons.prems(1) [of x] by simp
  qed
qed simp

text \<open>The texts that share a token with the question.\<close>

definition shares_token :: "store \<Rightarrow> string list \<Rightarrow> string \<Rightarrow> bool" where
  "shares_token st queryTerms t \<longleftrightarrow> set queryTerms \<inter> set (tokenize st t) \<noteq> {}"

lemma bm25Score_positive:
  fixes st :: store and texts :: "(string \<times> string) list" and queryTerms :: "string list"
  defines "docs \<equiv> map (\<lambda>(i, t). newBM25Document st i t) texts"
  assumes log: "log_ok st" and mem: "(i, t) \<in> set texts"
  shows "bm25Score st (newBM25Document st i t) queryTerms (bm25DocFrequency docs) (length docs) (bm25AverageDocLength docs) > 0
     \<longleftrightarrow> shares_token st queryTerms t"
proof -
  let ?doc = "newBM25Document st i t" and ?df = "bm25DocFrequency docs" and ?avg = "bm25AverageDocLength docs"
  let ?score = "term_score st ?doc ?df (length docs) ?avg bm25B"
  have doc: "?doc \<in> set docs" using mem by (force simp: docs_def)
  have zero: "?score x = 0" if "x \<notin> set (tokenize st t)" for x
    using that by (simp add: term_score_def Let_def newBM25Document_simps count_list_0_iff)
  have pos: "?score x > 0" if x: "x \<in> set (tokenize st t)" for x
  proof (rule term_score_positive [OF log])
    show tf: "termFreq ?doc x > 0" using x by (simp add: newBM25Document_simps count_list_0_iff flip: neq0_conv)
    have "?doc \<in> set (filter (\<lambda>d. termFreq d x > 0) docs)" using doc tf by simp
    then have "filter (\<lambda>d. termFreq d x > 0) docs \<noteq> []" by (metis empty_iff empty_set)
    then show "?df x > 0" by (simp add: bm25DocFrequency_def)
    show "?df x \<le> length docs" by (simp add: bm25DocFrequency_def)
    have "docLength ?doc > 0" using x by (auto simp: newBM25Document_simps)
    moreover have "docLength ?doc \<le> sum_list (map docLength docs)" using doc by (intro member_le_sum_list) auto
    moreover have "docs \<noteq> []" using doc by auto
    ultimately show "?avg > 0" by (simp add: bm25AverageDocLength_def)
  qed (simp_all add: bm25B_def)
  show ?thesis
  proof (cases "shares_token st queryTerms t")
    case True
    then obtain x where x: "x \<in> set queryTerms" "x \<in> set (tokenize st t)" by (auto simp: shares_token_def)
    have "?score y \<ge> 0" for y using zero [of y] pos [of y] by (cases "y \<in> set (tokenize st t)") auto
    then have "0 < sum_list (map ?score queryTerms)"
      by (intro sum_list_positive) (use x pos in auto)
    moreover have "?avg \<noteq> 0"
    proof
      assume "?avg = 0"
      then have "sum_list (map docLength docs) = 0" using doc by (auto simp: bm25AverageDocLength_def split: if_splits)
      then have "docLength ?doc = 0" using doc by (auto simp: sum_list_eq_0_iff)
      then show False using x by (simp add: newBM25Document_simps)
    qed
    ultimately show ?thesis using True by (simp add: bm25Score_def bm25ScoreWithB_def foldl_sum)
  next
    case False
    then have "map ?score queryTerms = map (\<lambda>_. 0) queryTerms"
      by (intro map_cong [OF refl] zero) (auto simp: shares_token_def)
    then have "sum_list (map ?score queryTerms) = 0" by (simp only: sum_list_0)
    then show ?thesis using False by (simp add: bm25Score_def bm25ScoreWithB_def foldl_sum)
  qed
qed

text \<open>The score of the text with an id, in the corpus of all the texts.\<close>

definition score_at :: "store \<Rightarrow> (string \<times> string) list \<Rightarrow> string list \<Rightarrow> string \<Rightarrow> rat" where
  "score_at st texts queryTerms i =
     (let docs = map (\<lambda>(i, t). newBM25Document st i t) texts
      in bm25Score st (newBM25Document st i (the (map_of texts i))) queryTerms
           (bm25DocFrequency docs) (length docs) (bm25AverageDocLength docs))"

lemma scored_docs_texts:
  assumes "log_ok st" "distinct (map fst texts)"
  shows "scored_docs st (map (\<lambda>(i, t). newBM25Document st i t) texts) queryTerms =
    sort_key (\<lambda>(i, score). (- score, i)) (map (\<lambda>(i, t). (i, score_at st texts queryTerms i))
      (filter (\<lambda>(i, t). shares_token st queryTerms t) texts))"
proof -
  let ?docs = "map (\<lambda>(i, t). newBM25Document st i t) texts"
  let ?score = "\<lambda>doc. bm25Score st doc queryTerms (bm25DocFrequency ?docs) (length ?docs) (bm25AverageDocLength ?docs)"
  have look: "map_of texts i = Some t" if "(i, t) \<in> set texts" for i t
    using that assms(2) by (simp add: map_of_eq_Some_iff)
  have at: "?score (newBM25Document st i t) = score_at st texts queryTerms i" if "(i, t) \<in> set texts" for i t
    using look [OF that] by (simp add: score_at_def Let_def)
  have pos: "0 < score_at st texts queryTerms i \<longleftrightarrow> shares_token st queryTerms t" if "(i, t) \<in> set texts" for i t
    using bm25Score_positive [OF assms(1) that, of queryTerms] at [OF that] by simp
  have eq: "map (\<lambda>doc. (doc_id doc, ?score doc)) ?docs = map (\<lambda>(i, t). (i, score_at st texts queryTerms i)) texts"
    using at by (auto simp: newBM25Document_simps simp del: length_map)
  have "filter (\<lambda>(_, score). score > 0) (map (\<lambda>doc. (doc_id doc, ?score doc)) ?docs) =
      map (\<lambda>(i, t). (i, score_at st texts queryTerms i)) (filter (\<lambda>(i, t). 0 < score_at st texts queryTerms i) texts)"
    unfolding eq by (simp add: filter_map comp_def split_def)
  also have "filter (\<lambda>(i, t). 0 < score_at st texts queryTerms i) texts = filter (\<lambda>(i, t). shares_token st queryTerms t) texts"
    by (rule filter_cong) (use pos in auto)
  finally show ?thesis unfolding scored_docs_def Let_def by simp
qed

lemma sorted_keys:
  fixes ps :: "(string \<times> rat) list"
  assumes "sorted (map (\<lambda>(i, score). (- score, i)) ps)"
  shows "sorted (map (\<lambda>p. - snd p) ps)"
  using assms unfolding sorted_map
  by (rule sorted_wrt_mono_rel [rotated]) (auto simp: less_eq_prod_def split_def)

text \<open>
  Keyword search is exact: over any set of texts, \<open>rankBM25\<close> returns ids of texts that share a
  token with the question, each once, as many as there are or as the limit allows; they come best
  score first, and no text left out scores higher than one returned. It relies on \<open>math.Log\<close> being
  positive above 1.
\<close>

lemma rankBM25_finds:
  fixes st :: store and texts :: "(string \<times> string) list" and queryTerms :: "string list"
  defines "ids \<equiv> rankBM25 st (map (\<lambda>(i, t). newBM25Document st i t) texts) queryTerms"
    and "hits \<equiv> map fst (filter (\<lambda>(i, t). shares_token st queryTerms t) texts)"
  assumes "log_ok st" and "distinct (map fst texts)"
  shows "distinct ids \<and> set ids \<subseteq> set hits \<and> length ids = min (maxVectorResults st) (length hits)
   \<and> sorted (map (\<lambda>i. - score_at st texts queryTerms i) ids)
   \<and> (\<forall>i \<in> set ids. \<forall>j \<in> set hits - set ids. score_at st texts queryTerms j \<le> score_at st texts queryTerms i)"
proof -
  let ?score = "score_at st texts queryTerms" and ?k = "maxVectorResults st"
  let ?L = "map (\<lambda>i. (i, ?score i)) hits"
  define S where "S = sort_key (\<lambda>(i, score). (- score, i)) ?L"
  have "map (\<lambda>(i, t). (i, ?score i)) (filter (\<lambda>(i, t). shares_token st queryTerms t) texts) = ?L"
    by (simp add: hits_def split_def)
  then have ids: "ids = map fst (take ?k S)"
    by (simp add: ids_def rankBM25_def scored_docs_texts [OF assms(3,4)] S_def)
  have setS: "set S = (\<lambda>i. (i, ?score i)) ` set hits" and lenS: "length S = length hits"
    by (auto simp: S_def)
  have "distinct hits" using assms(4) by (simp add: hits_def distinct_map_filter)
  then have "distinct (map fst S)" unfolding S_def by (auto simp: distinct_map inj_on_def)
  then have dist: "distinct (map fst (take ?k S @ drop ?k S))" by simp
  have snd: "snd p = ?score (fst p)" if "p \<in> set S" for p using that setS by auto
  have "sorted (map (\<lambda>p. - snd p) S)"
    by (rule sorted_keys) (simp add: S_def)
  moreover have "map (\<lambda>p. - snd p) S = map (\<lambda>p. - ?score (fst p)) (take ?k S @ drop ?k S)"
    using snd by simp
  ultimately have "sorted (map (\<lambda>p. - ?score (fst p)) (take ?k S @ drop ?k S))" by simp
  then have srt: "sorted (map (\<lambda>p. - ?score (fst p)) (take ?k S))"
    "\<forall>x \<in> set (take ?k S). \<forall>y \<in> set (drop ?k S). - ?score (fst x) \<le> - ?score (fst y)"
    unfolding map_append sorted_append by auto
  have "set hits - set ids \<subseteq> fst ` set (drop ?k S)"
  proof
    fix j
    assume j: "j \<in> set hits - set ids"
    then have "(j, ?score j) \<in> set S" using setS by auto
    then have "(j, ?score j) \<in> set (take ?k S) \<union> set (drop ?k S)"
      by (metis append_take_drop_id set_append)
    moreover have "(j, ?score j) \<notin> set (take ?k S)" using j by (force simp: ids)
    ultimately show "j \<in> fst ` set (drop ?k S)" by force
  qed
  moreover have "\<forall>i \<in> set ids. \<forall>j \<in> fst ` set (drop ?k S). ?score j \<le> ?score i"
    using srt(2) by (fastforce simp: ids)
  moreover have "distinct ids" using dist unfolding ids map_append distinct_append by blast
  moreover have "set ids \<subseteq> set hits" using setS by (auto simp: ids dest!: in_set_takeD)
  moreover have "sorted (map (\<lambda>i. - ?score i) ids)" using srt(1) by (simp add: ids comp_def)
  moreover have "length ids = min ?k (length hits)" using lenS by (simp add: ids)
  ultimately show ?thesis by blast
qed

definition sample_texts :: "(string \<times> string) list" where
  "sample_texts = [(''ep_1'', ''red falcon''), (''ep_2'', ''blue sky''), (''ep_3'', ''falcon falcon'')]"

lemma rankBM25_finds_witness:
  "log_ok sample_store \<and> distinct (map fst sample_texts)
   \<and> length (rankBM25 sample_store (map (\<lambda>(i, t). newBM25Document sample_store i t) sample_texts) [''falcon''])
     = min (maxVectorResults sample_store)
         (length (map fst (filter (\<lambda>(i, t). shares_token sample_store [''falcon''] t) sample_texts)))"
proof (intro conjI)
  show log: "log_ok sample_store" by (simp add: log_ok_def sample_store_def)
  show dist: "distinct (map fst sample_texts)" by (simp add: sample_texts_def)
  show "length (rankBM25 sample_store (map (\<lambda>(i, t). newBM25Document sample_store i t) sample_texts) [''falcon''])
     = min (maxVectorResults sample_store)
         (length (map fst (filter (\<lambda>(i, t). shares_token sample_store [''falcon''] t) sample_texts)))"
    using rankBM25_finds [OF log dist, of "[''falcon'']"] by blast
qed

section \<open>Cut text\<close>

lemma runes_append:
  assumes "list_all valid_rune rs"
  shows "runes (string_of_runes rs @ s) = rs @ runes s"
  using assms by (induction rs) (simp_all add: string_of_runes_def runes_encode_append)

lemma valid_runes_take: "list_all valid_rune (take n (runes s))" "list_all valid_rune (take m (drop n (runes s)))"
  using runes_valid [of s] by (auto simp: list_all_iff dest: in_set_takeD in_set_dropD)

definition ascii :: "string \<Rightarrow> bool" where
  "ascii s = list_all (\<lambda>c. of_char c < (128::nat)) s"

lemma runes_of_ascii: "ascii s \<Longrightarrow> runes s = map of_char s"
  by (rule runes_ascii) (simp add: ascii_def list_all_iff)

lemma runes_ascii_append: "ascii s \<Longrightarrow> runes (s @ t) = map of_char s @ runes t"
proof (induction s)
  case (Cons c s)
  then have "decode_rune (c # s @ t) = (of_char c, 1)" by (simp add: decode_rune_def ascii_def)
  then show ?case using Cons by (subst runes.simps) (simp add: ascii_def One_nat_def)
qed simp

lemma truncateToBudget_bound: "length (runes (truncateToBudget s n)) \<le> n + 37"
proof -
  have "ascii (nl @ ''...[truncated to fit context budget]'')" by (simp add: ascii_def nl_def)
  then have "length (runes (nl @ ''...[truncated to fit context budget]'')) = 37"
    by (simp add: runes_of_ascii nl_def)
  then show ?thesis
    by (simp add: truncateToBudget_def runes_append valid_runes_take)
qed

lemma runes_hardTruncate: "runes (hardTruncate s n) = take n (runes s)"
  by (simp add: hardTruncate_def runes_string_of_take)

section \<open>The excerpt around the question's words\<close>

lemma Index_bound: "Index s p = Some i \<Longrightarrow> i + length p \<le> length s"
proof (induction s p arbitrary: i rule: Index.induct)
  case (2 x s p)
  then show ?case
  proof (cases "take (length p) (x # s) = p")
    case True
    then have "length p \<le> length (x # s)" by (metis length_take min.cobounded1)
    then show ?thesis using 2(2) True by simp
  next
    case False
    then obtain j where "Index s p = Some j" "i = Suc j" using 2(2) by auto
    then show ?thesis using 2(1) [OF False] by simp
  qed
qed (simp split: if_splits)

lemma offsets_bound: "b \<in> set (offsets t i s) \<Longrightarrow> b + length t \<le> i + length s"
proof (induction t i s rule: offsets.induct)
  case (1 t i s)
  show ?case
  proof (cases "t = [] \<or> length s < length t \<or> Index s t = None")
    case True
    then show ?thesis using 1(2) by (subst (asm) offsets.simps) (auto split: if_splits)
  next
    case False
    then obtain idx where i: "t \<noteq> []" "\<not> length s < length t" "Index s t = Some idx" by auto
    then have "b = i + idx \<or> b \<in> set (offsets t (i + idx + length t) (drop (idx + length t) s))"
      using 1(2) by (subst (asm) offsets.simps) simp
    moreover have "b + length t \<le> i + length s" if "b \<in> set (offsets t (i + idx + length t) (drop (idx + length t) s))"
      using 1(1) [OF _ i(3) that] i Index_bound [OF i(3)] by simp
    ultimately show ?thesis using Index_bound [OF i(3)] by auto
  qed
qed

lemma densest_ok:
  assumes "ps \<noteq> []"
  shows "densest ps half \<in> set ps \<and> (\<forall>p \<in> set ps. count_near ps half p \<le> count_near ps half (densest ps half))"
proof -
  let ?f = "\<lambda>(best, bestCount) p. let count = int (count_near ps half p) in if count > bestCount then (p, count) else (best, bestCount)"
  have "qs \<noteq> [] \<longrightarrow> (\<exists>b. foldl ?f (hd ps, - 1) qs = (b, int (count_near ps half b)) \<and> b \<in> set qs
       \<and> (\<forall>p \<in> set qs. count_near ps half p \<le> count_near ps half b))" for qs
  proof (induction qs rule: rev_induct)
    case (snoc q qs)
    then show ?case by (cases "qs = []") (auto simp: Let_def, fastforce)
  qed simp
  then show ?thesis using assms unfolding densest_def by fastforce
qed

text \<open>Where the words of the question occur, counted in runes.\<close>

definition word_positions :: "store \<Rightarrow> string \<Rightarrow> string list \<Rightarrow> int list" where
  "word_positions st t queryTerms =
     map (\<lambda>b. int (length (runes (take b t)))) (concat (map (\<lambda>q. offsets q 0 (ToLower (st_lower st) t)) queryTerms))"

lemma found_positions:
  assumes "length (ToLower (st_lower st) t) \<le> length t"
  shows "map (rune_position t) (concat (map (\<lambda>q. offsets q 0 (ToLower (st_lower st) t)) queryTerms)) =
    map Some (word_positions st t queryTerms)"
proof -
  have "rune_position t b = Some (int (length (runes (take b t))))"
    if "b \<in> set (offsets q 0 (ToLower (st_lower st) t))" for b q
    using offsets_bound [OF that] assms by (simp add: rune_position_def)
  then show ?thesis by (auto simp: word_positions_def)
qed

definition window_start :: "int \<Rightarrow> nat \<Rightarrow> nat \<Rightarrow> nat" where
  "window_start p maxChars n = nat (min (int n - int maxChars) (max 0 (p - int maxChars div 2)))"

lemma window_text:
  fixes p :: int and rs :: "rune list" and maxChars :: nat
  assumes "maxChars < length rs" "list_all valid_rune rs"
  defines "start \<equiv> window_start p maxChars (length rs)"
  shows "start + maxChars \<le> length rs"
    "runes (excerpt_around rs maxChars p) = map of_char (if start > 0 then ''...[excerpt] '' else [])
       @ take maxChars (drop start rs) @ map of_char (if start + maxChars < length rs then '' ...[truncated]'' else [])"
proof -
  let ?n = "length rs" and ?s0 = "max 0 (p - int maxChars div 2)"
  have start: "int start = min (int ?n - int maxChars) ?s0"
    using assms(1) by (auto simp: start_def window_start_def)
  then show "start + maxChars \<le> ?n" by linarith
  have a: "(if ?s0 + int maxChars > int ?n then max 0 (int ?n - int maxChars) else ?s0) = int start"
    using start assms(1) by auto
  have b: "(if ?s0 + int maxChars > int ?n then int ?n else ?s0 + int maxChars) = int (start + maxChars)"
    using start assms(1) by auto
  have e: "excerpt_around rs maxChars p = (if start > 0 then ''...[excerpt] '' else [])
      @ string_of_runes (take maxChars (drop start rs)) @ (if start + maxChars < ?n then '' ...[truncated]'' else [])"
    unfolding excerpt_around_def Let_def a b by simp
  have "list_all valid_rune (take maxChars (drop start rs))"
    using assms(2) by (auto simp: list_all_iff dest: in_set_takeD in_set_dropD)
  moreover have "ascii (if start > 0 then ''...[excerpt] '' else [])" "ascii (if start + maxChars < ?n then '' ...[truncated]'' else [])"
    by (simp_all add: ascii_def)
  ultimately show "runes (excerpt_around rs maxChars p) = map of_char (if start > 0 then ''...[excerpt] '' else [])
       @ take maxChars (drop start rs) @ map of_char (if start + maxChars < length rs then '' ...[truncated]'' else [])"
    unfolding e by (simp only: runes_ascii_append runes_append runes_of_ascii)
qed

text \<open>
  The excerpt of a long exchange: as long as lower-casing does not lengthen the text,
  \<open>centeredExcerpt\<close> returns and shows exactly \<open>maxChars\<close> consecutive runes of the text. Without an
  occurrence of a word of the question they are its first; otherwise the window is centred, as far
  as the ends of the text allow, on an occurrence with the most others near it, and each end that
  was cut off is marked.
\<close>

lemma centeredExcerpt_window:
  assumes "maxChars < length (runes t)" and "length (ToLower (st_lower st) t) \<le> length t"
  shows "\<exists>e. centeredExcerpt st t queryTerms maxChars = Some e \<and>
    (if word_positions st t queryTerms = [] then runes e = take maxChars (runes t)
     else \<exists>p \<in> set (word_positions st t queryTerms).
       (\<forall>p' \<in> set (word_positions st t queryTerms).
          count_near (word_positions st t queryTerms) (int maxChars div 2) p'
          \<le> count_near (word_positions st t queryTerms) (int maxChars div 2) p)
       \<and> (let start = window_start p maxChars (length (runes t)) in
           start + maxChars \<le> length (runes t)
         \<and> runes e = map of_char (if start > 0 then ''...[excerpt] '' else [])
              @ take maxChars (drop start (runes t))
              @ map of_char (if start + maxChars < length (runes t) then '' ...[truncated]'' else [])))"
proof (cases "word_positions st t queryTerms = []")
  case True
  then show ?thesis
    using assms found_positions [OF assms(2), of queryTerms]
    by (simp add: centeredExcerpt_def Let_def runes_hardTruncate)
next
  case False
  let ?p = "densest (word_positions st t queryTerms) (int maxChars div 2)"
  have "centeredExcerpt st t queryTerms maxChars = Some (excerpt_around (runes t) maxChars ?p)"
    using assms(1) False unfolding centeredExcerpt_def Let_def found_positions [OF assms(2)]
    by (simp add: comp_def image_iff)
  then show ?thesis
    using False densest_ok [OF False, of "int maxChars div 2"] window_text [OF assms(1) runes_valid, of ?p]
    unfolding Let_def by (intro exI conjI) (assumption, simp only: if_False, intro bexI [of _ ?p] conjI, simp_all)
qed

lemma sample_lower: "ToLower (st_lower sample_store) ''the red falcon flew'' = ''the red falcon flew''"
proof -
  have a: "ascii ''the red falcon flew''" by (simp add: ascii_def)
  have "map (st_lower sample_store) (map of_char ''the red falcon flew'') = map of_char ''the red falcon flew''"
    by (simp add: sample_store_def ascii_lower_only_def)
  moreover have "string_of_runes (map of_char ''the red falcon flew'') = ''the red falcon flew''"
    by (rule string_of_runes_ascii) auto
  ultimately show ?thesis by (simp only: ToLower_def runes_of_ascii [OF a])
qed

lemma centeredExcerpt_window_witness:
  "\<exists>e. centeredExcerpt sample_store ''the red falcon flew'' [''falcon''] 9 = Some e"
proof -
  have "9 < length (runes ''the red falcon flew'')" by (simp add: runes_of_ascii ascii_def)
  moreover have "length (ToLower (st_lower sample_store) ''the red falcon flew'') \<le> length ''the red falcon flew''"
    by (simp only: sample_lower)
  ultimately show ?thesis using centeredExcerpt_window [of 9 "''the red falcon flew''" sample_store "[''falcon'']"] by blast
qed

lemma lengthening:
  "encode_rune 0x23A = [CHR 0xC8, CHR 0xBA]" "encode_rune 0x2C65 = [CHR 0xE2, CHR 0xB1, CHR 0xA5]"
  by (simp_all add: encode_rune_def valid_rune_def char_of_def One_nat_def bit_Suc bit_0)

lemma Index_after:
  "Index (concat (replicate n [CHR 0xE2, CHR 0xB1, CHR 0xA5]) @ ''falcon'') ''falcon'' = Some (3 * n)"
  by (induction n) simp_all

text \<open>
  Lower-casing can lengthen a text: the two-byte letter U+023A becomes the three-byte letter
  U+2C65. An exchange that has enough of them before a word of the question makes \<open>centeredExcerpt\<close>
  slice the text beyond its end, and the request panics.
\<close>

lemma centeredExcerpt_panics:
  assumes "ascii_lower (st_lower st)" and "st_lower st 0x23A = 0x2C65" and "maxChars < n" and "6 < n"
  shows "centeredExcerpt st (string_of_runes (replicate n 0x23A) @ ''falcon'') [''falcon''] maxChars = None"
proof -
  let ?t = "string_of_runes (replicate n 0x23A) @ ''falcon''"
  have ascii: "ascii ''falcon''" by (simp add: ascii_def)
  have rs: "runes ?t = replicate n 0x23A @ map of_char ''falcon''"
    by (subst runes_append) (simp_all add: list_all_iff valid_rune_def runes_of_ascii [OF ascii])
  have "map (st_lower st) (map of_char ''falcon'') = map of_char ''falcon''"
    using assms(1) by (simp add: ascii_lower_def)
  then have "ToLower (st_lower st) ?t = string_of_runes (replicate n 0x2C65) @ string_of_runes (map of_char ''falcon'')"
    by (simp only: ToLower_def rs map_append map_replicate assms(2)) (simp only: string_of_runes_def map_append concat_append)
  also have "string_of_runes (map of_char ''falcon'') = ''falcon''"
    by (rule string_of_runes_ascii) auto
  finally have low: "ToLower (st_lower st) ?t = concat (replicate n [CHR 0xE2, CHR 0xB1, CHR 0xA5]) @ ''falcon''"
    by (simp only: string_of_runes_def map_replicate lengthening)
  have "3 * n \<in> set (offsets ''falcon'' 0 (ToLower (st_lower st) ?t))"
    unfolding low by (subst offsets.simps) (simp add: Index_after)
  moreover have "length (concat (replicate n [CHR 0xC8, CHR 0xBA])) = 2 * n" by (induction n) simp_all
  then have "length ?t = 2 * n + 6" by (simp only: string_of_runes_def map_replicate lengthening length_append) simp
  then have "rune_position ?t (3 * n) = None" using assms(4) by (simp only: rune_position_def) simp
  ultimately have "None \<in> set (map (rune_position ?t) (concat (map (\<lambda>q. offsets q 0 (ToLower (st_lower st) ?t)) [''falcon''])))"
    by (force simp: image_iff simp del: offsets.simps)
  moreover have "\<not> length (runes ?t) \<le> maxChars" using assms(3) by (simp only: rs) simp
  ultimately show ?thesis by (simp only: centeredExcerpt_def Let_def) simp
qed

lemma centeredExcerpt_panics_witness:
  "centeredExcerpt (sample_store\<lparr>st_lower := (\<lambda>r. if r = 0x23A then 0x2C65 else ascii_lower_only r)\<rparr>)
     (string_of_runes (replicate 401 0x23A) @ ''falcon'') [''falcon''] 400 = None"
  by (rule centeredExcerpt_panics) (simp_all add: ascii_lower_def ascii_lower_only_def)

end
