(* ===== verification/Retrieve_Correct.thy ===== *)
theory Retrieve_Correct
  imports Retrieve_Isolated Ranking_Correct
begin

text \<open>
  What a successful retrieval returns: references and citations in step, each naming a row that
  exists in the scope it claims, current where it is a summary, and a context within its budget.
\<close>

declare One_nat_def [simp del]

section \<open>Values returned by reading procedures\<close>

definition returns :: "database \<Rightarrow> (scope \<times> scope) option \<Rightarrow> ('a \<Rightarrow> bool) \<Rightarrow> 'a proc \<Rightarrow> bool" where
  "returns d sess P m \<longleftrightarrow> (\<forall>w x w'. db w = d \<longrightarrow> session w = sess \<longrightarrow> m w = (Inr x, w') \<longrightarrow>
     db w' = d \<and> session w' = sess \<and> P x)"

lemma returnsD:
  assumes "returns d sess P m" "db w = d" "session w = sess" "m w = (Inr x, w')"
  shows "P x" "db w' = d" "session w' = sess"
  using assms unfolding returns_def by blast+

lemma returns_bind:
  assumes m: "returns d sess P m" and k: "\<And>x. P x \<Longrightarrow> returns d sess Q (k x)"
  shows "returns d sess Q (bindM m k)"
  unfolding returns_def
proof (intro allI impI)
  fix w y w'
  assume w: "db w = d" "session w = sess" and run: "bindM m k w = (Inr y, w')"
  obtain x t where t: "m w = (Inr x, t)" "k x t = (Inr y, w')" using bind_success [OF run] by blast
  note x = returnsD [OF m w t(1)]
  show "db w' = d \<and> session w' = sess \<and> Q y"
    using returnsD [OF k [OF x(1)] x(2,3) t(2)] by simp
qed

lemma returns_ret: "P x \<Longrightarrow> returns d sess P (retM x)"
  by (simp add: returns_def retM_def)

lemma returns_err: "returns d sess P (errM e)"
  by (simp add: returns_def errM_def)

lemma returns_query:
  "(\<And>w. db w = d \<Longrightarrow> session w = sess \<Longrightarrow> P (f w)) \<Longrightarrow> returns d sess P (query f)"
  unfolding returns_def by (auto dest!: query_success)

lemma returns_query_row:
  assumes "\<And>w x. db w = d \<Longrightarrow> session w = sess \<Longrightarrow> x \<in> set (f w) \<Longrightarrow> P x"
  shows "returns d sess P (query_row f)"
  unfolding returns_def
proof (intro allI impI)
  fix w x w'
  assume w: "db w = d" "session w = sess" and run: "query_row f w = (Inr x, w')"
  obtain ys where "f w = x # ys" "w' = tick w" using query_row_success [OF run] by blast
  then show "db w' = d \<and> session w' = sess \<and> P x" using w assms [of w x] by simp
qed

lemma returns_reads:
  assumes "keeps (unchanged (\<lambda>d. d)) sess m"
  shows "returns d sess (\<lambda>_. True) m"
  unfolding returns_def
proof (intro allI impI)
  fix w x w'
  assume "db w = d" "session w = sess" "m w = (Inr x, w')"
  then show "db w' = d \<and> session w' = sess \<and> True"
    using keepsD [OF assms, of w "Inr x" w'] by (simp add: unchanged_def)
qed

lemma returns_weaken: "returns d sess P m \<Longrightarrow> (\<And>x. P x \<Longrightarrow> Q x) \<Longrightarrow> returns d sess Q m"
  unfolding returns_def by blast

lemma returns_if:
  "(b \<Longrightarrow> returns d sess P m) \<Longrightarrow> (\<not> b \<Longrightarrow> returns d sess P m') \<Longrightarrow> returns d sess P (if b then m else m')"
  by simp

lemma returns_pair: "(\<And>x y. z = (x, y) \<Longrightarrow> returns d sess P (k x y)) \<Longrightarrow> returns d sess P (case z of (x, y) \<Rightarrow> k x y)"
  by (cases z) simp

lemma returns_map:
  assumes "\<And>x. x \<in> set xs \<Longrightarrow> returns d sess (P x) (f x)"
  shows "returns d sess (list_all2 P xs) (mapM f xs)"
  using assms
proof (induction xs)
  case Nil
  show ?case by (simp add: returns_ret)
next
  case (Cons x xs)
  have x: "returns d sess (P x) (f x)" and xs: "returns d sess (list_all2 P xs) (mapM f xs)"
    using Cons by simp_all
  show ?case
    unfolding mapM.simps
    by (rule returns_bind [OF x], rule returns_bind [OF xs], rule returns_ret) simp
qed

lemma returns_fold:
  assumes "\<And>x acc. x \<in> set xs \<Longrightarrow> I acc \<Longrightarrow> returns d sess I (f x acc)" "I acc"
  shows "returns d sess I (foldM f xs acc)"
  using assms
proof (induction xs arbitrary: acc)
  case Nil
  then show ?case by (simp add: returns_ret)
next
  case (Cons x xs)
  show ?case
    unfolding foldM.simps
    by (rule returns_bind [where P = I]) (use Cons in auto)
qed

lemma returns_no_rows:
  assumes m: "returns d sess P m" and same: "keeps (unchanged (\<lambda>d. d)) sess m"
  shows "returns d sess (\<lambda>v. case v of None \<Rightarrow> True | Some x \<Rightarrow> P x) (no_rows m)"
  unfolding returns_def
proof (intro allI impI)
  fix w v w'
  assume w: "db w = d" "session w = sess" and run: "no_rows m w = (Inr v, w')"
  obtain r t where t: "m w = (r, t)" by (cases "m w")
  have "db t = d" "session t = sess" using keepsD [OF same w(2) t] w by (simp_all add: unchanged_def)
  then show "db w' = d \<and> session w' = sess \<and> (case v of None \<Rightarrow> True | Some x \<Rightarrow> P x)"
    using run t returnsD(1) [OF m w] by (cases r) (auto simp: no_rows_def tryM_def retM_def errM_def split: if_splits)
qed

lemma returns_Run:
  assumes "returns (db w) (Some (a, ws)) P fn" "tx w = None" "Run a ws fn w = (Inr x, w')"
  shows "P x" "db w' = db w"
proof -
  obtain t u where t: "session t = Some (a, ws)" "db t = db w" "fn t = (Inr x, u)" and u: "db w' = db u"
    using Run_success [OF assms(3,2)] by blast
  show "P x" using returnsD(1) [OF assms(1) t(2,1,3)] .
  show "db w' = db w" using returnsD(2) [OF assms(1) t(2,1,3)] u by simp
qed

section \<open>References that name rows\<close>

definition superseded :: "database \<Rightarrow> scope \<Rightarrow> string \<Rightarrow> bool" where
  "superseded d sc i \<longleftrightarrow> (\<exists>s \<in> set (summaries d). sum_scope s = sc \<and> sum_supersedes s = Some i)"

definition names_row :: "database \<Rightarrow> ref \<Rightarrow> bool" where
  "names_row d r \<longleftrightarrow>
     (ref_kind r = RefKindEntity \<and> (\<exists>e \<in> set (entities d). en_scope e = ref_scope r \<and> en_id e = ref_id r))
   \<or> (ref_kind r = RefKindSummary \<and> \<not> superseded d (ref_scope r) (ref_id r)
       \<and> (\<exists>s \<in> set (summaries d). sum_scope s = ref_scope r \<and> sum_id s = ref_id r))
   \<or> (ref_kind r = RefKindEpisode
       \<and> (\<exists>e \<in> set (episodes d). ep_scope e = ref_scope r \<and> ep_id e = ref_id r \<and> ep_type e = ''interaction''))"

definition good_ref :: "database \<Rightarrow> scope \<Rightarrow> ref \<Rightarrow> bool" where
  "good_ref d sc r \<longleftrightarrow> ref_scope r = sc \<and> names_row d r"

lemma good_entity: "e \<in> set (entities d) \<Longrightarrow> en_scope e = sc \<Longrightarrow> good_ref d sc (mk_ref RefKindEntity sc (en_id e))"
  by (auto simp: good_ref_def names_row_def mk_ref_def)

lemma good_entity_id:
  "\<exists>e \<in> set (entities d). en_scope e = sc \<and> en_id e = i \<Longrightarrow> good_ref d sc (mk_ref RefKindEntity sc i)"
  by (auto simp: good_ref_def names_row_def mk_ref_def)

lemma good_episode:
  "e \<in> set (episodes d) \<Longrightarrow> ep_scope e = sc \<Longrightarrow> ep_type e = ''interaction'' \<Longrightarrow>
   good_ref d sc (mk_ref RefKindEpisode sc (ep_id e))"
  by (auto simp: good_ref_def names_row_def mk_ref_def)

definition good_summary :: "database \<Rightarrow> scope \<Rightarrow> string \<Rightarrow> bool" where
  "good_summary d sc i \<longleftrightarrow> (\<exists>s \<in> set (summaries d). sum_scope s = sc \<and> sum_id s = i) \<and> \<not> superseded d sc i"

lemma good_summary_ref: "good_summary d sc i \<Longrightarrow> good_ref d sc (mk_ref RefKindSummary sc i)"
  by (auto simp: good_ref_def names_row_def mk_ref_def good_summary_def)

text \<open>What a search adds: citations for exactly the references it returns, and the flag if there are
  any.\<close>

definition adds :: "database \<Rightarrow> scope \<Rightarrow> sink \<Rightarrow> ref list \<times> sink \<Rightarrow> bool" where
  "adds d sc out = (\<lambda>(refs, out'). map ct_Ref (citations out') = map ct_Ref (citations out) @ refs
     \<and> strongHit out' = (strongHit out \<or> refs \<noteq> []) \<and> list_all (good_ref d sc) refs)"

lemma adds_none: "adds d sc out ([], out)"
  by (simp add: adds_def)

lemma adds_hit:
  "adds d sc out (refs, out') \<Longrightarrow> good_ref d sc r \<Longrightarrow> adds d sc out (refs @ [r], hit r line snip out')"
  by (simp add: adds_def hit_def)

lemma adds_hits:
  assumes "list_all (\<lambda>m. good_ref d sc (ref_of m)) ms"
  shows "adds d sc out (map ref_of ms, fold (\<lambda>m. hit (ref_of m) (line m) (snip m)) ms out)"
  using assms by (induction ms arbitrary: out) (simp_all add: adds_def hit_def)

lemma adds_sb: "adds d sc (out\<lparr>sb := t\<rparr>) = adds d sc out"
  by (simp add: adds_def)

lemma adds_trans: "adds d sc a (r1, b) \<Longrightarrow> adds d sc b (r2, c) \<Longrightarrow> adds d sc a (r1 @ r2, c)"
  by (auto simp: adds_def)

section \<open>Rows behind the hits\<close>

lemma visible_set: "x \<in> set (visible w f rows) \<Longrightarrow> x \<in> set rows"
  by (simp add: visible_def)

lemma nearest_rows: "z \<in> set (nearest st qv n emb rows) \<Longrightarrow> fst z \<in> set rows"
  unfolding nearest_def by (auto dest!: in_set_takeD simp: set_map_filter')

lemma interactions_rows:
  "e \<in> set (interactions sc w) \<Longrightarrow> e \<in> set (episodes (db w)) \<and> ep_scope e = sc \<and> ep_type e = ''interaction''"
  by (auto simp: interactions_def dest: visible_set)

lemma known_rows: "e \<in> set (known_entities sc ids w) \<Longrightarrow> e \<in> set (entities (db w)) \<and> en_scope e = sc"
  by (auto simp: known_entities_def dest: visible_set)

lemma by_id_rows: "x \<in> set (by_id key rs ids) \<Longrightarrow> x \<in> set rs"
  unfolding by_id_def by (auto simp: set_map_filter' find_Some_iff)

lemma prefer_timeframe_rows: "m \<in> set (prefer_timeframe tf ms) \<Longrightarrow> m \<in> set ms"
  by (auto simp: prefer_timeframe_def Let_def split: option.splits if_splits)

lemmas reading = unchanged.GetVersion [where F = "\<lambda>d. d"] unchanged.lift [where F = "\<lambda>d. d"]
  unchanged.query_row [where F = "\<lambda>d. d"] unchanged.call [where F = "\<lambda>d. d"]

lemmas reading_returns = reading [THEN returns_reads]

lemma decrypt_returns: "returns d sess (\<lambda>_. True) (decrypt_with st sc v ct)"
  unfolding decrypt_with_def
  by (intro returns_bind [OF reading_returns(1)] returns_bind [OF reading_returns(2)] returns_ret) simp

lemma load_exchange_returns: "returns d sess (\<lambda>m. ex_id m = ep_id e) (load_exchange st sc e)"
  unfolding load_exchange_def
  by (intro returns_bind [OF reading_returns(1)] returns_bind [OF reading_returns(2)] returns_ret) simp

lemma load_entity_hit_returns: "returns d sess (\<lambda>m. eh_id m = en_id e) (load_entity_hit st sc e)"
  unfolding load_entity_hit_def by (rule returns_bind [OF decrypt_returns]) (auto intro: returns_ret)

lemma load_candidate_returns: "returns d sess (\<lambda>c. cd_id c = sum_id s) (load_candidate st sc s)"
  unfolding load_candidate_def by (rule returns_bind [OF decrypt_returns]) (auto intro: returns_ret)

lemma formatEntity_returns:
  "returns d sess (\<lambda>_. \<exists>e \<in> set (entities d). en_scope e = sc \<and> en_id e = i) (formatEntity st sc i lbl)"
  unfolding formatEntity_def
proof (rule returns_bind)
  show "returns d sess (\<lambda>e. e \<in> set (entities d) \<and> en_scope e = sc \<and> en_id e = i) (query_row (find_entity sc i))"
    by (rule returns_query_row) (auto simp: find_entity_def dest: visible_set)
  show "returns d sess (\<lambda>_. \<exists>e \<in> set (entities d). en_scope e = sc \<and> en_id e = i)
      (bindM (decrypt_with st sc (en_key_version e) (en_attributes e))
        (\<lambda>(_, attrs). retM (''entity '' @ i @ lbl @ '' ('' @ en_name e @ ''): '' @ attrs)))"
    if "e \<in> set (entities d) \<and> en_scope e = sc \<and> en_id e = i" for e
    by (rule returns_bind [OF decrypt_returns]) (use that in \<open>auto intro!: returns_ret\<close>)
qed

section \<open>Episodes and entities\<close>

lemma cite_exchanges:
  assumes "\<And>m. m \<in> set ms \<Longrightarrow> good_ref d sc (mk_ref RefKindEpisode sc (ex_id m))"
  shows "returns d sess (adds d sc out) (foldM (cite_exchange st sc terms now lbl) ms ([], out))"
proof (rule returns_fold)
  fix m acc
  assume m: "m \<in> set ms" and acc: "adds d sc out acc"
  obtain refs o' where a: "acc = (refs, o')" by (cases acc)
  show "returns d sess (adds d sc out) (cite_exchange st sc terms now lbl m acc)"
    using adds_hit [OF acc [unfolded a] assms [OF m]]
    by (auto simp: a cite_exchange_def Let_def intro!: returns_ret returns_err split: option.split)
qed (rule adds_none)

lemma exchange_refs:
  assumes "list_all2 (\<lambda>e m. ex_id m = ep_id e) es ms"
    and "\<And>e. e \<in> set es \<Longrightarrow> e \<in> set (episodes d) \<and> ep_scope e = sc \<and> ep_type e = ''interaction''" and "m \<in> set ms"
  shows "good_ref d sc (mk_ref RefKindEpisode sc (ex_id m))"
proof -
  obtain e where "e \<in> set es" "ex_id m = ep_id e" using list_all2_setD2 [OF assms(1,3)] by blast
  then show ?thesis using good_episode [of e] assms(2) by simp
qed

lemma vectorSearchEpisodes_adds:
  "returns d sess (adds d sc out) (vectorSearchEpisodes st sc qv terms q now out)"
  unfolding vectorSearchEpisodes_def
proof (rule returns_bind)
  show "returns d sess (\<lambda>rows. \<forall>z \<in> set rows. fst z \<in> set (episodes d) \<and> ep_scope (fst z) = sc \<and> ep_type (fst z) = ''interaction'')
     (query (\<lambda>w. nearest st qv (maxVectorResults st) ep_embedding (filter (\<lambda>e. usable_model st (ep_embedding_model e)) (interactions sc w))))"
    by (rule returns_query) (auto dest!: nearest_rows interactions_rows)
next
  fix rows :: "(episode \<times> rat) list"
  let ?rows = "filter (\<lambda>(_, dist). \<not> 1 - dist < episodeVectorSimilarityThreshold) rows"
  assume rows: "\<forall>z \<in> set rows. fst z \<in> set (episodes d) \<and> ep_scope (fst z) = sc \<and> ep_type (fst z) = ''interaction''"
  have l: "returns d sess (list_all2 (\<lambda>z m. ex_id m = ep_id (fst z)) ?rows) (mapM (\<lambda>(e, _). load_exchange st sc e) ?rows)"
    by (rule returns_map) (auto intro: load_exchange_returns)
  show "returns d sess (adds d sc out) (bindM (mapM (\<lambda>(e, _). load_exchange st sc e) ?rows) (\<lambda>ms.
     foldM (cite_exchange st sc terms now []) (prefer_timeframe (resolveQueryTimeframe st q now) ms) ([], out)))"
  proof (rule returns_bind [OF l], rule cite_exchanges)
    fix ms m
    assume "list_all2 (\<lambda>z m. ex_id m = ep_id (fst z)) ?rows ms" "m \<in> set (prefer_timeframe (resolveQueryTimeframe st q now) ms)"
    then show "good_ref d sc (mk_ref RefKindEpisode sc (ex_id m))"
      using exchange_refs [of "map fst ?rows" ms d sc m] rows prefer_timeframe_rows by (auto simp: list_all2_map1)
  qed
qed

lemma keywordSearchEpisodes_adds:
  "returns d sess (adds d sc out) (keywordSearchEpisodes st sc terms ids q now out)"
  unfolding keywordSearchEpisodes_def
proof (rule returns_bind)
  show "returns d sess (\<lambda>rows. \<forall>e \<in> set rows. e \<in> set (episodes d) \<and> ep_scope e = sc \<and> ep_type e = ''interaction'')
     (query (\<lambda>w. filter (\<lambda>e. ep_id e \<notin> set ids) (interactions sc w)))"
    by (rule returns_query) (auto dest!: interactions_rows)
next
  fix rows :: "episode list"
  assume rows: "\<forall>e \<in> set rows. e \<in> set (episodes d) \<and> ep_scope e = sc \<and> ep_type e = ''interaction''"
  have l: "returns d sess (list_all2 (\<lambda>e m. ex_id m = ep_id e) rows) (mapM (load_exchange st sc) rows)"
    by (rule returns_map) (rule load_exchange_returns)
  show "returns d sess (adds d sc out) (bindM (mapM (load_exchange st sc) rows) (\<lambda>ms.
     let docs = map (\<lambda>m. newBM25Document st (ex_id m) (ex_input m @ '' '' @ ex_output m)) ms;
         matches = by_id ex_id ms (rankBM25 st docs terms)
     in foldM (cite_exchange st sc terms now '', keyword match'')
          (prefer_timeframe (resolveQueryTimeframe st q now) matches) ([], out)))"
    unfolding Let_def
    by (rule returns_bind [OF l], rule cite_exchanges)
       (use rows in \<open>auto dest!: prefer_timeframe_rows by_id_rows elim!: exchange_refs\<close>)
qed

lemma entity_refs:
  assumes "list_all2 (\<lambda>e m. eh_id m = en_id e) es ms"
    and "\<And>e. e \<in> set es \<Longrightarrow> e \<in> set (entities d) \<and> en_scope e = sc" and "m \<in> set ms"
  shows "good_ref d sc (mk_ref RefKindEntity sc (eh_id m))"
proof -
  obtain e where "e \<in> set es" "eh_id m = en_id e" using list_all2_setD2 [OF assms(1,3)] by blast
  then show ?thesis using good_entity [of e] assms(2) by simp
qed

lemma cite_entities:
  assumes "\<And>m. m \<in> set ms \<Longrightarrow> good_ref d sc (mk_ref RefKindEntity sc (eh_id m))"
  shows "adds d sc out (map (\<lambda>m. mk_ref RefKindEntity sc (eh_id m)) ms, fold (cite_entity sc now lbl) ms out)"
  unfolding cite_entity_def by (rule adds_hits) (use assms in \<open>simp add: list_all_iff\<close>)

lemma vectorSearchEntities_adds:
  "returns d sess (adds d sc out) (vectorSearchEntities st sc qv ids thr n q now out)"
  unfolding vectorSearchEntities_def
proof (rule returns_bind)
  show "returns d sess (\<lambda>rows. \<forall>z \<in> set rows. fst z \<in> set (entities d) \<and> en_scope (fst z) = sc)
     (query (\<lambda>w. nearest st qv n en_embedding (filter (\<lambda>e. usable_model st (en_embedding_model e)) (known_entities sc ids w))))"
    by (rule returns_query) (auto dest!: nearest_rows known_rows)
next
  fix rows :: "(entity \<times> rat) list"
  let ?rows = "filter (\<lambda>(e, dist). \<not> 1 - dist < thr
      \<and> in_timeframe (resolveQueryTimeframe st q now) (date_time (en_last_updated e))) rows"
  assume rows: "\<forall>z \<in> set rows. fst z \<in> set (entities d) \<and> en_scope (fst z) = sc"
  have l: "returns d sess (list_all2 (\<lambda>z m. eh_id m = en_id (fst z)) ?rows) (mapM (\<lambda>(e, _). load_entity_hit st sc e) ?rows)"
    by (rule returns_map) (auto intro: load_entity_hit_returns)
  show "returns d sess (adds d sc out) (bindM (mapM (\<lambda>(e, _). load_entity_hit st sc e) ?rows) (\<lambda>ms.
     retM (map (\<lambda>m. mk_ref RefKindEntity sc (eh_id m)) ms, fold (cite_entity sc now []) ms out)))"
  proof (rule returns_bind [OF l], rule returns_ret, rule cite_entities)
    fix ms m
    assume "list_all2 (\<lambda>z m. eh_id m = en_id (fst z)) ?rows ms" "m \<in> set ms"
    then show "good_ref d sc (mk_ref RefKindEntity sc (eh_id m))"
      using entity_refs [of "map fst ?rows" ms d sc m] rows by (auto simp: list_all2_map1)
  qed
qed

lemma keywordSearchEntities_adds:
  "returns d sess (adds d sc out) (keywordSearchEntities st sc terms ids q now out)"
  unfolding keywordSearchEntities_def
proof (rule returns_bind)
  show "returns d sess (\<lambda>rows. \<forall>e \<in> set rows. e \<in> set (entities d) \<and> en_scope e = sc)
     (query (\<lambda>w. filter (\<lambda>e. en_attributes e \<noteq> None) (known_entities sc ids w)))"
    by (rule returns_query) (auto dest!: known_rows)
next
  fix rows :: "entity list"
  assume rows: "\<forall>e \<in> set rows. e \<in> set (entities d) \<and> en_scope e = sc"
  have l: "returns d sess (list_all2 (\<lambda>e m. eh_id m = en_id e) rows) (mapM (load_entity_hit st sc) rows)"
    by (rule returns_map) (rule load_entity_hit_returns)
  show "returns d sess (adds d sc out) (bindM (mapM (load_entity_hit st sc) rows) (\<lambda>ms.
     let docs = map (\<lambda>m. newBM25Document st (eh_id m) (eh_name m @ '' '' @ eh_attrs m)) ms;
         matches = filter (\<lambda>m. in_timeframe (resolveQueryTimeframe st q now) (eh_lastUpdated m))
                     (by_id eh_id ms (rankBM25 st docs terms))
     in retM (map (\<lambda>m. mk_ref RefKindEntity sc (eh_id m)) matches, fold (cite_entity sc now '', keyword match'') matches out)))"
    unfolding Let_def
    by (rule returns_bind [OF l], rule returns_ret, rule cite_entities)
       (use rows in \<open>auto dest!: by_id_rows elim!: entity_refs\<close>)
qed

lemma graphWalk_adds: "returns d sess (adds d sc out) (graphWalkRelationships st sc seeds out)"
proof -
  have "returns d sess (adds d sc out) (foldM (cite_walked st sc) is ([], out))" for "is"
  proof (rule returns_fold)
    fix i acc
    assume "adds d sc out acc"
    then obtain refs o' where a: "acc = (refs, o')" "adds d sc out (refs, o')" by (cases acc) simp
    show "returns d sess (adds d sc out) (cite_walked st sc i acc)"
      unfolding a cite_walked_def case_prod_conv Let_def
      by (rule returns_bind [OF formatEntity_returns], rule returns_ret, rule adds_hit [OF a(2)]) (auto intro: good_entity)
  qed (rule adds_none)
  moreover have "returns d sess (\<lambda>_. True) (walk_hops sc n wk)" for n wk
    by (rule returns_reads) (rule unchanged.hops)
  ultimately show ?thesis
    unfolding graphWalkRelationships_def by (auto intro!: returns_ret adds_none returns_bind)
qed

section \<open>Summaries\<close>

definition candidates_ok :: "database \<Rightarrow> scope \<Rightarrow> candidates \<Rightarrow> bool" where
  "candidates_ok d sc byID \<longleftrightarrow> (\<forall>(i, c) \<in> set byID. cd_id c = i \<and> good_summary d sc i)"

lemma set_put: "set (put k v m) \<subseteq> insert (k, v) (set m)"
  by (induction k v m rule: put.induct) auto

lemma candidates_put:
  "candidates_ok d sc byID \<Longrightarrow> cd_id c = i \<Longrightarrow> good_summary d sc i \<Longrightarrow> candidates_ok d sc (put i c byID)"
  unfolding candidates_ok_def using set_put [of i c byID] by fastforce

lemma candidates_lookup:
  "candidates_ok d sc byID \<Longrightarrow> map_of byID i = Some c \<Longrightarrow> cd_id c = i \<and> good_summary d sc i"
  unfolding candidates_ok_def by (auto dest!: map_of_SomeD)

lemma current_row:
  assumes "session w = Some (sc, sc)" "s \<in> set (visible w sum_scope (summaries (db w)))" "current w s" "d = db w"
  shows "good_summary d sc (sum_id s)"
proof -
  have vis: "rls_visible w x \<longleftrightarrow> x = sc" for x using assms(1) by (simp add: rls_session)
  have "s \<in> set (summaries (db w))" "sum_scope s = sc" using assms(2) by (auto simp: visible_def vis)
  moreover have "\<not> superseded (db w) sc (sum_id s)"
    using assms(3) by (auto simp: superseded_def current_def list_ex_iff visible_def vis)
  ultimately show ?thesis using assms(4) by (auto simp: good_summary_def)
qed

lemma current_summaries_rows:
  "session w = Some (sc, sc) \<Longrightarrow> db w = d \<Longrightarrow> s \<in> set (current_summaries sc w) \<Longrightarrow> good_summary d sc (sum_id s)"
  by (auto simp: current_summaries_def intro: current_row)

lemma vector_candidates_ok:
  "returns d (Some (sc, sc)) (candidates_ok d sc) (vector_candidates st sc qv thr n)"
  unfolding vector_candidates_def
proof (rule returns_bind)
  show "returns d (Some (sc, sc)) (\<lambda>rows. \<forall>z \<in> set rows. good_summary d sc (sum_id (fst z)))
     (query (\<lambda>w. nearest st qv (n * summaryOverfetchFactor) sum_embedding
        (filter (\<lambda>s. usable_model st (sum_embedding_model s)) (current_summaries sc w))))"
    by (rule returns_query) (auto dest!: nearest_rows intro: current_summaries_rows)
next
  fix rows :: "(summary \<times> rat) list"
  assume rows: "\<forall>z \<in> set rows. good_summary d sc (sum_id (fst z))"
  have "returns d (Some (sc, sc)) (\<lambda>acc. candidates_ok d sc (fst acc)) (foldM (vector_step st sc thr) rows ([], 0))"
  proof (rule returns_fold)
    fix z and acc :: "candidates \<times> nat"
    assume z: "z \<in> set rows" and acc: "candidates_ok d sc (fst acc)"
    obtain s dist byID rank where [simp]: "z = (s, dist)" "acc = (byID, rank)" by (cases z, cases acc)
    have gs: "good_summary d sc (sum_id s)" using z rows by force
    show "returns d (Some (sc, sc)) (\<lambda>acc. candidates_ok d sc (fst acc)) (vector_step st sc thr z acc)"
      using acc gs
      by (auto simp: vector_step_def intro!: returns_ret returns_bind [OF load_candidate_returns] candidates_put)
  qed (simp add: candidates_ok_def)
  then show "returns d (Some (sc, sc)) (candidates_ok d sc)
      (bindM (foldM (vector_step st sc thr) rows ([], 0)) (\<lambda>(byID, _). retM byID))"
    by (rule returns_bind) (auto intro: returns_ret)
qed

lemma keyword_candidates_ok:
  assumes "candidates_ok d sc byID"
  shows "returns d (Some (sc, sc)) (candidates_ok d sc) (keyword_candidates st sc terms n tier ids byID)"
proof -
  have ranked: "candidates_ok d sc (fold (rank_keyword loaded) rs byID)" if "candidates_ok d sc loaded" for loaded rs
    using assms
  proof (induction rs arbitrary: byID)
    case (Cons r rs)
    obtain rank i where r: "r = (rank, i)" by (cases r)
    have "candidates_ok d sc (rank_keyword loaded r byID)"
      using Cons.prems that
      by (auto simp: r rank_keyword_def intro!: candidates_put dest: candidates_lookup split: option.splits)
    then show ?case using Cons.IH by simp
  qed simp
  have docs: "returns d (Some (sc, sc)) (\<lambda>acc. candidates_ok d sc (snd acc)) (foldM (keyword_doc st sc byID) rows ([], []))"
    if "\<forall>s \<in> set rows. good_summary d sc (sum_id s)" for rows
  proof (rule returns_fold)
    fix s and acc :: "bm25Document list \<times> candidates"
    assume s: "s \<in> set rows" and acc: "candidates_ok d sc (snd acc)"
    obtain docs loaded where [simp]: "acc = (docs, loaded)" by (cases acc)
    show "returns d (Some (sc, sc)) (\<lambda>acc. candidates_ok d sc (snd acc)) (keyword_doc st sc byID s acc)"
      using s acc that
      by (auto simp: keyword_doc_def intro!: returns_ret returns_bind [OF load_candidate_returns] candidates_put split: option.split)
  qed (simp add: candidates_ok_def)
  have rows: "returns d (Some (sc, sc)) (\<lambda>rows. \<forall>s \<in> set rows. good_summary d sc (sum_id s))
     (query (\<lambda>w. filter (\<lambda>s. sum_summary s \<noteq> None
        \<and> (nar \<longrightarrow> list_ex (\<lambda>x. x \<in> set ids) (sum_entities_touched s))) (current_summaries sc w)))" for nar
    by (rule returns_query) (auto intro: current_summaries_rows)
  show ?thesis
    unfolding keyword_candidates_def Let_def
    by (intro returns_if returns_pair returns_ret assms returns_bind [OF rows] returns_bind [OF docs] ranked) simp_all
qed

lemma fact_rows_rows:
  "z \<in> set (fact_rows st sc qv w) \<Longrightarrow> fst z \<in> set (visible w sum_scope (summaries (db w))) \<and> current w (fst z)"
  unfolding fact_rows_def Let_def set_sort set_map_filter'
  by (elim CollectE bexE) (auto split: list.split_asm)

lemma fact_candidates_ok:
  assumes "candidates_ok d sc byID"
  shows "returns d (Some (sc, sc)) (candidates_ok d sc) (fact_candidates st sc qv thr n byID)"
  unfolding fact_candidates_def
proof (rule returns_bind)
  show "returns d (Some (sc, sc)) (\<lambda>rows. \<forall>z \<in> set rows. good_summary d sc (sum_id (fst z)))
     (query (\<lambda>w. take (n * summaryOverfetchFactor) (fact_rows st sc qv w)))"
    by (rule returns_query)
       (auto dest!: in_set_takeD fact_rows_rows intro: current_row)
next
  fix rows :: "(summary \<times> rat) list"
  assume rows: "\<forall>z \<in> set rows. good_summary d sc (sum_id (fst z))"
  have "returns d (Some (sc, sc)) (\<lambda>acc. candidates_ok d sc (fst acc)) (foldM (fact_step st sc thr) rows (byID, 0))"
  proof (rule returns_fold)
    fix z and acc :: "candidates \<times> nat"
    assume z: "z \<in> set rows" and acc: "candidates_ok d sc (fst acc)"
    obtain s dist m rank where [simp]: "z = (s, dist)" "acc = (m, rank)" by (cases z, cases acc)
    have gs: "good_summary d sc (sum_id s)" using z rows by force
    show "returns d (Some (sc, sc)) (\<lambda>acc. candidates_ok d sc (fst acc)) (fact_step st sc thr z acc)"
      using acc gs
      by (auto simp: fact_step_def intro!: returns_ret returns_bind [OF load_candidate_returns] candidates_put
          dest!: candidates_lookup [rotated] split: option.split)
  qed (simp add: assms)
  then show "returns d (Some (sc, sc)) (candidates_ok d sc)
      (bindM (foldM (fact_step st sc thr) rows (byID, 0)) (\<lambda>(byID', _). retM byID'))"
    by (rule returns_bind) (auto intro: returns_ret)
qed

lemma pick_ok:
  assumes "candidates_ok d sc byID" "c \<in> set (pick_summaries st tf n byID)"
  shows "good_summary d sc (cd_id c)"
proof -
  have "c \<in> set (candidate_pool tf (map snd byID))"
    using assms(2) by (auto simp: pick_summaries_def Let_def dest!: mmrSelect_bound)
  then have "c \<in> snd ` set byID"
    by (auto simp: candidate_pool_def Let_def split: option.splits if_splits)
  then show ?thesis using assms(1) by (auto simp: candidates_ok_def)
qed

lemma fusedSearchSummaries_adds:
  "returns d (Some (sc, sc)) (adds d sc out) (fusedSearchSummaries st sc qv terms thr n q now tier ids out)"
  unfolding fusedSearchSummaries_def
proof (rule returns_bind [OF vector_candidates_ok], rule returns_bind [OF keyword_candidates_ok], assumption,
    rule returns_bind [OF fact_candidates_ok], assumption, rule returns_if)
  fix byID
  assume ok: "candidates_ok d sc byID"
  show "returns d (Some (sc, sc)) (adds d sc out) (retM ([], out))"
    by (rule returns_ret) (rule adds_none)
  let ?picks = "pick_summaries st (resolveQueryTimeframe st q now) n byID"
  have facts: "returns d (Some (sc, sc)) (list_all2 (\<lambda>c p. fst p = c) ?picks)
     (mapM (\<lambda>c. bindM (loadKeyFacts st (cd_id c) (cd_enc c) qv) (\<lambda>facts. retM (c, facts))) ?picks)"
  proof (rule returns_map)
    fix c
    have "keeps (unchanged (\<lambda>d. d)) (Some (sc, sc)) (loadKeyFacts st (cd_id c) (cd_enc c) qv)"
      unfolding loadKeyFacts_def by (intro unchanged.reads)
    then show "returns d (Some (sc, sc)) (\<lambda>p. fst p = c)
       (bindM (loadKeyFacts st (cd_id c) (cd_enc c) qv) (\<lambda>facts. retM (c, facts)))"
      by (intro returns_bind [OF returns_reads] returns_ret) simp_all
  qed
  show "returns d (Some (sc, sc)) (adds d sc out)
     (bindM (mapM (\<lambda>c. bindM (loadKeyFacts st (cd_id c) (cd_enc c) qv) (\<lambda>facts. retM (c, facts))) ?picks) (\<lambda>picks.
        let guarantees = concat (map (guarantee_line st terms now (guaranteeBudgetPerSummary st (length picks))) picks)
        in retM (map (\<lambda>(c, _). mk_ref RefKindSummary sc (cd_id c)) picks,
                 fold (cite_summary st sc terms) picks (out\<lparr>sb := sb out @ guarantees\<rparr>))))"
    unfolding Let_def
  proof (rule returns_bind [OF facts], rule returns_ret)
    fix picks :: "(candidate \<times> keyFact list) list"
    assume p: "list_all2 (\<lambda>c p. fst p = c) ?picks picks"
    have "list_all (\<lambda>p. good_ref d sc (mk_ref RefKindSummary sc (cd_id (fst p)))) picks"
      unfolding list_all_iff
      using list_all2_setD2 [OF p] pick_ok [OF ok] good_summary_ref by fastforce
    then have "adds d sc o' (map (\<lambda>p. mk_ref RefKindSummary sc (cd_id (fst p))) picks,
       fold (cite_summary st sc terms) picks o')" for o'
      unfolding cite_summary_def split_def by (rule adds_hits)
    then show "adds d sc out (map (\<lambda>(c, _). mk_ref RefKindSummary sc (cd_id c)) picks,
       fold (cite_summary st sc terms) picks
         (out\<lparr>sb := sb out @ concat (map (guarantee_line st terms now (guaranteeBudgetPerSummary st (length picks))) picks)\<rparr>))"
      unfolding split_def by (metis adds_sb)
  qed
qed

section \<open>The whole of a retrieval\<close>

lemma keeps_adds:
  assumes "returns d sess (adds d sc out) m"
    and "\<And>r out'. adds d sc out (r, out') \<Longrightarrow> returns d sess Q (k r out')"
  shows "returns d sess Q (bindM m (\<lambda>(r, out'). k r out'))"
  by (rule returns_bind [OF assms(1)]) (auto intro: assms(2))

text \<open>The references so far come first.\<close>

definition goes_on :: "database \<Rightarrow> scope \<Rightarrow> ref list \<Rightarrow> sink \<Rightarrow> ref list \<times> sink \<Rightarrow> bool" where
  "goes_on d sc refs out = (\<lambda>(refs', out'). \<exists>added. refs' = refs @ added \<and> adds d sc out (added, out'))"

lemma goes_onI: "adds d sc out (added, out') \<Longrightarrow> goes_on d sc refs out (refs @ added, out')"
  by (auto simp: goes_on_def)

lemma searches_go_on:
  "returns d (Some (sc, sc)) (goes_on d sc refs out) (searches st sc qv terms q now ids refs out)"
proof -
  have tier: "returns d (Some (sc, sc)) (\<lambda>_. True) (keywordSearchTierForScope st sc)"
    unfolding keywordSearchTierForScope_def no_rows_def by (rule returns_reads) (intro unchanged.reads)
  have keyword: "returns d (Some (sc, sc)) (goes_on d sc rs o')
     (bindM (keywordSearchEpisodes st sc terms i q now o') (\<lambda>(r4, out4).
      bindM (keywordSearchEntities st sc terms (j r4) q now out4) (\<lambda>(r5, out5). retM (rs @ r4 @ r5, out5))))" for rs o' i j
    by (rule keeps_adds [OF keywordSearchEpisodes_adds], rule keeps_adds [OF keywordSearchEntities_adds],
        rule returns_ret, rule goes_onI, erule adds_trans)
  show ?thesis
    unfolding searches_def Let_def
  proof (rule returns_bind [OF tier], rule keeps_adds [OF fusedSearchSummaries_adds],
      rule keeps_adds [OF vectorSearchEpisodes_adds], rule keeps_adds [OF vectorSearchEntities_adds])
    fix tier r1 out1 r2 out2 r3 out3
    assume a: "adds d sc out (r1, out1)" "adds d sc out1 (r2, out2)" "adds d sc out2 (r3, out3)"
    have a3: "adds d sc out (r1 @ r2 @ r3, out3)" using a by (auto intro: adds_trans)
    let ?refs = "refs @ r1 @ r2 @ r3"
    show "returns d (Some (sc, sc)) (goes_on d sc refs out)
       (bindM (if terms \<noteq> [] \<and> tier \<noteq> keywordSearchDisabled
             then bindM (keywordSearchEpisodes st sc terms (refIDsOfKind ?refs RefKindEpisode) q now out3) (\<lambda>(r4, out4).
                  bindM (keywordSearchEntities st sc terms (refIDsOfKind (?refs @ r4) RefKindEntity) q now out4) (\<lambda>(r5, out5).
                  retM (?refs @ r4 @ r5, out5)))
             else retM (?refs, out3)) (\<lambda>(refs, out5).
        bindM (graphWalkRelationships st sc (refIDsOfKind refs RefKindEntity) out5) (\<lambda>(r6, out6). retM (refs @ r6, out6))))"
    proof (rule returns_bind [where P = "goes_on d sc ?refs out3"])
      show "returns d (Some (sc, sc)) (goes_on d sc ?refs out3)
         (if terms \<noteq> [] \<and> tier \<noteq> keywordSearchDisabled
          then bindM (keywordSearchEpisodes st sc terms (refIDsOfKind ?refs RefKindEpisode) q now out3) (\<lambda>(r4, out4).
                  bindM (keywordSearchEntities st sc terms (refIDsOfKind (?refs @ r4) RefKindEntity) q now out4) (\<lambda>(r5, out5).
                  retM (?refs @ r4 @ r5, out5)))
          else retM (?refs, out3))"
        using goes_onI [OF adds_none [of d sc out3], of ?refs] by (intro returns_if keyword returns_ret) simp
      fix z
      assume "goes_on d sc ?refs out3 z"
      then obtain added o5 where z: "z = (?refs @ added, o5)" "adds d sc out3 (added, o5)"
        by (cases z) (auto simp: goes_on_def)
      show "returns d (Some (sc, sc)) (goes_on d sc refs out) (case z of (refs, out5) \<Rightarrow>
          bindM (graphWalkRelationships st sc (refIDsOfKind refs RefKindEntity) out5) (\<lambda>(r6, out6). retM (refs @ r6, out6)))"
        unfolding z case_prod_conv
      proof (rule keeps_adds [OF graphWalk_adds], rule returns_ret)
        fix r6 out6
        assume "adds d sc o5 (r6, out6)"
        then have "adds d sc out ((r1 @ r2 @ r3) @ added @ r6, out6)"
          using adds_trans [OF a3] adds_trans [OF z(2)] by blast
        then show "goes_on d sc refs out ((?refs @ added) @ r6, out6)" by (auto simp: goes_on_def)
      qed
    qed
  qed
qed

definition anchor_ok :: "database \<Rightarrow> scope \<Rightarrow> string \<times> ref list \<times> Citation list \<Rightarrow> bool" where
  "anchor_ok d sc = (\<lambda>(_, refs, cits). map ct_Ref cits = refs \<and> list_all (good_ref d sc) refs \<and> length refs \<le> 1)"

lemma buildAnchor_returns: "returns d sess (anchor_ok d a) (buildAnchor st a ws)"
  unfolding buildAnchor_def
proof (rule returns_bind)
  have "returns d sess (\<lambda>e. e \<in> set (entities d) \<and> en_scope e = a) (query_row (self_models a))"
    by (rule returns_query_row) (auto simp: self_models_def dest: visible_set)
  then show "returns d sess (\<lambda>v. case v of None \<Rightarrow> True | Some e \<Rightarrow> e \<in> set (entities d) \<and> en_scope e = a)
      (no_rows (query_row (self_models a)))"
    by (rule returns_no_rows) (rule unchanged.query_row)
next
  fix self
  assume self: "case self of None \<Rightarrow> True | Some e \<Rightarrow> e \<in> set (entities d) \<and> en_scope e = a"
  have "returns d sess (anchor_ok d a) (case self of None \<Rightarrow> retM ([], [], [])
     | Some e \<Rightarrow> bindM (decrypt_with st a (en_key_version e) (en_attributes e)) (\<lambda>(_, attrs).
            let r = mk_ref RefKindEntity a (en_id e)
            in retM (''self_model: '' @ attrs @ nl, [r], [\<lparr>ct_Ref = r, Snippet = ''self_model: '' @ attrs\<rparr>])))"
    using self good_entity
    by (cases self) (auto simp: anchor_ok_def Let_def intro!: returns_ret returns_bind [OF decrypt_returns])
  moreover have "returns d sess (\<lambda>_. True) (no_rows (query_row (latest_daily ws)))"
    unfolding no_rows_def by (rule returns_reads) (intro unchanged.reads)
  ultimately show "returns d sess (anchor_ok d a) (bindM (case self of None \<Rightarrow> retM ([], [], [])
     | Some e \<Rightarrow> bindM (decrypt_with st a (en_key_version e) (en_attributes e)) (\<lambda>(_, attrs).
            let r = mk_ref RefKindEntity a (en_id e)
            in retM (''self_model: '' @ attrs @ nl, [r], [\<lparr>ct_Ref = r, Snippet = ''self_model: '' @ attrs\<rparr>]))) (\<lambda>(t, refs, cits).
     bindM (no_rows (query_row (latest_daily ws))) (\<lambda>latest.
     retM (t @ (case latest of None \<Rightarrow> [] | Some period \<Rightarrow> ''(latest daily summary: '' @ period @ '')'' @ nl), refs, cits))))"
    by (elim returns_bind) (auto simp: anchor_ok_def intro!: returns_pair returns_ret elim!: returns_bind)
qed

definition matches_ok :: "database \<Rightarrow> scope \<Rightarrow> (entityMatch \<times> string) list \<Rightarrow> bool" where
  "matches_ok d ws matched = list_all (\<lambda>z. good_ref d ws (mk_ref RefKindEntity ws (em_id (fst z)))) matched"

lemma stage1_returns:
  "returns d sess (\<lambda>(anchor, matched). anchor_ok d a anchor \<and> matches_ok d ws matched) (stage1 st a ws q now)"
  unfolding stage1_def
proof (rule returns_bind [OF buildAnchor_returns], rule returns_if)
  fix anchor
  assume a: "anchor_ok d a anchor"
  then show "returns d sess (\<lambda>(anchor, matched). anchor_ok d a anchor \<and> matches_ok d ws matched) (retM (anchor, []))"
    by (intro returns_ret) (simp add: matches_ok_def)
  have ms: "returns d sess (\<lambda>_. True) (stage1EntityMatches st ws q)"
    unfolding stage1EntityMatches_def by (rule returns_reads) (intro unchanged.reads)
  show "returns d sess (\<lambda>(anchor, matched). anchor_ok d a anchor \<and> matches_ok d ws matched)
     (bindM (stage1EntityMatches st ws q) (\<lambda>ms.
       bindM (mapM (\<lambda>m. bindM (formatEntity st ws (em_id m)
            (date_label ''last updated'' (format_time (em_lastUpdated m)) (em_lastUpdated m) now)) (\<lambda>line. retM (m, line)))
          (filter (\<lambda>m. in_timeframe (resolveQueryTimeframe st q now) (em_lastUpdated m)) ms)) (\<lambda>lines.
       retM (anchor, lines))))"
  proof (rule returns_bind [OF ms], rule returns_bind)
    fix ms
    let ?ms = "filter (\<lambda>m. in_timeframe (resolveQueryTimeframe st q now) (em_lastUpdated m)) ms"
    show "returns d sess (list_all2 (\<lambda>m z. good_ref d ws (mk_ref RefKindEntity ws (em_id (fst z)))) ?ms)
      (mapM (\<lambda>m. bindM (formatEntity st ws (em_id m)
            (date_label ''last updated'' (format_time (em_lastUpdated m)) (em_lastUpdated m) now)) (\<lambda>line. retM (m, line))) ?ms)"
      by (rule returns_map, rule returns_bind [OF formatEntity_returns], rule returns_ret) (simp add: good_entity_id)
    show "returns d sess (\<lambda>(anchor, matched). anchor_ok d a anchor \<and> matches_ok d ws matched) (retM (anchor, lines))"
      if "list_all2 (\<lambda>m z. good_ref d ws (mk_ref RefKindEntity ws (em_id (fst z)))) ?ms lines" for lines
      using a list_all2_setD2 [OF that] by (intro returns_ret) (auto simp: matches_ok_def list_all_iff)
  qed
qed

text \<open>What the gateway may rely on in a result.\<close>

definition well_cited :: "store \<Rightarrow> database \<Rightarrow> scope \<Rightarrow> scope \<Rightarrow> RetrievalResult \<Rightarrow> bool" where
  "well_cited st d actingUser workspace res \<longleftrightarrow>
     map ct_Ref (Citations res) = Refs res
   \<and> list_all (\<lambda>r. (ref_scope r = actingUser \<or> ref_scope r = workspace) \<and> names_row d r) (Refs res)
   \<and> (if Gate res = GateFull then Refs res \<noteq> [] else length (Refs res) \<le> 1)
   \<and> (if Gate res = GateSkipped then True else length (runes (ContextMessage res)) \<le> contextCharBudget st + 37)"

lemma cite_all_matched:
  "map ct_Ref (citations (fold (cite_matched ws) matched out)) =
     map ct_Ref (citations out) @ map (\<lambda>z. mk_ref RefKindEntity ws (em_id (fst z))) matched"
  "strongHit (fold (cite_matched ws) matched out) = (strongHit out \<or> matched \<noteq> [])"
  by (induction matched arbitrary: out) (auto simp: cite_matched_def hit_def)

lemma good_refs_within:
  "list_all (good_ref d sc) rs \<Longrightarrow> sc = a \<or> sc = ws \<Longrightarrow> list_all (\<lambda>r. (ref_scope r = a \<or> ref_scope r = ws) \<and> names_row d r) rs"
  by (auto simp: list_all_iff good_ref_def)

lemma searched_well:
  assumes anchor: "anchor_ok d a (t, arefs, acits)" and matched: "matches_ok d ws matched"
    and goes: "goes_on d ws (arefs @ map (mk_ref RefKindEntity ws) (map (\<lambda>(m, _). em_id m) matched))
      (fold (cite_matched ws) matched \<lparr>sb = t, strongHit = False, citations = acits\<rparr>) (refs', out')"
  shows "well_cited st d a ws \<lparr>Gate = (if strongHit out' then GateFull else GatePartial),
     ContextMessage = truncateToBudget (sb out') (contextCharBudget st), Refs = refs', Citations = citations out',
     NeedsAggregationPass = flag\<rparr>"
proof -
  obtain added where refs': "refs' = arefs @ map (\<lambda>z. mk_ref RefKindEntity ws (em_id (fst z))) matched @ added"
    and adds: "adds d ws (fold (cite_matched ws) matched \<lparr>sb = t, strongHit = False, citations = acits\<rparr>) (added, out')"
    using goes by (auto simp: goes_on_def split_def comp_def)
  have "list_all (good_ref d ws) (map (\<lambda>z. mk_ref RefKindEntity ws (em_id (fst z))) matched)"
    using matched by (simp add: matches_ok_def list_all_iff)
  then have "list_all (\<lambda>r. (ref_scope r = a \<or> ref_scope r = ws) \<and> names_row d r) refs'"
    using anchor adds by (auto simp: refs' anchor_ok_def adds_def intro!: good_refs_within)
  moreover have "map ct_Ref (citations out') = refs'"
    using anchor adds by (simp add: refs' anchor_ok_def adds_def cite_all_matched)
  moreover have "if strongHit out' then refs' \<noteq> [] else length refs' \<le> 1"
    using anchor adds by (auto simp: refs' anchor_ok_def adds_def cite_all_matched)
  ultimately show ?thesis
    using truncateToBudget_bound by (auto simp: well_cited_def GateFull_def GatePartial_def GateSkipped_def)
qed

lemma after_stage1_well:
  assumes ok: "anchor_ok (db w) a (anchor, arefs, acits)" "matches_ok (db w) ws matched" and w: "tx w = None"
    and run: "after_stage1 st ws q now anchor arefs acits matched w = (Inr res, w')"
  shows "well_cited st (db w) a ws res"
proof (cases "q = [] \<or> (matched = [] \<and> \<not> (stage1KeywordSignal st q \<or> stage1QuestionSignal st q))")
  case True
  then have "res = \<lparr>Gate = GateSkipped, ContextMessage = anchor, Refs = arefs, Citations = acits, NeedsAggregationPass = False\<rparr>"
    using run by (simp add: after_stage1_def retM_def)
  then show ?thesis
    using ok(1) good_refs_within [of "db w" a arefs a ws]
    by (simp add: well_cited_def anchor_ok_def GateSkipped_def GateFull_def)
next
  case False
  let ?ids = "map (\<lambda>(m, _). em_id m) matched"
  let ?refs = "arefs @ map (mk_ref RefKindEntity ws) ?ids"
  let ?out = "fold (cite_matched ws) matched \<lparr>sb = anchor, strongHit = False, citations = acits\<rparr>"
  let ?res = "\<lambda>refs' out'. \<lparr>Gate = (if strongHit out' then GateFull else GatePartial),
       ContextMessage = truncateToBudget (sb out') (contextCharBudget st), Refs = refs', Citations = citations out',
       NeedsAggregationPass = looksLikeOrderingRequest st q\<rparr>"
  have run': "bindM (embed_query st q) (\<lambda>queryVector.
      bindM (Run ws ws (searches st ws queryVector (tokenize st q) q now ?ids ?refs ?out)) (\<lambda>(refs', out').
      retM (?res refs' out'))) w = (Inr res, w')"
    using run False unfolding after_stage1_def Let_def by (simp only: if_False)
  obtain qv t2 where e: "embed_query st q w = (Inr qv, t2)"
    and run2: "bindM (Run ws ws (searches st ws qv (tokenize st q) q now ?ids ?refs ?out)) (\<lambda>(refs', out').
      retM (?res refs' out')) t2 = (Inr res, w')"
    using bind_success [OF run'] by auto
  obtain z t3 where s2: "Run ws ws (searches st ws qv (tokenize st q) q now ?ids ?refs ?out) t2 = (Inr z, t3)"
    and res: "(case z of (refs', out') \<Rightarrow> retM (?res refs' out')) t3 = (Inr res, w')"
    using bind_success [OF run2] by auto
  have "keeps (unchanged (\<lambda>d. d)) None (embed_query st q)"
    unfolding embed_query_def by (intro unchanged.reads)
  from keepsD [OF this _ e] have t2: "db t2 = db w" "tx t2 = None" using w by (simp_all add: unchanged_def)
  have "goes_on (db w) ws ?refs ?out z"
    using returns_Run(1) [OF searches_go_on t2(2) s2] t2(1) by simp
  then have "well_cited st (db w) a ws (?res (fst z) (snd z))"
    by (intro searched_well [OF ok]) simp
  moreover have "res = ?res (fst z) (snd z)" using res by (simp add: split_def retM_def)
  ultimately show ?thesis by simp
qed


text \<open>A user with a self model, in a process that has the key at hand.\<close>

definition alice_world :: world where
  "alice_world = init_world\<lparr>db := empty_db\<lparr>entities := [bobs_entity\<lparr>en_scope := alice, en_kind := ''self_model''\<rparr>]\<rparr>,
     cache := [(alice, 1) \<mapsto> Encryptor (replicate 32 CHR ''x'')]\<rparr>"

lemma sample_retrieval:
  "map_sum (\<lambda>_. ()) (\<lambda>r. length (Refs r)) (fst (Retrieve sample_store alice alice [] 0 alice_world)) = Inr 1"
  by code_simp


end
