(* ===== verification/Periods.thy ===== *)
theory Periods
  imports Temporal
begin

text \<open>
  The two readers of a summary's period: \<open>periodAsOfDate\<close> of the consolidation engine and
  \<open>parsePeriodRange\<close> of retrieval. What a level of summaries promises (the name of a day's period,
  its first day and the day after its last) is the interface \<open>period_level\<close>, interpreted for days,
  ISO weeks, months and years.
\<close>

declare One_nat_def [simp del]

section \<open>A level of summaries\<close>

definition valid_day :: "day \<Rightarrow> bool" where   \<comment> \<open>from the year 1 on, a week before the year 10000\<close>
  "valid_day d \<longleftrightarrow> 0 \<le> d \<and> in_range (d + 6)"

lemma valid_in_range: "valid_day d \<Longrightarrow> in_range d"
  using Year_mono [of d "d + 6"] by (simp add: valid_day_def in_range_def)

locale period_level =
  fixes level :: string and name :: "day \<Rightarrow> string" and first after :: "day \<Rightarrow> day"
  assumes covers: "first d \<le> d" "d < after d"
    and same_name: "first d \<le> c \<Longrightarrow> c < after d \<Longrightarrow> name c = name d"
    and parsed: "valid_day d \<Longrightarrow> period_days (name d) = Some (first d, after d)"
    and as_of: "valid_day d \<Longrightarrow> periodAsOfDate level (name d) = Some (after d - 1)"
begin

lemma name_eq:
  assumes "valid_day c" "valid_day d"
  shows "name c = name d \<longleftrightarrow> first d \<le> c \<and> c < after d"
proof
  assume "name c = name d"
  then have "(first c, after c) = (first d, after d)" using parsed [OF assms(1)] parsed [OF assms(2)] by simp
  then show "first d \<le> c \<and> c < after d" using covers [of c] by simp
qed (rule same_name; simp)

lemma agree_on_range:
  assumes "valid_day d"
  shows "\<exists>s e. parsePeriodRange (name d) = Some (midnight s, midnight e) \<and> s \<le> d \<and> d < e
    \<and> periodAsOfDate level (name d) = Some (e - 1)
    \<and> (\<forall>c. valid_day c \<longrightarrow> (name c = name d \<longleftrightarrow> s \<le> c \<and> c < e))"
  using covers [of d] as_of [OF assms] name_eq [OF _ assms] parsed [OF assms]
  by (intro exI [of _ "first d"] exI [of _ "after d"]) (simp add: parsePeriodRange_def)

end

section \<open>Days\<close>

interpretation daily: period_level "''daily''" format_date "\<lambda>d. d" "\<lambda>d. d + 1"
proof unfold_locales
  fix c d :: day
  show "format_date c = format_date d" if "d \<le> c" "c < d + 1"
  proof -
    have "c = d" using that by simp
    then show ?thesis by simp
  qed
  assume "valid_day d"
  note p = parse_format_date [OF valid_in_range [OF this]]
  show "period_days (format_date d) = Some (d, d + 1)" by (simp add: period_days_def p)
  show "periodAsOfDate ''daily'' (format_date d) = Some (d + 1 - 1)" by (simp add: periodAsOfDate_def p)
qed simp_all

section \<open>ISO weeks\<close>

lemma mondayOfWeek_monday: "mondayOfWeek d = monday_of d"
  using week_index(2) [of d] by (simp add: mondayOfWeek_def monday_of_def Let_def)

lemma store_isoWeekStart_eq: "store_isoWeekStart y w = isoWeekStart y w"
  by (simp add: store_isoWeekStart_def isoWeekStart_def mondayOfWeek_def Let_def)

lemma monday_of_bounds: "monday_of d \<le> d" "d < monday_of d + 7"
  unfolding monday_of_def by presburger+

lemma monday_of_same: "monday_of d \<le> c \<Longrightarrow> c < monday_of d + 7 \<Longrightarrow> monday_of c = monday_of d"
  unfolding monday_of_def by presburger

lemma week_is_no_date:
  assumes "0 \<le> y" "y \<le> 9999"
  shows "parse_date (week_period (y, w)) = None" "parse_month (week_period (y, w)) = None"
proof -
  have "digits 4 (week_period (y, w)) = Some (y, ''-W'' @ pad 2 (nat w))"
    using assms by (simp add: week_period_def digits_pad)
  moreover have "month_group (''-W'' @ r) = None" for r by (simp add: month_group_def digits_def isDigit_def numeral_2_eq_2)
  ultimately show "parse_date (week_period (y, w)) = None" "parse_month (week_period (y, w)) = None"
    by (simp_all add: parse_date_def parse_month_def)
qed

lemma week_shape:
  assumes "1 \<le> y" "y \<le> 9999" "1 \<le> w" "w \<le> 53"
  shows "length (week_period (y, w)) = 8" "week_period (y, w) ! 4 = CHR ''-''" "week_period (y, w) ! 5 = CHR ''W''"
proof -
  have "length (pad 4 (nat y)) = 4" "length (pad 2 (nat w)) = 2" using assms by (simp_all add: pad_digits(1))
  then show "length (week_period (y, w)) = 8" "week_period (y, w) ! 4 = CHR ''-''" "week_period (y, w) ! 5 = CHR ''W''"
    by (simp_all add: week_period_def nth_append)
qed

interpretation weekly: period_level "''weekly''" "\<lambda>d. week_period (ISOWeek d)" monday_of "\<lambda>d. monday_of d + 7"
proof unfold_locales
  fix c d :: day
  show "monday_of d \<le> d" "d < monday_of d + 7" by (rule monday_of_bounds)+
  show "week_period (ISOWeek c) = week_period (ISOWeek d)" if "monday_of d \<le> c" "c < monday_of d + 7"
    using monday_of_same [OF that] by (simp add: ISOWeek_monday)
  assume d: "valid_day d"
  obtain y w where yw: "ISOWeek d = (y, w)" by (cases "ISOWeek d")
  have r: "1 \<le> y" "y \<le> 9999" "1 \<le> w" "w \<le> 53" using ISOWeek_range [of d] d by (simp_all add: yw valid_day_def)
  show "period_days (week_period (ISOWeek d)) = Some (monday_of d, monday_of d + 7)"
    using r week_is_no_date [of y w] week_shape [OF r] scan_week_period [OF r] isoWeekStart_ISOWeek [of d]
    by (simp add: yw period_days_def store_isoWeekStart_eq Let_def)
  show "periodAsOfDate ''weekly'' (week_period (ISOWeek d)) = Some (monday_of d + 7 - 1)"
    using weekly_as_of [of d] d by (simp add: valid_day_def)
qed

section \<open>Months\<close>

definition month_first :: "day \<Rightarrow> day" where "month_first d = Date (Year d) (Month d) 1"
definition month_after :: "day \<Rightarrow> day" where "month_after d = month_first d + daysIn (Year d) (Month d)"

lemma month_first_civil:
  "Year (month_first d) = Year d" "Month (month_first d) = Month d" "Day (month_first d) = 1"
  using civil_bounds [of d] civil_Date [of "Month d" 1 "Year d"] by (simp_all add: month_first_def)

lemma next_month: "1 \<le> m \<Longrightarrow> m \<le> 12 \<Longrightarrow> Date y (m + 1) k = Date y m k + daysIn y m"
proof (cases "m = 12")
  case True
  then have "Date y (m + 1) k = year_start (y + 1) + k - 1" by (simp add: Date_def)
  then show ?thesis using True year_start_Suc [of y] Date_in_month [of 12 y k] by (simp add: daysIn_def month_start_13)
next
  case False
  assume "1 \<le> m" "m \<le> 12"
  then show ?thesis using False Date_in_month [of "m + 1" y k] Date_in_month [of m y k] by (simp add: daysIn_def)
qed

lemma month_is_no_date: "in_range d \<Longrightarrow> parse_date (format_month d) = None"
  using in_range_Year [of d] civil_bounds [of d] month_group_pad [of "Month d" "[]"]
  by (simp add: parse_date_def format_month_def digits_pad)

lemma month_days: "month_first d \<le> c \<Longrightarrow> c < month_after d \<Longrightarrow> Year c = Year d \<and> Month c = Month d"
  using civil_bounds [of d] civil_Date [of "Month d" "c - month_first d + 1" "Year d"]
    Date_in_month [of "Month d" "Year d" "c - month_first d + 1"] Date_in_month [of "Month d" "Year d" 1]
  by (simp add: month_first_def month_after_def)

interpretation monthly: period_level "''monthly''" format_month month_first month_after
proof unfold_locales
  fix c d :: day
  have m: "Date (Year d) (Month d) k = month_first d + k - 1" for k
    using civil_bounds [of d] Date_in_month [of "Month d" "Year d"] by (simp add: month_first_def)
  then have "d = month_first d + Day d - 1" using Date_civil [of d] by metis
  then show "month_first d \<le> d" "d < month_after d"
    using civil_bounds [of d] unfolding month_after_def by linarith+
  show "format_month c = format_month d" if "month_first d \<le> c" "c < month_after d"
    using month_days [OF that] by (simp add: format_month_def)
  assume d: "valid_day d"
  have p: "parse_month (format_month d) = Some (month_first d)"
    using parse_format_month [OF valid_in_range [OF d]] by (simp add: month_first_def)
  have n: "AddDate (month_first d) 0 1 k = month_after d + k" for k
    using civil_bounds [of d] next_month [of "Month d" "Year d" "1 + k"] m [of "1 + k"]
    by (simp add: AddDate_def month_first_civil month_after_def)
  show "period_days (format_month d) = Some (month_first d, month_after d)"
    using n [of 0] by (simp add: period_days_def p month_is_no_date [OF valid_in_range [OF d]])
  show "periodAsOfDate ''monthly'' (format_month d) = Some (month_after d - 1)"
    using n [of "- 1"] by (simp add: periodAsOfDate_def p)
qed

section \<open>Years\<close>

definition year_period :: "day \<Rightarrow> string" where   \<comment> \<open>\<open>Sprintf("%04d", d.Year())\<close>\<close>
  "year_period d = pad 4 (nat (Year d))"

lemma new_year: "Date y 1 1 = year_start y" "Year (year_start y) = y" "Month (year_start y) = 1" "Day (year_start y) = 1"
proof -
  have s: "Date y 1 1 = year_start y" by (simp add: Date_in_month)
  then show "Date y 1 1 = year_start y" "Year (year_start y) = y" "Month (year_start y) = 1" "Day (year_start y) = 1"
    using civil_Date [of 1 1 y] month_start_step [of 1 y] by (simp_all add: daysIn_def)
qed

lemma parse_year_period:
  assumes "in_range d"
  shows "parse_date (year_period d) = None" "parse_month (year_period d) = None"
    "parse_year (year_period d) = Some (year_start (Year d))" "length (year_period d) = 4"
proof -
  have g: "digits 4 (year_period d) = Some (Year d, [])" "length (year_period d) = 4"
    using in_range_Year [OF assms] digits_pad [of "nat (Year d)" 4 "[]"] by (simp_all add: year_period_def pad_digits(1))
  then show "parse_date (year_period d) = None" "parse_month (year_period d) = None"
    "parse_year (year_period d) = Some (year_start (Year d))" "length (year_period d) = 4"
    by (simp_all add: parse_date_def parse_month_def parse_year_def month_group_def new_year)
qed

interpretation yearly: period_level "''yearly''" year_period "\<lambda>d. year_start (Year d)" "\<lambda>d. year_start (Year d + 1)"
proof unfold_locales
  fix c d :: day
  show "year_start (Year d) \<le> d" "d < year_start (Year d + 1)" by (rule Year_bounds)+
  show "year_period c = year_period d" if "year_start (Year d) \<le> c" "c < year_start (Year d + 1)"
    using Year_unique [OF that] by (simp add: year_period_def)
  assume d: "valid_day d"
  note p = parse_year_period [OF valid_in_range [OF d]]
  have n: "AddDate (year_start (Year d)) 1 0 k = year_start (Year d + 1) + k" for k
    by (simp add: AddDate_def new_year Date_in_month)
  show "period_days (year_period d) = Some (year_start (Year d), year_start (Year d + 1))"
    using n [of 0] by (simp add: period_days_def p)
  show "periodAsOfDate ''yearly'' (year_period d) = Some (year_start (Year d + 1) - 1)"
    using n [of "- 1"] by (simp add: periodAsOfDate_def p)
qed

section \<open>The readers agree\<close>

definition period_of :: "string \<Rightarrow> day \<Rightarrow> string" where   \<comment> \<open>the period a day belongs to\<close>
  "period_of level d = (if level = ''daily'' then format_date d else if level = ''weekly'' then week_period (ISOWeek d)
     else if level = ''monthly'' then format_month d else year_period d)"

text \<open>
  C37. The two readers of the period column agree, on every level and across leap and ISO years: for
  the period a day belongs to, \<open>parsePeriodRange\<close> of retrieval returns a range that contains the
  day, that ends with the day \<open>periodAsOfDate\<close> of consolidation reads from it, and that contains
  exactly the days with the same period.
\<close>

theorem parsePeriodRange_agrees:
  assumes "level \<in> {''daily'', ''weekly'', ''monthly'', ''yearly''}" and "valid_day d"
  shows "\<exists>s e. parsePeriodRange (period_of level d) = Some (midnight s, midnight e) \<and> s \<le> d \<and> d < e
    \<and> periodAsOfDate level (period_of level d) = Some (e - 1)
    \<and> (\<forall>c. valid_day c \<longrightarrow> (period_of level c = period_of level d \<longleftrightarrow> s \<le> c \<and> c < e))"
proof -
  have "period_of ''daily'' = format_date" "period_of ''weekly'' = (\<lambda>d. week_period (ISOWeek d))"
    "period_of ''monthly'' = format_month" "period_of ''yearly'' = year_period"
    by (simp_all add: fun_eq_iff period_of_def)
  then show ?thesis
    using assms(1) daily.agree_on_range [OF assms(2)] weekly.agree_on_range [OF assms(2)]
      monthly.agree_on_range [OF assms(2)] yearly.agree_on_range [OF assms(2)]
    by (elim insertE emptyE) (simp_all only:)
qed

theorem parsePeriodRange_agrees_witness:
  "\<exists>s e. parsePeriodRange (period_of ''weekly'' (Date 2024 7 8)) = Some (midnight s, midnight e)
    \<and> s \<le> Date 2024 7 8 \<and> Date 2024 7 8 < e
    \<and> periodAsOfDate ''weekly'' (period_of ''weekly'' (Date 2024 7 8)) = Some (e - 1)
    \<and> (\<forall>c. valid_day c \<longrightarrow> (period_of ''weekly'' c = period_of ''weekly'' (Date 2024 7 8) \<longleftrightarrow> s \<le> c \<and> c < e))"
proof (rule parsePeriodRange_agrees)
  have "Date 2024 7 8 + 6 = Date 2024 7 14" by (simp add: july_2024)
  moreover have "7 \<le> Date 2024 7 8" "in_range (Date 2024 7 14)" by (rule sample_date; simp add: july_2024)+
  ultimately show "valid_day (Date 2024 7 8)" by (simp add: valid_day_def)
qed simp

end
