(* ===== verification/Capture_Correct.thy ===== *)
theory Capture_Correct
  imports Retrieve Content
begin

text \<open>
  Capturing an exchange: the row \<open>Capture\<close> writes says what was captured, under the key that is
  the scope's current one, and comes with its audit record or not at all.
\<close>

declare One_nat_def [simp del]

section \<open>What a capture leaves behind\<close>

definition capture_note :: "Episode \<Rightarrow> string option" where
  "capture_note ep = (if Type ep = ''feedback'' then Some (Note ep) else None)"

text \<open>A row that holds the episode under a key.\<close>

definition row_says :: "aead \<Rightarrow> bytes \<Rightarrow> scope \<Rightarrow> Episode \<Rightarrow> nat \<Rightarrow> episode \<Rightarrow> bool" where
  "row_says A k sc ep v row \<longleftrightarrow> ep_key_version row = v
     \<and> episode_rest row = episode_rest (episode_row sc ep [] [] None 0)
     \<and> episode_plain A k row = (Inr (InputText ep), Inr (OutputText ep), map_option Inr (capture_note ep))"

definition capture_record :: "scope \<Rightarrow> Episode \<Rightarrow> audit_row \<Rightarrow> bool" where
  "capture_record sc ep a \<longleftrightarrow> au_event_type a = EventCapture \<and> au_acting_scope a = sc \<and> au_workspace_scope a = sc
     \<and> au_actor a = (if ActorUserID ep = [] then Owner sc else ActorUserID ep)
     \<and> au_target_ref a = Some (mk_ref RefKindEpisode sc (ep_ID ep))"

definition id_taken :: "Episode \<Rightarrow> database \<Rightarrow> bool" where
  "id_taken ep d \<longleftrightarrow> ep_ID ep \<in> ep_id ` set (episodes d)"

definition captured :: "aead \<Rightarrow> bytes \<Rightarrow> scope \<Rightarrow> Episode \<Rightarrow> database \<Rightarrow> database \<Rightarrow> bool" where
  "captured A K sc ep d d' \<longleftrightarrow> (\<exists>k row a.
     d' = d\<lparr>episodes := episodes d @ (if id_taken ep d then [] else [row]),
            scope_keys := scope_keys d', audit_log := audit_log d @ [a]\<rparr>
   \<and> dek_in A K (scope_keys d') sc (current_version sc d') = Some k
   \<and> row_says A k sc ep (current_version sc d') row \<and> capture_record sc ep a)"

text \<open>The other outcome: nothing but, at most, the first key of the scope.\<close>

definition first_key_only :: "scope \<Rightarrow> database \<Rightarrow> database \<Rightarrow> bool" where
  "first_key_only sc d d' \<longleftrightarrow> d' = d\<lparr>scope_keys := scope_keys d'\<rparr> \<and> keys_grown (scope_keys d) (scope_keys d') sc 1"

section \<open>The transaction\<close>

definition capture_entry :: "scope \<Rightarrow> Episode \<Rightarrow> audit_entry" where
  "capture_entry sc ep = \<lparr>EventType = EventCapture, Actor = (if ActorUserID ep = [] then Owner sc else ActorUserID ep),
     ActingScope = sc, WorkspaceScope = sc,
     TargetRef = Some (mk_ref RefKindEpisode sc (ep_ID ep)), Detail = [(''episode_type'', JStr (Type ep))]\<rparr>"

definition capture_tx :: "scope \<Rightarrow> Episode \<Rightarrow> episode \<Rightarrow> unit proc" where
  "capture_tx sc ep row = bindM (feedback_target ep) (\<lambda>_. bindM (exec_check (insert_episode row)) (\<lambda>_.
     audit_Write (capture_entry sc ep)))"

definition inserted :: "scope \<Rightarrow> Episode \<Rightarrow> episode \<Rightarrow> database \<Rightarrow> database \<Rightarrow> bool" where
  "inserted sc ep row d d' \<longleftrightarrow> (\<exists>a. capture_record sc ep a \<and>
     d' = d\<lparr>episodes := episodes d @ (if id_taken ep d then [] else [row]), audit_log := audit_log d @ [a]\<rparr>)"

lemma wp_audit_capture:
  assumes "tx t = Some (sc, sc, d)"
    and d: "db t = d\<lparr>episodes := episodes d @ (if id_taken ep d then [] else [row])\<rparr>"
  shows "wp (audit_Write (capture_entry sc ep))
     (\<lambda>_ u. inserted sc ep row d (db u) \<and> tx u = Some (sc, sc, d)) (\<lambda>_ u. tx u = Some (sc, sc, d)) t"
proof -
  let ?a = "\<lparr>au_ts = clock t, au_event_type = EventCapture, au_actor = (if ActorUserID ep = [] then Owner sc else ActorUserID ep),
     au_acting_scope = sc, au_workspace_scope = sc, au_target_ref = Some (mk_ref RefKindEpisode sc (ep_ID ep)),
     au_detail = [(''episode_type'', JStr (Type ep))]\<rparr>"
  have "inserted sc ep row d ((db t)\<lparr>audit_log := audit_log (db t) @ [?a]\<rparr>)"
    unfolding inserted_def capture_record_def d by (intro exI [of _ ?a]) simp
  then show ?thesis
    using assms(1)
    by (simp only: audit_Write_def audit_policy_def wp_exec_check wp_exec capture_entry_def audit_entry.simps option.case
        prod.case simp_thms if_True) (cases "ActorUserID ep = []"; simp split: fault.splits)
qed

lemma wp_insert_capture:
  assumes t: "tx t = Some (sc, sc, d)" "db t = d" and row: "ep_id row = ep_ID ep"
  shows "wp (exec_check (insert_episode row))
     (\<lambda>_ u. tx u = Some (sc, sc, d) \<and> db u = d\<lparr>episodes := episodes d @ (if id_taken ep d then [] else [row])\<rparr>)
     (\<lambda>_ u. tx u = Some (sc, sc, d)) t"
proof (cases "insert_episode row t d")
  case None
  then show ?thesis using t by (simp add: wp_simps)
next
  case (Some d')
  then have "d' = d\<lparr>episodes := episodes d @ (if id_taken ep d then [] else [row])\<rparr>"
    by (auto simp: insert_episode_def id_taken_def row split: if_splits)
  then show ?thesis using t Some by (simp add: wp_simps split: fault.splits)
qed

lemma wp_feedback_target:
  assumes "\<And>n. Q () (t\<lparr>ticks := n\<rparr>)" "\<And>e n. E e (t\<lparr>ticks := n\<rparr>)"
  shows "wp (feedback_target ep) Q E t"
proof -
  have "Q () t" using assms(1) [of "ticks t"] by simp
  then show ?thesis using assms by (simp add: feedback_target_def wp_simps tick_def)
qed

lemma wp_capture_tx:
  assumes w: "tx w = None" and row: "ep_id row = ep_ID ep"
  shows "wp (Run sc sc (capture_tx sc ep row))
     (\<lambda>_ u. inserted sc ep row (db w) (db u)) (\<lambda>_ u. db u = db w \<or> inserted sc ep row (db w) (db u)) w"
proof (rule wp_Run [OF w])
  fix n
  let ?t = "w\<lparr>tx := Some (sc, sc, db w), ticks := n\<rparr>"
  have audit: "wp (audit_Write (capture_entry sc ep))
     (\<lambda>_ u. inserted sc ep row (db w) (db u) \<and> tx u = Some (sc, sc, db w)) (\<lambda>_ u. tx u = Some (sc, sc, db w)) t"
    if "tx t = Some (sc, sc, db w)"
      "db t = (db w)\<lparr>episodes := episodes (db w) @ (if id_taken ep (db w) then [] else [row])\<rparr>" for t
    using that by (rule wp_audit_capture)
  have "wp (capture_tx sc ep row) (\<lambda>_ u. inserted sc ep row (db w) (db u) \<and> tx u = Some (sc, sc, db w))
          (\<lambda>_ u. tx u = Some (sc, sc, db w)) ?t"
    unfolding capture_tx_def wp_bindM
    by (intro wp_feedback_target wp_mono [OF wp_insert_capture [OF _ _ row]]) (auto intro: audit)
  then show "wp (capture_tx sc ep row)
     (\<lambda>_ t. \<forall>m. inserted sc ep row (db w) (db (t\<lparr>tx := None, ticks := m\<rparr>))
        \<and> (db (t\<lparr>tx := None, ticks := m\<rparr>) = db w \<or> inserted sc ep row (db w) (db (t\<lparr>tx := None, ticks := m\<rparr>)))
        \<and> (db (rollback (t\<lparr>ticks := m\<rparr>)) = db w \<or> inserted sc ep row (db w) (db (rollback (t\<lparr>ticks := m\<rparr>)))))
     (\<lambda>_ t. db (rollback t) = db w \<or> inserted sc ep row (db w) (db (rollback t))) ?t"
    by (rule wp_mono) (simp_all add: rollback_def)
qed simp

section \<open>The capture\<close>

lemma row_says_episode_row:
  assumes "Decrypt A (Encryptor k) (Some inputCT) = Inr (InputText ep)" "Decrypt A (Encryptor k) (Some outputCT) = Inr (OutputText ep)"
    and "map_option (\<lambda>n. Decrypt A (Encryptor k) (Some n)) noteCT = map_option Inr (capture_note ep)"
  shows "row_says A k sc ep v (episode_row sc ep inputCT outputCT noteCT v)"
  using assms by (simp add: row_says_def episode_rest_def episode_plain_def episode_row_def)

lemma inserted_captured:
  assumes "inserted sc ep row t d'" "t = d\<lparr>scope_keys := scope_keys t\<rparr>"
    and "dek_in A K (scope_keys t) sc (current_version sc t) = Some k" "row_says A k sc ep (current_version sc t) row"
  shows "captured A K sc ep d d'"
proof -
  obtain a where a: "capture_record sc ep a"
    "d' = t\<lparr>episodes := episodes t @ (if id_taken ep t then [] else [row]), audit_log := audit_log t @ [a]\<rparr>"
    using assms(1) by (auto simp: inserted_def)
  have t: "episodes t = episodes d" "audit_log t = audit_log d" "id_taken ep t = id_taken ep d"
    by (subst assms(2), simp add: id_taken_def)+
  have k: "scope_keys d' = scope_keys t" "current_version sc d' = current_version sc t"
    using a(2) by (simp_all add: current_version_def)
  have "d' = d\<lparr>episodes := episodes d @ (if id_taken ep d then [] else [row]),
      scope_keys := scope_keys d', audit_log := audit_log d @ [a]\<rparr>"
    unfolding k(1) unfolding a(2) t by (subst assms(2)) simp
  then show ?thesis unfolding captured_def using assms(3,4) a(1) k by metis
qed

lemma wp_note:
  assumes "aead_correct A" "length (dek_of e) = 32"
    and "\<And>ct n. map_option (\<lambda>c. Decrypt A e (Some c)) ct = map_option Inr (capture_note ep) \<Longrightarrow> Q ct (w\<lparr>rand_pos := n\<rparr>)"
    and "\<And>n. E ErrRand (w\<lparr>rand_pos := n\<rparr>)"
  shows "wp (if Type ep = ''feedback'' then bindM (Encrypt A e (Note ep)) (\<lambda>ct. retM (Some ct)) else retM None) Q E w"
proof (cases "Type ep = ''feedback''")
  case True
  then show ?thesis
    using assms by (auto simp: wp_simps capture_note_def intro!: wp_Encrypt)
next
  case False
  then show ?thesis using assms(3) [of None "rand_pos w"] by (simp add: wp_simps capture_note_def)
qed

lemma Capture_eq:
  "Capture st sc ep = bindM (GetOrCreate (st_aead st) sc) (\<lambda>(enc, keyVersion).
     bindM (Encrypt (st_aead st) enc (InputText ep)) (\<lambda>inputCT.
     bindM (Encrypt (st_aead st) enc (OutputText ep)) (\<lambda>outputCT.
     bindM (if Type ep = ''feedback'' then bindM (Encrypt (st_aead st) enc (Note ep)) (\<lambda>ct. retM (Some ct)) else retM None) (\<lambda>noteCT.
     Run sc sc (capture_tx sc ep (episode_row sc ep inputCT outputCT noteCT keyVersion))))))"
  by (simp add: Capture_def capture_tx_def capture_entry_def)

lemma wp_Capture:
  assumes A: "aead_correct (st_aead st)" and w: "holds (key_inv (st_aead st) K rows) None w"
  shows "wp (Capture st sc ep) (\<lambda>_ t. captured (st_aead st) K sc ep (db w) (db t))
     (\<lambda>_ t. captured (st_aead st) K sc ep (db w) (db t) \<or> first_key_only sc (db w) (db t)) w"
proof -
  let ?A = "st_aead st"
  have hr: "scope_keys (db w) = rows" "kek w = K" using holds_rows [OF w] by simp_all
  have kept: "first_key_only sc (db w) (db t)" if "keys_kept ?A K rows None sc 1 w t" for t
    using that hr by (auto simp: first_key_only_def keys_kept_def only_keys_def dest: holds_rows)
  have rest: "wp (bindM (Encrypt ?A enc (InputText ep)) (\<lambda>inputCT.
       bindM (Encrypt ?A enc (OutputText ep)) (\<lambda>outputCT.
       bindM (if Type ep = ''feedback'' then bindM (Encrypt ?A enc (Note ep)) (\<lambda>ct. retM (Some ct)) else retM None) (\<lambda>noteCT.
       Run sc sc (capture_tx sc ep (episode_row sc ep inputCT outputCT noteCT v))))))
     (\<lambda>_ t. captured ?A K sc ep (db w) (db t)) (\<lambda>_ t. captured ?A K sc ep (db w) (db t) \<or> first_key_only sc (db w) (db t)) t"
    if t: "keys_kept ?A K rows None sc 1 w t" "current_key ?A sc w (enc, v) t" for enc v t
  proof -
    have v: "v = current_version sc (db t)" "dek_in ?A K (scope_keys (db t)) sc v = Some (dek_of enc)"
      using t(2) hr by (auto simp: current_key_def)
    have len: "length (dek_of enc) = 32" using dek_in_length [OF v(2)] .
    have tx: "tx t = None" using t(1) by (auto simp: keys_kept_def holds_def)
    have same: "db t = (db w)\<lparr>scope_keys := scope_keys (db t)\<rparr>" using t(1) by (auto simp: keys_kept_def only_keys_def)
    have run: "wp (Run sc sc (capture_tx sc ep (episode_row sc ep i out n v)))
       (\<lambda>_ u. captured ?A K sc ep (db w) (db u)) (\<lambda>_ u. captured ?A K sc ep (db w) (db u) \<or> first_key_only sc (db w) (db u))
       (t\<lparr>rand_pos := p\<rparr>)"
      if "Decrypt ?A enc (Some i) = Inr (InputText ep)" "Decrypt ?A enc (Some out) = Inr (OutputText ep)"
        "map_option (\<lambda>c. Decrypt ?A enc (Some c)) n = map_option Inr (capture_note ep)" for i out n p
    proof -
      have "Encryptor (dek_of enc) = enc" by simp
      then have "row_says ?A (dek_of enc) sc ep v (episode_row sc ep i out n v)"
        using that by (intro row_says_episode_row) simp_all
      then have "captured ?A K sc ep (db w) d'" if "inserted sc ep (episode_row sc ep i out n v) (db t) d'" for d'
        using inserted_captured [OF that same] v by blast
      then show ?thesis
        using kept [OF t(1)] tx
        by (intro wp_mono [OF wp_capture_tx [where row = "episode_row sc ep i out n v" and ep = ep]])
          (auto simp: episode_row_def)
    qed
    show ?thesis
      unfolding wp_bindM
      by (intro wp_Encrypt [OF A len] wp_note [OF A len]) (use run kept [OF t(1)] in auto)
  qed
  show ?thesis
    unfolding Capture_eq wp_bindM
    by (intro wp_mono [OF wp_GetOrCreate [OF A w]]) (auto intro: kept rest)
qed


definition sample_episode :: Episode where
  "sample_episode = \<lparr>ep_ID = ''ep_1'', TS = 0, Type = ''interaction'', ProviderVendor = ''vendor'', ProviderModel = ''model'',
     InputText = ''question'', OutputText = ''answer'', Importance = 1 / 2, Hash = ''h'', Truncated = False,
     MemoryGate = ''skipped'', RetrievedRefs = [], ActorUserID = [], RefersTo = [], Rating = [], Note = []\<rparr>"


end
