(* ===== verification/Reembed.thy ===== *)
theory Reembed
  imports Runner
begin

text \<open>
  Re-embedding (\<open>internal/reembed/reembed.go\<close>, \<open>cmd/hupi-reembed/main.go\<close>): after the embedding model
  has changed, every summary, important episode, entity and grounded key fact of a scope gets a new
  vector, in batches, with no state but the rows themselves. The package's \<open>Runner\<close> has the key store
  and the embedder of the record \<open>runner\<close>.
\<close>

declare One_nat_def [simp del]

section \<open>What is pending\<close>

definition stale :: "runner \<Rightarrow> string option \<Rightarrow> string option \<Rightarrow> bool" where
  "stale r embedding embedding_model \<longleftrightarrow> embedding = None \<or> embedding_model \<noteq> Some (EmbedderIdentity r)"

definition pending_summaries :: "runner \<Rightarrow> scope \<Rightarrow> world \<Rightarrow> summary list" where
  "pending_summaries r sc w = filter (\<lambda>s. stale r (sum_embedding s) (sum_embedding_model s) \<and> sum_scope s = sc)
     (visible w sum_scope (summaries (db w)))"

definition pending_episodes :: "runner \<Rightarrow> scope \<Rightarrow> world \<Rightarrow> episode list" where
  "pending_episodes r sc w = filter (\<lambda>e. ep_type e = ''interaction''
       \<and> (case ep_importance e of None \<Rightarrow> False | Some i \<Rightarrow> i \<ge> EpisodeEmbedImportanceThreshold)
       \<and> stale r (ep_embedding e) (ep_embedding_model e) \<and> ep_scope e = sc)
     (visible w ep_scope (episodes (db w)))"

definition pending_entities :: "runner \<Rightarrow> scope \<Rightarrow> world \<Rightarrow> entity list" where
  "pending_entities r sc w = filter (\<lambda>e. stale r (en_embedding e) (en_embedding_model e) \<and> en_scope e = sc)
     (visible w en_scope (entities (db w)))"

definition pending_key_facts :: "runner \<Rightarrow> scope \<Rightarrow> world \<Rightarrow> key_fact list" where
  "pending_key_facts r sc w = filter (\<lambda>f. kf_grounded f \<and> stale r (kf_embedding f) (kf_embedding_model f) \<and> kf_scope f = sc
       \<and> \<not> list_ex (\<lambda>newer. sum_supersedes newer = Some (kf_summary_id f)) (visible w sum_scope (summaries (db w))))
     (visible w kf_scope (summary_key_facts (db w)))"

record ScopeStatus =
  st_Model :: string
  SummariesPending :: nat
  EpisodesPending :: nat
  EntitiesPending :: nat
  KeyFactsPending :: nat

definition Total :: "ScopeStatus \<Rightarrow> nat" where
  "Total s = SummariesPending s + EpisodesPending s + EntitiesPending s + KeyFactsPending s"

definition reembed_Status :: "runner \<Rightarrow> scope \<Rightarrow> ScopeStatus proc" where
  "reembed_Status r sc =
     Run sc sc (bindM (query (\<lambda>w. length (pending_summaries r sc w))) (\<lambda>s.
       bindM (query (\<lambda>w. length (pending_episodes r sc w))) (\<lambda>e.
       bindM (query (\<lambda>w. length (pending_entities r sc w))) (\<lambda>n.
       bindM (query (\<lambda>w. length (pending_key_facts r sc w))) (\<lambda>f.
       retM \<lparr>st_Model = EmbedderIdentity r, SummariesPending = s, EpisodesPending = e, EntitiesPending = n,
             KeyFactsPending = f\<rparr>)))))"

section \<open>Decryption that follows a key rotation\<close>

definition decryptEach :: "aead \<Rightarrow> encryptor \<Rightarrow> bytes option list \<Rightarrow> string list proc" where
  "decryptEach A enc ciphertexts = mapM (\<lambda>ct. liftM (Decrypt A enc ct)) ciphertexts"

text \<open>\<open>refetchRow\<close>: the ciphertext columns and the key version of a row, as they are now.\<close>

definition refetchRow :: "scope \<Rightarrow> (world \<Rightarrow> (bytes option list \<times> nat) list) \<Rightarrow> (bytes option list \<times> nat) proc" where
  "refetchRow sc row = Run sc sc (query_row row)"

definition decryptWithRetry ::
    "runner \<Rightarrow> scope \<Rightarrow> (world \<Rightarrow> (bytes option list \<times> nat) list) \<Rightarrow> nat \<Rightarrow> bytes option list \<Rightarrow> string list proc" where
  "decryptWithRetry r sc row keyVersion ciphertexts =
     tryM (GetVersion (run_aead r) sc keyVersion) (\<lambda>res. case res of
       Inr enc \<Rightarrow> decryptEach (run_aead r) enc ciphertexts
     | Inl err \<Rightarrow> (case err of
         ErrKeyVersionNotFound _ \<Rightarrow> tryM (refetchRow sc row) (\<lambda>re. case re of
           Inl _ \<Rightarrow> errM err
         | Inr (fresh, newVersion) \<Rightarrow>
             if newVersion = keyVersion then errM err
             else tryM (GetVersion (run_aead r) sc newVersion) (\<lambda>f. case f of
               Inl _ \<Rightarrow> errM err
             | Inr freshEnc \<Rightarrow> decryptEach (run_aead r) freshEnc fresh))
       | _ \<Rightarrow> errM err))"

definition summary_row :: "string \<Rightarrow> world \<Rightarrow> (bytes option list \<times> nat) list" where
  "summary_row i w = map (\<lambda>s. ([sum_summary s], sum_key_version s))
     (filter (\<lambda>s. sum_id s = i) (visible w sum_scope (summaries (db w))))"

definition exchange_row :: "string \<Rightarrow> world \<Rightarrow> (bytes option list \<times> nat) list" where
  "exchange_row i w = map (\<lambda>e. ([ep_input_text e, ep_output_text e], ep_key_version e))
     (filter (\<lambda>e. ep_id e = i) (visible w ep_scope (episodes (db w))))"

definition entity_row :: "string \<Rightarrow> world \<Rightarrow> (bytes option list \<times> nat) list" where
  "entity_row i w = map (\<lambda>e. ([en_attributes e], en_key_version e))
     (filter (\<lambda>e. en_id e = i) (visible w en_scope (entities (db w))))"

definition key_fact_row :: "nat \<Rightarrow> world \<Rightarrow> (bytes option list \<times> nat) list" where
  "key_fact_row i w = map (\<lambda>f. ([Some (kf_fact f)], kf_key_version f))
     (filter (\<lambda>f. kf_id f = i) (visible w kf_scope (summary_key_facts (db w))))"

section \<open>Batches\<close>

text \<open>\<open>order by id limit n\<close>; Postgres refuses a negative limit.\<close>

definition select_batch :: "scope \<Rightarrow> int \<Rightarrow> ('r \<Rightarrow> 'k :: linorder) \<Rightarrow> (world \<Rightarrow> 'r list) \<Rightarrow> 'r list proc" where
  "select_batch sc batchSize key rows =
     Run sc sc (bindM (query (\<lambda>w. take (nat batchSize) (sort_key key (rows w)))) (\<lambda>xs.
       if batchSize < 0 then errM ErrDb else retM xs))"

definition reembed_summary :: "runner \<Rightarrow> scope \<Rightarrow> summary \<Rightarrow> unit proc" where
  "reembed_summary r sc s =
     bindM (decryptWithRetry r sc (summary_row (sum_id s)) (sum_key_version s) [sum_summary s]) (\<lambda>texts.
     bindM (embed_one r (texts ! 0)) (\<lambda>v.
     Run sc sc (exec (\<lambda>w. set_sum_embedding (\<lambda>x. rls_visible w (sum_scope x) \<and> sum_id x = sum_id s) v (EmbedderIdentity r)))))"

definition reembedSummaryBatch :: "runner \<Rightarrow> scope \<Rightarrow> int \<Rightarrow> nat proc" where
  "reembedSummaryBatch r sc batchSize =
     bindM (select_batch sc batchSize sum_id (pending_summaries r sc)) (\<lambda>rows.
     bindM (forM (reembed_summary r sc) rows) (\<lambda>_. retM (length rows)))"

definition reembed_episode :: "runner \<Rightarrow> scope \<Rightarrow> episode \<Rightarrow> unit proc" where
  "reembed_episode r sc e =
     bindM (decryptWithRetry r sc (exchange_row (ep_id e)) (ep_key_version e) [ep_input_text e, ep_output_text e]) (\<lambda>texts.
     bindM (embed_one r (EpisodeEmbedText (texts ! 0) (texts ! 1))) (\<lambda>v.
     Run sc sc (exec (\<lambda>w. set_ep_embedding (\<lambda>x. rls_visible w (ep_scope x) \<and> ep_id x = ep_id e) v (EmbedderIdentity r)))))"

definition reembedEpisodeBatch :: "runner \<Rightarrow> scope \<Rightarrow> int \<Rightarrow> nat proc" where
  "reembedEpisodeBatch r sc batchSize =
     bindM (select_batch sc batchSize ep_id (pending_episodes r sc)) (\<lambda>rows.
     bindM (forM (reembed_episode r sc) rows) (\<lambda>_. retM (length rows)))"

definition reembed_entity :: "runner \<Rightarrow> scope \<Rightarrow> entity \<Rightarrow> unit proc" where
  "reembed_entity r sc e =
     bindM (decryptWithRetry r sc (entity_row (en_id e)) (en_key_version e) [en_attributes e]) (\<lambda>texts.
     bindM (liftM (parse_attrs r (texts ! 0))) (\<lambda>attrs.
     bindM (embed_one r (EntityEmbedText (en_kind e) (en_name e) attrs)) (\<lambda>v.
     Run sc sc (exec (\<lambda>w. set_en_embedding
       (\<lambda>x. rls_visible w (en_scope x) \<and> en_id x = en_id e \<and> en_scope x = sc) v (EmbedderIdentity r))))))"

definition reembedEntityBatch :: "runner \<Rightarrow> scope \<Rightarrow> int \<Rightarrow> nat proc" where
  "reembedEntityBatch r sc batchSize =
     bindM (select_batch sc batchSize en_id (pending_entities r sc)) (\<lambda>rows.
     bindM (forM (reembed_entity r sc) rows) (\<lambda>_. retM (length rows)))"

definition key_fact_text :: "runner \<Rightarrow> scope \<Rightarrow> key_fact \<Rightarrow> string proc" where
  "key_fact_text r sc f =
     bindM (decryptWithRetry r sc (key_fact_row (kf_id f)) (kf_key_version f) [Some (kf_fact f)]) (\<lambda>texts.
     retM (TruncateForEmbedding (texts ! 0)))"

definition write_key_fact :: "runner \<Rightarrow> key_fact \<times> vec \<Rightarrow> unit proc" where
  "write_key_fact r = (\<lambda>(f, v). exec (\<lambda>w. set_kf_embedding (\<lambda>x. rls_visible w (kf_scope x) \<and> kf_id x = kf_id f)
     (VectorLiteral (float_text r) v) (EmbedderIdentity r)))"

definition reembedKeyFactBatch :: "runner \<Rightarrow> scope \<Rightarrow> int \<Rightarrow> nat proc" where
  "reembedKeyFactBatch r sc batchSize =
     bindM (select_batch sc batchSize kf_id (pending_key_facts r sc)) (\<lambda>rows.
     if rows = [] then retM 0
     else bindM (mapM (key_fact_text r sc) rows) (\<lambda>texts.
          bindM (embed r texts) (\<lambda>vectors.
          if length vectors \<noteq> length rows then errM (ErrVectorCount (length vectors) (length rows))
          else bindM (Run sc sc (forM (write_key_fact r) (zip rows vectors))) (\<lambda>_. retM (length rows)))))"

section \<open>The migration\<close>

definition reembed_Continue :: "runner \<Rightarrow> scope \<Rightarrow> int \<Rightarrow> (nat \<times> string \<times> bool) proc" where
  "reembed_Continue r sc batchSize =
     bindM (reembedSummaryBatch r sc batchSize) (\<lambda>n. if n > 0 then retM (n, ''summaries'', False) else
     bindM (reembedEpisodeBatch r sc batchSize) (\<lambda>n. if n > 0 then retM (n, ''episodes'', False) else
     bindM (reembedEntityBatch r sc batchSize) (\<lambda>n. if n > 0 then retM (n, ''entities'', False) else
     bindM (reembedKeyFactBatch r sc batchSize) (\<lambda>n. if n > 0 then retM (n, ''summary_key_facts'', False) else
     retM (0, [], True)))))"

definition EventReembed :: string where "EventReembed = ''reembed''"

definition LogRun :: "runner \<Rightarrow> scope \<Rightarrow> string \<Rightarrow> nat \<Rightarrow> unit proc" where
  "LogRun r sc actor processed = Run sc sc (audit_Write \<lparr>EventType = EventReembed, Actor = actor, ActingScope = sc,
     WorkspaceScope = sc, TargetRef = None,
     Detail = [(''rows_reembedded'', JInt (int processed)), (''model'', JStr (EmbedderIdentity r))]\<rparr>)"

text \<open>The loop of the command, with fuel for the number of calls of \<open>Continue\<close>; \<open>None\<close> says that the
  fuel did not suffice.\<close>

fun reembedAll :: "runner \<Rightarrow> scope \<Rightarrow> string \<Rightarrow> int \<Rightarrow> nat \<Rightarrow> nat \<Rightarrow> nat option proc" where
  "reembedAll r sc actor batchSize 0 tot = retM None"
| "reembedAll r sc actor batchSize (Suc fuel) tot =
     bindM (reembed_Continue r sc batchSize) (\<lambda>(processed, _, fin).
     bindM (if processed > 0 then LogRun r sc actor processed else retM ()) (\<lambda>_.
     if fin then retM (Some (tot + processed)) else reembedAll r sc actor batchSize fuel (tot + processed)))"

end
