(* ===== verification/Reembed_Correct.thy ===== *)
theory Reembed_Correct
  imports Reembed Rotate_Correct
begin

text \<open>
  Re-embedding ends and does what it is for: without faults, and with an embedder that answers, the
  loop of \<open>hupi-reembed\<close> gives every pending row of the scope a vector of the current model and
  changes nothing else. The three tables whose batches embed row by row share the contract
  \<open>embed_table\<close>.
\<close>

declare One_nat_def [simp del]

section \<open>The state during a run\<close>

definition embedder_answers :: "runner \<Rightarrow> bool" where   \<comment> \<open>one vector per text\<close>
  "embedder_answers r \<longleftrightarrow> (\<forall>n ts. \<exists>vs. Embed (run_embedder r) n ts = Inr vs \<and> length vs = length ts)"

text \<open>The attributes of an entity that decrypt also parse.\<close>

definition attrs_ok :: "runner \<Rightarrow> keys \<Rightarrow> entity \<Rightarrow> bool" where
  "attrs_ok r ks e = (case ks (en_scope e) (en_key_version e) of None \<Rightarrow> True
     | Some k \<Rightarrow> (case entity_plain (run_aead r) k e of Inl _ \<Rightarrow> True | Inr js \<Rightarrow> is_ok (parse_attrs r js)))"

text \<open>A database without the embeddings of a scope and without the audit log.\<close>

definition no_sum_embedding :: "scope \<Rightarrow> summary \<Rightarrow> summary" where
  "no_sum_embedding sc s = (if sum_scope s = sc then s\<lparr>sum_embedding := None, sum_embedding_model := None\<rparr> else s)"

definition no_ep_embedding :: "scope \<Rightarrow> episode \<Rightarrow> episode" where
  "no_ep_embedding sc e = (if ep_scope e = sc then e\<lparr>ep_embedding := None, ep_embedding_model := None\<rparr> else e)"

definition no_en_embedding :: "scope \<Rightarrow> entity \<Rightarrow> entity" where
  "no_en_embedding sc e = (if en_scope e = sc then e\<lparr>en_embedding := None, en_embedding_model := None\<rparr> else e)"

definition no_kf_embedding :: "scope \<Rightarrow> key_fact \<Rightarrow> key_fact" where
  "no_kf_embedding sc f = (if kf_scope f = sc then f\<lparr>kf_embedding := None, kf_embedding_model := None\<rparr> else f)"

definition without_embeddings :: "scope \<Rightarrow> database \<Rightarrow> database" where
  "without_embeddings sc d = d\<lparr>summaries := map (no_sum_embedding sc) (summaries d),
     episodes := map (no_ep_embedding sc) (episodes d), entities := map (no_en_embedding sc) (entities d),
     summary_key_facts := map (no_kf_embedding sc) (summary_key_facts d), audit_log := []\<rparr>"

definition steady :: "runner \<Rightarrow> scope \<Rightarrow> bytes \<Rightarrow> scope_key list \<Rightarrow> database \<Rightarrow> world \<Rightarrow> database \<Rightarrow> bool" where
  "steady r sc K rows d0 w d \<longleftrightarrow> aead_correct (run_aead r) \<and> embedder_answers r \<and> calm w
     \<and> key_inv (run_aead r) K rows w d \<and> tables_ok d \<and> readable (run_aead r) (dek_in (run_aead r) K rows) d
     \<and> list_all (attrs_ok r (dek_in (run_aead r) K rows)) (entities d)
     \<and> without_embeddings sc d = without_embeddings sc d0"

lemma steady_process: "process_pred (steady r sc K rows d0)"
  by (simp add: process_pred_def steady_def key_inv_def calm_def fun_eq_iff)

lemma holds_None: "holds P None w \<longleftrightarrow> tx w = None \<and> P w (db w)"
  by (auto simp: holds_def)

lemma steadyD:
  assumes "holds (steady r sc K rows d0) sess w"
  shows "holds (key_inv (run_aead r) K rows) sess w" "fault_now w = NoFault" "fault_now (tick w) = NoFault"
    "steady r sc K rows d0 w (db w)" "session w = sess"
  using assms by (auto simp: holds_def steady_def calm_def fault_now_def)

section \<open>Writing an embedding keeps the rest\<close>

lemma list_all_map: "list_all P (map f xs) \<longleftrightarrow> list_all (\<lambda>x. P (f x)) xs"
  by (simp add: list_all_iff)

lemma list_all_update_where:
  "(\<And>x. P (f x) = P x) \<Longrightarrow> list_all P (update_where Q f xs) = list_all P xs"
  by (induction xs) (simp_all add: update_where_def)

lemma filter_updated:
  "(\<And>x. Q x \<Longrightarrow> \<not> P (f x)) \<Longrightarrow> filter P (update_where Q f xs) = filter (\<lambda>x. P x \<and> \<not> Q x) xs"
  by (induction xs) (auto simp: update_where_def)

lemma rows_keep:
  "text_readable (summary_view A ks (s\<lparr>sum_embedding := v, sum_embedding_model := m\<rparr>)) = text_readable (summary_view A ks s)"
  "episode_readable (episode_view A ks (e\<lparr>ep_embedding := v, ep_embedding_model := m\<rparr>)) = episode_readable (episode_view A ks e)"
  "text_readable (entity_view A ks (n\<lparr>en_embedding := v, en_embedding_model := m\<rparr>)) = text_readable (entity_view A ks n)"
  "text_readable (fact_view A ks (f\<lparr>kf_embedding := v, kf_embedding_model := m\<rparr>)) = text_readable (fact_view A ks f)"
  "attrs_ok r ks (n\<lparr>en_embedding := v, en_embedding_model := m\<rparr>) = attrs_ok r ks n"
proof -
  have "entity_plain A k (n\<lparr>en_embedding := v, en_embedding_model := m\<rparr>) = entity_plain A k n" for A k
    by (simp add: entity_plain_def)
  then show "attrs_ok r ks (n\<lparr>en_embedding := v, en_embedding_model := m\<rparr>) = attrs_ok r ks n"
    by (auto simp: attrs_ok_def split: option.splits sum.splits)
qed (simp_all add: text_readable_def episode_readable_def summary_view_def episode_view_def entity_view_def fact_view_def
      summary_plain_def episode_plain_def entity_plain_def fact_plain_def)

lemmas write_defs = steady_def key_inv_def tables_ok_def readable_def without_embeddings_def list_all_map
  map_update_where list_all_update_where rows_keep

lemma steady_writes:
  assumes "steady r sc K rows d0 w d"
  shows "steady r sc K rows d0 w (set_sum_embedding (\<lambda>x. sum_scope x = sc \<and> sum_id x = i) v m d)"
    "steady r sc K rows d0 w (set_ep_embedding (\<lambda>x. ep_scope x = sc \<and> ep_id x = i) v m d)"
    "steady r sc K rows d0 w (set_en_embedding (\<lambda>x. en_scope x = sc \<and> en_id x = i) v m d)"
    "steady r sc K rows d0 w (set_kf_embedding (\<lambda>x. kf_scope x = sc \<and> kf_id x = j) v m d)"
  using assms
  by (simp_all add: write_defs set_sum_embedding_def no_sum_embedding_def set_ep_embedding_def no_ep_embedding_def
      set_en_embedding_def no_en_embedding_def set_kf_embedding_def no_kf_embedding_def)

section \<open>The steps succeed\<close>

lemma wp_Run_steady:
  assumes w: "holds (steady r sc K rows d0) None w"
    and body: "\<And>t. holds (steady r sc K rows d0) (Some (sc, sc)) t \<Longrightarrow> db t = db w \<Longrightarrow>
       wp fn (\<lambda>x t. holds (steady r sc K rows d0) (Some (sc, sc)) t \<and> R x (db t)) (\<lambda>_ _. False) t"
  shows "wp (Run sc sc fn) (\<lambda>x t. holds (steady r sc K rows d0) None t \<and> R x (db t)) (\<lambda>_ _. False) w"
proof -
  let ?P = "steady r sc K rows d0"
  have "wp (Run sc sc fn) (\<lambda>x t. holds ?P None t \<and> R x (db t)) (\<lambda>e t. holds ?P None t \<and> False) w"
  proof (rule wp_Run_error [OF steady_process w])
    show "False" if "fault_now w \<noteq> NoFault \<or> fault_now (tick w) \<noteq> NoFault" using that steadyD [OF w] by simp
    fix n
    let ?t = "w\<lparr>tx := Some (sc, sc, db w), ticks := n\<rparr>"
    have "holds ?P (Some (sc, sc)) ?t" by (rule holds_begin [OF steady_process w])
    then show "wp fn (\<lambda>x t. holds ?P (Some (sc, sc)) t \<and> R x (db t) \<and> (fault_now t \<noteq> NoFault \<longrightarrow> False))
        (\<lambda>e t. kept ?P (Some (sc, sc)) t \<and> False) ?t"
      by (intro wp_mono [OF body]) (auto dest: steadyD)
  qed
  then show ?thesis by simp
qed

lemma wp_select_batch:
  assumes w: "holds (steady r sc K rows d0) None w" and n: "0 \<le> n"
    and f: "\<And>t. session t = Some (sc, sc) \<Longrightarrow> f t = F (db t)"
  shows "wp (select_batch sc n key f)
     (\<lambda>xs t. holds (steady r sc K rows d0) None t \<and> (db t = db w \<and> xs = take (nat n) (sort_key key (F (db w))))) (\<lambda>_ _. False) w"
  unfolding select_batch_def
  by (rule wp_Run_steady [OF w])
    (use n in \<open>auto simp: wp_simps f steady_process dest: steadyD\<close>)

lemma wp_decryptEach:
  assumes "list_all (\<lambda>ct. is_ok (Decrypt A enc ct)) cts"
  shows "wp (decryptEach A enc cts) (\<lambda>texts u. u = t \<and> map Inr texts = map (Decrypt A enc) cts) (\<lambda>_ _. False) t"
  using assms unfolding decryptEach_def
proof (induction cts)
  case Nil
  then show ?case by (simp add: wp_simps)
next
  case (Cons ct cts)
  obtain x where x: "Decrypt A enc ct = Inr x" using Cons.prems by auto
  have "wp (mapM (\<lambda>ct. liftM (Decrypt A enc ct)) cts)
      (\<lambda>xs u. u = t \<and> map Inr xs = map (Decrypt A enc) cts) (\<lambda>_ _. False) t"
    using Cons by simp
  then have "wp (mapM (\<lambda>ct. liftM (Decrypt A enc ct)) cts)
      (\<lambda>xs u. u = t \<and> map Inr (x # xs) = map (Decrypt A enc) (ct # cts)) (\<lambda>_ _. False) t"
    by (rule wp_mono) (simp_all add: x)
  then show ?case by (simp add: wp_simps x)
qed

lemma steady_cache:
  assumes "holds (steady r sc K rows d0) None w" "holds (key_inv (run_aead r) K rows) None t" "same_but_cache w t"
  shows "holds (steady r sc K rows d0) None t"
  using assms unfolding holds_None steady_def same_but_cache_def calm_def by metis

lemma wp_decrypt:
  assumes w: "holds (steady r sc K rows d0) None w" and k: "dek_in (run_aead r) K rows sc v = Some k"
    and ok: "list_all (\<lambda>ct. is_ok (Decrypt (run_aead r) (Encryptor k) ct)) cts"
  shows "wp (decryptWithRetry r sc row v cts)
     (\<lambda>texts t. holds (steady r sc K rows d0) None t \<and> db t = db w
        \<and> map Inr texts = map (Decrypt (run_aead r) (Encryptor k)) cts) (\<lambda>_ _. False) w"
proof -
  note each = wp_decryptEach [OF ok]
  have key: "holds (key_inv (run_aead r) K rows) None w" "fault_now w = NoFault" using steadyD [OF w] by simp_all
  have "dek_in (run_aead r) K rows sc v \<noteq> None" using k by simp
  from wp_conj [OF wp_GetVersion [OF key(1)] GetVersion_succeeds [OF key this]]
  have get: "wp (GetVersion (run_aead r) sc v)
     (\<lambda>e t. e = Encryptor k \<and> holds (steady r sc K rows d0) None t \<and> db t = db w) (\<lambda>_ _. False) w"
  proof (rule wp_mono)
    fix e t
    assume a: "(holds (key_inv (run_aead r) K rows) None t \<and> same_but_cache w t
        \<and> dek_in (run_aead r) K rows sc v = Some (dek_of e)) \<and> True"
    then have "holds (steady r sc K rows d0) None t" using steady_cache [OF w] by blast
    then show "e = Encryptor k \<and> holds (steady r sc K rows d0) None t \<and> db t = db w"
      using a k by (auto simp: same_but_cache_def)
  qed blast
  show ?thesis
    unfolding decryptWithRetry_def wp_tryM
    by (rule wp_mono [OF get]) (auto simp: wp_simps intro: wp_mono [OF each])
qed

lemma steady_calls: "holds (steady r sc K rows d0) sess w \<Longrightarrow> holds (steady r sc K rows d0) sess (w\<lparr>calls := n\<rparr>)"
  unfolding holds_def by (simp add: process_pred_simps [OF steady_process] session_def)

lemma wp_embed:
  assumes w: "holds (steady r sc K rows d0) None w"
  shows "wp (embed r ts) (\<lambda>vs t. holds (steady r sc K rows d0) None t \<and> db t = db w \<and> length vs = length ts) (\<lambda>_ _. False) w"
proof -
  obtain vs where "Embed (run_embedder r) (calls w) ts = Inr vs" "length vs = length ts"
    using steadyD(4) [OF w] unfolding steady_def embedder_answers_def by blast
  then show ?thesis using steady_calls [OF w] by (simp add: embed_def call_def wp_def)
qed

lemma wp_embed_one:
  assumes w: "holds (steady r sc K rows d0) None w"
  shows "wp (embed_one r x) (\<lambda>v t. holds (steady r sc K rows d0) None t \<and> db t = db w) (\<lambda>_ _. False) w"
  unfolding embed_one_def wp_bindM
  by (rule wp_mono [OF wp_embed [OF w]]) (auto simp: wp_simps split: list.splits)

lemma wp_write:
  assumes w: "holds (steady r sc K rows d0) None w"
    and f: "\<And>t. session t = Some (sc, sc) \<Longrightarrow> f t = g" and g: "\<And>v d. steady r sc K rows d0 v d \<Longrightarrow> steady r sc K rows d0 v (g d)"
  shows "wp (Run sc sc (exec f)) (\<lambda>_ t. holds (steady r sc K rows d0) None t \<and> db t = g (db w)) (\<lambda>_ _. False) w"
proof (rule wp_Run_steady [OF w])
  fix t
  assume t: "holds (steady r sc K rows d0) (Some (sc, sc)) t" "db t = db w"
  then show "wp (exec f) (\<lambda>_ t. holds (steady r sc K rows d0) (Some (sc, sc)) t \<and> db t = g (db w)) (\<lambda>_ _. False) t"
    using steadyD [OF t(1)] holds_map_db [OF steady_process t(1), of g] g
    by (simp add: wp_simps f)
qed

section \<open>Pending rows\<close>

definition stale_sum :: "runner \<Rightarrow> scope \<Rightarrow> database \<Rightarrow> summary list" where
  "stale_sum r sc d = filter (\<lambda>s. stale r (sum_embedding s) (sum_embedding_model s) \<and> sum_scope s = sc) (summaries d)"

definition stale_ep :: "runner \<Rightarrow> scope \<Rightarrow> database \<Rightarrow> episode list" where
  "stale_ep r sc d = filter (\<lambda>e. ep_type e = ''interaction''
       \<and> (case ep_importance e of None \<Rightarrow> False | Some i \<Rightarrow> i \<ge> EpisodeEmbedImportanceThreshold)
       \<and> stale r (ep_embedding e) (ep_embedding_model e) \<and> ep_scope e = sc) (episodes d)"

definition stale_en :: "runner \<Rightarrow> scope \<Rightarrow> database \<Rightarrow> entity list" where
  "stale_en r sc d = filter (\<lambda>e. stale r (en_embedding e) (en_embedding_model e) \<and> en_scope e = sc) (entities d)"

definition stale_kf :: "runner \<Rightarrow> scope \<Rightarrow> database \<Rightarrow> key_fact list" where
  "stale_kf r sc d = filter (\<lambda>f. kf_grounded f \<and> stale r (kf_embedding f) (kf_embedding_model f) \<and> kf_scope f = sc
       \<and> \<not> list_ex (\<lambda>newer. sum_supersedes newer = Some (kf_summary_id f)) (filter (\<lambda>s. sum_scope s = sc) (summaries d)))
     (summary_key_facts d)"

lemma pending_rows:
  assumes "session w = Some (sc, sc)"
  shows "pending_summaries r sc w = stale_sum r sc (db w)" "pending_episodes r sc w = stale_ep r sc (db w)"
    "pending_entities r sc w = stale_en r sc (db w)" "pending_key_facts r sc w = stale_kf r sc (db w)"
proof -
  have v: "visible w g xs = filter (\<lambda>x. g x = sc) xs" for g :: "'r \<Rightarrow> scope" and xs
    by (simp add: visible_def rls_session(1) [OF assms])
  show "pending_summaries r sc w = stale_sum r sc (db w)" "pending_episodes r sc w = stale_ep r sc (db w)"
    "pending_entities r sc w = stale_en r sc (db w)" "pending_key_facts r sc w = stale_kf r sc (db w)"
    unfolding pending_summaries_def pending_episodes_def pending_entities_def pending_key_facts_def v filter_filter
      stale_sum_def stale_ep_def stale_en_def stale_kf_def
    by (auto intro!: filter_cong)
qed

text \<open>What the four writes do to the pending rows: the row that was written is pending no more.\<close>

lemma supersedes_update:
  "list_ex (\<lambda>n. sum_supersedes n = x) (filter (\<lambda>s. sum_scope s = sc) (update_where Q (\<lambda>s. s\<lparr>sum_embedding := v, sum_embedding_model := m\<rparr>) xs)) =
   list_ex (\<lambda>n. sum_supersedes n = x) (filter (\<lambda>s. sum_scope s = sc) xs)"
  by (induction xs) (simp_all add: update_where_def)

lemma stale_sum_writes:
  "stale_sum r sc (set_sum_embedding (\<lambda>x. sum_scope x = sc \<and> sum_id x = i) v (EmbedderIdentity r) d) =
     filter (\<lambda>x. sum_id x \<noteq> i) (stale_sum r sc d)"
  "stale_ep r sc (set_sum_embedding Q v m d) = stale_ep r sc d"
  "stale_en r sc (set_sum_embedding Q v m d) = stale_en r sc d"
  "stale_kf r sc (set_sum_embedding Q v m d) = stale_kf r sc d"
  "audit_log (set_sum_embedding Q v m d) = audit_log d"
  by (auto simp: stale_sum_def stale_ep_def stale_en_def stale_kf_def set_sum_embedding_def filter_updated stale_def
      supersedes_update intro!: filter_cong)

lemma stale_ep_writes:
  "stale_ep r sc (set_ep_embedding (\<lambda>x. ep_scope x = sc \<and> ep_id x = i) v (EmbedderIdentity r) d) =
     filter (\<lambda>x. ep_id x \<noteq> i) (stale_ep r sc d)"
  "stale_sum r sc (set_ep_embedding Q v m d) = stale_sum r sc d"
  "stale_en r sc (set_ep_embedding Q v m d) = stale_en r sc d"
  "stale_kf r sc (set_ep_embedding Q v m d) = stale_kf r sc d"
  "audit_log (set_ep_embedding Q v m d) = audit_log d"
  by (auto simp: stale_sum_def stale_ep_def stale_en_def stale_kf_def set_ep_embedding_def filter_updated stale_def
      intro!: filter_cong)

lemma stale_en_writes:
  "stale_en r sc (set_en_embedding (\<lambda>x. en_scope x = sc \<and> en_id x = i) v (EmbedderIdentity r) d) =
     filter (\<lambda>x. en_id x \<noteq> i) (stale_en r sc d)"
  "stale_sum r sc (set_en_embedding Q v m d) = stale_sum r sc d"
  "stale_ep r sc (set_en_embedding Q v m d) = stale_ep r sc d"
  "stale_kf r sc (set_en_embedding Q v m d) = stale_kf r sc d"
  "audit_log (set_en_embedding Q v m d) = audit_log d"
  by (auto simp: stale_sum_def stale_ep_def stale_en_def stale_kf_def set_en_embedding_def filter_updated stale_def
      intro!: filter_cong)

lemma stale_kf_writes:
  "stale_kf r sc (set_kf_embedding (\<lambda>x. kf_scope x = sc \<and> kf_id x = j) v (EmbedderIdentity r) d) =
     filter (\<lambda>x. kf_id x \<noteq> j) (stale_kf r sc d)"
  "stale_sum r sc (set_kf_embedding Q v m d) = stale_sum r sc d"
  "stale_ep r sc (set_kf_embedding Q v m d) = stale_ep r sc d"
  "stale_en r sc (set_kf_embedding Q v m d) = stale_en r sc d"
  "audit_log (set_kf_embedding Q v m d) = audit_log d"
  by (auto simp: stale_sum_def stale_ep_def stale_en_def stale_kf_def set_kf_embedding_def filter_updated stale_def
      intro!: filter_cong)

lemma pend_distinct:
  assumes "tables_ok d"
  shows "distinct (map sum_id (stale_sum r sc d))" "distinct (map ep_id (stale_ep r sc d))"
    "distinct (map en_id (stale_en r sc d))" "distinct (map kf_id (stale_kf r sc d))"
proof -
  have "inj_on en_id (set (stale_en r sc d))"
    using assms unfolding tables_ok_def distinct_map stale_en_def inj_on_def by auto
  moreover have "distinct (stale_en r sc d)" using assms by (simp add: tables_ok_def distinct_map stale_en_def)
  ultimately show "distinct (map en_id (stale_en r sc d))" by (simp add: distinct_map)
qed (use assms in \<open>simp_all add: tables_ok_def stale_sum_def stale_ep_def stale_kf_def distinct_map_filter\<close>)

section \<open>A table that is embedded row by row\<close>

lemma batch_count:
  assumes "distinct (map key xs)"
  shows "length (filter (\<lambda>x. key x \<notin> key ` set (take n (sort_key key xs))) xs) + min n (length xs) = length xs"
proof -
  let ?s = "sort_key key xs" and ?P = "\<lambda>x. key x \<notin> key ` set (take n (sort_key key xs))"
  have "distinct (map key (take n ?s @ drop n ?s))" using assms by (simp add: distinct_map)
  then have "key ` set (take n ?s) \<inter> key ` set (drop n ?s) = {}" unfolding map_append distinct_append by simp
  then have "filter ?P (drop n ?s) = drop n ?s" "filter ?P (take n ?s) = []"
    by (auto simp: filter_id_conv filter_empty_conv)
  then have "filter ?P (take n ?s @ drop n ?s) = drop n ?s" unfolding filter_append by simp
  then have "length (filter ?P ?s) = length xs - n" by simp
  moreover have "length (filter ?P xs) = length (filter ?P ?s)"
    by (simp add: filter_sort)
  ultimately show ?thesis by simp
qed

locale embed_table =
  fixes P :: "world \<Rightarrow> database \<Rightarrow> bool" and sc :: scope and key :: "'r \<Rightarrow> 'k :: linorder"
    and pend :: "database \<Rightarrow> 'r list" and rest :: "database \<Rightarrow> 'o" and good :: "'r \<Rightarrow> bool"
    and pending :: "world \<Rightarrow> 'r list" and step :: "'r \<Rightarrow> unit proc"
  assumes selects: "holds P None w \<Longrightarrow> 0 \<le> n \<Longrightarrow> wp (select_batch sc n key pending)
       (\<lambda>xs t. holds P None t \<and> (db t = db w \<and> xs = take (nat n) (sort_key key (pend (db w))))) (\<lambda>_ _. False) w"
    and keys_distinct: "P w d \<Longrightarrow> distinct (map key (pend d))"
    and pend_good: "P w d \<Longrightarrow> x \<in> set (pend d) \<Longrightarrow> good x"
    and step_ok: "good x \<Longrightarrow> holds P None w \<Longrightarrow> wp (step x)
       (\<lambda>_ t. holds P None t \<and> pend (db t) = filter (\<lambda>y. key y \<noteq> key x) (pend (db w)) \<and> rest (db t) = rest (db w)) (\<lambda>_ _. False) w"
begin

lemma steps_ok:
  assumes "\<And>x. x \<in> set xs \<Longrightarrow> good x" "holds P None w"
  shows "wp (forM step xs) (\<lambda>_ t. holds P None t \<and> pend (db t) = filter (\<lambda>y. key y \<notin> key ` set xs) (pend (db w))
     \<and> rest (db t) = rest (db w)) (\<lambda>_ _. False) w"
  using assms
proof (induction xs arbitrary: w)
  case Nil
  then show ?case by (simp add: wp_simps)
next
  case (Cons x xs)
  have "wp (forM step xs) (\<lambda>_ u. holds P None u \<and> pend (db u) = filter (\<lambda>y. key y \<notin> key ` set (x # xs)) (pend (db w))
      \<and> rest (db u) = rest (db w)) (\<lambda>_ _. False) t"
    if "holds P None t \<and> pend (db t) = filter (\<lambda>y. key y \<noteq> key x) (pend (db w)) \<and> rest (db t) = rest (db w)" for t
    using that Cons.prems(1) by (intro wp_mono [OF Cons.IH]) auto
  then show ?case
    using Cons.prems by (auto simp: wp_simps intro!: wp_mono [OF step_ok])
qed

lemma batch_ok:
  assumes w: "holds P None w" and n: "0 \<le> n"
  shows "wp (bindM (select_batch sc n key pending) (\<lambda>xs. bindM (forM step xs) (\<lambda>_. retM (length xs))))
     (\<lambda>m t. holds P None t \<and> m = min (nat n) (length (pend (db w))) \<and> length (pend (db t)) + m = length (pend (db w))
        \<and> rest (db t) = rest (db w)) (\<lambda>_ _. False) w"
  unfolding wp_bindM
proof (rule wp_mono [OF selects [OF w n]])
  fix xs t
  assume a: "holds P None t \<and> (db t = db w \<and> xs = take (nat n) (sort_key key (pend (db w))))"
  then have d: "P t (db w)" by (auto simp: holds_def)
  have "good x" if "x \<in> set xs" for x using that a pend_good [OF d] by (metis in_set_takeD set_sort)
  then show "wp (forM step xs) (\<lambda>_. wp (retM (length xs)) (\<lambda>m t. holds P None t \<and> m = min (nat n) (length (pend (db w)))
      \<and> length (pend (db t)) + m = length (pend (db w)) \<and> rest (db t) = rest (db w)) (\<lambda>_ _. False)) (\<lambda>_ _. False) t"
    using a batch_count [OF keys_distinct [OF d], of "nat n"]
    by (intro wp_mono [OF steps_ok]) (auto simp: wp_simps)
qed simp

end

definition opens :: "runner \<Rightarrow> scope \<Rightarrow> bytes \<Rightarrow> scope_key list \<Rightarrow> nat \<Rightarrow> bytes option list \<Rightarrow> bool" where
  "opens r sc K rows v cts \<longleftrightarrow> (\<exists>k. dek_in (run_aead r) K rows sc v = Some k
     \<and> list_all (\<lambda>ct. is_ok (Decrypt (run_aead r) (Encryptor k) ct)) cts)"

lemma wp_opens:
  assumes "holds (steady r sc K rows d0) None w" "opens r sc K rows v cts"
  shows "wp (decryptWithRetry r sc row v cts) (\<lambda>texts t. holds (steady r sc K rows d0) None t \<and> db t = db w) (\<lambda>_ _. False) w"
proof -
  obtain k where "dek_in (run_aead r) K rows sc v = Some k" "list_all (\<lambda>ct. is_ok (Decrypt (run_aead r) (Encryptor k) ct)) cts"
    using assms(2) by (auto simp: opens_def)
  from wp_decrypt [OF assms(1) this] show ?thesis by (rule wp_mono) simp_all
qed

lemma row_opens:
  "text_readable (summary_view (run_aead r) (dek_in (run_aead r) K rows) s) \<Longrightarrow> opens r (sum_scope s) K rows (sum_key_version s) [sum_summary s]"
  "episode_readable (episode_view (run_aead r) (dek_in (run_aead r) K rows) e) \<Longrightarrow>
     opens r (ep_scope e) K rows (ep_key_version e) [ep_input_text e, ep_output_text e]"
  "text_readable (entity_view (run_aead r) (dek_in (run_aead r) K rows) n) \<Longrightarrow> opens r (en_scope n) K rows (en_key_version n) [en_attributes n]"
  "text_readable (fact_view (run_aead r) (dek_in (run_aead r) K rows) f) \<Longrightarrow> opens r (kf_scope f) K rows (kf_key_version f) [Some (kf_fact f)]"
  by (auto simp: opens_def text_readable_def episode_readable_def summary_view_def episode_view_def fact_view_def
      entity_view_def summary_plain_def episode_plain_def fact_plain_def entity_plain_def split: option.splits)

lemma readable_opens:
  assumes "steady r sc K rows d0 w d"
  shows "s \<in> set (summaries d) \<Longrightarrow> sum_scope s = sc \<Longrightarrow> opens r sc K rows (sum_key_version s) [sum_summary s]"
    "e \<in> set (episodes d) \<Longrightarrow> ep_scope e = sc \<Longrightarrow> opens r sc K rows (ep_key_version e) [ep_input_text e, ep_output_text e]"
    "n \<in> set (entities d) \<Longrightarrow> en_scope n = sc \<Longrightarrow> opens r sc K rows (en_key_version n) [en_attributes n]"
    "f \<in> set (summary_key_facts d) \<Longrightarrow> kf_scope f = sc \<Longrightarrow> opens r sc K rows (kf_key_version f) [Some (kf_fact f)]"
proof -
  let ?A = "run_aead r" and ?ks = "dek_in (run_aead r) K rows"
  have r: "readable ?A ?ks d" using assms by (simp add: steady_def)
  show "s \<in> set (summaries d) \<Longrightarrow> sum_scope s = sc \<Longrightarrow> opens r sc K rows (sum_key_version s) [sum_summary s]"
    using r row_opens(1) [of r K rows s] by (simp add: readable_def list_all_iff)
  show "e \<in> set (episodes d) \<Longrightarrow> ep_scope e = sc \<Longrightarrow> opens r sc K rows (ep_key_version e) [ep_input_text e, ep_output_text e]"
    using r row_opens(2) [of r K rows e] by (simp add: readable_def list_all_iff)
  show "n \<in> set (entities d) \<Longrightarrow> en_scope n = sc \<Longrightarrow> opens r sc K rows (en_key_version n) [en_attributes n]"
    using r row_opens(3) [of r K rows n] by (simp add: readable_def list_all_iff)
  show "f \<in> set (summary_key_facts d) \<Longrightarrow> kf_scope f = sc \<Longrightarrow> opens r sc K rows (kf_key_version f) [Some (kf_fact f)]"
    using r row_opens(4) [of r K rows f] by (simp add: readable_def list_all_iff)
qed

text \<open>The end of every step: embed, then write.\<close>

lemma wp_embed_write:
  assumes w: "holds (steady r sc K rows d0) None w"
    and f: "\<And>v t. session t = Some (sc, sc) \<Longrightarrow> f v t = g v"
    and g: "\<And>v u d. steady r sc K rows d0 u d \<Longrightarrow> steady r sc K rows d0 u (g v d)"
    and Q: "\<And>v t. holds (steady r sc K rows d0) None t \<Longrightarrow> db t = g v (db w) \<Longrightarrow> Q () t"
  shows "wp (embed_one r x) (\<lambda>v. wp (Run sc sc (exec (f v))) Q (\<lambda>_ _. False)) (\<lambda>_ _. False) w"
proof (rule wp_mono [OF wp_embed_one [OF w]])
  fix v t
  assume t: "holds (steady r sc K rows d0) None t \<and> db t = db w"
  have "wp (Run sc sc (exec (f v))) (\<lambda>_ t. holds (steady r sc K rows d0) None t \<and> db t = g v (db w)) (\<lambda>_ _. False) t"
    using wp_write [of r sc K rows d0 t "f v" "g v"] t f g by simp
  then show "wp (Run sc sc (exec (f v))) Q (\<lambda>_ _. False) t" by (rule wp_mono) (use Q in auto)
qed

interpretation sum_table: embed_table "steady r sc K rows d0" sc sum_id "stale_sum r sc"
    "\<lambda>d. (stale_ep r sc d, stale_en r sc d, stale_kf r sc d, audit_log d)"
    "\<lambda>s. opens r sc K rows (sum_key_version s) [sum_summary s]" "pending_summaries r sc" "reembed_summary r sc"
  for r sc K rows d0
proof (unfold_locales, goal_cases)
  case (1 w n)
  then show ?case by (intro wp_select_batch) (simp_all add: pending_rows)
next
  case (2 w d)
  then show ?case by (simp add: steady_def pend_distinct)
next
  case (3 w d x)
  then show ?case using readable_opens(1) by (simp add: stale_sum_def)
next
  case (4 x w)
  show ?case unfolding reembed_summary_def wp_bindM
    by (rule wp_mono [OF wp_opens [OF 4(2,1)]])
      (auto intro!: wp_embed_write [where g = "\<lambda>v. set_sum_embedding (\<lambda>y. sum_scope y = sc \<and> sum_id y = sum_id x) v (EmbedderIdentity r)"]
        simp: rls_session steady_writes stale_sum_writes)
qed

interpretation ep_table: embed_table "steady r sc K rows d0" sc ep_id "stale_ep r sc"
    "\<lambda>d. (stale_sum r sc d, stale_en r sc d, stale_kf r sc d, audit_log d)"
    "\<lambda>e. opens r sc K rows (ep_key_version e) [ep_input_text e, ep_output_text e]" "pending_episodes r sc" "reembed_episode r sc"
  for r sc K rows d0
proof (unfold_locales, goal_cases)
  case (1 w n)
  then show ?case by (intro wp_select_batch) (simp_all add: pending_rows)
next
  case (2 w d)
  then show ?case by (simp add: steady_def pend_distinct)
next
  case (3 w d x)
  then show ?case using readable_opens(2) by (simp add: stale_ep_def)
next
  case (4 x w)
  show ?case unfolding reembed_episode_def wp_bindM
    by (rule wp_mono [OF wp_opens [OF 4(2,1)]])
      (auto intro!: wp_embed_write [where g = "\<lambda>v. set_ep_embedding (\<lambda>y. ep_scope y = sc \<and> ep_id y = ep_id x) v (EmbedderIdentity r)"]
        simp: rls_session steady_writes stale_ep_writes)
qed

definition good_entity :: "runner \<Rightarrow> scope \<Rightarrow> bytes \<Rightarrow> scope_key list \<Rightarrow> entity \<Rightarrow> bool" where
  "good_entity r sc K rows e \<longleftrightarrow> en_scope e = sc \<and> opens r sc K rows (en_key_version e) [en_attributes e]
     \<and> attrs_ok r (dek_in (run_aead r) K rows) e"

lemma wp_entity_attrs:
  assumes "holds (steady r sc K rows d0) None w" "good_entity r sc K rows e"
  shows "wp (decryptWithRetry r sc row (en_key_version e) [en_attributes e])
     (\<lambda>texts t. holds (steady r sc K rows d0) None t \<and> db t = db w \<and> is_ok (parse_attrs r (texts ! 0))) (\<lambda>_ _. False) w"
proof -
  obtain k where k: "dek_in (run_aead r) K rows sc (en_key_version e) = Some k"
    "list_all (\<lambda>ct. is_ok (Decrypt (run_aead r) (Encryptor k) ct)) [en_attributes e]"
    using assms(2) by (auto simp: good_entity_def opens_def)
  then have "is_ok (parse_attrs r js)" if "Decrypt (run_aead r) (Encryptor k) (en_attributes e) = Inr js" for js
    using assms(2) that by (auto simp: good_entity_def attrs_ok_def entity_plain_def)
  then show ?thesis
    by (intro wp_mono [OF wp_decrypt [OF assms(1) k]]) (auto simp: map_eq_Cons_conv)
qed

interpretation en_table: embed_table "steady r sc K rows d0" sc en_id "stale_en r sc"
    "\<lambda>d. (stale_sum r sc d, stale_ep r sc d, stale_kf r sc d, audit_log d)"
    "good_entity r sc K rows" "pending_entities r sc" "reembed_entity r sc"
  for r sc K rows d0
proof (unfold_locales, goal_cases)
  case (1 w n)
  then show ?case by (intro wp_select_batch) (simp_all add: pending_rows)
next
  case (2 w d)
  then show ?case by (simp add: steady_def pend_distinct)
next
  case (3 w d x)
  then show ?case using readable_opens(3) [OF 3(1), of x] by (simp add: stale_en_def good_entity_def steady_def list_all_iff)
next
  case (4 x w)
  show ?case unfolding reembed_entity_def wp_bindM
    by (rule wp_mono [OF wp_entity_attrs [OF 4(2,1)]])
      (auto intro!: wp_embed_write [where g = "\<lambda>v. set_en_embedding (\<lambda>y. en_scope y = sc \<and> en_id y = en_id x) v (EmbedderIdentity r)"]
        simp: rls_session steady_writes stale_en_writes wp_simps conj_commute)
qed

section \<open>Key facts, in one call\<close>

lemma wp_key_fact_texts:
  assumes "\<And>f. f \<in> set fs \<Longrightarrow> opens r sc K rows (kf_key_version f) [Some (kf_fact f)]" "holds (steady r sc K rows d0) None w"
  shows "wp (mapM (key_fact_text r sc) fs)
     (\<lambda>ts t. holds (steady r sc K rows d0) None t \<and> db t = db w \<and> length ts = length fs) (\<lambda>_ _. False) w"
  using assms
proof (induction fs arbitrary: w)
  case Nil
  then show ?case by (simp add: wp_simps)
next
  case (Cons f fs)
  have one: "wp (key_fact_text r sc f) (\<lambda>_ t. holds (steady r sc K rows d0) None t \<and> db t = db w) (\<lambda>_ _. False) w"
    unfolding key_fact_text_def wp_bindM wp_retM
    using Cons.prems by (intro wp_mono [OF wp_opens]) auto
  have "wp (mapM (key_fact_text r sc) fs) (\<lambda>ts. wp (retM (x # ts)) (\<lambda>ts t. holds (steady r sc K rows d0) None t \<and> db t = db w
      \<and> length ts = length (f # fs)) (\<lambda>_ _. False)) (\<lambda>_ _. False) t"
    if "holds (steady r sc K rows d0) None t \<and> db t = db w" for x t
    using that Cons.prems(1) by (intro wp_mono [OF Cons.IH]) (auto simp: wp_simps)
  then show ?case unfolding mapM.simps wp_bindM by (intro wp_mono [OF one]) auto
qed

lemma wp_write_facts:
  assumes "holds (steady r sc K rows d0) (Some (sc, sc)) w"
  shows "wp (forM (write_key_fact r) fvs) (\<lambda>_ t. holds (steady r sc K rows d0) (Some (sc, sc)) t
     \<and> (stale_kf r sc (db t) = filter (\<lambda>y. kf_id y \<notin> kf_id ` set (map fst fvs)) (stale_kf r sc (db w))
     \<and> (stale_sum r sc (db t), stale_ep r sc (db t), stale_en r sc (db t), audit_log (db t)) =
       (stale_sum r sc (db w), stale_ep r sc (db w), stale_en r sc (db w), audit_log (db w)))) (\<lambda>_ _. False) w"
  using assms
proof (induction fvs arbitrary: w)
  case Nil
  then show ?case by (simp add: wp_simps)
next
  case (Cons fv fvs)
  let ?P = "steady r sc K rows d0" and ?v = "VectorLiteral (float_text r) (snd fv)"
  let ?g = "set_kf_embedding (\<lambda>x. kf_scope x = sc \<and> kf_id x = kf_id (fst fv)) ?v (EmbedderIdentity r)"
  have P: "holds ?P (Some (sc, sc)) (map_db ?g (tick w))"
    using holds_map_db [OF steady_process Cons.prems] steady_writes(4) by blast
  have "write_key_fact r fv = exec (\<lambda>w. set_kf_embedding (\<lambda>x. rls_visible w (kf_scope x) \<and> kf_id x = kf_id (fst fv)) ?v (EmbedderIdentity r))"
    by (simp add: write_key_fact_def split_def)
  then have "wp (write_key_fact r fv) (\<lambda>_ t. t = map_db ?g (tick w)) (\<lambda>_ _. False) w"
    using steadyD(2) [OF Cons.prems] by (simp add: wp_simps rls_session(1) [OF steadyD(5) [OF Cons.prems]])
  moreover have "wp (forM (write_key_fact r) fvs) (\<lambda>_ t. holds ?P (Some (sc, sc)) t
     \<and> (stale_kf r sc (db t) = filter (\<lambda>y. kf_id y \<notin> kf_id ` set (map fst (fv # fvs))) (stale_kf r sc (db w))
     \<and> (stale_sum r sc (db t), stale_ep r sc (db t), stale_en r sc (db t), audit_log (db t)) =
       (stale_sum r sc (db w), stale_ep r sc (db w), stale_en r sc (db w), audit_log (db w)))) (\<lambda>_ _. False) (map_db ?g (tick w))"
    by (rule wp_mono [OF Cons.IH [OF P]]) (auto simp: stale_kf_writes intro: filter_cong)
  ultimately show ?case by (auto simp: wp_simps intro: wp_mono)
qed

lemma wp_key_fact_batch:
  assumes w: "holds (steady r sc K rows d0) None w" and n: "0 \<le> n"
  shows "wp (reembedKeyFactBatch r sc n) (\<lambda>m t. holds (steady r sc K rows d0) None t
     \<and> m = min (nat n) (length (stale_kf r sc (db w))) \<and> length (stale_kf r sc (db t)) + m = length (stale_kf r sc (db w))
     \<and> (stale_sum r sc (db t), stale_ep r sc (db t), stale_en r sc (db t), audit_log (db t)) =
       (stale_sum r sc (db w), stale_ep r sc (db w), stale_en r sc (db w), audit_log (db w))) (\<lambda>_ _. False) w"
    (is "wp _ ?Q _ w")
proof -
  let ?P = "steady r sc K rows d0" and ?fs = "take (nat n) (sort_key kf_id (stale_kf r sc (db w)))"
  have ok: "tables_ok (db w)" using steadyD(4) [OF w] by (simp add: steady_def)
  note count = batch_count [OF pend_distinct(4) [OF ok, of r sc], of "nat n"]
  have opens: "opens r sc K rows (kf_key_version f) [Some (kf_fact f)]" if "f \<in> set ?fs" for f
  proof -
    have "f \<in> set (stale_kf r sc (db w))" using in_set_takeD [OF that] by simp
    then have "f \<in> set (summary_key_facts (db w))" "kf_scope f = sc" by (simp_all add: stale_kf_def)
    then show ?thesis by (rule readable_opens(4) [OF steadyD(4) [OF w]])
  qed
  have written: "wp (Run sc sc (forM (write_key_fact r) (zip ?fs vs))) (\<lambda>_. ?Q (length ?fs)) (\<lambda>_ _. False) t"
    if t: "holds ?P None t" "db t = db w" "length vs = length ?fs" for vs t
  proof -
    have z: "map fst (zip ?fs vs) = ?fs" using t(3) by simp
    have "wp (Run sc sc (forM (write_key_fact r) (zip ?fs vs))) (\<lambda>_ u. holds ?P None u
     \<and> (stale_kf r sc (db u) = filter (\<lambda>y. kf_id y \<notin> kf_id ` set ?fs) (stale_kf r sc (db w))
     \<and> (stale_sum r sc (db u), stale_ep r sc (db u), stale_en r sc (db u), audit_log (db u)) =
       (stale_sum r sc (db w), stale_ep r sc (db w), stale_en r sc (db w), audit_log (db w)))) (\<lambda>_ _. False) t"
    proof (rule wp_Run_steady [OF t(1)])
      fix u
      assume u: "holds ?P (Some (sc, sc)) u" "db u = db t"
      show "wp (forM (write_key_fact r) (zip ?fs vs)) (\<lambda>_ t. holds ?P (Some (sc, sc)) t
         \<and> (stale_kf r sc (db t) = filter (\<lambda>y. kf_id y \<notin> kf_id ` set ?fs) (stale_kf r sc (db w))
         \<and> (stale_sum r sc (db t), stale_ep r sc (db t), stale_en r sc (db t), audit_log (db t)) =
           (stale_sum r sc (db w), stale_ep r sc (db w), stale_en r sc (db w), audit_log (db w)))) (\<lambda>_ _. False) u"
        using wp_write_facts [OF u(1), of "zip ?fs vs"] u(2) t(2) z by simp
    qed
    then show ?thesis by (rule wp_mono) (use count in auto)
  qed
  have rest: "wp (if fs = [] then retM 0 else bindM (mapM (key_fact_text r sc) fs) (\<lambda>texts. bindM (embed r texts) (\<lambda>vs.
       if length vs \<noteq> length fs then errM (ErrVectorCount (length vs) (length fs))
       else bindM (Run sc sc (forM (write_key_fact r) (zip fs vs))) (\<lambda>_. retM (length fs))))) ?Q (\<lambda>_ _. False) t"
    if t: "holds ?P None t" "db t = db w" "fs = ?fs" for fs t
  proof (cases "?fs = []")
    case True
    then show ?thesis using t count by (auto simp: wp_simps)
  next
    case False
    have emb: "wp (embed r ts) (\<lambda>vs. wp (if length vs \<noteq> length fs then errM (ErrVectorCount (length vs) (length fs))
       else bindM (Run sc sc (forM (write_key_fact r) (zip fs vs))) (\<lambda>_. retM (length fs))) ?Q (\<lambda>_ _. False)) (\<lambda>_ _. False) u"
      if "holds ?P None u" "db u = db w" "length ts = length fs" for ts u
      by (rule wp_mono [OF wp_embed [OF that(1)]]) (use that t(3) written in \<open>auto simp: wp_simps\<close>)
    have texts: "wp (mapM (key_fact_text r sc) fs) (\<lambda>ts u. holds ?P None u \<and> db u = db t \<and> length ts = length fs) (\<lambda>_ _. False) t"
      using wp_key_fact_texts [OF _ t(1)] opens t(3) by blast
    have "wp (bindM (mapM (key_fact_text r sc) fs) (\<lambda>texts. bindM (embed r texts) (\<lambda>vs.
       if length vs \<noteq> length fs then errM (ErrVectorCount (length vs) (length fs))
       else bindM (Run sc sc (forM (write_key_fact r) (zip fs vs))) (\<lambda>_. retM (length fs))))) ?Q (\<lambda>_ _. False) t"
      unfolding wp_bindM [of "mapM _ _"] wp_bindM [of "embed _ _"]
      by (rule wp_mono [OF texts]) (use emb t(2) in auto)
    then show ?thesis using False t(3) by simp
  qed
  show ?thesis
    unfolding reembedKeyFactBatch_def wp_bindM [of "select_batch _ _ _ _"]
    by (rule wp_mono [OF wp_select_batch [OF w n, where F = "stale_kf r sc"]]) (use rest in \<open>auto simp: pending_rows\<close>)
qed

section \<open>The run\<close>

definition pending_count :: "runner \<Rightarrow> scope \<Rightarrow> world \<Rightarrow> nat" where   \<comment> \<open>as a session of the scope sees it\<close>
  "pending_count r sc w = (let t = w\<lparr>tx := Some (sc, sc, db w)\<rparr> in length (pending_summaries r sc t)
     + length (pending_episodes r sc t) + length (pending_entities r sc t) + length (pending_key_facts r sc t))"

lemma pending_count_rows:
  "pending_count r sc w = length (stale_sum r sc (db w)) + length (stale_ep r sc (db w)) + length (stale_en r sc (db w))
     + length (stale_kf r sc (db w))"
  by (simp add: pending_count_def Let_def pending_rows)

definition progressed :: "runner \<Rightarrow> scope \<Rightarrow> bytes \<Rightarrow> scope_key list \<Rightarrow> database \<Rightarrow> world \<Rightarrow> nat \<times> string \<times> bool \<Rightarrow> world \<Rightarrow> bool" where
  "progressed r sc K rows d0 w = (\<lambda>(m, _, fin) t. holds (steady r sc K rows d0) None t \<and> audit_log (db t) = audit_log (db w)
     \<and> fin = (m = 0) \<and> pending_count r sc t + m = pending_count r sc w \<and> (fin \<longrightarrow> pending_count r sc w = 0))"

lemma wp_Continue:
  assumes w: "holds (steady r sc K rows d0) None w" and n: "0 < n"
  shows "wp (reembed_Continue r sc n) (progressed r sc K rows d0 w) (\<lambda>_ _. False) w"
proof -
  let ?P = "steady r sc K rows d0" and ?Q = "progressed r sc K rows d0 w"
  have n': "0 \<le> n" "nat n > 0" using n by simp_all
  have facts: "wp (reembedKeyFactBatch r sc n) (\<lambda>m. wp (if m > 0 then retM (m, ''summary_key_facts'', False) else retM (0, [], True))
      ?Q (\<lambda>_ _. False)) (\<lambda>_ _. False) t"
    if t: "holds ?P None t" "audit_log (db t) = audit_log (db w)" "pending_count r sc t = pending_count r sc w"
      "stale_sum r sc (db t) = []" "stale_ep r sc (db t) = []" "stale_en r sc (db t) = []" for t
    by (rule wp_mono [OF wp_key_fact_batch [OF t(1) n'(1)]])
      (use t n'(2) in \<open>auto simp: wp_simps progressed_def pending_count_rows min_def split: if_splits\<close>)
  have ents: "wp (reembedEntityBatch r sc n) (\<lambda>m. wp (if m > 0 then retM (m, ''entities'', False) else
       bindM (reembedKeyFactBatch r sc n) (\<lambda>m. if m > 0 then retM (m, ''summary_key_facts'', False) else retM (0, [], True)))
      ?Q (\<lambda>_ _. False)) (\<lambda>_ _. False) t"
    if t: "holds ?P None t" "audit_log (db t) = audit_log (db w)" "pending_count r sc t = pending_count r sc w"
      "stale_sum r sc (db t) = []" "stale_ep r sc (db t) = []" for t
    unfolding reembedEntityBatch_def
    by (rule wp_mono [OF en_table.batch_ok [OF t(1) n'(1)]])
      (use t n'(2) facts in \<open>auto simp: wp_simps progressed_def pending_count_rows min_def split: if_splits\<close>)
  have eps: "wp (reembedEpisodeBatch r sc n) (\<lambda>m. wp (if m > 0 then retM (m, ''episodes'', False) else
       bindM (reembedEntityBatch r sc n) (\<lambda>m. if m > 0 then retM (m, ''entities'', False) else
       bindM (reembedKeyFactBatch r sc n) (\<lambda>m. if m > 0 then retM (m, ''summary_key_facts'', False) else retM (0, [], True))))
      ?Q (\<lambda>_ _. False)) (\<lambda>_ _. False) t"
    if t: "holds ?P None t" "audit_log (db t) = audit_log (db w)" "pending_count r sc t = pending_count r sc w"
      "stale_sum r sc (db t) = []" for t
    unfolding reembedEpisodeBatch_def
    by (rule wp_mono [OF ep_table.batch_ok [OF t(1) n'(1)]])
      (use t n'(2) ents in \<open>auto simp: wp_simps progressed_def pending_count_rows min_def split: if_splits\<close>)
  show ?thesis
    unfolding reembed_Continue_def wp_bindM [of "reembedSummaryBatch _ _ _"] unfolding reembedSummaryBatch_def
    by (rule wp_mono [OF sum_table.batch_ok [OF w n'(1)]])
      (use n'(2) eps in \<open>auto simp: wp_simps progressed_def pending_count_rows min_def split: if_splits\<close>)
qed

text \<open>One record per batch, which says how many rows it wrote.\<close>

definition batch_record :: "runner \<Rightarrow> scope \<Rightarrow> string \<Rightarrow> nat \<Rightarrow> audit_row \<Rightarrow> bool" where
  "batch_record r sc actor n a \<longleftrightarrow> n > 0 \<and> au_event_type a = EventReembed \<and> au_actor a = actor
     \<and> au_acting_scope a = sc \<and> au_workspace_scope a = sc
     \<and> au_detail a = [(''rows_reembedded'', JInt (int n)), (''model'', JStr (EmbedderIdentity r))]"

definition logged :: "runner \<Rightarrow> scope \<Rightarrow> string \<Rightarrow> nat \<Rightarrow> audit_row list \<Rightarrow> bool" where
  "logged r sc actor n rs \<longleftrightarrow> (\<exists>ns. list_all2 (batch_record r sc actor) ns rs \<and> n = sum_list ns)"

lemma wp_LogRun:
  assumes w: "holds (steady r sc K rows d0) None w" and n: "n > 0"
  shows "wp (LogRun r sc actor n) (\<lambda>_ t. holds (steady r sc K rows d0) None t
     \<and> (\<exists>a. batch_record r sc actor n a \<and> db t = (db w)\<lparr>audit_log := audit_log (db w) @ [a]\<rparr>)) (\<lambda>_ _. False) w"
  unfolding LogRun_def
proof (rule wp_Run_steady [OF w])
  fix t
  assume t: "holds (steady r sc K rows d0) (Some (sc, sc)) t" "db t = db w"
  let ?a = "\<lparr>au_ts = clock t, au_event_type = EventReembed, au_actor = actor, au_acting_scope = sc, au_workspace_scope = sc,
     au_target_ref = None, au_detail = [(''rows_reembedded'', JInt (int n)), (''model'', JStr (EmbedderIdentity r))]\<rparr>"
  let ?g = "\<lambda>d. d\<lparr>audit_log := audit_log (db w) @ [?a]\<rparr>"
  have g: "steady r sc K rows d0 v (?g d)" if "steady r sc K rows d0 v d" for v d
    using that by (simp add: steady_def key_inv_def tables_ok_def readable_def without_embeddings_def)
  have "audit_policy t \<lparr>EventType = EventReembed, Actor = actor, ActingScope = sc, WorkspaceScope = sc, TargetRef = None,
      Detail = [(''rows_reembedded'', JInt (int n)), (''model'', JStr (EmbedderIdentity r))]\<rparr>"
    using steadyD(5) [OF t(1)] by (auto simp: audit_policy_def session_def)
  moreover have "batch_record r sc actor n ?a" using n by (simp add: batch_record_def)
  moreover have "holds (steady r sc K rows d0) (Some (sc, sc)) (map_db ?g (tick t))"
    by (rule holds_map_db [OF steady_process t(1)]) (rule g)
  ultimately show "wp (audit_Write \<lparr>EventType = EventReembed, Actor = actor, ActingScope = sc, WorkspaceScope = sc, TargetRef = None,
      Detail = [(''rows_reembedded'', JInt (int n)), (''model'', JStr (EmbedderIdentity r))]\<rparr>)
     (\<lambda>_ u. holds (steady r sc K rows d0) (Some (sc, sc)) u
        \<and> (\<exists>a. batch_record r sc actor n a \<and> db u = (db w)\<lparr>audit_log := audit_log (db w) @ [a]\<rparr>)) (\<lambda>_ _. False) t"
    using steadyD(2) [OF t(1)] t(2) by (auto simp: audit_Write_def wp_simps map_db_def)
qed

lemma pending_count_log: "db t = (db w)\<lparr>audit_log := l\<rparr> \<Longrightarrow> pending_count r sc t = pending_count r sc w"
  by (simp add: pending_count_rows stale_sum_def stale_ep_def stale_en_def stale_kf_def)

lemma wp_reembedAll:
  assumes "holds (steady r sc K rows d0) None w" "0 < n" "pending_count r sc w < fuel"
  shows "wp (reembedAll r sc actor n fuel m)
     (\<lambda>x t. holds (steady r sc K rows d0) None t \<and> x = Some (m + pending_count r sc w) \<and> pending_count r sc t = 0
        \<and> (\<exists>rs. audit_log (db t) = audit_log (db w) @ rs \<and> logged r sc actor (pending_count r sc w) rs)) (\<lambda>_ _. False) w"
  using assms(1,3)
proof (induction fuel arbitrary: w m)
  case (Suc fuel)
  let ?P = "steady r sc K rows d0"
  let ?Q = "\<lambda>x t. holds ?P None t \<and> x = Some (m + pending_count r sc w) \<and> pending_count r sc t = 0
        \<and> (\<exists>rs. audit_log (db t) = audit_log (db w) @ rs \<and> logged r sc actor (pending_count r sc w) rs)"
  have again: "wp (reembedAll r sc actor n fuel (m + k)) ?Q (\<lambda>_ _. False) u"
    if t: "pending_count r sc t + k = pending_count r sc w" "audit_log (db t) = audit_log (db w)" "0 < k"
      and u: "holds ?P None u" "batch_record r sc actor k a" "db u = (db t)\<lparr>audit_log := audit_log (db t) @ [a]\<rparr>" for t u k a
  proof -
    have p: "pending_count r sc u = pending_count r sc t" by (rule pending_count_log [OF u(3)])
    then have "pending_count r sc u < fuel" using t(1,3) Suc.prems(2) by simp
    note ih = Suc.IH [OF u(1) this, of "m + k"]
    have "logged r sc actor (pending_count r sc w) (a # rs)" if l: "logged r sc actor (pending_count r sc u) rs" for rs
    proof -
      obtain ns where "list_all2 (batch_record r sc actor) ns rs" "pending_count r sc u = sum_list ns"
        using l by (auto simp: logged_def)
      then show ?thesis using u(2) t(1) p unfolding logged_def by (intro exI [of _ "k # ns"]) simp
    qed
    then show ?thesis using t(1,2) u(3) p by (intro wp_mono [OF ih]) fastforce+
  qed
  have log: "wp (if k > 0 then LogRun r sc actor k else retM ())
      (\<lambda>_. wp (if fin then retM (Some (m + k)) else reembedAll r sc actor n fuel (m + k)) ?Q (\<lambda>_ _. False)) (\<lambda>_ _. False) t"
    if p: "progressed r sc K rows d0 w (k, tbl, fin) t" for k tbl fin t
  proof (cases "k = 0")
    case True
    then show ?thesis using p by (auto simp: progressed_def wp_simps logged_def)
  next
    case False
    have t: "holds ?P None t" using p by (simp add: progressed_def)
    have "wp (LogRun r sc actor k) (\<lambda>_. wp (reembedAll r sc actor n fuel (m + k)) ?Q (\<lambda>_ _. False)) (\<lambda>_ _. False) t"
      using False p by (intro wp_mono [OF wp_LogRun [OF t]]) (auto simp: progressed_def intro: again)
    then show ?thesis using False p by (simp add: progressed_def)
  qed
  show ?case
    unfolding reembedAll.simps wp_bindM split_def
  proof (rule wp_mono [OF wp_Continue [OF Suc.prems(1) assms(2)]])
    fix x t
    assume "progressed r sc K rows d0 w x t"
    then have "progressed r sc K rows d0 w (fst x, fst (snd x), snd (snd x)) t" by simp
    from log [OF this] show "wp (if fst x > 0 then LogRun r sc actor (fst x) else retM ())
      (\<lambda>_. wp (if snd (snd x) then retM (Some (m + fst x)) else reembedAll r sc actor n fuel (m + fst x)) ?Q (\<lambda>_ _. False)) (\<lambda>_ _. False) t" .
  qed simp
qed simp



end
