(* ===== verification/Auth.thy ===== *)
theory Auth
  imports Entities
begin

text \<open>
  Identities and the credentials of operators (\<open>internal/auth/auth.go\<close>), and the command that provisions them
  (\<open>cmd/hupi-admin/main.go\<close>). SHA-256 and bcrypt are fields of a record. The interface for API keys and
  team membership has no implementation in the repository.
\<close>

declare One_nat_def [simp del]

record auth =
  auth_aead :: aead
  auth_sha256 :: "string \<Rightarrow> bytes"
  bcrypt_generate :: "bytes \<Rightarrow> string \<Rightarrow> string option"   \<comment> \<open>from a salt; None is an error\<close>
  bcrypt_compare :: "string \<Rightarrow> string \<Rightarrow> bool"

definition hashKey :: "auth \<Rightarrow> string \<Rightarrow> string" where
  "hashKey a raw = hex_EncodeToString (auth_sha256 a raw)"

definition generateToken :: "string \<Rightarrow> string proc" where
  "generateToken prefix = bindM (rand_read 24) (\<lambda>buf. retM (prefix @ hex_EncodeToString buf))"

definition GenerateOperatorToken :: "string proc" where
  "GenerateOperatorToken = generateToken ''hupi_op_''"

section \<open>Users and teams\<close>

text \<open>The inserts end in \<open>on conflict (id) do nothing\<close>.\<close>

definition insert_user :: "string \<Rightarrow> string \<Rightarrow> world \<Rightarrow> database \<Rightarrow> database" where
  "insert_user userID email w d =
     (if userID \<in> us_id ` set (users d) then d
      else d\<lparr>users := users d @ [\<lparr>us_id = userID, us_email = Nullable email, us_created_at = clock w, us_password_hash = None\<rparr>]\<rparr>)"

definition CreateUser :: "aead \<Rightarrow> string \<Rightarrow> string \<Rightarrow> unit proc" where
  "CreateUser A userID email =
     bindM (exec (insert_user userID email)) (\<lambda>_.
     bindM (GetOrCreate A (Scope ScopeKindPrivate userID)) (\<lambda>_. retM ()))"

definition insert_team :: "string \<Rightarrow> string \<Rightarrow> world \<Rightarrow> database \<Rightarrow> database" where
  "insert_team teamID name w d =
     (if teamID \<in> tm_id ` set (teams d) then d
      else d\<lparr>teams := teams d @ [\<lparr>tm_id = teamID, tm_name = name, tm_created_at = clock w\<rparr>]\<rparr>)"

definition CreateTeam :: "aead \<Rightarrow> string \<Rightarrow> string \<Rightarrow> unit proc" where
  "CreateTeam A teamID name =
     bindM (exec (insert_team teamID name)) (\<lambda>_.
     bindM (GetOrCreate A (Scope ScopeKindShared teamID)) (\<lambda>_. retM ()))"

record User =
  User_ID :: string
  User_Email :: string
  User_CreatedAt :: time

definition ListUsers :: "User list proc" where
  "ListUsers = query (\<lambda>w. map (\<lambda>u. \<lparr>User_ID = us_id u, User_Email = (case us_email u of None \<Rightarrow> [] | Some e \<Rightarrow> e),
     User_CreatedAt = us_created_at u\<rparr>) (sort_key us_created_at (users (db w))))"

definition ListTeams :: "team list proc" where
  "ListTeams = query (\<lambda>w. sort_key tm_created_at (teams (db w)))"

section \<open>Passwords\<close>

definition SetPassword :: "auth \<Rightarrow> string \<Rightarrow> string \<Rightarrow> unit proc" where
  "SetPassword a userID password =
     bindM (rand_read 16) (\<lambda>salt. case bcrypt_generate a salt password of
       None \<Rightarrow> errM ErrPasswordHash
     | Some h \<Rightarrow>
       bindM (exec_ret (\<lambda>_ d. d\<lparr>users := update_where (\<lambda>u. us_id u = userID) (\<lambda>u. u\<lparr>us_password_hash := Some h\<rparr>) (users d)\<rparr>)
                (\<lambda>w. length (filter (\<lambda>u. us_id u = userID) (users (db w))))) (\<lambda>n.
       if n = 0 then errM ErrNoSuchUser else retM ()))"

text \<open>The hash stays invalid when the scan fails, whatever the error.\<close>

definition VerifyPassword :: "auth \<Rightarrow> string \<Rightarrow> string \<Rightarrow> unit proc" where
  "VerifyPassword a userID password =
     tryM (query_row (\<lambda>w. map us_password_hash (filter (\<lambda>u. us_id u = userID) (users (db w))))) (\<lambda>res.
       let hash = (case res of Inl _ \<Rightarrow> None | Inr h \<Rightarrow> h) in
       if res = Inl ErrNoRows \<or> hash = None then errM ErrInvalidPassword
       else case res of Inl e \<Rightarrow> errM e
         | Inr _ \<Rightarrow> if bcrypt_compare a (the hash) password then retM () else errM ErrInvalidPassword)"

section \<open>Operators\<close>

definition insert_operator :: "string \<Rightarrow> string \<Rightarrow> world \<Rightarrow> database \<Rightarrow> database option" where
  "insert_operator name tokenHash w d =
     (if name \<in> op_name ` set (operators d) \<or> tokenHash \<in> op_token_hash ` set (operators d) then None
      else Some (d\<lparr>operators := operators d @ [\<lparr>op_name = name, op_token_hash = tokenHash, op_created_at = clock w,
             op_revoked_at = None\<rparr>]\<rparr>))"

definition CreateOperator :: "auth \<Rightarrow> string \<Rightarrow> string proc" where
  "CreateOperator a name =
     bindM GenerateOperatorToken (\<lambda>rawToken.
     bindM (exec_check (insert_operator name (hashKey a rawToken))) (\<lambda>_. retM rawToken))"

definition ResolveOperator :: "auth \<Rightarrow> string \<Rightarrow> string proc" where
  "ResolveOperator a rawToken =
     tryM (query_row (\<lambda>w. map op_name (filter (\<lambda>o'. op_token_hash o' = hashKey a rawToken \<and> op_revoked_at o' = None)
       (operators (db w))))) (\<lambda>res. case res of
       Inr name \<Rightarrow> retM name
     | Inl e \<Rightarrow> errM (if e = ErrNoRows then ErrInvalidOperator else e))"

definition ListOperators :: "operator list proc" where
  "ListOperators = query (\<lambda>w. sort_key op_created_at (operators (db w)))"

definition RevokeOperator :: "string \<Rightarrow> unit proc" where
  "RevokeOperator name = exec (\<lambda>w d. d\<lparr>operators := update_where (\<lambda>o'. op_name o' = name \<and> op_revoked_at o' = None)
     (\<lambda>o'. o'\<lparr>op_revoked_at := Some (clock w)\<rparr>) (operators d)\<rparr>)"

section \<open>The command\<close>

datatype admin_command =
    Create_user string string
  | Set_password string string string    \<comment> \<open>the user, the flag, and what standard input holds\<close>
  | Create_team string string
  | Add_member
  | Create_key
  | Create_operator string
  | Revoke_operator string
  | Unknown_subcommand

definition EventAdminProvision :: string where "EventAdminProvision = ''admin_provision''"

definition logAdminAction :: "string \<Rightarrow> scope \<Rightarrow> string \<Rightarrow> (string \<times> jval) list \<Rightarrow> unit proc" where
  "logAdminAction actor sc action detail =
     tryM (LogStandalone \<lparr>EventType = EventAdminProvision, Actor = actor, ActingScope = sc, WorkspaceScope = sc, TargetRef = None,
       Detail = (''action'', JStr action) # detail\<rparr>) (\<lambda>_. retM ())"

text \<open>The password of the flag, or else the first line of the input, which must end in a newline.\<close>

definition password_arg :: "string \<Rightarrow> string \<Rightarrow> string option" where
  "password_arg flag input =
     (if flag \<noteq> [] then Some flag
      else if CHR 0x0A \<notin> set input then None
      else let line = takeWhile (\<lambda>c. c \<noteq> CHR 0x0A) input in Some (rev (dropWhile (\<lambda>c. c = CHR 0x0D) (rev line))))"

text \<open>Returns the token that is printed, if any. The build without the extension of the third tier refuses two subcommands.\<close>

fun hupi_admin :: "auth \<Rightarrow> string \<Rightarrow> admin_command \<Rightarrow> string option proc" where
  "hupi_admin a actor (Create_user i email) =
     (if i = [] then errM ErrUsage
      else bindM (CreateUser (auth_aead a) i email) (\<lambda>_.
        bindM (logAdminAction actor (Scope ScopeKindPrivate i) ''create-user'' [(''user_id'', JStr i)]) (\<lambda>_. retM None)))"
| "hupi_admin a actor (Set_password user flag input) =
     (if user = [] then errM ErrUsage
      else case password_arg flag input of None \<Rightarrow> errM ErrIO
      | Some pw \<Rightarrow> if pw = [] then errM ErrUsage
          else bindM (SetPassword a user pw) (\<lambda>_.
            bindM (logAdminAction actor (Scope ScopeKindPrivate user) ''set-password'' [(''user_id'', JStr user)]) (\<lambda>_. retM None)))"
| "hupi_admin a actor (Create_team i name) =
     (if i = [] \<or> name = [] then errM ErrUsage
      else bindM (CreateTeam (auth_aead a) i name) (\<lambda>_.
        bindM (logAdminAction actor (Scope ScopeKindShared i) ''create-team'' [(''team_id'', JStr i), (''name'', JStr name)]) (\<lambda>_. retM None)))"
| "hupi_admin a actor Add_member = errM ErrUsage"
| "hupi_admin a actor Create_key = errM ErrUsage"
| "hupi_admin a actor (Create_operator name) =
     (if name = [] then errM ErrUsage
      else bindM (CreateOperator a name) (\<lambda>rawToken.
        bindM (logAdminAction actor DefaultScope ''create-operator'' [(''operator_name'', JStr name)]) (\<lambda>_. retM (Some rawToken))))"
| "hupi_admin a actor (Revoke_operator name) =
     (if name = [] then errM ErrUsage
      else bindM (RevokeOperator name) (\<lambda>_.
        bindM (logAdminAction actor DefaultScope ''revoke-operator'' [(''operator_name'', JStr name)]) (\<lambda>_. retM None)))"
| "hupi_admin a actor Unknown_subcommand = errM ErrUsage"

end
