(* ===== verification/Demo.thy ===== *)
theory Demo
  imports Runner Rotate Auth
begin

text \<open>
  The public demo (\<open>internal/demo/store.go\<close>, \<open>internal/demo/ratelimit.go\<close>): guest sessions with caps on messages, consolidations and sessions per day,
  the sweep that erases expired guests, and the limiter per client address. Durations are in
  microseconds, as times are.
\<close>

declare One_nat_def [simp del]

section \<open>The store\<close>

record Limits =
  SessionTTL :: time
  MaxMessagesPerSession :: nat
  MaxConsolidatesPerSession :: nat
  MaxSessionsPerDay :: nat

definition hours :: "int \<Rightarrow> time" where "hours n = n * 3600000000"

definition DefaultLimits :: Limits where
  "DefaultLimits = \<lparr>SessionTTL = hours 3, MaxMessagesPerSession = 18, MaxConsolidatesPerSession = 3, MaxSessionsPerDay = 150\<rparr>"

definition capWindow :: time where "capWindow = hours 24"

text \<open>\<open>hashToken\<close> is the hex form of \<open>crypto/sha256\<close>, a field here.\<close>

record demo_store =
  demo_runner :: runner
  limits :: Limits
  hashToken :: "string \<Rightarrow> string"

definition randomHex :: "nat \<Rightarrow> string proc" where
  "randomHex n = bindM (rand_read n) (\<lambda>buf. retM (hex_EncodeToString buf))"

definition guest_scope :: "string \<Rightarrow> scope" where
  "guest_scope guestID = Scope ScopeKindPrivate guestID"

record Session =
  Token :: string
  GuestUserID :: string
  ExpiresAt :: time
  MessagesRemaining :: nat

definition recent_sessions :: "time \<Rightarrow> database \<Rightarrow> demo_session list" where
  "recent_sessions cutoff d = filter (\<lambda>s. ds_created_at s > cutoff) (demo_sessions d)"

text \<open>The insert: the primary key and the foreign key of the guest.\<close>

definition insert_session :: "string \<Rightarrow> string \<Rightarrow> time \<Rightarrow> world \<Rightarrow> database \<Rightarrow> database option" where
  "insert_session tokenHash guestID expiresAt w d =
     (if tokenHash \<in> ds_token_hash ` set (demo_sessions d) \<or> guestID \<notin> us_id ` set (users d) then None
      else Some (d\<lparr>demo_sessions := demo_sessions d @ [\<lparr>ds_token_hash = tokenHash, ds_guest_user_id = Some guestID,
             ds_created_at = clock w, ds_expires_at = expiresAt, ds_message_count = 0, ds_consolidate_count = 0\<rparr>]\<rparr>))"

definition CreateSession :: "demo_store \<Rightarrow> Session proc" where
  "CreateSession st = with_lock (
     bindM (query (\<lambda>w. length (recent_sessions (clock w - capWindow) (db w)))) (\<lambda>count.
     if count \<ge> MaxSessionsPerDay (limits st) then errM ErrDailySessionCapReached
     else bindM (randomHex 8) (\<lambda>guestSuffix.
       let guestID = ''user:demo-'' @ guestSuffix in
       bindM (CreateUser (run_aead (demo_runner st)) guestID []) (\<lambda>_.
       bindM (randomHex 24) (\<lambda>tokenSuffix.
       let rawToken = ''hupi_demo_'' @ tokenSuffix in
       bindM (getM (\<lambda>w. clock w + SessionTTL (limits st))) (\<lambda>expiresAt.
       bindM (exec_check (insert_session (hashToken st rawToken) guestID expiresAt)) (\<lambda>_.
       retM \<lparr>Token = rawToken, GuestUserID = guestID, ExpiresAt = expiresAt,
             MessagesRemaining = MaxMessagesPerSession (limits st)\<rparr>)))))))"

text \<open>\<open>update ... where ... returning guest_user_id\<close>, scanned into a string.\<close>

definition update_session :: "(world \<Rightarrow> demo_session \<Rightarrow> bool) \<Rightarrow> (demo_session \<Rightarrow> demo_session) \<Rightarrow> string proc" where
  "update_session P f =
     bindM (exec_ret (\<lambda>w d. d\<lparr>demo_sessions := update_where (P w) f (demo_sessions d)\<rparr>)
              (\<lambda>w. map ds_guest_user_id (filter (P w) (demo_sessions (db w))))) (\<lambda>ids. case ids of
       [] \<Rightarrow> errM ErrNoRows
     | None # _ \<Rightarrow> errM ErrDb
     | Some g # _ \<Rightarrow> retM g)"

definition demo_Resolve :: "demo_store \<Rightarrow> string \<Rightarrow> identity proc" where
  "demo_Resolve st rawToken =
     tryM (update_session (\<lambda>w s. ds_token_hash s = hashToken st rawToken \<and> ds_expires_at s > clock w
               \<and> ds_message_count s < MaxMessagesPerSession (limits st))
             (\<lambda>s. s\<lparr>ds_message_count := ds_message_count s + 1\<rparr>)) (\<lambda>res. case res of
       Inr guestID \<Rightarrow> retM \<lparr>UserID = guestID, TeamIDs = []\<rparr>
     | Inl e \<Rightarrow> errM (if e = ErrNoRows then ErrSessionInvalid else e))"

definition session_expired :: "demo_store \<Rightarrow> string \<Rightarrow> bool proc" where
  "session_expired st rawToken = query_row (\<lambda>w. map (\<lambda>s. ds_expires_at s < clock w)
     (filter (\<lambda>s. ds_token_hash s = hashToken st rawToken) (demo_sessions (db w))))"

text \<open>A failed lookup leaves \<open>expired\<close> false.\<close>

definition ConsolidateNow :: "demo_store \<Rightarrow> string \<Rightarrow> unit proc" where
  "ConsolidateNow st rawToken =
     tryM (update_session (\<lambda>w s. ds_token_hash s = hashToken st rawToken \<and> ds_expires_at s > clock w
               \<and> ds_consolidate_count s < MaxConsolidatesPerSession (limits st))
             (\<lambda>s. s\<lparr>ds_consolidate_count := ds_consolidate_count s + 1\<rparr>)) (\<lambda>res. case res of
       Inr guestID \<Rightarrow> bindM (getM clock) (\<lambda>now. RunDaily (demo_runner st) (guest_scope guestID) now)
     | Inl e \<Rightarrow> if e \<noteq> ErrNoRows then errM e
         else tryM (session_expired st rawToken) (\<lambda>found. case found of
                Inl e' \<Rightarrow> errM (if e' = ErrNoRows then ErrSessionInvalid else ErrConsolidateLimitReached)
              | Inr expired \<Rightarrow> errM (if expired then ErrSessionInvalid else ErrConsolidateLimitReached)))"

section \<open>The sweep\<close>

definition delete_relationships :: "scope \<Rightarrow> database \<Rightarrow> database" where
  "delete_relationships sc d = d\<lparr>entity_relationships := filter (\<lambda>e. rel_scope e \<noteq> sc) (entity_relationships d)\<rparr>"

text \<open>A delete fails when a row that stays refers to one that goes; key facts go with their summary.\<close>

definition delete_episodes :: "scope \<Rightarrow> database \<Rightarrow> database option" where
  "delete_episodes sc d =
     (let gone = filter (\<lambda>e. ep_scope e = sc) (episodes d); rest = filter (\<lambda>e. ep_scope e \<noteq> sc) (episodes d) in
      if list_ex (\<lambda>e. list_ex (\<lambda>g. ep_refers_to e = Some (ep_id g) \<or> ep_supersedes e = Some (ep_id g)) gone) rest then None
      else Some (d\<lparr>episodes := rest\<rparr>))"

definition delete_summaries :: "scope \<Rightarrow> database \<Rightarrow> database option" where
  "delete_summaries sc d =
     (let gone = map sum_id (filter (\<lambda>s. sum_scope s = sc) (summaries d)); rest = filter (\<lambda>s. sum_scope s \<noteq> sc) (summaries d) in
      if list_ex (\<lambda>s. list_ex (\<lambda>i. sum_supersedes s = Some i) gone) rest
         \<or> list_ex (\<lambda>e. list_ex (\<lambda>i. rel_source_summary_id e = Some i) gone) (entity_relationships d) then None
      else Some (d\<lparr>summaries := rest, summary_key_facts := filter (\<lambda>f. kf_summary_id f \<notin> set gone) (summary_key_facts d)\<rparr>))"

definition delete_entities :: "scope \<Rightarrow> database \<Rightarrow> database option" where
  "delete_entities sc d =
     (if list_ex (\<lambda>e. rel_scope e = sc \<and> list_ex (\<lambda>x. en_scope x = sc \<and> (en_id x = rel_subject_id e \<or> en_id x = rel_object_id e))
           (entities d)) (entity_relationships d) then None
      else Some (d\<lparr>entities := filter (\<lambda>e. en_scope e \<noteq> sc) (entities d)\<rparr>))"

definition delete_user :: "string \<Rightarrow> database \<Rightarrow> database" where   \<comment> \<open>\<open>on delete set null\<close>\<close>
  "delete_user userID d = d\<lparr>users := filter (\<lambda>u. us_id u \<noteq> userID) (users d), demo_sessions := update_where
     (\<lambda>s. ds_guest_user_id s = Some userID) (\<lambda>s. s\<lparr>ds_guest_user_id := None\<rparr>) (demo_sessions d)\<rparr>"

definition deleteGuest :: "string \<Rightarrow> unit proc" where
  "deleteGuest guestID = (let sc = guest_scope guestID in Run sc sc (
     bindM (exec (\<lambda>_. delete_relationships sc)) (\<lambda>_.
     bindM (exec_check (\<lambda>_. delete_episodes sc)) (\<lambda>_.
     bindM (exec_check (\<lambda>_. delete_summaries sc)) (\<lambda>_.
     bindM (exec_check (\<lambda>_. delete_entities sc)) (\<lambda>_.
     bindM (exec (\<lambda>_ d. d\<lparr>scope_keys := filter (\<lambda>k. sk_scope k \<noteq> sc) (scope_keys d)\<rparr>)) (\<lambda>_.
     exec (\<lambda>_. delete_user guestID))))))))"

definition expired_guests :: "time \<Rightarrow> world \<Rightarrow> string list" where
  "expired_guests cutoff w = List.map_filter ds_guest_user_id
     (filter (\<lambda>s. ds_guest_user_id s \<noteq> None \<and> (ds_expires_at s < clock w \<or> ds_created_at s < cutoff)) (demo_sessions (db w)))"

definition Sweep :: "time \<Rightarrow> nat proc" where
  "Sweep hardBackstopAge =
     bindM (query (\<lambda>w. expired_guests (clock w - hardBackstopAge) w)) (\<lambda>guestIDs.
     bindM (forM deleteGuest guestIDs) (\<lambda>_.
     bindM (exec (\<lambda>w d. d\<lparr>demo_sessions := filter (\<lambda>s. \<not> ds_created_at s < clock w - capWindow) (demo_sessions d)\<rparr>)) (\<lambda>_.
     retM (length guestIDs))))"

section \<open>The limiter per client address\<close>

record IPRateLimiter =
  rl_max :: nat
  window :: time
  seen :: "string \<Rightarrow> time list"      \<comment> \<open>an address without an entry has none\<close>

definition NewIPRateLimiter :: "nat \<Rightarrow> time \<Rightarrow> IPRateLimiter" where
  "NewIPRateLimiter m win = \<lparr>rl_max = m, window = win, seen = (\<lambda>_. [])\<rparr>"

definition Allow :: "string \<Rightarrow> time \<Rightarrow> IPRateLimiter \<Rightarrow> bool \<times> IPRateLimiter" where
  "Allow ip now l =
     (let cutoff = now - window l; kept = filter (\<lambda>t. t > cutoff) (seen l ip) @ [now]
      in (length kept \<le> rl_max l, l\<lparr>seen := (seen l)(ip := kept)\<rparr>))"

end
