(* ===== verification/Demo_Correct.thy ===== *)
theory Demo_Correct
  imports Demo Runner_Correct Rotate_Run
begin

text \<open>
  The caps of the public demo hold over every history of requests, sweeps, faults and process
  restarts, and a sweep erases what it has to and nothing else. Requests are steps on the shared
  database; \<open>CreateSession\<close> is one step because it holds its advisory lock from the count to the insert.
\<close>

declare One_nat_def [simp del]

section \<open>Time stands still during a statement\<close>

text \<open>No operation moves the clock of the model; the steps of the environment do.\<close>

definition timeless :: "'a proc \<Rightarrow> bool" where
  "timeless m \<longleftrightarrow> (\<forall>w. clock (snd (m w)) = clock w)"

named_theorems timeless_intro

lemma timeless_basic [timeless_intro]:
  "timeless (retM x)" "timeless (errM e)" "timeless (liftM r)" "timeless (getM f)" "timeless (query f)"
  "timeless (rand_read n)" "timeless (exec g)" "timeless (exec_ret g f)" "timeless (exec_auto g)"
  "timeless (store_enc k enc)" "timeless (cached k)"
  by (auto simp: timeless_def retM_def errM_def liftM_def getM_def query_def rand_read_def exec_def exec_ret_def
      exec_auto_def store_enc_def cached_def modM_def split: fault.splits)

lemma timeless_bind [timeless_intro]: "timeless m \<Longrightarrow> (\<And>x. timeless (k x)) \<Longrightarrow> timeless (bindM m k)"
  unfolding timeless_def bindM_def by (auto split: prod.splits sum.splits) (metis snd_conv)+

lemma timeless_try [timeless_intro]: "timeless m \<Longrightarrow> (\<And>x. timeless (k x)) \<Longrightarrow> timeless (tryM m k)"
  unfolding timeless_def tryM_def by (auto split: prod.splits) (metis snd_conv)+

lemma timeless_exec_check [timeless_intro]: "timeless (exec_check f)"
  by (auto simp: timeless_def exec_check_def exec_def split: option.splits fault.splits)

lemma timeless_split [timeless_intro]:
  "timeless m \<Longrightarrow> timeless m' \<Longrightarrow> timeless (if b then m else m')"
  "timeless m \<Longrightarrow> (\<And>x. timeless (k x)) \<Longrightarrow> timeless (case z of None \<Rightarrow> m | Some x \<Rightarrow> k x)"
  "(\<And>e. timeless (h e)) \<Longrightarrow> (\<And>x. timeless (k x)) \<Longrightarrow> timeless (case y of Inl e \<Rightarrow> h e | Inr x \<Rightarrow> k x)"
  "timeless m \<Longrightarrow> (\<And>x l. timeless (q x l)) \<Longrightarrow> timeless (case xs of [] \<Rightarrow> m | x # l \<Rightarrow> q x l)"
  by (auto split: option.split sum.split list.split)

lemma timeless_query_row [timeless_intro]: "timeless (query_row f)"
  unfolding query_row_def by (intro timeless_intro)

lemma timeless_forM [timeless_intro]: "(\<And>x. timeless (f x)) \<Longrightarrow> timeless (forM f xs)"
  by (induction xs) (simp_all add: timeless_intro)

lemma timeless_Run [timeless_intro]:
  assumes "timeless fn"
  shows "timeless (Run a ws fn)"
proof -
  have "timeless (bindM begin_tx (\<lambda>_. bindM (SetSession a ws) (\<lambda>_. bindM fn (\<lambda>x. bindM commit (\<lambda>_. retM x)))))"
    using assms by (intro timeless_bind timeless_basic)
      (auto simp: timeless_def begin_tx_def SetSession_def bindM_def query_def modM_def commit_def split: fault.splits)
  moreover have "clock (rollback w) = clock w" for w by (simp add: rollback_def split: option.splits)
  ultimately show ?thesis
    unfolding timeless_def Run_def by (auto split: prod.splits sum.splits) (metis snd_conv)+
qed

lemma timeless_GetOrCreate [timeless_intro]: "timeless (GetOrCreate A sc)"
  unfolding GetOrCreate_def CurrentVersion_def createVersion_def persist_version_def GenerateDEK_def WrapDEK_def
    Encrypt_def GetVersion_def unwrap_def
  by (intro timeless_intro)

text \<open>A step outside a transaction that keeps a view of the database and the clock.\<close>

definition still :: "(database \<Rightarrow> 'v) \<Rightarrow> world \<Rightarrow> world \<Rightarrow> bool" where
  "still F w t \<longleftrightarrow> clock t = clock w \<and> tx t = None \<and> F (db t) = F (db w)"

lemma wp_still:
  assumes "keeps (unchanged F) None m" "timeless m" "tx w = None"
  shows "wp m (\<lambda>_. still F w) (\<lambda>_. still F w) w"
proof (cases "m w")
  case (Pair r t)
  have "clock t = clock w" using assms(2) Pair unfolding timeless_def by (metis snd_conv)
  moreover have "tx t = None" "F (db t) = F (db w)"
    using keepsD [OF assms(1) _ Pair] assms(3) by (simp_all add: unchanged_def)
  ultimately show ?thesis using Pair by (simp add: wp_def still_def split: sum.splits)
qed

lemma wp_query_then:
  assumes "E ErrDb (tick w)" "wp (k (f w)) Q E (tick w)"
  shows "wp (bindM (query f) k) Q E w"
  using assms by (simp add: wp_bindM wp_query)

section \<open>What the operations do to the sessions\<close>

interpretation sessions_kept: key_order "unchanged demo_sessions" sc
  by unfold_locales (simp add: unchanged_def insert_key_def)

lemma CreateUser_still: "tx w = None \<Longrightarrow> wp (CreateUser A u m) (\<lambda>_. still demo_sessions w) (\<lambda>_. still demo_sessions w) w"
  unfolding CreateUser_def insert_user_def
  by (intro wp_still unchanged.bind unchanged.statement sessions_kept.GetOrCreate unchanged.ret timeless_intro)
    (auto simp: unchanged_def)

definition session_added :: "demo_store \<Rightarrow> database \<Rightarrow> time \<Rightarrow> database \<Rightarrow> bool" where
  "session_added st d c d' \<longleftrightarrow> length (recent_sessions (c - capWindow) d) < MaxSessionsPerDay (limits st)
   \<and> (\<exists>s. demo_sessions d' = demo_sessions d @ [s] \<and> ds_created_at s = c \<and> ds_message_count s = 0 \<and> ds_consolidate_count s = 0
        \<and> ds_token_hash s \<notin> ds_token_hash ` set (demo_sessions d))"

lemma CreateSession_adds:
  assumes "tx w = None"
  shows "wp (CreateSession st) (\<lambda>_ t. session_added st (db w) (clock w) (db t))
    (\<lambda>_ t. session_added st (db w) (clock w) (db t) \<or> demo_sessions (db t) = demo_sessions (db w)) w"
proof -
  let ?Q = "\<lambda>_ t. session_added st (db w) (clock w) (db t)"
  let ?E = "\<lambda>_ t. session_added st (db w) (clock w) (db t) \<or> demo_sessions (db t) = demo_sessions (db w)"
  have same: "?E e t" if "demo_sessions (db t) = demo_sessions (db w)" for e t
    using that by simp
  have user: "wp (CreateUser A u m) (\<lambda>_. still demo_sessions w) (\<lambda>_. still demo_sessions w) t" if "still demo_sessions w t" for A u m t
    using that by (intro wp_mono [OF CreateUser_still]) (auto simp: still_def)
  have ins: "wp (exec_check (insert_session h g e)) ?Q ?E t"
    if "still demo_sessions w t" "length (recent_sessions (clock w - capWindow) (db w)) < MaxSessionsPerDay (limits st)" for h g e t
    using that by (auto simp: wp_simps insert_session_def still_def session_added_def split: fault.splits option.splits if_splits)
  have body: "wp (bindM (randomHex 8) (\<lambda>guestSuffix. let guestID = ''user:demo-'' @ guestSuffix in
       bindM (CreateUser A guestID []) (\<lambda>_. bindM (randomHex 24) (\<lambda>tokenSuffix. let rawToken = ''hupi_demo_'' @ tokenSuffix in
       bindM (getM (\<lambda>w. clock w + SessionTTL (limits st))) (\<lambda>expiresAt.
       bindM (exec_check (insert_session (hashToken st rawToken) guestID expiresAt)) (\<lambda>_.
       retM (sess rawToken guestID expiresAt))))))) ?Q ?E t"
    if t: "still demo_sessions w t" "length (recent_sessions (clock w - capWindow) (db w)) < MaxSessionsPerDay (limits st)"
    for A sess t
  proof -
    have rest: "wp (bindM (randomHex 24) (\<lambda>tokenSuffix. let rawToken = ''hupi_demo_'' @ tokenSuffix in
       bindM (getM (\<lambda>w. clock w + SessionTTL (limits st))) (\<lambda>expiresAt.
       bindM (exec_check (insert_session (hashToken st rawToken) g expiresAt)) (\<lambda>_.
       retM (sess rawToken g expiresAt))))) ?Q ?E u" if u: "still demo_sessions w u" for g u
    proof -
      have "still demo_sessions w (u\<lparr>rand_pos := n\<rparr>)" for n using u by (simp add: still_def)
      then show ?thesis
        using ins [OF _ t(2)] same [of u] u by (simp add: randomHex_def wp_bindM wp_rand_read wp_retM wp_getM still_def Let_def)
    qed
    have "still demo_sessions w (t\<lparr>rand_pos := n\<rparr>)" for n using t by (simp add: still_def)
    then show ?thesis
      using same t rest by (auto simp: randomHex_def wp_bindM wp_rand_read wp_retM Let_def still_def
          intro!: wp_mono [OF user])
  qed
  have t: "still demo_sessions w (tick (tick (tick w)))" using assms by (simp add: still_def)
  show ?thesis
    unfolding CreateSession_def
  proof (intro wp_with_lock wp_query_then)
    show "wp (if MaxSessionsPerDay (limits st) \<le> length (recent_sessions (clock (tick (tick w)) - capWindow) (db (tick (tick w))))
       then errM ErrDailySessionCapReached
       else bindM (randomHex 8) (\<lambda>guestSuffix. let guestID = ''user:demo-'' @ guestSuffix in
         bindM (CreateUser (run_aead (demo_runner st)) guestID []) (\<lambda>_.
         bindM (randomHex 24) (\<lambda>tokenSuffix. let rawToken = ''hupi_demo_'' @ tokenSuffix in
         bindM (getM (\<lambda>w. clock w + SessionTTL (limits st))) (\<lambda>expiresAt.
         bindM (exec_check (insert_session (hashToken st rawToken) guestID expiresAt)) (\<lambda>_.
         retM \<lparr>Token = rawToken, GuestUserID = guestID, ExpiresAt = expiresAt,
             MessagesRemaining = MaxMessagesPerSession (limits st)\<rparr>)))))) ?Q ?E (tick (tick (tick w)))" (is "wp (if ?full then _ else _) _ _ _")
    proof (cases ?full)
      case True
      then show ?thesis using same [of w] by (simp add: wp_errM)
    next
      case False
      show ?thesis unfolding if_not_P [OF False] by (rule body [OF t]) (use False in simp)
    qed
  qed (simp_all add: same)
qed

text \<open>A request on a session changes rows by its condition, at most once, and nothing else.\<close>

definition updated_rows :: "(demo_session \<Rightarrow> bool) \<Rightarrow> (demo_session \<Rightarrow> demo_session) \<Rightarrow> database \<Rightarrow> database \<Rightarrow> bool" where
  "updated_rows P f d d' \<longleftrightarrow> demo_sessions d' = update_where P f (demo_sessions d)"

lemma update_session_rows:
  assumes "tx w = None"
  shows "wp (update_session P f)
    (\<lambda>_ t. tx t = None \<and> calls t = calls w \<and> updated_rows (P w) f (db w) (db t) \<and> filter (P w) (demo_sessions (db w)) \<noteq> [])
    (\<lambda>_ t. tx t = None \<and> calls t = calls w
       \<and> (updated_rows (P w) f (db w) (db t) \<or> demo_sessions (db t) = demo_sessions (db w))) w"
proof -
  have "update_where (P w) f (demo_sessions (db w)) = demo_sessions (db w)" if "filter (P w) (demo_sessions (db w)) = []"
    using that by (auto simp: filter_empty_conv intro: update_where_none)
  then show ?thesis
    using assms unfolding update_session_def
    by (auto simp: wp_simps updated_rows_def split: fault.splits list.splits option.splits)
qed

text \<open>The conditions and the effects of the two requests.\<close>

definition may_chat :: "demo_store \<Rightarrow> string \<Rightarrow> time \<Rightarrow> demo_session \<Rightarrow> bool" where
  "may_chat st h now s \<longleftrightarrow> ds_token_hash s = h \<and> ds_expires_at s > now \<and> ds_message_count s < MaxMessagesPerSession (limits st)"

definition may_consolidate :: "demo_store \<Rightarrow> string \<Rightarrow> time \<Rightarrow> demo_session \<Rightarrow> bool" where
  "may_consolidate st h now s \<longleftrightarrow>
     ds_token_hash s = h \<and> ds_expires_at s > now \<and> ds_consolidate_count s < MaxConsolidatesPerSession (limits st)"

abbreviation one_message :: "demo_session \<Rightarrow> demo_session" where
  "one_message s \<equiv> s\<lparr>ds_message_count := ds_message_count s + 1\<rparr>"

abbreviation one_consolidation :: "demo_session \<Rightarrow> demo_session" where
  "one_consolidation s \<equiv> s\<lparr>ds_consolidate_count := ds_consolidate_count s + 1\<rparr>"

lemma Resolve_rows:
  assumes "tx w = None"
  shows "wp (demo_Resolve st tok)
    (\<lambda>_ t. updated_rows (may_chat st (hashToken st tok) (clock w)) one_message (db w) (db t)
       \<and> filter (may_chat st (hashToken st tok) (clock w)) (demo_sessions (db w)) \<noteq> [])
    (\<lambda>_ t. updated_rows (may_chat st (hashToken st tok) (clock w)) one_message (db w) (db t)
       \<or> demo_sessions (db t) = demo_sessions (db w)) w"
  unfolding demo_Resolve_def wp_tryM may_chat_def [symmetric]
  by (rule wp_mono [OF update_session_rows [OF assms]]) (auto simp: wp_simps)

lemma RunDaily_sessions:
  assumes "tx w = None"
  shows "wp (RunDaily r sc date) (\<lambda>_ t. demo_sessions (db t) = demo_sessions (db w)) (\<lambda>_ t. demo_sessions (db t) = demo_sessions (db w)) w"
proof -
  have "demo_sessions d = demo_sessions (elsewhere sc d)" for d by (simp add: elsewhere_def)
  then show ?thesis
    using keeps_wp [OF isolation.RunDaily [where r = r and sc = sc and date = date], of w] assms by (auto simp: unchanged_def elim!: wp_mono) metis+
qed

text \<open>A consolidation that reaches a model has been counted before.\<close>

lemma ConsolidateNow_rows:
  assumes "tx w = None"
  shows "wp (ConsolidateNow st tok)
    (\<lambda>_ t. updated_rows (may_consolidate st (hashToken st tok) (clock w)) one_consolidation (db w) (db t)
       \<and> filter (may_consolidate st (hashToken st tok) (clock w)) (demo_sessions (db w)) \<noteq> [])
    (\<lambda>_ t. updated_rows (may_consolidate st (hashToken st tok) (clock w)) one_consolidation (db w) (db t)
         \<and> filter (may_consolidate st (hashToken st tok) (clock w)) (demo_sessions (db w)) \<noteq> []
       \<or> calls t = calls w \<and> (updated_rows (may_consolidate st (hashToken st tok) (clock w)) one_consolidation (db w) (db t)
         \<or> demo_sessions (db t) = demo_sessions (db w))) w" (is "wp _ ?Q ?E w")
proof -
  let ?P = "may_consolidate st (hashToken st tok) (clock w)"
  have run: "wp (RunDaily r sc date) ?Q ?E t"
    if "tx t = None" "updated_rows ?P one_consolidation (db w) (db t)" "filter ?P (demo_sessions (db w)) \<noteq> []" for r sc date t
    using that by (intro wp_mono [OF RunDaily_sessions]) (auto simp: updated_rows_def)
  show ?thesis
    unfolding ConsolidateNow_def wp_tryM may_consolidate_def [symmetric]
    by (rule wp_mono [OF update_session_rows [OF assms]])
      (auto simp: wp_simps session_expired_def split: list.splits intro!: wp_mono [OF run])
qed

text \<open>A sweep forgets guests, which the meters of a session do not show, and rows out of the window.\<close>

definition metered :: "database \<Rightarrow> demo_session list" where
  "metered d = map (ds_guest_user_id_update (\<lambda>_. None)) (demo_sessions d)"

lemma deleteGuest_metered: "keeps (unchanged metered) None (deleteGuest g)"
proof -
  have [simp]: "metered (delete_relationships sc d) = metered d" "metered (d\<lparr>scope_keys := k\<rparr>) = metered d"
    "metered (delete_user g d) = metered d" for sc d k
    by (simp_all add: metered_def delete_relationships_def delete_user_def update_where_def o_def)
  have "metered d' = metered d" if "delete_episodes sc d = Some d' \<or> delete_summaries sc d = Some d' \<or> delete_entities sc d = Some d'" for sc d d'
    using that by (auto simp: metered_def delete_episodes_def delete_summaries_def delete_entities_def Let_def split: if_splits)
  then show ?thesis
    unfolding deleteGuest_def Let_def
    by (intro unchanged.transaction unchanged.bind unchanged.statement unchanged.checked_statement) (auto simp: unchanged_def)
qed

lemma deleteGuest_timeless: "timeless (deleteGuest g)"
  unfolding deleteGuest_def Let_def by (intro timeless_intro)

lemma Sweep_rows:
  assumes "tx w = None"
  defines "Q \<equiv> \<lambda>t. metered (db t) = metered (db w) \<or> metered (db t) = filter (\<lambda>s. ds_created_at s \<ge> clock w - capWindow) (metered (db w))"
  shows "wp (Sweep age) (\<lambda>_. Q) (\<lambda>_. Q) w"
proof -
  have loop: "wp (forM deleteGuest gs) (\<lambda>_. still metered t) (\<lambda>_. still metered t) t" if "tx t = None" for gs t
    by (intro wp_still unchanged.for_each deleteGuest_metered timeless_forM deleteGuest_timeless that)
  have gone: "metered (d\<lparr>demo_sessions := filter (\<lambda>s. \<not> ds_created_at s < c) (demo_sessions d)\<rparr>) = filter (\<lambda>s. ds_created_at s \<ge> c) (metered d)" for c d
    by (simp add: metered_def filter_map o_def not_less)
  show ?thesis
    unfolding Sweep_def
  proof (rule wp_query_then)
    show "wp (bindM (forM deleteGuest (expired_guests (clock w - age) w)) (\<lambda>_.
       bindM (exec (\<lambda>w d. d\<lparr>demo_sessions := filter (\<lambda>s. \<not> ds_created_at s < clock w - capWindow) (demo_sessions d)\<rparr>)) (\<lambda>_.
       retM (length (expired_guests (clock w - age) w))))) (\<lambda>_. Q) (\<lambda>_. Q) (tick w)"
      unfolding wp_bindM
      by (rule wp_mono [OF loop]) (use assms(1) in \<open>auto simp: wp_simps still_def Q_def gone split: fault.splits\<close>)
  qed (simp add: Q_def)
qed

section \<open>Meters\<close>

text \<open>
  A counter of a session that a request increments before it is served. \<open>used\<close> is what an observer
  counts per token; the rows of the table count at least that.
\<close>

definition capped :: "(demo_session \<Rightarrow> nat) \<Rightarrow> nat \<Rightarrow> demo_session list \<Rightarrow> (string \<Rightarrow> nat) \<Rightarrow> bool" where
  "capped count cap ms used \<longleftrightarrow>
     (\<forall>s \<in> set ms. used (ds_token_hash s) \<le> count s \<and> count s \<le> cap) \<and> (\<forall>h. used h \<le> cap)"

lemma capped_filter: "capped count cap ms used \<Longrightarrow> capped count cap (filter P ms) used"
  by (simp add: capped_def)

lemma capped_append:
  assumes "capped count cap ms used" "count s = 0" "ds_token_hash s = h" "h \<notin> ds_token_hash ` set ms"
  shows "capped count cap (ms @ [s]) (used(h := 0))"
  using assms by (auto simp: capped_def)

lemma hashes_update_where:
  "(\<And>s. ds_token_hash (f s) = ds_token_hash s) \<Longrightarrow> map ds_token_hash (update_where P f ms) = map ds_token_hash ms"
  by (simp add: update_where_def)

lemma in_update_where: "t \<in> set (update_where P f ms) \<longleftrightarrow> (\<exists>s \<in> set ms. t = (if P s then f s else s))"
  by (auto simp: update_where_def)

lemma capped_other:
  assumes "capped count cap ms used" "\<And>s. ds_token_hash (f s) = ds_token_hash s" "\<And>s. count (f s) = count s"
  shows "capped count cap (update_where P f ms) used"
  using assms by (auto simp: capped_def in_update_where)

locale session_meter =
  fixes count :: "demo_session \<Rightarrow> nat" and bump :: "demo_session \<Rightarrow> demo_session" and cap :: nat
    and served :: "string \<Rightarrow> time \<Rightarrow> demo_session \<Rightarrow> bool"
  assumes count_bump: "count (bump s) = count s + 1"
    and hash_bump: "ds_token_hash (bump s) = ds_token_hash s"
    and served: "served h now s \<Longrightarrow> ds_token_hash s = h \<and> count s < cap"
begin

lemma bumped:
  assumes "capped count cap ms used"
  shows "capped count cap (update_where (served h now) bump ms) used"
  unfolding capped_def
proof (intro conjI ballI allI)
  fix t
  assume "t \<in> set (update_where (served h now) bump ms)"
  then obtain s where s: "s \<in> set ms" "t = (if served h now s then bump s else s)" by (auto simp: in_update_where)
  then have "used (ds_token_hash s) \<le> count s" "count s \<le> cap" using assms by (simp_all add: capped_def)
  then show "used (ds_token_hash t) \<le> count t" "count t \<le> cap"
    using s(2) served [of h now s] by (auto simp: count_bump hash_bump split: if_splits)
qed (use assms in \<open>simp add: capped_def\<close>)

lemma bumped_once:
  assumes "capped count cap ms used" "distinct (map ds_token_hash ms)" "filter (served h now) ms \<noteq> []"
  shows "capped count cap (update_where (served h now) bump ms) (used(h := used h + 1))"
proof -
  obtain s where s: "s \<in> set ms" "served h now s" using assms(3) by (auto simp: filter_empty_conv)
  then have h: "ds_token_hash s = h" "count s < cap" using served by blast+
  have only: "t = s" if "t \<in> set ms" "ds_token_hash t = h" for t
    using that s(1) h(1) assms(2) by (auto simp: distinct_map inj_on_def)
  have "used h + 1 \<le> cap" using assms(1) s(1) h unfolding capped_def by fastforce
  moreover have "(used(h := used h + 1)) (ds_token_hash t) \<le> count t \<and> count t \<le> cap"
    if "t \<in> set (update_where (served h now) bump ms)" for t
  proof -
    obtain u where u: "u \<in> set ms" "t = (if served h now u then bump u else u)" using \<open>t \<in> _\<close> by (auto simp: in_update_where)
    show ?thesis
    proof (cases "ds_token_hash u = h")
      case True
      then show ?thesis using only [OF u(1)] u s h assms(1) by (auto simp: capped_def count_bump hash_bump)
    next
      case False
      then show ?thesis using u served assms(1) by (auto simp: capped_def hash_bump)
    qed
  qed
  ultimately show ?thesis using assms(1) by (simp add: capped_def)
qed

end

interpretation messages: session_meter ds_message_count one_message "MaxMessagesPerSession (limits st)" "may_chat st"
  by unfold_locales (simp_all add: may_chat_def)

interpretation consolidations: session_meter ds_consolidate_count one_consolidation "MaxConsolidatesPerSession (limits st)" "may_consolidate st"
  by unfold_locales (simp_all add: may_consolidate_def)

section \<open>Histories\<close>

text \<open>
  What visitors of the demo get: when sessions were handed out, and per token hash the messages let
  through and the consolidations that reached a model or succeeded, since the session's row was inserted.
\<close>

record demo_history =
  handed_out :: "time list"
  answered :: "string \<Rightarrow> nat"
  consolidated :: "string \<Rightarrow> nat"

definition no_history :: demo_history where
  "no_history = \<lparr>handed_out = [], answered = (\<lambda>_. 0), consolidated = (\<lambda>_. 0)\<rparr>"

definition new_hashes :: "database \<Rightarrow> database \<Rightarrow> string set" where
  "new_hashes d d' = ds_token_hash ` set (demo_sessions d') - ds_token_hash ` set (demo_sessions d)"

definition note_session :: "err + Session \<Rightarrow> time \<Rightarrow> string set \<Rightarrow> demo_history \<Rightarrow> demo_history" where
  "note_session r c fresh H =
     \<lparr>handed_out = handed_out H @ (case r of Inr _ \<Rightarrow> [c] | Inl _ \<Rightarrow> []),
      answered = (\<lambda>h. if h \<in> fresh then 0 else answered H h),
      consolidated = (\<lambda>h. if h \<in> fresh then 0 else consolidated H h)\<rparr>"

definition note_message :: "err + identity \<Rightarrow> string \<Rightarrow> demo_history \<Rightarrow> demo_history" where
  "note_message r h H = (case r of Inr _ \<Rightarrow> H\<lparr>answered := (answered H)(h := answered H h + 1)\<rparr> | Inl _ \<Rightarrow> H)"

definition note_consolidation :: "bool \<Rightarrow> string \<Rightarrow> demo_history \<Rightarrow> demo_history" where
  "note_consolidation used h H = (if used then H\<lparr>consolidated := (consolidated H)(h := consolidated H h + 1)\<rparr> else H)"

text \<open>
  Each step runs in a world of its own choosing (its faults, randomness, cache and model answers) on
  the shared database at the current time; other traffic leaves the table of sessions alone.
\<close>

inductive demo_step :: "demo_store \<Rightarrow> database \<times> time \<times> demo_history \<Rightarrow> database \<times> time \<times> demo_history \<Rightarrow> bool"
  for st where
  create: "tx w = None \<Longrightarrow> CreateSession st w = (r, w') \<Longrightarrow>
    demo_step st (db w, clock w, H) (db w', clock w, note_session r (clock w) (new_hashes (db w) (db w')) H)"
| chat: "tx w = None \<Longrightarrow> demo_Resolve st tok w = (r, w') \<Longrightarrow>
    demo_step st (db w, clock w, H) (db w', clock w, note_message r (hashToken st tok) H)"
| consolidate: "tx w = None \<Longrightarrow> ConsolidateNow st tok w = (r, w') \<Longrightarrow>
    demo_step st (db w, clock w, H)
      (db w', clock w, note_consolidation (calls w' \<noteq> calls w \<or> r = Inr ()) (hashToken st tok) H)"
| sweep: "tx w = None \<Longrightarrow> Sweep age w = (r, w') \<Longrightarrow> demo_step st (db w, clock w, H) (db w', clock w, H)"
| traffic: "demo_sessions d' = demo_sessions d \<Longrightarrow> demo_step st (d, c, H) (d', c, H)"
| wait: "c \<le> c' \<Longrightarrow> demo_step st (d, c, H) (d, c', H)"

section \<open>The caps hold\<close>

definition after :: "time \<Rightarrow> time list \<Rightarrow> nat" where "after c ts = length (filter (\<lambda>t. c < t) ts)"

definition in_window :: "time \<Rightarrow> time list \<Rightarrow> nat" where
  "in_window c ts = length (filter (\<lambda>t. c < t \<and> t \<le> c + capWindow) ts)"

lemma after_append [simp]: "after c (xs @ ys) = after c xs + after c ys"
  by (simp add: after_def)

lemma after_anti: "c \<le> c' \<Longrightarrow> after c' ts \<le> after c ts"
  unfolding after_def by (induction ts) auto

lemma in_window_after: "in_window c ts \<le> after c ts"
  unfolding in_window_def after_def by (induction ts) auto

lemma after_filter: "c \<le> c' \<Longrightarrow> after c' (filter (\<lambda>t. c \<le> t) ts) = after c' ts"
  unfolding after_def filter_filter by (rule arg_cong [where f = length], rule filter_cong) auto

text \<open>
  The rows that a window starting in the last day still sees are at least the sessions handed out in
  it, so the count that \<open>CreateSession\<close> takes bounds them.
\<close>

definition sessions_counted :: "nat \<Rightarrow> demo_session list \<Rightarrow> time \<Rightarrow> time list \<Rightarrow> bool" where
  "sessions_counted cap ms c ts \<longleftrightarrow> (\<forall>t \<in> set ts. t \<le> c)
     \<and> (\<forall>c' \<ge> c - capWindow. after c' ts \<le> after c' (map ds_created_at ms)) \<and> (\<forall>c'. in_window c' ts \<le> cap)"

lemma sessions_counted_same:
  assumes "sessions_counted cap ms c ts" "c \<le> c'" "map ds_created_at ms' = map ds_created_at ms"
  shows "sessions_counted cap ms' c' ts"
  using assms unfolding sessions_counted_def by fastforce

lemma sessions_counted_filter:
  assumes "sessions_counted cap ms c ts"
  shows "sessions_counted cap (filter (\<lambda>s. ds_created_at s \<ge> c - capWindow) ms) c ts"
proof -
  have "map ds_created_at (filter (\<lambda>s. ds_created_at s \<ge> c - capWindow) ms) = filter (\<lambda>t. c - capWindow \<le> t) (map ds_created_at ms)"
    by (simp add: filter_map o_def)
  then show ?thesis using assms by (simp add: sessions_counted_def after_filter)
qed

lemma sessions_counted_row:
  assumes "sessions_counted cap ms c ts" "ds_created_at s = c"
  shows "sessions_counted cap (ms @ [s]) c ts"
  using assms by (auto simp: sessions_counted_def intro: trans_le_add1)

lemma sessions_counted_new:
  assumes "sessions_counted cap ms c ts" "ds_created_at s = c" "after (c - capWindow) (map ds_created_at ms) < cap"
  shows "sessions_counted cap (ms @ [s]) c (ts @ [c])"
proof -
  have le: "after c' ts \<le> after c' (map ds_created_at ms)" if "c - capWindow \<le> c'" for c'
    using assms(1) that by (simp add: sessions_counted_def)
  have "in_window c' (ts @ [c]) \<le> cap" for c'
  proof (cases "c' < c \<and> c \<le> c' + capWindow")
    case True
    have "in_window c' ts \<le> after (c - capWindow) ts"
      using in_window_after [of c' ts] after_anti [of "c - capWindow" c' ts] True by simp
    then show ?thesis using le [of "c - capWindow"] assms(3) True by (simp add: in_window_def)
  next
    case False
    then show ?thesis using assms(1) by (auto simp: sessions_counted_def in_window_def)
  qed
  then show ?thesis using assms(1,2) le by (auto simp: sessions_counted_def after_append)
qed

text \<open>The invariant, on the meters of the table.\<close>

definition caps_hold :: "demo_store \<Rightarrow> demo_session list \<Rightarrow> time \<Rightarrow> demo_history \<Rightarrow> bool" where
  "caps_hold st ms c H \<longleftrightarrow> distinct (map ds_token_hash ms)
     \<and> capped ds_message_count (MaxMessagesPerSession (limits st)) ms (answered H)
     \<and> capped ds_consolidate_count (MaxConsolidatesPerSession (limits st)) ms (consolidated H)
     \<and> sessions_counted (MaxSessionsPerDay (limits st)) ms c (handed_out H)"

lemma metered_cong: "demo_sessions d' = demo_sessions d \<Longrightarrow> metered d' = metered d"
  by (simp add: metered_def)

lemma metered_chat:
  assumes "updated_rows (may_chat st h c) one_message d d'"
  shows "metered d' = update_where (may_chat st h c) one_message (metered d)"
  using assms by (auto simp: updated_rows_def metered_def update_where_def may_chat_def)

lemma metered_consolidate:
  assumes "updated_rows (may_consolidate st h c) one_consolidation d d'"
  shows "metered d' = update_where (may_consolidate st h c) one_consolidation (metered d)"
  using assms by (auto simp: updated_rows_def metered_def update_where_def may_consolidate_def)

lemma served_metered:
  "filter (may_chat st h c) (demo_sessions d) \<noteq> [] \<Longrightarrow> filter (may_chat st h c) (metered d) \<noteq> []"
  "filter (may_consolidate st h c) (demo_sessions d) \<noteq> [] \<Longrightarrow> filter (may_consolidate st h c) (metered d) \<noteq> []"
  by (auto simp: metered_def filter_empty_conv may_chat_def may_consolidate_def)

lemma created_update_where:
  "(\<And>s. ds_created_at (f s) = ds_created_at s) \<Longrightarrow> map ds_created_at (update_where P f ms) = map ds_created_at ms"
  by (simp add: update_where_def)

lemma create_caps:
  assumes "caps_hold st (metered (db w)) (clock w) H" "tx w = None" "CreateSession st w = (r, w')"
  shows "caps_hold st (metered (db w')) (clock w) (note_session r (clock w) (new_hashes (db w) (db w')) H)"
proof -
  have cases: "session_added st (db w) (clock w) (db w') \<or> (\<exists>e. r = Inl e) \<and> demo_sessions (db w') = demo_sessions (db w)"
    using CreateSession_adds [OF assms(2), of st] assms(3) by (auto simp: wp_def split: sum.splits)
  then show ?thesis
  proof
    assume "(\<exists>e. r = Inl e) \<and> demo_sessions (db w') = demo_sessions (db w)"
    then show ?thesis using assms(1) by (auto simp: note_session_def new_hashes_def caps_hold_def metered_def)
  next
    assume "session_added st (db w) (clock w) (db w')"
    then obtain s where s: "demo_sessions (db w') = demo_sessions (db w) @ [s]" "ds_created_at s = clock w" "ds_message_count s = 0"
      "ds_consolidate_count s = 0" "ds_token_hash s \<notin> ds_token_hash ` set (demo_sessions (db w))"
      "length (recent_sessions (clock w - capWindow) (db w)) < MaxSessionsPerDay (limits st)"
      by (auto simp: session_added_def)
    let ?s = "s\<lparr>ds_guest_user_id := None\<rparr>"
    have m: "metered (db w') = metered (db w) @ [?s]" using s(1) by (simp add: metered_def)
    have fresh: "ds_token_hash ?s \<notin> ds_token_hash ` set (metered (db w))" using s(5) by (auto simp: metered_def)
    have new: "(\<lambda>h. if h \<in> new_hashes (db w) (db w') then 0 else used h) = used(ds_token_hash ?s := 0)" for used :: "string \<Rightarrow> nat"
      using s(1,5) by (auto simp: new_hashes_def fun_eq_iff)
    have few: "after (clock w - capWindow) (map ds_created_at (metered (db w))) < MaxSessionsPerDay (limits st)"
      using s(6) by (simp add: after_def recent_sessions_def metered_def filter_map o_def)
    have "sessions_counted (MaxSessionsPerDay (limits st)) (metered (db w) @ [?s]) (clock w)
        (handed_out (note_session r (clock w) (new_hashes (db w) (db w')) H))"
      using assms(1) s(2) few unfolding caps_hold_def note_session_def
      by (auto split: sum.splits intro: sessions_counted_row sessions_counted_new)
    then show ?thesis
      using assms(1) s fresh by (simp add: caps_hold_def m note_session_def new capped_append)
  qed
qed

lemma caps_hold_messages:
  assumes "caps_hold st ms c H"
    and "capped ds_message_count (MaxMessagesPerSession (limits st)) (update_where P one_message ms) used"
  shows "caps_hold st (update_where P one_message ms) c (H\<lparr>answered := used\<rparr>)"
proof -
  have "sessions_counted (MaxSessionsPerDay (limits st)) (update_where P one_message ms) c (handed_out H)"
    using assms(1) by (intro sessions_counted_same [OF _ order_refl created_update_where]) (auto simp: caps_hold_def)
  moreover have "capped ds_consolidate_count (MaxConsolidatesPerSession (limits st)) (update_where P one_message ms) (consolidated H)"
    using assms(1) by (intro capped_other) (auto simp: caps_hold_def)
  ultimately show ?thesis using assms by (simp add: caps_hold_def hashes_update_where)
qed

lemma caps_hold_consolidations:
  assumes "caps_hold st ms c H"
    and "capped ds_consolidate_count (MaxConsolidatesPerSession (limits st)) (update_where P one_consolidation ms) used"
  shows "caps_hold st (update_where P one_consolidation ms) c (H\<lparr>consolidated := used\<rparr>)"
proof -
  have "sessions_counted (MaxSessionsPerDay (limits st)) (update_where P one_consolidation ms) c (handed_out H)"
    using assms(1) by (intro sessions_counted_same [OF _ order_refl created_update_where]) (auto simp: caps_hold_def)
  moreover have "capped ds_message_count (MaxMessagesPerSession (limits st)) (update_where P one_consolidation ms) (answered H)"
    using assms(1) by (intro capped_other) (auto simp: caps_hold_def)
  ultimately show ?thesis using assms by (simp add: caps_hold_def hashes_update_where)
qed

lemma chat_caps:
  assumes "caps_hold st (metered (db w)) (clock w) H" "tx w = None" "demo_Resolve st tok w = (r, w')"
  shows "caps_hold st (metered (db w')) (clock w) (note_message r (hashToken st tok) H)"
proof -
  let ?h = "hashToken st tok"
  let ?P = "may_chat st ?h (clock w)"
  have H: "capped ds_message_count (MaxMessagesPerSession (limits st)) (metered (db w)) (answered H)" "distinct (map ds_token_hash (metered (db w)))"
    using assms(1) by (simp_all add: caps_hold_def)
  consider (served) x where "r = Inr x" "updated_rows ?P one_message (db w) (db w')" "filter ?P (demo_sessions (db w)) \<noteq> []"
    | (counted) e where "r = Inl e" "updated_rows ?P one_message (db w) (db w')"
    | (refused) e where "r = Inl e" "demo_sessions (db w') = demo_sessions (db w)"
    using Resolve_rows [OF assms(2), of st tok] assms(3) by (auto simp: wp_def split: sum.splits)
  then show ?thesis
  proof cases
    case served
    show ?thesis
      using caps_hold_messages [OF assms(1) messages.bumped_once [OF H served_metered(1) [OF served(3)]]]
      unfolding metered_chat [OF served(2)] served(1) by (simp add: note_message_def)
  next
    case counted
    show ?thesis
      using caps_hold_messages [OF assms(1) messages.bumped [OF H(1)]]
      unfolding metered_chat [OF counted(2)] counted(1) by (simp add: note_message_def)
  next
    case refused
    then show ?thesis using assms(1) by (simp add: note_message_def metered_cong [OF refused(2)])
  qed
qed

lemma consolidate_caps:
  assumes "caps_hold st (metered (db w)) (clock w) H" "tx w = None" "ConsolidateNow st tok w = (r, w')"
  shows "caps_hold st (metered (db w')) (clock w) (note_consolidation (calls w' \<noteq> calls w \<or> r = Inr ()) (hashToken st tok) H)"
proof -
  let ?h = "hashToken st tok"
  let ?P = "may_consolidate st ?h (clock w)"
  have H: "capped ds_consolidate_count (MaxConsolidatesPerSession (limits st)) (metered (db w)) (consolidated H)"
    "distinct (map ds_token_hash (metered (db w)))"
    using assms(1) by (simp_all add: caps_hold_def)
  consider (served) "updated_rows ?P one_consolidation (db w) (db w')" "filter ?P (demo_sessions (db w)) \<noteq> []"
    | (counted) e where "r = Inl e" "calls w' = calls w" "updated_rows ?P one_consolidation (db w) (db w')"
    | (refused) e where "r = Inl e" "calls w' = calls w" "demo_sessions (db w') = demo_sessions (db w)"
    using ConsolidateNow_rows [OF assms(2), of st tok] assms(3) by (auto simp: wp_def split: sum.splits)
  then show ?thesis
  proof cases
    case served
    note once = caps_hold_consolidations [OF assms(1) consolidations.bumped_once [OF H served_metered(2) [OF served(2)]]]
    note uncounted = caps_hold_consolidations [OF assms(1) consolidations.bumped [OF H(1)]]
    show ?thesis
      unfolding metered_consolidate [OF served(1)] note_consolidation_def using once uncounted by simp
  next
    case counted
    show ?thesis
      using caps_hold_consolidations [OF assms(1) consolidations.bumped [OF H(1)]]
      unfolding metered_consolidate [OF counted(3)] note_consolidation_def counted(1,2) by simp
  next
    case refused
    then show ?thesis using assms(1) by (simp add: note_consolidation_def metered_cong [OF refused(3)])
  qed
qed

lemma sweep_caps:
  assumes "caps_hold st (metered (db w)) (clock w) H" "tx w = None" "Sweep age w = (r, w')"
  shows "caps_hold st (metered (db w')) (clock w) H"
proof -
  have "metered (db w') = metered (db w) \<or> metered (db w') = filter (\<lambda>s. ds_created_at s \<ge> clock w - capWindow) (metered (db w))"
    using wpD_snd [OF Sweep_rows [OF assms(2), of age]] assms(3) by simp
  then show ?thesis
    using assms(1) by (auto simp: caps_hold_def capped_filter sessions_counted_filter intro: distinct_map_filter)
qed

lemma step_caps:
  assumes "demo_step st s s'" "case s of (d, c, H) \<Rightarrow> caps_hold st (metered d) c H"
  shows "case s' of (d, c, H) \<Rightarrow> caps_hold st (metered d) c H"
  using assms
proof cases
  case (wait c c' d H)
  then have "sessions_counted (MaxSessionsPerDay (limits st)) (metered d) c' (handed_out H)"
    using assms(2) sessions_counted_same [of _ "metered d" c _ c'] by (simp add: caps_hold_def)
  then show ?thesis using assms(2) wait by (simp add: caps_hold_def)
next
  case (traffic d' d c H)
  then show ?thesis using assms(2) metered_cong [OF traffic(3)] by simp
next
  case create
  then show ?thesis using assms(2) create_caps by simp
next
  case chat
  then show ?thesis using assms(2) chat_caps by simp
next
  case consolidate
  then show ?thesis using assms(2) consolidate_caps by simp
next
  case sweep
  then show ?thesis using assms(2) sweep_caps by simp
qed

text \<open>
  C40. The caps of the demo hold over every history of requests, sweeps, faults, other traffic and
  passing time that starts without sessions. In no window of \<open>capWindow\<close> (24 hours), wherever it
  starts, are more than \<open>MaxSessionsPerDay\<close> sessions handed out, although the sweep erases expired
  guests and old rows in between; and on no session are more than \<open>MaxMessagesPerSession\<close> messages let
  through or more than \<open>MaxConsolidatesPerSession\<close> consolidations run that reach a model.
\<close>

theorem demo_capped:
  assumes "(demo_step st)\<^sup>*\<^sup>* (d0, c0, no_history) (d, c, H)" "demo_sessions d0 = []"
  shows "in_window start (handed_out H) \<le> MaxSessionsPerDay (limits st)
    \<and> answered H h \<le> MaxMessagesPerSession (limits st) \<and> consolidated H h \<le> MaxConsolidatesPerSession (limits st)"
proof -
  have "case s of (d, c, H) \<Rightarrow> caps_hold st (metered d) c H" if "(demo_step st)\<^sup>*\<^sup>* (d0, c0, no_history) s" for s
    using that
  proof (induction rule: rtranclp_induct)
    case base
    then show ?case using assms(2)
      by (simp add: caps_hold_def metered_def no_history_def capped_def sessions_counted_def in_window_def after_def)
  qed (rule step_caps)
  from this [OF assms(1)] show ?thesis by (simp add: caps_hold_def capped_def sessions_counted_def)
qed

definition sample_demo :: demo_store where
  "sample_demo = \<lparr>demo_runner = sample_runner,
     limits = \<lparr>SessionTTL = hours 3, MaxMessagesPerSession = 18, MaxConsolidatesPerSession = 3, MaxSessionsPerDay = 1\<rparr>,
     hashToken = (\<lambda>s. s)\<rparr>"

theorem demo_capped_witness:
  "\<exists>d H. (demo_step sample_demo)\<^sup>*\<^sup>* (empty_db, clock init_world, no_history) (d, clock init_world, H)
     \<and> handed_out H = [clock init_world] \<and> in_window (clock init_world - 1) (handed_out H) = 1
     \<and> in_window (clock init_world - 1) (handed_out H) \<le> MaxSessionsPerDay (limits sample_demo)"
proof -
  have "wp (CreateSession sample_demo) (\<lambda>_ _. True) (\<lambda>_ _. False) init_world" by code_simp
  then obtain s w' where run: "CreateSession sample_demo init_world = (Inr s, w')"
    by (auto simp: wp_def split: prod.splits sum.splits)
  let ?H = "note_session (Inr s) (clock init_world) (new_hashes empty_db (db w')) no_history"
  have i: "tx init_world = None" "db init_world = empty_db" by (simp_all add: init_world_def)
  have steps: "(demo_step sample_demo)\<^sup>*\<^sup>* (empty_db, clock init_world, no_history) (db w', clock init_world, ?H)"
    using create [OF i(1) run, of no_history] i(2) by simp
  have H: "handed_out ?H = [clock init_world]" by (simp add: note_session_def no_history_def)
  have "demo_sessions empty_db = []" by (simp add: empty_db_def)
  then have "in_window (clock init_world - 1) (handed_out ?H) \<le> MaxSessionsPerDay (limits sample_demo)"
    using demo_capped [OF steps] by blast
  then show ?thesis using steps H by (auto simp: in_window_def capWindow_def hours_def intro!: exI)
qed

end
