(* ===== verification/Providers.thy ===== *)
theory Providers
  imports Retrieve
begin

text \<open>
  Model providers (\<open>internal/provider\<close>): the registry of configured profiles, the wrappers that bring
  embeddings to the length of the database columns, retries of a request, and what the two adapters
  make of a stream of server-sent events. The HTTP exchange itself is an argument: a sequence of
  outcomes, one per attempt. Durations are nanoseconds, as \<open>time.Duration\<close> is.
\<close>

declare One_nat_def [simp del]

section \<open>Providers\<close>

text \<open>What the gateway asks of a model: a turn of the conversation, or a question of its own whose
  system prompt is a constant of the code.\<close>

datatype prompt = Turn "Message list" "rat option" "int option"
  | AggregationExtraction string
  | AttributionVerdict string

record ChatReply =
  cr_Model :: string
  cr_Message :: Message
  cr_Usage :: "int \<times> int \<times> int"

text \<open>\<open>StreamChunk\<close>; a closed channel is the end of the list. \<open>ClientGone\<close> marks where the context of
  the request is done before the next chunk is taken.\<close>

datatype stream_event = Delta string | Done | Failed err | ClientGone

record EmbedRequest =
  Input :: "string list"
  Dimensions :: nat

record provider =
  pv_Name :: string
  pv_Vendor :: string
  pv_Model :: string
  pv_Chat :: "nat \<Rightarrow> prompt \<Rightarrow> err + ChatReply"
  pv_Stream :: "nat \<Rightarrow> prompt \<Rightarrow> err + stream_event list"
  pv_Embed :: "nat \<Rightarrow> EmbedRequest \<Rightarrow> err + vec list"
  DescribeImage :: "(nat \<Rightarrow> bytes \<times> string \<Rightarrow> err + string) option"   \<comment> \<open>\<open>VisionCapable\<close>\<close>

definition RoleValid :: "string \<Rightarrow> bool" where
  "RoleValid r \<longleftrightarrow> r \<in> set [''system'', ''user'', ''assistant'']"

section \<open>The registry\<close>

datatype profile_kind = KindOpenAICompat | KindAnthropic | UnknownKind string

record ProfileConfig =
  pc_Kind :: profile_kind
  pc_Vendor :: string
  pc_Model :: string

record Config =
  ActiveChatProvider :: string
  ActiveConsolidationProvider :: string
  ActiveGroundingProvider :: string
  ActiveEmbeddingProvider :: string
  ActiveVisionProvider :: string
  Profiles :: "(string \<times> ProfileConfig) list"

record Registry =
  byName :: "string \<rightharpoonup> provider"
  chatName :: string
  consolidationName :: string
  groundingName :: string
  embeddingName :: string
  visionName :: string

text \<open>\<open>build\<close>, over the constructors of the adapters.\<close>

definition build :: "(string \<Rightarrow> ProfileConfig \<Rightarrow> provider) \<Rightarrow> string \<Rightarrow> ProfileConfig \<Rightarrow> provider option" where
  "build adapter name pc = (case pc_Kind pc of UnknownKind _ \<Rightarrow> None | _ \<Rightarrow> Some (adapter name pc))"

definition NewRegistry :: "(string \<Rightarrow> ProfileConfig \<Rightarrow> provider) \<Rightarrow> Config \<Rightarrow> Registry option" where
  "NewRegistry adapter cfg =
     (let grounding = (if ActiveGroundingProvider cfg = [] then ActiveConsolidationProvider cfg else ActiveGroundingProvider cfg);
          vision = (if ActiveVisionProvider cfg = [] then ActiveChatProvider cfg else ActiveVisionProvider cfg);
          named = (\<lambda>n. case map_of (Profiles cfg) n of None \<Rightarrow> None | Some pc \<Rightarrow> build adapter n pc)
      in if list_ex (\<lambda>(n, pc). build adapter n pc = None) (Profiles cfg) then None
         else if list_ex (\<lambda>n. named n = None)
              [ActiveChatProvider cfg, ActiveConsolidationProvider cfg, grounding, ActiveEmbeddingProvider cfg, vision] then None
         else Some \<lparr>byName = named, chatName = ActiveChatProvider cfg, consolidationName = ActiveConsolidationProvider cfg,
                groundingName = grounding, embeddingName = ActiveEmbeddingProvider cfg, visionName = vision\<rparr>)"

definition Chat :: "Registry \<Rightarrow> provider" where "Chat reg = the (byName reg (chatName reg))"
definition Embedding :: "Registry \<Rightarrow> provider" where "Embedding reg = the (byName reg (embeddingName reg))"
definition Vision :: "Registry \<Rightarrow> provider" where "Vision reg = the (byName reg (visionName reg))"
definition Named :: "Registry \<Rightarrow> string \<Rightarrow> provider option" where "Named reg name = byName reg name"

definition SetEmbedding :: "provider \<Rightarrow> Registry \<Rightarrow> Registry" where
  "SetEmbedding p reg = reg\<lparr>byName := (byName reg)(embeddingName reg \<mapsto> p)\<rparr>"

section \<open>Embeddings of the right length\<close>

definition EmbeddingDimensions :: nat where "EmbeddingDimensions = 1536"

text \<open>The wrappers embed the interface \<open>Provider\<close>, so they are not \<open>VisionCapable\<close>.\<close>

definition dimensionPinned :: "nat \<Rightarrow> provider \<Rightarrow> provider" where
  "dimensionPinned d p = p\<lparr>pv_Embed := (\<lambda>n req. pv_Embed p n (req\<lparr>Dimensions := d\<rparr>)), DescribeImage := None\<rparr>"

definition pad_vector :: "nat \<Rightarrow> vec \<Rightarrow> vec" where
  "pad_vector d v = (if length v \<ge> d then v else v @ replicate (d - length v) 0)"

definition dimensionPadded :: "nat \<Rightarrow> provider \<Rightarrow> provider" where
  "dimensionPadded d p = p\<lparr>pv_Embed := (\<lambda>n req. map_sum (\<lambda>e. e) (map (pad_vector d)) (pv_Embed p n req)), DescribeImage := None\<rparr>"

definition first_length :: "err + vec list \<Rightarrow> nat option" where
  "first_length r = (case r of Inr (v # _) \<Rightarrow> Some (length v) | _ \<Rightarrow> None)"

definition VerifyEmbeddingDimensions :: "provider \<Rightarrow> provider proc" where
  "VerifyEmbeddingDimensions p =
     (let probe = \<lparr>Input = [''hupi embedding dimension check''], Dimensions = 0\<rparr> in
      tryM (call (pv_Embed p) probe) (\<lambda>native.
      case first_length native of
        Some n \<Rightarrow> if n = EmbeddingDimensions then retM p
          else if n < EmbeddingDimensions then retM (dimensionPadded EmbeddingDimensions p)
          else tryM (call (pv_Embed p) (probe\<lparr>Dimensions := EmbeddingDimensions\<rparr>)) (\<lambda>resp.
            if first_length resp = Some EmbeddingDimensions then retM (dimensionPinned EmbeddingDimensions p) else errM ErrProvider)
      | None \<Rightarrow> tryM (call (pv_Embed p) (probe\<lparr>Dimensions := EmbeddingDimensions\<rparr>)) (\<lambda>resp.
            if first_length resp = Some EmbeddingDimensions then retM (dimensionPinned EmbeddingDimensions p) else errM ErrProvider)))"

definition VerifyEmbedding :: "Registry \<Rightarrow> Registry proc" where
  "VerifyEmbedding reg = bindM (VerifyEmbeddingDimensions (Embedding reg)) (\<lambda>p. retM (SetEmbedding p reg))"

section \<open>Retries\<close>

definition maxRetries :: nat where "maxRetries = 5"
definition retryBaseDelay :: int where "retryBaseDelay = 500000000"
definition retryMaxDelay :: int where "retryMaxDelay = 30000000000"

definition retryableStatus :: "nat \<Rightarrow> bool" where
  "retryableStatus code \<longleftrightarrow> code = 429 \<or> code \<ge> 500"

text \<open>
  What \<open>strconv.ParseFloat\<close> returns, and the conversion of a float to \<open>time.Duration\<close>: out of the
  range of \<open>int64\<close> the result is that of the processor (the least number, on amd64). Finite values
  are exact here.
\<close>

datatype float64 = Finite rat | PosInf | NotPositive

definition to_duration :: "rat \<Rightarrow> int" where
  "to_duration x = (let i = (if x < 0 then - \<lfloor>- x\<rfloor> else \<lfloor>x\<rfloor>) in if i < - (2 ^ 63) \<or> i \<ge> 2 ^ 63 then - (2 ^ 63) else i)"

text \<open>One attempt: the request could not be sent or answered (and whether it had left the process),
  the body could not be read, or an answer with its \<open>Retry-After\<close> header.\<close>

datatype outcome = DoError bool | ReadError nat | Response nat string bytes

record transport =
  build_error :: "nat \<Rightarrow> bool"
  outcome_of :: "nat \<Rightarrow> outcome"
  cancelled :: "nat \<Rightarrow> bool"          \<comment> \<open>the context is done before the wait after this attempt ends\<close>
  jitter :: "nat \<Rightarrow> rat"              \<comment> \<open>\<open>rand.Float64()\<close>\<close>
  parse_seconds :: "string \<Rightarrow> float64 option"

definition backoff :: "transport \<Rightarrow> nat \<Rightarrow> int" where
  "backoff tr attempt = (let d = min (retryBaseDelay * 2 ^ (attempt - 1)) retryMaxDelay
     in to_duration (of_int d * (8 / 10 + 4 / 10 * jitter tr attempt)))"

definition capped_delay :: "int \<Rightarrow> int" where
  "capped_delay d = (if d > retryMaxDelay then retryMaxDelay else d)"

definition retryDelay :: "transport \<Rightarrow> nat \<Rightarrow> string \<Rightarrow> int" where
  "retryDelay tr attempt retryAfter =
     (if retryAfter = [] then backoff tr attempt
      else case parse_seconds tr retryAfter of
             Some (Finite secs) \<Rightarrow> if secs > 0 then capped_delay (to_duration (secs * 1000000000)) else backoff tr attempt
           | Some PosInf \<Rightarrow> capped_delay (- (2 ^ 63))
           | _ \<Rightarrow> backoff tr attempt)"

text \<open>The result, the outcomes of the attempts made and the waits between them.\<close>

fun send_attempts :: "transport \<Rightarrow> bool \<Rightarrow> nat \<Rightarrow> nat \<Rightarrow> (err + nat \<times> bytes) \<times> outcome list \<times> int list" where
  "send_attempts tr idempotent attempt 0 = (Inl ErrProvider, [], [])"
| "send_attempts tr idempotent attempt (Suc left) =
     (if build_error tr attempt then (Inl ErrProvider, [], [])
      else let o1 = outcome_of tr attempt;
               again = (\<lambda>d. if cancelled tr attempt then (Inl ErrCancelled, [o1], [])
                   else case send_attempts tr idempotent (attempt + 1) left of (r, os, ds) \<Rightarrow> (r, o1 # os, d # ds))
           in case o1 of
             DoError wrote \<Rightarrow>
               if \<not> idempotent \<and> wrote then (Inl ErrProvider, [o1], [])
               else if attempt = maxRetries then (Inl ErrProvider, [o1], [])
               else again (retryDelay tr attempt [])
           | ReadError _ \<Rightarrow> (Inl ErrProvider, [o1], [])
           | Response status retryAfter body \<Rightarrow>
               if retryableStatus status \<and> attempt < maxRetries then again (retryDelay tr attempt retryAfter)
               else (Inr (status, body), [o1], []))"

definition sendWithRetry :: "transport \<Rightarrow> bool \<Rightarrow> (err + nat \<times> bytes) \<times> outcome list \<times> int list" where
  "sendWithRetry tr idempotent = send_attempts tr idempotent 1 maxRetries"

section \<open>Streams\<close>

text \<open>
  The lines a scanner reads from the body, and whether it stopped on an error. \<open>decode\<close> is
  \<open>json.Unmarshal\<close> of a payload: the contents of the deltas of its choices.
\<close>

definition cut_prefix :: "string \<Rightarrow> string \<Rightarrow> string option" where
  "cut_prefix p s = (if take (length p) s = p then Some (drop (length p) s) else None)"

fun openai_stream :: "(string \<Rightarrow> string list option) \<Rightarrow> string list \<Rightarrow> bool \<Rightarrow> stream_event list" where
  "openai_stream decode [] scanErr = (if scanErr then [Failed ErrProvider] else [])"
| "openai_stream decode (raw # lines) scanErr =
     (case cut_prefix ''data:'' (TrimSpace raw) of
       None \<Rightarrow> openai_stream decode lines scanErr
     | Some rest \<Rightarrow>
         let payload = TrimSpace rest in
         if payload = ''[DONE]'' then [Done]
         else case decode payload of
           None \<Rightarrow> [Failed ErrProvider]
         | Some [] \<Rightarrow> openai_stream decode lines scanErr
         | Some (content # _) \<Rightarrow> Delta content # openai_stream decode lines scanErr)"

fun anthropic_stream :: "(string \<Rightarrow> string option) \<Rightarrow> string \<Rightarrow> string list \<Rightarrow> bool \<Rightarrow> stream_event list" where
  "anthropic_stream decode event [] scanErr = (if scanErr then [Failed ErrProvider] else [])"
| "anthropic_stream decode event (line # lines) scanErr =
     (case cut_prefix ''event:'' line of
       Some e \<Rightarrow> anthropic_stream decode (TrimSpace e) lines scanErr
     | None \<Rightarrow> (case cut_prefix ''data:'' line of
         None \<Rightarrow> anthropic_stream decode event lines scanErr
       | Some rest \<Rightarrow>
           if event = ''content_block_delta'' then
             (case decode (TrimSpace rest) of
                None \<Rightarrow> [Failed ErrProvider]
              | Some t \<Rightarrow> Delta t # anthropic_stream decode event lines scanErr)
           else if event = ''message_stop'' then [Done]
           else anthropic_stream decode event lines scanErr))"

end
