(* ===== verification/Providers_Correct.thy ===== *)
theory Providers_Correct
  imports Providers Cluster
begin

text \<open>
  The retry loop never repeats a request that may have been answered, and waits within its bounds;
  padding an embedding leaves every cosine similarity as it was; and what \<open>VerifyEmbedding\<close> does to
  the other roles of a profile.
\<close>

declare One_nat_def [simp del]

section \<open>Retries\<close>

text \<open>The outcomes after which the same request may be sent again.\<close>

definition may_repeat :: "bool \<Rightarrow> outcome \<Rightarrow> bool" where
  "may_repeat idempotent r = (case r of DoError wrote \<Rightarrow> idempotent \<or> \<not> wrote | ReadError _ \<Rightarrow> False
     | Response status _ _ \<Rightarrow> retryableStatus status)"

definition answers :: "err + nat \<times> bytes \<Rightarrow> outcome list \<Rightarrow> nat \<Rightarrow> bool" where
  "answers r os left \<longleftrightarrow> (\<forall>status body. r = Inr (status, body) \<longrightarrow>
     (\<exists>retryAfter. os \<noteq> [] \<and> last os = Response status retryAfter body) \<and> (retryableStatus status \<longrightarrow> length os = left))"

lemma send_attempts_log:
  assumes "send_attempts tr idempotent a left = (r, os, ds)" "a + left = maxRetries + 1"
  shows "os = map (outcome_of tr) [a ..< a + length os] \<and> length os \<le> left \<and> length ds \<le> length os
     \<and> list_all (may_repeat idempotent) (butlast os) \<and> answers r os left"
  using assms
proof (induction left arbitrary: a r os ds)
  case 0
  then show ?case by (auto simp: answers_def)
next
  case (Suc left)
  define o1 where "o1 = outcome_of tr a"
  have one: ?case if "os = [o1]" "ds = []" "answers r [o1] (Suc left)"
    using that by (simp add: o1_def upt_rec)
  have again: ?case
    if rep: "may_repeat idempotent o1" and left: "left > 0"
      and run: "(if cancelled tr a then (Inl ErrCancelled, [o1], [])
         else case send_attempts tr idempotent (a + 1) left of (r, os, ds) \<Rightarrow> (r, o1 # os, d # ds)) = (r, os, ds)" for d
  proof (cases "cancelled tr a")
    case True
    then show ?thesis using run one by (auto simp: answers_def)
  next
    case False
    obtain r' os' ds' where next_try: "send_attempts tr idempotent (a + 1) left = (r', os', ds')"
      by (cases "send_attempts tr idempotent (a + 1) left") auto
    then have eq: "r = r'" "os = o1 # os'" "ds = d # ds'" using run False by auto
    have IH: "os' = map (outcome_of tr) [a + 1 ..< a + 1 + length os']" "length os' \<le> left" "length ds' \<le> length os'"
      "list_all (may_repeat idempotent) (butlast os')" "answers r' os' left"
      using Suc.IH [OF next_try] Suc.prems(2) by simp_all
    have "a + length os = a + 1 + length os'" by (simp add: eq(2))
    then have "[a ..< a + length os] = a # [a + 1 ..< a + 1 + length os']"
      using upt_conv_Cons [of a "a + 1 + length os'"] by (simp only: Suc_eq_plus1)
    then have "os = map (outcome_of tr) [a ..< a + length os]" using IH(1) by (simp add: eq(2) o1_def)
    moreover have "list_all (may_repeat idempotent) (butlast os)" using IH(4) rep by (simp add: eq(2))
    moreover have "answers r os (Suc left)" using IH(5) by (auto simp: answers_def eq)
    ultimately show ?thesis using IH(2,3) eq by simp
  qed
  show ?case
  proof (cases "build_error tr a")
    case True
    then show ?thesis using Suc.prems(1) by (auto simp: answers_def)
  next
    case False
    note run = Suc.prems(1) [unfolded send_attempts.simps(2) Let_def if_not_P [OF False] o1_def [symmetric]]
    show ?thesis
    proof (cases o1)
      case (DoError wrote)
      show ?thesis
      proof (cases "\<not> idempotent \<and> wrote \<or> a = maxRetries")
        case True
        then show ?thesis using run DoError one by (auto simp: answers_def split: if_splits)
      next
        case False
        have left: "left > 0" using Suc.prems(2) False by (cases left) auto
        have c: "\<not> (\<not> idempotent \<and> wrote)" "a \<noteq> maxRetries" using False by simp_all
        have rep: "may_repeat idempotent o1" using c DoError by (simp add: may_repeat_def)
        show ?thesis
          by (rule again [OF rep left]) (rule run [unfolded DoError outcome.case if_not_P [OF c(1)] if_not_P [OF c(2)], folded DoError])
      qed
    next
      case (ReadError s)
      then show ?thesis using run one by (auto simp: answers_def)
    next
      case (Response status retryAfter body)
      show ?thesis
      proof (cases "retryableStatus status \<and> a < maxRetries")
        case True
        have left: "left > 0" using Suc.prems(2) True by (cases left) auto
        have rep: "may_repeat idempotent o1" using True Response by (simp add: may_repeat_def)
        show ?thesis
          by (rule again [OF rep left]) (rule run [unfolded Response outcome.case if_P [OF True], folded Response])
      next
        case False
        then have os: "os = [o1]" "ds = []" "r = Inr (status, body)" using run Response by auto
        have "retryableStatus status \<longrightarrow> left = 0" using False Suc.prems(2) by auto
        then have "answers r [o1] (Suc left)" using os(3) Response by (simp add: answers_def)
        then show ?thesis using one os by blast
      qed
    qed
  qed
qed


definition sample_transport :: transport where
  "sample_transport = \<lparr>build_error = (\<lambda>_. False),
     outcome_of = (\<lambda>k. if k < 3 then Response 429 ''2'' [] else Response 200 [] ''{}''),
     cancelled = (\<lambda>_. False), jitter = (\<lambda>_. 1 / 2), parse_seconds = (\<lambda>_. Some (Finite 2))\<rparr>"


section \<open>Waits\<close>

lemma to_duration_mono_bounds:
  assumes "of_int l \<le> x" "x < of_int u" "0 \<le> l" "u \<le> 2 ^ 63"
  shows "l \<le> to_duration x" "to_duration x < u"
proof -
  have x: "0 \<le> x" using assms(1,3) by (meson of_int_0_le_iff order_trans)
  have f: "l \<le> \<lfloor>x\<rfloor>" "\<lfloor>x\<rfloor> < u" using assms(1,2) by (simp_all add: le_floor_iff floor_less_iff)
  have "of_int u \<le> (of_int (2 ^ 63) :: rat)" using assms(4) by (simp only: of_int_le_iff)
  then have "x < 2 ^ 63" using assms(2) by simp
  then have "to_duration x = \<lfloor>x\<rfloor>" using x f assms(3) by (auto simp: to_duration_def Let_def)
  then show "l \<le> to_duration x" "to_duration x < u" using f by simp_all
qed

lemma backoff_bounds:
  assumes "k \<in> {1, 2, 3, 4}" "0 \<le> jitter tr k" "jitter tr k < 1"
  shows "400000000 \<le> backoff tr k" "backoff tr k < 4800000000"
proof -
  define d where "d = min (retryBaseDelay * 2 ^ (k - 1)) retryMaxDelay"
  let ?j = "jitter tr k"
  have d: "500000000 \<le> d" "d \<le> 4000000000" using assms(1) by (auto simp: d_def retryBaseDelay_def retryMaxDelay_def)
  have d': "500000000 \<le> (of_int d :: rat)" "of_int d \<le> (4000000000 :: rat)"
    using d by (metis of_int_le_iff of_int_numeral)+
  have f: "8 / 10 \<le> 8 / 10 + 4 / 10 * ?j" "8 / 10 + 4 / 10 * ?j < 12 / 10" using assms(2,3) by simp_all
  have "(500000000 :: rat) * (8 / 10) \<le> of_int d * (8 / 10 + 4 / 10 * ?j)"
    using d'(1) f(1) by (intro mult_mono) simp_all
  then have l: "of_int 400000000 \<le> of_int d * (8 / 10 + 4 / 10 * ?j)" by simp
  have "of_int d * (8 / 10 + 4 / 10 * ?j) < (4000000000 :: rat) * (12 / 10)"
    using d' f assms(2) by (intro mult_le_less_imp_less) simp_all
  then have u: "of_int d * (8 / 10 + 4 / 10 * ?j) < of_int 4800000000" by simp
  show "400000000 \<le> backoff tr k" "backoff tr k < 4800000000"
    unfolding backoff_def Let_def d_def [symmetric] by (rule to_duration_mono_bounds [OF l u]; simp)+
qed

lemma retryDelay_bounds:
  assumes "k \<in> {1, 2, 3, 4}" "0 \<le> jitter tr k" "jitter tr k < 1"
  shows "retryDelay tr k h \<le> retryMaxDelay" "h = [] \<Longrightarrow> 400000000 \<le> retryDelay tr k h \<and> retryDelay tr k h < 4800000000"
proof -
  have b: "backoff tr k \<le> retryMaxDelay" using backoff_bounds(2) [OF assms] by (simp add: retryMaxDelay_def)
  have c: "capped_delay v \<le> retryMaxDelay" for v by (simp add: capped_delay_def)
  show "retryDelay tr k h \<le> retryMaxDelay"
    unfolding retryDelay_def by (simp add: b c split: option.split float64.split)
  show "400000000 \<le> retryDelay tr k h \<and> retryDelay tr k h < 4800000000" if "h = []"
    using backoff_bounds [OF assms] that by (simp add: retryDelay_def)
qed

text \<open>A \<open>Retry-After\<close> beyond the range of a duration overflows, and the retry does not wait at all.\<close>

lemma retryDelay_overflows:
  assumes "h \<noteq> []" "parse_seconds tr h = Some (Finite secs)" "secs \<ge> 2 ^ 63 / 1000000000"
  shows "retryDelay tr k h = - (2 ^ 63)"
proof -
  have "(2 ^ 63 :: rat) \<le> secs * 1000000000" using assms(3) by (simp add: divide_le_eq)
  then have "of_int (2 ^ 63) \<le> secs * 1000000000" by simp
  then have "(2 ^ 63 :: int) \<le> \<lfloor>secs * 1000000000\<rfloor>" unfolding le_floor_iff .
  moreover have "0 < secs" using assms(3) by (rule order.strict_trans2 [rotated]) simp
  ultimately show ?thesis
    using assms(1,2) by (simp add: retryDelay_def capped_delay_def to_duration_def retryMaxDelay_def Let_def)
qed

section \<open>Embeddings\<close>

lemma dot_padded:
  assumes "length a = length b"
  shows "sum_list (map2 (*) (a @ replicate n 0) (b @ replicate n (0 :: rat))) = sum_list (map2 (*) a b)"
  using assms by (simp add: zip_append zip_replicate sum_list_replicate)

text \<open>
  C34. Padding the vectors of a model whose output is too short for the columns is exact: two vectors
  of the same model, not longer than the wanted length, have the same cosine similarity before and after
  \<open>dimensionPadded\<close> pads them, and a padded vector has the wanted length.
\<close>

theorem dimensionPadded_exact:
  assumes "length a = length b" "length a \<le> d"
  shows "cosineSimilarity r (pad_vector d a) (pad_vector d b) = cosineSimilarity r a b \<and> length (pad_vector d a) = d"
proof -
  have p: "pad_vector d x = x @ replicate (d - length x) 0" if "length x \<le> d" for x
    using that by (simp add: pad_vector_def)
  have b: "length b \<le> d" using assms by simp
  have dot: "sum_list (map2 (*) (pad_vector d x) (pad_vector d y)) = sum_list (map2 (*) x y)"
    if "length x = length a" "length y = length a" for x y
    using that assms dot_padded [of x y "d - length a"] by (simp add: p)
  have pl: "length (pad_vector d a) = d" using assms(2) by (simp add: p)
  have len: "length (pad_vector d a) = length (pad_vector d b)" using assms by (simp add: p)
  have "cosineSimilarity r (pad_vector d a) (pad_vector d b) = cosineSimilarity r a b"
  proof (cases "a = []")
    case True
    then have "b = []" using assms(1) by simp
    then show ?thesis using True dot [of a a] by (simp add: cosineSimilarity_def Let_def)
  next
    case False
    then have "pad_vector d a \<noteq> []" using assms(2) by (simp add: p)
    moreover note dots = dot [OF refl assms(1) [symmetric]] dot [OF refl refl] dot [OF assms(1) [symmetric] assms(1) [symmetric]]
    ultimately show ?thesis
      using False len assms(1) unfolding cosineSimilarity_def Let_def dots by simp
  qed
  then show ?thesis using pl by simp
qed

theorem dimensionPadded_exact_witness:
  "cosineSimilarity sample_runner (pad_vector 4 [1, 2]) (pad_vector 4 [3, 4]) = cosineSimilarity sample_runner [1, 2] [3, 4]
   \<and> length (pad_vector 4 [1, 2]) = 4"
  by (rule dimensionPadded_exact) simp_all

text \<open>\<open>SetEmbedding\<close> replaces a profile in all its roles. The wrappers are not \<open>VisionCapable\<close>, so a profile
  that serves images as well loses that when its vectors have to be padded.\<close>

lemma VerifyEmbedding_loses_vision:
  assumes "pv_Embed (Embedding reg) (calls w) \<lparr>Input = [''hupi embedding dimension check''], Dimensions = 0\<rparr> = Inr (v # vs)"
    and "length v < EmbeddingDimensions" "visionName reg = embeddingName reg"
  shows "\<exists>reg' w'. VerifyEmbedding reg w = (Inr reg', w') \<and> DescribeImage (Vision reg') = None"
  using assms
  by (simp add: VerifyEmbedding_def VerifyEmbeddingDimensions_def bindM_def tryM_def call_def retM_def first_length_def Let_def
      SetEmbedding_def Vision_def dimensionPadded_def)

end
