(* ===== verification/Ingest.thy ===== *)
theory Ingest
  imports Complex_Main Go_Text
begin

text \<open>
  Document ingestion (\<open>internal/ingest\<close>): the text of an attached file. The readers of PDF and zip
  files and the XML tokenizer are arguments; what the code does with their results is modelled.
\<close>

declare One_nat_def [simp del]

record Attachment =
  Filename :: string
  ContentType :: string
  Data :: bytes

record extraction =
  Text :: string
  Warning :: string

datatype format = formatText | formatPDF | formatDOCX

section \<open>Plain text\<close>

definition replacement :: string where "replacement = encode_rune 0xFFFD"

text \<open>\<open>strings.ToValidUTF8\<close>: a run of invalid bytes becomes one replacement character.\<close>

definition invalid_segment :: "string \<Rightarrow> bool" where
  "invalid_segment g \<longleftrightarrow> decode_rune g = (0xFFFD, 1)"

fun repair :: "string list \<Rightarrow> bool \<Rightarrow> string" where
  "repair [] inRun = []"
| "repair (g # gs) inRun = (if invalid_segment g then (if inRun then [] else replacement) @ repair gs True else g @ repair gs False)"

definition ToValidUTF8 :: "string \<Rightarrow> string" where "ToValidUTF8 s = repair (segments s) False"

definition textReplacementRatioLimit :: rat where "textReplacementRatioLimit = 5 / 100"

definition replacementRatio :: "string \<Rightarrow> rat" where
  "replacementRatio s = (if runes s = [] then 0
     else of_nat (length (filter (\<lambda>r. r = 0xFFFD) (runes s))) / of_nat (length (runes s)))"

datatype ingest_error = InvalidTextError rat | ErrParser | ErrMissingBody | ErrEntry string | ErrPanicked | ErrTimeout

definition extractText :: "bytes \<Rightarrow> ingest_error + extraction" where
  "extractText d = (if d = [] then Inr \<lparr>Text = [], Warning = []\<rparr>
     else let repaired = ToValidUTF8 d in
       if replacementRatio repaired > textReplacementRatioLimit then Inl (InvalidTextError (replacementRatio repaired))
       else Inr \<lparr>Text = repaired, Warning = []\<rparr>)"

section \<open>Word documents\<close>

definition maxDocxEntryBytes :: nat where "maxDocxEntryBytes = 64 * 1024 * 1024"
definition docxBodyEntry :: string where "docxBodyEntry = ''word/document.xml''"

definition docxOptionalEntryPrefixes :: "string list" where
  "docxOptionalEntryPrefixes = [''word/header'', ''word/footer'', ''word/footnotes.xml'', ''word/endnotes.xml'']"

definition HasPrefix :: "string \<Rightarrow> string \<Rightarrow> bool" where
  "HasPrefix s p \<longleftrightarrow> take (length p) s = p"

definition hasAnyPrefix :: "string \<Rightarrow> string list \<Rightarrow> bool" where
  "hasAnyPrefix s prefixes \<longleftrightarrow> list_ex (HasPrefix s) prefixes"

datatype xml_token = StartElement string | EndElement string | CharData string

text \<open>The text runs of a part: what stands inside \<open>t\<close> elements, a new line at the end of each \<open>p\<close>.\<close>

fun docx_text :: "xml_token list \<Rightarrow> bool \<Rightarrow> string" where
  "docx_text [] inText = []"
| "docx_text (StartElement n # ts) inText = docx_text ts (n = ''t'' \<or> inText)"
| "docx_text (EndElement n # ts) inText =
     (if n = ''t'' then docx_text ts False else if n = ''p'' then [CHR 0x0A] @ docx_text ts inText else docx_text ts inText)"
| "docx_text (CharData s # ts) inText = (if inText then s else []) @ docx_text ts inText"

text \<open>An entry of the archive: its name and, read to its end with a limit, its bytes.\<close>

record zip_file =
  zf_Name :: string
  zf_Content :: "bytes option"      \<comment> \<open>it cannot be opened or read\<close>

record parsers =
  zip_reader :: "bytes \<Rightarrow> zip_file list option"
  xml_tokens :: "bytes \<Rightarrow> xml_token list option"
  pdf_text :: "bytes \<Rightarrow> string option"

definition TrimRight_nl :: "string \<Rightarrow> string" where
  "TrimRight_nl s = rev (dropWhile (\<lambda>c. c = CHR 0x0A) (rev s))"

definition extractDocxPart :: "parsers \<Rightarrow> zip_file \<Rightarrow> string option" where
  "extractDocxPart ps f = (case zf_Content f of None \<Rightarrow> None
     | Some d \<Rightarrow> if length d > maxDocxEntryBytes then None
         else map_option (\<lambda>ts. TrimRight_nl (docx_text ts False)) (xml_tokens ps d))"

definition isDocx :: "parsers \<Rightarrow> bytes \<Rightarrow> bool" where
  "isDocx ps d = (case zip_reader ps d of None \<Rightarrow> False | Some fs \<Rightarrow> list_ex (\<lambda>f. zf_Name f = docxBodyEntry) fs)"

fun docx_parts :: "parsers \<Rightarrow> zip_file list \<Rightarrow> string \<Rightarrow> bool \<Rightarrow> ingest_error + string" where
  "docx_parts ps [] sb bodyFound = (if bodyFound then Inr sb else Inl ErrMissingBody)"
| "docx_parts ps (f # fs) sb bodyFound =
     (let isBody = (zf_Name f = docxBodyEntry) in
      if \<not> (isBody \<or> hasAnyPrefix (zf_Name f) docxOptionalEntryPrefixes) then docx_parts ps fs sb bodyFound
      else case extractDocxPart ps f of
          None \<Rightarrow> if isBody then Inl (ErrEntry docxBodyEntry) else docx_parts ps fs sb bodyFound
        | Some t \<Rightarrow> docx_parts ps fs (sb @ (if sb \<noteq> [] \<and> t \<noteq> [] then [CHR 0x0A] else []) @ t) (bodyFound \<or> isBody))"

definition extractDOCX :: "parsers \<Rightarrow> bytes \<Rightarrow> ingest_error + extraction" where
  "extractDOCX ps d = (case zip_reader ps d of None \<Rightarrow> Inl ErrParser
     | Some fs \<Rightarrow> map_sum (\<lambda>e. e) (\<lambda>t. \<lparr>Text = t, Warning = []\<rparr>) (docx_parts ps fs [] False))"

section \<open>Dispatch\<close>

definition extractPDF :: "parsers \<Rightarrow> bytes \<Rightarrow> ingest_error + extraction" where
  "extractPDF ps d = (case pdf_text ps d of None \<Rightarrow> Inl ErrParser
     | Some raw \<Rightarrow> let t = TrimSpace raw in
         if t = [] then Inr \<lparr>Text = [], Warning = ''no extractable text found '' @ [CHR 0xE2, CHR 0x80, CHR 0x94] @ '' this PDF may be scanned/image-only''\<rparr>
         else Inr \<lparr>Text = t, Warning = []\<rparr>)"

definition sniffFormat :: "parsers \<Rightarrow> bytes \<Rightarrow> format" where
  "sniffFormat ps d = (if HasPrefix d ''%PDF-'' then formatPDF
     else if HasPrefix d (''PK'' @ [CHR 0x03, CHR 0x04]) \<and> isDocx ps d then formatDOCX else formatText)"

definition extractByFormat :: "parsers \<Rightarrow> Attachment \<Rightarrow> ingest_error + extraction" where
  "extractByFormat ps att = (case sniffFormat ps (Data att) of
     formatPDF \<Rightarrow> extractPDF ps (Data att)
   | formatDOCX \<Rightarrow> extractDOCX ps (Data att)
   | formatText \<Rightarrow> extractText (Data att))"

text \<open>\<open>Extract\<close>: the parsers run on hostile input, so the attempt may end in a panic, which is caught, or
  run beyond the time limit.\<close>

datatype run = Returns | Panics | TimesOut

definition Extract :: "parsers \<Rightarrow> (Attachment \<Rightarrow> run) \<Rightarrow> Attachment \<Rightarrow> ingest_error + extraction" where
  "Extract ps behaviour att = (case behaviour att of
     Returns \<Rightarrow> extractByFormat ps att | Panics \<Rightarrow> Inl ErrPanicked | TimesOut \<Rightarrow> Inl ErrTimeout)"

end
