(* ===== verification/Gateway.thy ===== *)
theory Gateway
  imports Providers Ingest
begin

text \<open>
  The gateway (\<open>internal/gateway\<close>): the one place a live chat turn touches retrieval, a provider and
  capture. A handler is a procedure that ends in a reply. \<open>encoding/json\<close>, base64, SHA-256 and
  \<open>strconv.Quote\<close> are arguments; log lines and metrics are left out. \<open>Retriever\<close> and \<open>Capturer\<close> are the
  store's \<open>Retrieve\<close> and \<open>Capture\<close>.
\<close>

declare One_nat_def [simp del]

section \<open>Wire format\<close>

record chatAttachment =
  at_Type :: string
  at_Filename :: string
  at_ContentType :: string
  at_Data :: string

record chatCompletionRequest =
  cq_Model :: string
  cq_Messages :: "Message list"
  cq_Attachments :: "chatAttachment list"
  cq_Stream :: bool
  cq_Temperature :: "rat option"
  cq_MaxTokens :: "int option"

record feedbackRequest =
  fb_EpisodeID :: string
  fb_Rating :: string
  fb_Note :: string

record UsedCitation =
  uc_Citation :: Citation
  uc_Used :: "bool option"

record chatCompletionResponse =
  co_ID :: string
  co_Created :: int
  co_Model :: string
  co_Message :: Message
  co_Usage :: "int \<times> int \<times> int"
  co_Citations :: "UsedCitation list"
  co_Warnings :: "string list"

record chatCompletionChunk =
  ck_ID :: string
  ck_Created :: int
  ck_Model :: string
  ck_Content :: string
  ck_Finish :: "string option"
  ck_Citations :: "UsedCitation list"
  ck_Warnings :: "string list"

datatype sse = Event chatCompletionChunk | EventDone

datatype reply = HttpError nat | Completion chatCompletionResponse | EventStream "sse list" | FeedbackCreated string

text \<open>A request: \<open>rh_Header\<close> is \<open>r.Header.Get\<close>; \<open>rh_Flusher\<close> says that the writer can flush.\<close>

record http_request =
  rh_Method :: string
  rh_Header :: "string \<Rightarrow> string"
  rh_Body :: string
  rh_Flusher :: bool

text \<open>What decoding a body of limited size ends in.\<close>

datatype 'a decoded = TooLarge | Malformed | Decoded 'a

record handler =
  h_registry :: Registry
  h_store :: store
  h_Auth :: "(string \<Rightarrow> identity proc) option"
  h_parsers :: parsers
  h_behaviour :: "Attachment \<Rightarrow> run"
  decode_chat :: "int \<Rightarrow> string \<Rightarrow> chatCompletionRequest decoded"
  decode_feedback :: "string \<Rightarrow> feedbackRequest option"
  decode_verdicts :: "string \<Rightarrow> bool list option"
  decode_agg :: "string \<Rightarrow> (string \<times> string) list option"
  base64 :: "string \<Rightarrow> bytes option"
  sha256_hex :: "string \<Rightarrow> string"
  Quote :: "string \<Rightarrow> string"
  error_text :: "err \<Rightarrow> string"
  ingest_error_text :: "ingest_error \<Rightarrow> string"

section \<open>Small pieces\<close>

definition defaultMaxRequestBodyBytes :: int where "defaultMaxRequestBodyBytes = 20 * 2 ^ 20"

definition maxRequestBodyBytes :: "handler \<Rightarrow> int" where
  "maxRequestBodyBytes h = (case Atoi (Getenv (h_store h) ''HUPI_MAX_REQUEST_BODY_BYTES'') of
     Some n \<Rightarrow> if n > 0 then n else defaultMaxRequestBodyBytes | None \<Rightarrow> defaultMaxRequestBodyBytes)"

text \<open>\<open>strings.EqualFold\<close> with a word whose letters fold to ASCII letters only.\<close>

definition fold_byte :: "char \<Rightarrow> char" where
  "fold_byte c = (if 65 \<le> byte_of c \<and> byte_of c \<le> 90 then char_of (byte_of c + 32) else c)"

definition header_off :: "http_request \<Rightarrow> string \<Rightarrow> bool" where
  "header_off r name \<longleftrightarrow> map fold_byte (rh_Header r name) = ''off''"

definition RatingValid :: "string \<Rightarrow> bool" where
  "RatingValid r \<longleftrightarrow> r \<in> set [''memory_correct'', ''memory_wrong'', ''memory_missing'']"

definition hashText :: "handler \<Rightarrow> string \<Rightarrow> string" where
  "hashText h s = ''sha256:'' @ sha256_hex h s"

text \<open>\<open>%013d\<close>; a failed read leaves the buffer of zeros.\<close>

definition pad13 :: "int \<Rightarrow> string" where
  "pad13 n = (if n < 0 then ''-'' @ pad 12 (nat (- n)) else pad 13 (nat n))"

definition newEpisodeID :: "time \<Rightarrow> string proc" where
  "newEpisodeID t = tryM (rand_read 10) (\<lambda>r.
     let suffix = (case r of Inr b \<Rightarrow> b | Inl _ \<Rightarrow> replicate 10 (CHR 0x00)) in
     retM (''ep_'' @ pad13 (t div 1000) @ hex_EncodeToString suffix))"

definition newID :: "string proc" where "newID = bindM (getM clock) newEpisodeID"

definition importance_keywords :: "string list" where
  "importance_keywords = [''decide'', ''decided'', ''prefer'', ''always'', ''never'', ''remember'', ''project'',
     ''working directory'', ''plan to'', ''going forward'']"

text \<open>Exact in place of \<open>float64\<close>.\<close>

definition estimateImportance :: "handler \<Rightarrow> string \<Rightarrow> string \<Rightarrow> rat" where
  "estimateImportance h inp out =
     (let txt = ToLower (st_lower (h_store h)) (inp @ '' '' @ out);
          score = 2 / 10 + of_nat (length (filter (contains txt) importance_keywords)) / 10
            + (if contains inp ''?'' then 5 / 100 else 0)
      in min score 1)"

definition buildEpisode ::
    "handler \<Rightarrow> string \<Rightarrow> provider \<Rightarrow> string \<Rightarrow> string \<Rightarrow> RetrievalResult \<Rightarrow> bool \<Rightarrow> string \<Rightarrow> Episode proc" where
  "buildEpisode h i p inp out result truncated actor = bindM (getM clock) (\<lambda>now.
     retM \<lparr>ep_ID = i, TS = now, Type = ''interaction'', ProviderVendor = pv_Vendor p, ProviderModel = pv_Model p,
       InputText = inp, OutputText = out, Importance = estimateImportance h inp out,
       Hash = hashText h (inp @ [CHR 0x00] @ out), Truncated = truncated, MemoryGate = Gate result,
       RetrievedRefs = Refs result, ActorUserID = actor, RefersTo = [], Rating = [], Note = []\<rparr>)"

section \<open>Who asks\<close>

definition bearerToken :: "http_request \<Rightarrow> string" where
  "bearerToken r = (case cut_prefix ''Bearer '' (rh_Header r ''Authorization'') of None \<Rightarrow> [] | Some t \<Rightarrow> t)"

definition resolveIdentity :: "handler \<Rightarrow> http_request \<Rightarrow> identity proc" where
  "resolveIdentity h r = (case h_Auth h of
       None \<Rightarrow> retM \<lparr>UserID = DefaultUserID, TeamIDs = []\<rparr>
     | Some Resolve \<Rightarrow> if bearerToken r = [] then errM ErrUnauthorized
         else tryM (Resolve (bearerToken r)) (\<lambda>res. case res of Inl _ \<Rightarrow> errM ErrUnauthorized | Inr i \<Rightarrow> retM i))"

definition resolveScope :: "handler \<Rightarrow> http_request \<Rightarrow> scope proc" where
  "resolveScope h r = bindM (resolveIdentity h r) (\<lambda>i. retM (PrivateScope i))"

definition resolveProvider :: "handler \<Rightarrow> string \<Rightarrow> provider" where
  "resolveProvider h model = (case Named (h_registry h) model of Some p \<Rightarrow> p | None \<Rightarrow> Chat (h_registry h))"

section \<open>What an answer relied on\<close>

definition buildAttributionPrompt :: "string \<Rightarrow> Citation list \<Rightarrow> string" where
  "buildAttributionPrompt answer cs = ''Generated answer:'' @ nl @ answer @ nl @ nl @ ''Candidate memory snippets:'' @ nl @
     concat (map (\<lambda>(i, c). dec (i + 1) @ ''. '' @ Snippet c @ nl) (zip [0..<length cs] cs))"

definition attributionCheck :: "handler \<Rightarrow> provider \<Rightarrow> string \<Rightarrow> Citation list \<Rightarrow> bool list proc" where
  "attributionCheck h judge answer cs =
     (if cs = [] then retM []
      else bindM (call (pv_Chat judge) (AttributionVerdict (buildAttributionPrompt answer cs))) (\<lambda>resp.
        case decode_verdicts h (extractJSON (msg_content (cr_Message resp))) of
          None \<Rightarrow> errM ErrParse
        | Some used \<Rightarrow> if length used \<noteq> length cs then errM (ErrVectorCount (length used) (length cs)) else retM used))"

definition not_checked :: "Citation list \<Rightarrow> UsedCitation list" where
  "not_checked = map (\<lambda>c. \<lparr>uc_Citation = c, uc_Used = None\<rparr>)"

text \<open>The citations of a response; \<open>gone\<close> is a context that is done, under which no call succeeds.\<close>

definition explain :: "handler \<Rightarrow> provider \<Rightarrow> string \<Rightarrow> bool \<Rightarrow> string \<Rightarrow> Citation list \<Rightarrow> UsedCitation list proc" where
  "explain h target mode gone answer cs =
     (if mode = [] then retM []
      else if mode = ''deep'' \<and> cs \<noteq> [] then
        tryM (if gone then errM ErrCancelled else attributionCheck h target answer cs) (\<lambda>res. case res of
          Inl _ \<Rightarrow> retM (not_checked cs)
        | Inr used \<Rightarrow> retM (map2 (\<lambda>c u. \<lparr>uc_Citation = c, uc_Used = Some u\<rparr>) cs used))
      else retM (not_checked cs))"

section \<open>The aggregation hint\<close>

definition buildAggregationExtractionPrompt :: "string \<Rightarrow> string \<Rightarrow> string" where
  "buildAggregationExtractionPrompt question ctx = ''Question: '' @ question @ nl @ nl @ ''Retrieved context:'' @ nl @ ctx"

definition extractAggregationFacts :: "handler \<Rightarrow> provider \<Rightarrow> string \<Rightarrow> string \<Rightarrow> (string \<times> string) list proc" where
  "extractAggregationFacts h judge question ctx =
     tryM (call (pv_Chat judge) (AggregationExtraction (buildAggregationExtractionPrompt question ctx))) (\<lambda>res. case res of
       Inl _ \<Rightarrow> retM []
     | Inr resp \<Rightarrow> retM (case decode_agg h (extractJSON (msg_content (cr_Message resp))) of None \<Rightarrow> [] | Some fs \<Rightarrow> fs))"

record parsedAggregationFact =
  pf_description :: string
  pf_date :: day

definition parseAggregationFacts :: "(string \<times> string) list \<Rightarrow> parsedAggregationFact list" where
  "parseAggregationFacts facts = List.map_filter (\<lambda>(d, date). if TrimSpace d = [] then None
     else map_option (\<lambda>n. \<lparr>pf_description = d, pf_date = n\<rparr>) (parse_date date)) facts"

definition consecutiveKeywords :: "string list" where
  "consecutiveKeywords = [''in a row'', ''consecutive'', ''back to back'']"

definition looksLikeConsecutivePairRequest :: "handler \<Rightarrow> string \<Rightarrow> bool" where
  "looksLikeConsecutivePairRequest h question = mentions (h_store h) consecutiveKeywords question"

definition maxConsecutivePairGapDays :: int where "maxConsecutivePairGapDays = 2"

definition pluralAgo :: "int \<Rightarrow> string \<Rightarrow> string" where
  "pluralAgo n unit = (let count = (if n \<le> 0 then 1 else n) in
     if count = 1 then ''1 '' @ unit @ '' ago'' else dec (nat count) @ '' '' @ unit @ ''s ago'')"

definition relativeDelta :: "time \<Rightarrow> time \<Rightarrow> string" where
  "relativeDelta start now =
     (let days = whole_days (Sub now start) in
      if days < 0 then []
      else if days = 0 then ''today''
      else if days = 1 then ''1 day ago''
      else if days < 7 then dec (nat days) @ '' days ago''
      else if days < 60 then pluralAgo (math_Round (of_int days / 7)) ''week''
      else let months = math_Round (of_int days / (3044 / 100)) in
        if months < 12 then pluralAgo months ''month''
        else pluralAgo (math_Round (of_int days / (36525 / 100))) ''year'')"

text \<open>The first pair of neighbours with the least gap; no gap counts that is not below the longest duration.\<close>

fun closest :: "parsedAggregationFact list \<Rightarrow> int \<Rightarrow> (parsedAggregationFact \<times> parsedAggregationFact) option
    \<Rightarrow> (parsedAggregationFact \<times> parsedAggregationFact) option \<times> int" where
  "closest (a # b # rest) bestGap best =
     (let gap = Sub (midnight (pf_date b)) (midnight (pf_date a)) in
      if gap < bestGap then closest (b # rest) gap (Some (a, b)) else closest (b # rest) bestGap best)"
| "closest _ bestGap best = (best, bestGap)"

definition hint_text :: "handler \<Rightarrow> parsedAggregationFact \<Rightarrow> parsedAggregationFact \<Rightarrow> int \<Rightarrow> string \<Rightarrow> string" where
  "hint_text h a b gapDays sinceLater =
     ''A separate computation over the retrieved facts found a pair of matching events on consecutive days: '' @
     Quote h (pf_description a) @ '' on '' @ format_date (pf_date a) @ '' and '' @
     Quote h (pf_description b) @ '' on '' @ format_date (pf_date b) @ '' ('' @ dec (nat gapDays) @
     '' day(s) apart). As of now, the later of those two was '' @ sinceLater @
     ''. Use this only if it directly answers the question '' @ emdash @ '' otherwise ignore it.''"

definition resolveConsecutivePairHint :: "handler \<Rightarrow> parsedAggregationFact list \<Rightarrow> time \<Rightarrow> string" where
  "resolveConsecutivePairHint h facts now = (case closest facts (2 ^ 63 - 1) None of
     (None, _) \<Rightarrow> []
   | (Some (a, b), gap) \<Rightarrow>
       let gapDays = whole_days gap; sinceLater = relativeDelta (midnight (pf_date b)) now in
       if gapDays > maxConsecutivePairGapDays \<or> sinceLater = [] then [] else hint_text h a b gapDays sinceLater)"

definition resolveAggregationHint :: "handler \<Rightarrow> string \<Rightarrow> parsedAggregationFact list \<Rightarrow> time \<Rightarrow> string" where
  "resolveAggregationHint h question facts now =
     (if length facts < 2 \<or> \<not> looksLikeConsecutivePairRequest h question then []
      else resolveConsecutivePairHint h (sort_key pf_date facts) now)"

definition AggregationHint :: "handler \<Rightarrow> provider \<Rightarrow> string \<Rightarrow> string \<Rightarrow> time \<Rightarrow> string proc" where
  "AggregationHint h judge question ctx now =
     (if \<not> looksLikeConsecutivePairRequest h question then retM []
      else bindM (extractAggregationFacts h judge question ctx) (\<lambda>facts.
        retM (resolveAggregationHint h question (parseAggregationFacts facts) now)))"

section \<open>Attachments\<close>

definition maxAttachmentBytes :: nat where "maxAttachmentBytes = 8 * 2 ^ 20"
definition maxAttachmentsPerRequest :: nat where "maxAttachmentsPerRequest = 5"

definition allowedImageMIME :: "string list" where
  "allowedImageMIME = [''image/png'', ''image/jpeg'', ''image/webp'', ''image/gif'']"

text \<open>The validation of one attachment; the result is its bytes.\<close>

definition decode_attachment :: "handler \<Rightarrow> chatAttachment \<Rightarrow> bytes option" where
  "decode_attachment h att =
     (if at_Type att \<notin> set [''document'', ''image''] then None
      else case base64 h (at_Data att) of None \<Rightarrow> None
        | Some d \<Rightarrow> if length d > maxAttachmentBytes then None
            else if at_Type att = ''image'' \<and> at_ContentType att \<notin> set allowedImageMIME then None else Some d)"

definition extractDocumentAttachment :: "handler \<Rightarrow> string \<Rightarrow> string \<Rightarrow> bytes \<Rightarrow> string \<times> string" where
  "extractDocumentAttachment h filename contentType d =
     (case Extract (h_parsers h) (h_behaviour h) \<lparr>Filename = filename, ContentType = contentType, Data = d\<rparr> of
       Inl e \<Rightarrow> (''[Attached file: '' @ filename @ '' '' @ emdash @ '' could not be read]'',
                filename @ '': could not be read ('' @ ingest_error_text h e @ '')'')
     | Inr res \<Rightarrow> (''[Attached file: '' @ filename @ '']'' @ nl @ Text res @ nl @ ''[End of attached file: '' @ filename @ '']'',
                if Warning res \<noteq> [] then filename @ '': '' @ Warning res else []))"

definition describeImageAttachment :: "handler \<Rightarrow> string \<Rightarrow> string \<Rightarrow> bytes \<Rightarrow> (string \<times> string) proc" where
  "describeImageAttachment h filename mimeType d =
     (let missing = ''[Shared image: '' @ filename @ '' '' @ emdash @ '' description unavailable]'' in
      case DescribeImage (Vision (h_registry h)) of
        None \<Rightarrow> retM (missing, filename @ '': the configured vision provider does not support image description'')
      | Some describe \<Rightarrow> tryM (call describe (d, mimeType)) (\<lambda>res. case res of
          Inl e \<Rightarrow> retM (missing, filename @ '': description unavailable ('' @ error_text h e @ '')'')
        | Inr caption \<Rightarrow> retM (''[Shared image: '' @ filename @ '']'' @ nl @ caption, [])))"

definition processAttachment :: "handler \<Rightarrow> chatAttachment \<times> bytes \<Rightarrow> (string \<times> string) proc" where
  "processAttachment h = (\<lambda>(att, d).
     let filename = (if at_Filename att = [] then ''attachment'' else at_Filename att) in
     if at_Type att = ''image'' then describeImageAttachment h filename (at_ContentType att) d
     else retM (extractDocumentAttachment h filename (at_ContentType att) d))"

definition lastUserIdx :: "Message list \<Rightarrow> nat option" where
  "lastUserIdx msgs = (case filter (\<lambda>i. msg_role (msgs ! i) = ''user'') (rev [0..<length msgs]) of [] \<Rightarrow> None | i # _ \<Rightarrow> Some i)"

text \<open>The attachments are processed at the same time and joined in order.\<close>

definition mergeAttachments :: "handler \<Rightarrow> Message list \<Rightarrow> chatAttachment list \<Rightarrow> (Message list \<times> string list) proc" where
  "mergeAttachments h messages atts =
     (if atts = [] then retM (messages, [])
      else if length atts > maxAttachmentsPerRequest then errM ErrAttachments
      else case lastUserIdx messages of None \<Rightarrow> errM ErrAttachments
        | Some i \<Rightarrow>
            if list_ex (\<lambda>a. decode_attachment h a = None) atts then errM ErrAttachments
            else bindM (mapM (processAttachment h) (map (\<lambda>a. (a, the (decode_attachment h a))) atts)) (\<lambda>results.
              retM (messages[i := (messages ! i)\<lparr>msg_content := msg_content (messages ! i) @
                      concat (map (\<lambda>(block, _). nl @ nl @ block) results)\<rparr>],
                    filter (\<lambda>w. w \<noteq> []) (map snd results))))"

section \<open>Answers\<close>

text \<open>What both kinds of answer need to know of the turn.\<close>

record turn =
  t_scope :: scope
  t_req :: chatCompletionRequest
  t_augmented :: "Message list"
  t_target :: provider
  t_result :: RetrievalResult
  t_input :: string
  t_actor :: string
  t_skipCapture :: bool
  t_explain :: string
  t_warnings :: "string list"

definition turn_prompt :: "turn \<Rightarrow> prompt" where
  "turn_prompt t = Turn (t_augmented t) (cq_Temperature (t_req t)) (cq_MaxTokens (t_req t))"

text \<open>Capture is awaited, and a failure is only logged.\<close>

definition capture_turn :: "handler \<Rightarrow> turn \<Rightarrow> bool \<Rightarrow> Episode \<Rightarrow> unit proc" where
  "capture_turn h t gone ep =
     (if t_skipCapture t then retM ()
      else best_effort (if gone then errM ErrCancelled else Capture (h_store h) (t_scope t) ep))"

definition unix_now :: "int proc" where "unix_now = getM (\<lambda>w. clock w div 1000000)"

definition handleNonStream :: "handler \<Rightarrow> turn \<Rightarrow> reply proc" where
  "handleNonStream h t =
     tryM (call (pv_Chat (t_target t)) (turn_prompt t)) (\<lambda>res. case res of
       Inl _ \<Rightarrow> retM (HttpError 502)
     | Inr resp \<Rightarrow> bindM newID (\<lambda>i.
         bindM (buildEpisode h i (t_target t) (t_input t) (msg_content (cr_Message resp)) (t_result t) False (t_actor t)) (\<lambda>ep.
         bindM (capture_turn h t False ep) (\<lambda>_.
         bindM unix_now (\<lambda>created.
         bindM (explain h (t_target t) (t_explain t) False (msg_content (cr_Message resp)) (Citations (t_result t))) (\<lambda>cs.
         retM (Completion \<lparr>co_ID = i, co_Created = created, co_Model = cr_Model resp, co_Message = cr_Message resp,
                 co_Usage = cr_Usage resp, co_Citations = cs, co_Warnings = t_warnings t\<rparr>)))))))"

text \<open>The drain loop: the deltas sent on, whether the turn counts as truncated, whether the client is gone.\<close>

fun drain :: "stream_event list \<Rightarrow> string list \<times> bool \<times> bool" where
  "drain [] = ([], False, False)"
| "drain (ClientGone # _) = ([], True, True)"
| "drain (Failed _ # _) = ([], True, False)"
| "drain (Done # _) = ([], False, False)"
| "drain (Delta d # es) = (case drain es of (ds, r) \<Rightarrow> (if d = [] then ds else d # ds, r))"

definition delta_chunk :: "string \<Rightarrow> int \<Rightarrow> string \<Rightarrow> string \<Rightarrow> sse" where
  "delta_chunk i created model d = Event \<lparr>ck_ID = i, ck_Created = created, ck_Model = model, ck_Content = d,
     ck_Finish = None, ck_Citations = [], ck_Warnings = []\<rparr>"

definition handleStream :: "handler \<Rightarrow> bool \<Rightarrow> turn \<Rightarrow> reply proc" where
  "handleStream h flusher t =
     (if \<not> flusher then retM (HttpError 500)
      else tryM (call (pv_Stream (t_target t)) (turn_prompt t)) (\<lambda>res. case res of
        Inl _ \<Rightarrow> retM (HttpError 502)
      | Inr events \<Rightarrow> bindM newID (\<lambda>i.
          bindM unix_now (\<lambda>created.
          case drain events of (deltas, truncated, gone) \<Rightarrow>
          bindM (buildEpisode h i (t_target t) (t_input t) (concat deltas) (t_result t) truncated (t_actor t)) (\<lambda>ep.
          bindM (capture_turn h t gone ep) (\<lambda>_.
          bindM (explain h (t_target t) (t_explain t) gone (concat deltas) (Citations (t_result t))) (\<lambda>cs.
          retM (EventStream (map (delta_chunk i created (pv_Model (t_target t))) deltas @
             [Event \<lparr>ck_ID = i, ck_Created = created, ck_Model = pv_Model (t_target t), ck_Content = [],
                ck_Finish = Some ''stop'', ck_Citations = cs, ck_Warnings = t_warnings t\<rparr>, EventDone])))))))))"

definition answer :: "handler \<Rightarrow> bool \<Rightarrow> turn \<Rightarrow> reply proc" where
  "answer h flusher t = (if cq_Stream (t_req t) then handleStream h flusher t else handleNonStream h t)"

section \<open>Chat completions\<close>

definition skipped :: RetrievalResult where
  "skipped = \<lparr>Gate = GateSkipped, ContextMessage = [], Refs = [], Citations = [], NeedsAggregationPass = False\<rparr>"

text \<open>A failed retrieval degrades to no memory for this turn.\<close>

definition retrieve_turn :: "handler \<Rightarrow> http_request \<Rightarrow> scope \<Rightarrow> scope \<Rightarrow> Message list \<Rightarrow> RetrievalResult proc" where
  "retrieve_turn h r actingUser workspace messages =
     (if header_off r ''X-Hupi-Memory'' then retM skipped
      else bindM (getM clock) (\<lambda>now. tryM (Retrieve (h_store h) actingUser workspace messages now) (\<lambda>res. case res of
        Inl _ \<Rightarrow> retM skipped | Inr result \<Rightarrow> retM result)))"

definition system_message :: "string \<Rightarrow> Message" where
  "system_message c = \<lparr>msg_role = ''system'', msg_content = c\<rparr>"

definition aggregation_messages :: "handler \<Rightarrow> provider \<Rightarrow> RetrievalResult \<Rightarrow> string \<Rightarrow> Message list proc" where
  "aggregation_messages h target result inp =
     (if NeedsAggregationPass result \<and> ContextMessage result \<noteq> []
      then bindM (getM clock) (\<lambda>now. bindM (AggregationHint h target inp (ContextMessage result) now) (\<lambda>hint.
             retM (if hint \<noteq> [] then [system_message hint] else [])))
      else retM [])"

definition chat_turn :: "handler \<Rightarrow> http_request \<Rightarrow> chatCompletionRequest \<Rightarrow> scope \<Rightarrow> scope \<Rightarrow> reply proc" where
  "chat_turn h r req actingUser workspace =
     bindM (retrieve_turn h r actingUser workspace (cq_Messages req)) (\<lambda>result.
     tryM (mergeAttachments h (cq_Messages req) (cq_Attachments req)) (\<lambda>merged. case merged of
       Inl _ \<Rightarrow> retM (HttpError 400)
     | Inr (messages, warnings) \<Rightarrow>
         let target = resolveProvider h (cq_Model req); inp = lastUserMessage messages;
             context = (if ContextMessage result \<noteq> [] then [system_message (ContextMessage result)] else []) in
         bindM (aggregation_messages h target result inp) (\<lambda>hint.
         let t = \<lparr>t_scope = workspace, t_req = req, t_augmented = context @ hint @ messages, t_target = target,
               t_result = result, t_input = inp, t_actor = Owner actingUser, t_skipCapture = header_off r ''X-Hupi-Capture'',
               t_explain = rh_Header r ''X-Hupi-Explain'', t_warnings = warnings\<rparr> in
         answer h (rh_Flusher r) t)))"

definition handleChatCompletionsScoped :: "handler \<Rightarrow> http_request \<Rightarrow> scope \<Rightarrow> scope \<Rightarrow> reply proc" where
  "handleChatCompletionsScoped h r actingUser workspace =
     (case decode_chat h (maxRequestBodyBytes h) (rh_Body r) of
        TooLarge \<Rightarrow> retM (HttpError 413)
      | Malformed \<Rightarrow> retM (HttpError 400)
      | Decoded req \<Rightarrow>
          if cq_Messages req = [] \<or> list_ex (\<lambda>m. \<not> RoleValid (msg_role m)) (cq_Messages req) then retM (HttpError 400)
          else chat_turn h r req actingUser workspace)"

definition HandleChatCompletions :: "handler \<Rightarrow> http_request \<Rightarrow> reply proc" where
  "HandleChatCompletions h r =
     (if rh_Method r \<noteq> ''POST'' then retM (HttpError 405)
      else tryM (resolveScope h r) (\<lambda>res. case res of
        Inl _ \<Rightarrow> retM (HttpError 401)
      | Inr sc \<Rightarrow> handleChatCompletionsScoped h r sc sc))"

section \<open>Feedback\<close>

definition handleFeedbackScoped :: "handler \<Rightarrow> http_request \<Rightarrow> scope \<Rightarrow> string \<Rightarrow> reply proc" where
  "handleFeedbackScoped h r sc actor =
     (case decode_feedback h (rh_Body r) of None \<Rightarrow> retM (HttpError 400)
      | Some req \<Rightarrow>
          if fb_EpisodeID req = [] \<or> \<not> RatingValid (fb_Rating req) then retM (HttpError 400)
          else bindM newID (\<lambda>i. bindM (getM clock) (\<lambda>now.
            tryM (Capture (h_store h) sc \<lparr>ep_ID = i, TS = now, Type = ''feedback'', ProviderVendor = [], ProviderModel = [],
                InputText = [], OutputText = [], Importance = 0, Hash = [], Truncated = False, MemoryGate = [],
                RetrievedRefs = [], ActorUserID = actor, RefersTo = fb_EpisodeID req, Rating = fb_Rating req,
                Note = fb_Note req\<rparr>) (\<lambda>res. case res of
              Inl e \<Rightarrow> retM (HttpError (if e = ErrFeedbackEpisodeNotFound then 400 else 500))
            | Inr _ \<Rightarrow> retM (FeedbackCreated i)))))"

definition HandleFeedback :: "handler \<Rightarrow> http_request \<Rightarrow> reply proc" where
  "HandleFeedback h r =
     (if rh_Method r \<noteq> ''POST'' then retM (HttpError 405)
      else tryM (resolveScope h r) (\<lambda>res. case res of
        Inl _ \<Rightarrow> retM (HttpError 401)
      | Inr sc \<Rightarrow> handleFeedbackScoped h r sc (Owner sc)))"

end
