(* ===== verification/Gateway_Correct.thy ===== *)
theory Gateway_Correct
  imports "HOL-Library.Multiset" Gateway Capture_Correct Retrieve_Isolated Runner_Correct Entities_Correct
begin

text \<open>
  What a chat turn does: the answer reaches the client whatever happens to memory, the episode that is
  captured is the exchange the client saw, nothing outside the scope changes, and where the code falls
  short of its comments when a stream is cut.
\<close>

declare One_nat_def [simp del]

section \<open>Steps that leave the database alone\<close>

text \<open>At most the source of randomness and the count of provider calls have moved on.\<close>

definition idle :: "world \<Rightarrow> world \<Rightarrow> bool" where
  "idle w t \<longleftrightarrow> t\<lparr>rand_pos := 0, calls := 0\<rparr> = w\<lparr>rand_pos := 0, calls := 0\<rparr>"

lemma idle_refl [simp]: "idle w w"
  by (simp add: idle_def)

lemma idle_step: "idle w t \<Longrightarrow> idle w (t\<lparr>rand_pos := n\<rparr>)" "idle w t \<Longrightarrow> idle w (t\<lparr>calls := m\<rparr>)"
  by (simp_all add: idle_def)

lemma idle_trans: "idle w t \<Longrightarrow> idle t u \<Longrightarrow> idle w u"
  by (simp add: idle_def)

lemma idleD:
  assumes "idle w t"
  shows "db t = db w" "tx t = tx w" "kek t = kek w" "clock t = clock w"
  using arg_cong [OF assms [unfolded idle_def], of db] arg_cong [OF assms [unfolded idle_def], of tx]
    arg_cong [OF assms [unfolded idle_def], of kek] arg_cong [OF assms [unfolded idle_def], of clock] by simp_all

lemma idle_holds:
  assumes "process_pred P" "idle w t" "holds P sess w"
  shows "holds P sess t"
proof -
  have "P t = P (t\<lparr>rand_pos := 0, calls := 0\<rparr>)" "P w = P (w\<lparr>rand_pos := 0, calls := 0\<rparr>)"
    using process_pred_simps [OF assms(1)] by simp_all
  then have "P t = P w" using assms(2) by (simp add: idle_def)
  then show ?thesis using assms(3) idleD [OF assms(2)] by (simp add: holds_def session_def)
qed

lemma wp_call [wp_simps]:
  "wp (call f q) Q E = (\<lambda>w. case f (calls w) q of Inl e \<Rightarrow> E e (w\<lparr>calls := calls w + 1\<rparr>) | Inr x \<Rightarrow> Q x (w\<lparr>calls := calls w + 1\<rparr>))"
  by (simp add: wp_def call_def fun_eq_iff split: sum.splits)

lemma wp_newID: "idle w t \<Longrightarrow> wp newID (\<lambda>_. idle w) (\<lambda>_ _. False) t"
  by (simp add: newID_def newEpisodeID_def wp_simps Let_def idle_step)

lemma wp_attributionCheck:
  "idle w t \<Longrightarrow> wp (attributionCheck h p a cs) (\<lambda>used u. idle w u \<and> length used = length cs) (\<lambda>_. idle w) t"
  by (auto simp: attributionCheck_def wp_simps idle_step split: sum.splits option.splits)

lemma wp_explain:
  assumes "idle w t"
  shows "wp (explain h p mode gone a cs) (\<lambda>ucs u. idle w u \<and> (mode \<noteq> [] \<longrightarrow> map uc_Citation ucs = cs)) (\<lambda>_ _. False) t"
proof -
  have [simp]: "map uc_Citation (not_checked cs) = cs" by (simp add: not_checked_def o_def)
  have used: "map (uc_Citation \<circ> (\<lambda>(c, u). \<lparr>uc_Citation = c, uc_Used = Some u\<rparr>)) (zip cs used) = cs" if "length used = length cs"
    for used :: "bool list"
    using that by (induction used cs rule: list_induct2) simp_all
  show ?thesis
    using assms by (auto simp: explain_def wp_simps used intro!: wp_mono [OF wp_attributionCheck [OF assms]])
qed

section \<open>What is captured\<close>

primrec sse_text :: "sse \<Rightarrow> string" where
  "sse_text (Event c) = ck_Content c"
| "sse_text EventDone = []"

text \<open>The text the client was sent, and the id of the turn.\<close>

definition reply_text :: "reply \<Rightarrow> string" where
  "reply_text r = (case r of Completion c \<Rightarrow> msg_content (co_Message c) | EventStream es \<Rightarrow> concat (map sse_text es) | _ \<Rightarrow> [])"

definition reply_ids :: "reply \<Rightarrow> string set" where
  "reply_ids r = (case r of Completion c \<Rightarrow> {co_ID c} | EventStream es \<Rightarrow> {ck_ID c | c. Event c \<in> set es} | _ \<Rightarrow> {})"

text \<open>The episode of a turn and the reply it belongs to.\<close>

definition episode_of :: "handler \<Rightarrow> turn \<Rightarrow> reply \<Rightarrow> bool \<Rightarrow> time \<Rightarrow> Episode \<Rightarrow> bool" where
  "episode_of h t r truncated now ep \<longleftrightarrow> Truncated ep = truncated \<and> InputText ep = t_input t \<and> OutputText ep = reply_text r \<and> reply_ids r = {ep_ID ep}
     \<and> Hash ep = hashText h (t_input t @ [CHR 0x00] @ reply_text r) \<and> Type ep = ''interaction'' \<and> TS ep = now
     \<and> ProviderVendor ep = pv_Vendor (t_target t) \<and> ProviderModel ep = pv_Model (t_target t)
     \<and> MemoryGate ep = Gate (t_result t) \<and> RetrievedRefs ep = Refs (t_result t) \<and> ActorUserID ep = t_actor t"

text \<open>The provider's answer to the turn: its text, whether it was cut short and whether the client had gone; None
  when the provider refused.\<close>

definition provider_answer :: "turn \<Rightarrow> nat \<Rightarrow> (string \<times> bool \<times> bool) option" where
  "provider_answer t n = (if cq_Stream (t_req t)
     then (case pv_Stream (t_target t) n (turn_prompt t) of Inl _ \<Rightarrow> None | Inr es \<Rightarrow> Some (apfst concat (drain es)))
     else (case pv_Chat (t_target t) n (turn_prompt t) of Inl _ \<Rightarrow> None
       | Inr c \<Rightarrow> Some (msg_content (cr_Message c), False, False)))"

text \<open>What became of it: nothing when capturing is off or the client has gone, else all of it or nothing.\<close>

definition stored :: "handler \<Rightarrow> turn \<Rightarrow> bool \<Rightarrow> bytes \<Rightarrow> Episode \<Rightarrow> database \<Rightarrow> database \<Rightarrow> bool" where
  "stored h t gone K ep d d' \<longleftrightarrow> (if t_skipCapture t \<or> gone then d' = d
     else captured (st_aead (h_store h)) K (t_scope t) ep d d' \<or> first_key_only (t_scope t) d d')"

lemma wp_capture_turn:
  assumes "aead_correct (st_aead (h_store h))" "holds (key_inv (st_aead (h_store h)) K rows) None w"
  shows "wp (capture_turn h t gone ep) (\<lambda>_ u. stored h t gone K ep (db w) (db u)) (\<lambda>_ _. False) w"
  by (auto simp: capture_turn_def best_effort_def wp_simps stored_def intro!: wp_mono [OF wp_Capture [OF assms]])

lemma wp_buildEpisode:
  assumes "\<And>ep. InputText ep = inp \<Longrightarrow> OutputText ep = out \<Longrightarrow> ep_ID ep = i \<Longrightarrow> Hash ep = hashText h (inp @ [CHR 0x00] @ out)
     \<Longrightarrow> Type ep = ''interaction'' \<Longrightarrow> TS ep = clock t \<Longrightarrow> ProviderVendor ep = pv_Vendor p \<Longrightarrow> ProviderModel ep = pv_Model p
     \<Longrightarrow> MemoryGate ep = Gate result \<Longrightarrow> RetrievedRefs ep = Refs result \<Longrightarrow> ActorUserID ep = actor \<Longrightarrow> Truncated ep = truncated
     \<Longrightarrow> Q ep t"
  shows "wp (buildEpisode h i p inp out result truncated actor) Q E t"
  unfolding buildEpisode_def wp_bindM wp_getM wp_retM by (rule assms) simp_all

definition answered :: "handler \<Rightarrow> turn \<Rightarrow> world \<Rightarrow> reply \<Rightarrow> world \<Rightarrow> bool" where
  "answered h t w r u \<longleftrightarrow> (case provider_answer t (calls w) of
       None \<Rightarrow> r = HttpError 502 \<and> db u = db w
     | Some (txt, truncated, gone) \<Rightarrow> reply_text r = txt \<and>
         (\<exists>ep. episode_of h t r truncated (clock w) ep \<and> stored h t gone (kek w) ep (db w) (db u)))"

lemma wp_newID_then:
  assumes "idle w t" "\<And>i u. idle w u \<Longrightarrow> Q i u"
  shows "wp newID Q E t"
  by (rule wp_mono [OF wp_newID [OF assms(1)]]) (use assms(2) in auto)

lemma wp_explain_then:
  assumes "\<And>cs u. idle t u \<Longrightarrow> Q cs u"
  shows "wp (explain h p mode gone a cs) Q E t"
  by (rule wp_mono [OF wp_explain [OF idle_refl]]) (use assms in auto)

lemma wp_capture_then:
  assumes "aead_correct (st_aead (h_store h))" "holds (key_inv (st_aead (h_store h)) (kek w) (scope_keys (db w))) None w"
    and "idle w t" "\<And>x u. stored h tu gone (kek w) ep (db w) (db u) \<Longrightarrow> Q x u"
  shows "wp (capture_turn h tu gone ep) Q E t"
proof -
  have "holds (key_inv (st_aead (h_store h)) (kek w) (scope_keys (db w))) None t"
    by (rule idle_holds [OF key_inv_process assms(3,2)])
  from wp_capture_turn [OF assms(1) this] show ?thesis
    by (rule wp_mono) (use assms(4) idleD [OF assms(3)] in auto)
qed

lemma stored_idle: "stored h t gone K ep d (db u) \<Longrightarrow> idle u v \<Longrightarrow> stored h t gone K ep d (db v)"
  by (simp add: idleD)

lemma wp_handleNonStream:
  assumes A: "aead_correct (st_aead (h_store h))"
    and w: "holds (key_inv (st_aead (h_store h)) (kek w) (scope_keys (db w))) None w" and "\<not> cq_Stream (t_req t)"
  shows "wp (handleNonStream h t) (answered h t w) (\<lambda>_ _. False) w"
proof (cases "pv_Chat (t_target t) (calls w) (turn_prompt t)")
  case (Inl e)
  then show ?thesis using assms(3) by (simp add: handleNonStream_def wp_simps answered_def provider_answer_def)
next
  case (Inr resp)
  let ?out = "msg_content (cr_Message resp)"
  have ptxt: "provider_answer t (calls w) = Some (?out, False, False)" using assms(3) Inr by (simp add: provider_answer_def)
  have "idle w (w\<lparr>calls := calls w + 1\<rparr>)" by (simp add: idle_step)
  then show ?thesis
    unfolding handleNonStream_def wp_tryM wp_call Inr sum.case wp_bindM
  proof (rule wp_newID_then)
    fix i u
    assume u: "idle w u"
    show "wp (buildEpisode h i (t_target t) (t_input t) ?out (t_result t) False (t_actor t)) (\<lambda>ep.
        wp (capture_turn h t False ep) (\<lambda>_. wp unix_now (\<lambda>created.
        wp (explain h (t_target t) (t_explain t) False ?out (Citations (t_result t))) (\<lambda>cs.
        wp (retM (Completion \<lparr>co_ID = i, co_Created = created, co_Model = cr_Model resp, co_Message = cr_Message resp,
           co_Usage = cr_Usage resp, co_Citations = cs, co_Warnings = t_warnings t\<rparr>)) (answered h t w) (\<lambda>_ _. False))
           (\<lambda>_ _. False)) (\<lambda>_ _. False)) (\<lambda>_ _. False)) (\<lambda>_ _. False) u"
      unfolding unix_now_def wp_getM wp_retM
    proof (rule wp_buildEpisode, rule wp_capture_then [OF A w u], rule wp_explain_then, goal_cases)
      case (1 ep x v cs v')
      then have "stored h t False (kek w) ep (db w) (db v')" by (blast intro: stored_idle)
      with 1 show ?case
        by (auto simp: answered_def ptxt episode_of_def reply_text_def reply_ids_def idleD [OF u] intro!: exI [of _ ep])
    qed
  qed
qed

lemma concat_deltas: "concat (map sse_text (map (delta_chunk i created model) ds)) = concat ds"
  by (induction ds) (simp_all add: delta_chunk_def)

lemma reply_ids_stream:
  "ck_ID c = i \<Longrightarrow> reply_ids (EventStream (map (delta_chunk i created model) ds @ [Event c, EventDone])) = {i}"
  unfolding reply_ids_def delta_chunk_def by (auto intro!: exI [of _ c])

lemma wp_handleStream:
  assumes A: "aead_correct (st_aead (h_store h))"
    and w: "holds (key_inv (st_aead (h_store h)) (kek w) (scope_keys (db w))) None w" and "cq_Stream (t_req t)"
  shows "wp (handleStream h True t) (answered h t w) (\<lambda>_ _. False) w"
proof (cases "pv_Stream (t_target t) (calls w) (turn_prompt t)")
  case (Inl e)
  then show ?thesis using assms(3) by (simp add: handleStream_def wp_simps answered_def provider_answer_def)
next
  case (Inr es)
  obtain ds truncated gone where d: "drain es = (ds, truncated, gone)" by (metis prod_cases3)
  have ptxt: "provider_answer t (calls w) = Some (concat ds, truncated, gone)"
    using assms(3) Inr d by (simp add: provider_answer_def)
  have "idle w (w\<lparr>calls := calls w + 1\<rparr>)" by (simp add: idle_step)
  then show ?thesis
    unfolding handleStream_def not_True_eq_False if_False wp_tryM wp_call Inr sum.case wp_bindM
  proof (rule wp_newID_then)
    fix i u
    assume u: "idle w u"
    show "wp unix_now (\<lambda>created. wp (case drain es of (deltas, truncated, gone) \<Rightarrow>
        bindM (buildEpisode h i (t_target t) (t_input t) (concat deltas) (t_result t) truncated (t_actor t)) (\<lambda>ep.
        bindM (capture_turn h t gone ep) (\<lambda>_.
        bindM (explain h (t_target t) (t_explain t) gone (concat deltas) (Citations (t_result t))) (\<lambda>cs.
        retM (EventStream (map (delta_chunk i created (pv_Model (t_target t))) deltas @
           [Event \<lparr>ck_ID = i, ck_Created = created, ck_Model = pv_Model (t_target t), ck_Content = [],
              ck_Finish = Some ''stop'', ck_Citations = cs, ck_Warnings = t_warnings t\<rparr>, EventDone]))))))
        (answered h t w) (\<lambda>_ _. False)) (\<lambda>_ _. False) u"
      unfolding unix_now_def wp_getM wp_retM d prod.case wp_bindM
    proof (rule wp_buildEpisode, rule wp_capture_then [OF A w u], rule wp_explain_then, goal_cases)
      case (1 ep x v cs v')
      let ?r = "EventStream (map (delta_chunk i (clock u div 1000000) (pv_Model (t_target t))) ds @
           [Event \<lparr>ck_ID = i, ck_Created = clock u div 1000000, ck_Model = pv_Model (t_target t), ck_Content = [],
              ck_Finish = Some ''stop'', ck_Citations = cs, ck_Warnings = t_warnings t\<rparr>, EventDone])"
      have "reply_text ?r = concat ds" by (simp add: reply_text_def concat_deltas del: map_map)
      moreover have "reply_ids ?r = {i}" by (rule reply_ids_stream) simp
      moreover have "stored h t gone (kek w) ep (db w) (db v')"
        using 1 by (blast intro: stored_idle)
      ultimately show ?case
        using 1 by (auto simp: answered_def ptxt episode_of_def idleD [OF u] intro!: exI [of _ ep])
    qed
  qed
qed


text \<open>A gateway whose one model answers hello, and a turn that it streams.\<close>

definition sample_provider :: provider where
  "sample_provider = \<lparr>pv_Name = ''p'', pv_Vendor = ''vendor'', pv_Model = ''model'',
     pv_Chat = (\<lambda>_ _. Inr \<lparr>cr_Model = ''model'', cr_Message = \<lparr>msg_role = ''assistant'', msg_content = ''hello''\<rparr>, cr_Usage = (1, 1, 2)\<rparr>),
     pv_Stream = (\<lambda>_ _. Inr [Delta ''hel'', Delta ''lo'', Done]), pv_Embed = (\<lambda>_ _. Inr []), DescribeImage = None\<rparr>"

definition sample_request :: chatCompletionRequest where
  "sample_request = \<lparr>cq_Model = [], cq_Messages = [\<lparr>msg_role = ''user'', msg_content = ''hi''\<rparr>], cq_Attachments = [],
     cq_Stream = True, cq_Temperature = None, cq_MaxTokens = None\<rparr>"

definition sample_handler :: handler where
  "sample_handler = \<lparr>h_registry = \<lparr>byName = (\<lambda>_. Some sample_provider), chatName = ''p'', consolidationName = ''p'',
       groundingName = ''p'', embeddingName = ''p'', visionName = ''p''\<rparr>,
     h_store = sample_store, h_Auth = None,
     h_parsers = \<lparr>zip_reader = (\<lambda>_. None), xml_tokens = (\<lambda>_. None), pdf_text = (\<lambda>_. None)\<rparr>, h_behaviour = (\<lambda>_. Returns),
     decode_chat = (\<lambda>_ _. Decoded sample_request), decode_feedback = (\<lambda>_. None), decode_verdicts = (\<lambda>_. None),
     decode_agg = (\<lambda>_. None), base64 = (\<lambda>_. None), sha256_hex = (\<lambda>s. s), Quote = (\<lambda>s. s),
     error_text = (\<lambda>_. []), ingest_error_text = (\<lambda>_. [])\<rparr>"

definition sample_turn :: turn where
  "sample_turn = \<lparr>t_scope = DefaultScope, t_req = sample_request, t_augmented = cq_Messages sample_request,
     t_target = sample_provider, t_result = skipped, t_input = ''hi'', t_actor = DefaultUserID, t_skipCapture = False,
     t_explain = [], t_warnings = []\<rparr>"


section \<open>What a turn writes\<close>

text \<open>Rows of one scope at the end of three tables.\<close>

definition turn_adds :: "scope \<Rightarrow> database \<Rightarrow> database \<Rightarrow> bool" where
  "turn_adds sc d d' \<longleftrightarrow> (\<exists>es as ks. d' = d\<lparr>episodes := episodes d @ es, audit_log := audit_log d @ as, scope_keys := scope_keys d @ ks\<rparr>
     \<and> (\<forall>e \<in> set es. ep_scope e = sc) \<and> (\<forall>a \<in> set as. au_acting_scope a = sc \<and> au_workspace_scope a = sc)
     \<and> (\<forall>k \<in> set ks. sk_scope k = sc))"

lemma turn_addsI:
  assumes "d' = d\<lparr>episodes := episodes d @ es, audit_log := audit_log d @ as, scope_keys := scope_keys d @ ks\<rparr>"
    and "\<And>e. e \<in> set es \<Longrightarrow> ep_scope e = sc" "\<And>a. a \<in> set as \<Longrightarrow> au_acting_scope a = sc \<and> au_workspace_scope a = sc"
      "\<And>k. k \<in> set ks \<Longrightarrow> sk_scope k = sc"
  shows "turn_adds sc d d'"
  unfolding turn_adds_def using assms by blast

text \<open>What a relation must allow for a turn to keep it.\<close>

locale turn_order = key_order R sc for R :: "database \<Rightarrow> database \<Rightarrow> bool" and sc :: scope +
  assumes episode_row: "insert_episode e w d = Some d' \<Longrightarrow> ep_scope e = sc \<Longrightarrow> R d d'"
    and audit_row: "au_acting_scope a = sc \<Longrightarrow> au_workspace_scope a = sc \<Longrightarrow> R d (d\<lparr>audit_log := audit_log d @ [a]\<rparr>)"
begin

lemma feedback_target: "keeps R sess (feedback_target ep)"
  unfolding feedback_target_def by (intro combinators)

lemma Capture: "keeps R None (Capture st sc ep)"
  unfolding Capture_def audit_Write_def
  by (intro combinators GetOrCreate transaction feedback_target checked_statement)
    (erule episode_row, simp add: episode_row_def, auto intro: audit_row split: if_splits)

lemma Retrieve: "keeps R None (Retrieve st sc sc messages now)"
  by (rule keeps_mono [OF Retrieve_keeps]) (auto simp: one_record_def refl intro: audit_row)

lemma pieces:
  "keeps R sess newID" "keeps R sess (buildEpisode h i p inp out result truncated actor)" "keeps R sess unix_now"
  "keeps R sess (attributionCheck h p a cs)" "keeps R sess (explain h p mode gone a cs)"
  "keeps R sess (mergeAttachments h messages atts)" "keeps R sess (AggregationHint h p question c now)"
  unfolding newID_def newEpisodeID_def buildEpisode_def unix_now_def attributionCheck_def explain_def mergeAttachments_def
    processAttachment_def describeImageAttachment_def AggregationHint_def extractAggregationFacts_def Let_def
  by (intro combinators rand_read)+

lemma capture_turn: "t_scope t = sc \<Longrightarrow> keeps R None (capture_turn h t gone ep)"
  unfolding capture_turn_def by (simp, intro conjI impI combinators best_effort Capture)

lemma answers: "t_scope t = sc \<Longrightarrow> keeps R None (answer h flusher t)"
  unfolding answer_def handleStream_def handleNonStream_def by (intro combinators pieces capture_turn)

lemma turn: "keeps R None (handleChatCompletionsScoped h r sc sc)"
proof -
  have "keeps R None (chat_turn h r req sc sc)" for req
    unfolding chat_turn_def retrieve_turn_def aggregation_messages_def Let_def
    by (intro combinators pieces Retrieve answers) simp
  then show ?thesis
    unfolding handleChatCompletionsScoped_def by (simp add: ret split: decoded.split)
qed

lemma feedback: "keeps R None (handleFeedbackScoped h r sc actor)"
  unfolding handleFeedbackScoped_def by (intro combinators pieces Capture)

end

interpretation turns: turn_order "turn_adds sc" sc
proof
  show "turn_adds sc d d" for d by (rule turn_addsI [where es = "[]" and as = "[]" and ks = "[]"]) simp_all
  show "turn_adds sc d d''" if "turn_adds sc d d'" "turn_adds sc d' d''" for d d' d''
  proof -
    from that(1) obtain es as ks where 1: "d' = d\<lparr>episodes := episodes d @ es, audit_log := audit_log d @ as, scope_keys := scope_keys d @ ks\<rparr>"
      "\<forall>e \<in> set es. ep_scope e = sc" "\<forall>a \<in> set as. au_acting_scope a = sc \<and> au_workspace_scope a = sc" "\<forall>k \<in> set ks. sk_scope k = sc"
      unfolding turn_adds_def by blast
    from that(2) obtain es' as' ks' where 2: "d'' = d'\<lparr>episodes := episodes d' @ es', audit_log := audit_log d' @ as', scope_keys := scope_keys d' @ ks'\<rparr>"
      "\<forall>e \<in> set es'. ep_scope e = sc" "\<forall>a \<in> set as'. au_acting_scope a = sc \<and> au_workspace_scope a = sc" "\<forall>k \<in> set ks'. sk_scope k = sc"
      unfolding turn_adds_def by blast
    show ?thesis
      by (rule turn_addsI [where es = "es @ es'" and as = "as @ as'" and ks = "ks @ ks'"]) (use 1 2 in auto)
  qed
  show "turn_adds sc d (insert_key sc v wrapped d)" for d v wrapped
    by (rule turn_addsI [where es = "[]" and as = "[]" and ks = "if key_rows sc v d \<noteq> [] then [] else [\<lparr>sk_scope = sc, sk_version = v, sk_wrapped_dek = wrapped\<rparr>]"])
      (auto simp: insert_key_def split: if_splits)
  show "turn_adds sc d d'" if "insert_episode e w d = Some d'" "ep_scope e = sc" for e w d d'
    by (rule turn_addsI [where es = "if ep_id e \<in> ep_id ` set (episodes d) then [] else [e]" and as = "[]" and ks = "[]"])
      (use that in \<open>auto simp: insert_episode_def split: if_splits\<close>)
  show "turn_adds sc d (d\<lparr>audit_log := audit_log d @ [a]\<rparr>)"
    if "au_acting_scope a = sc" "au_workspace_scope a = sc" for a d
    by (rule turn_addsI [where es = "[]" and as = "[a]" and ks = "[]"]) (use that in simp_all)
qed

text \<open>
  C11. A request writes to the scope of its token and only appends. Once the bearer token is resolved to a
  scope, whatever the request holds, whatever the models answer and whichever statement fails, a chat turn
  and a feedback leave every row of every table as it was; the rows they add are episodes, audit records
  and keys of that scope, and no transaction stays open. A token that does not resolve changes nothing.
\<close>

theorem request_appends:
  assumes "rh_Method r = ''POST''" "tx w1 = None" "resolveScope h r w = (res, w1)"
  shows "case res of
       Inl _ \<Rightarrow> HandleChatCompletions h r w = (Inr (HttpError 401), w1) \<and> HandleFeedback h r w = (Inr (HttpError 401), w1)
     | Inr sc \<Rightarrow> turn_adds sc (db w1) (db (snd (HandleChatCompletions h r w))) \<and> tx (snd (HandleChatCompletions h r w)) = None
         \<and> turn_adds sc (db w1) (db (snd (HandleFeedback h r w))) \<and> tx (snd (HandleFeedback h r w)) = None"
proof (cases res)
  case (Inl e)
  then show ?thesis using assms by (simp add: HandleChatCompletions_def HandleFeedback_def tryM_def retM_def)
next
  case (Inr sc)
  have kept: "turn_adds sc (db w1) (db (snd (m w1))) \<and> tx (snd (m w1)) = None" if "keeps (turn_adds sc) None m" for m :: "reply proc"
    using that keepsD [of "turn_adds sc" None m w1] assms(2) by (cases "m w1") simp
  show ?thesis
    using assms Inr kept [OF turns.turn [of sc h r]] kept [OF turns.feedback [of sc h r "Owner sc"]]
    by (simp add: HandleChatCompletions_def HandleFeedback_def tryM_def)
qed

definition sample_http :: http_request where
  "sample_http = \<lparr>rh_Method = ''POST'', rh_Header = (\<lambda>_. []), rh_Body = [], rh_Flusher = True\<rparr>"

theorem request_appends_witness:
  "turn_adds (PrivateScope \<lparr>UserID = DefaultUserID, TeamIDs = []\<rparr>) empty_db (db (snd (HandleChatCompletions sample_handler sample_http init_world)))"
proof -
  have "resolveScope sample_handler sample_http init_world = (Inr (PrivateScope \<lparr>UserID = DefaultUserID, TeamIDs = []\<rparr>), init_world)"
    by (simp add: resolveScope_def resolveIdentity_def sample_handler_def bindM_def retM_def)
  moreover have "rh_Method sample_http = ''POST''" "tx init_world = None" "db init_world = empty_db"
    by (simp_all add: sample_http_def init_world_def)
  ultimately show ?thesis using request_appends [of sample_http init_world sample_handler init_world] by fastforce
qed

section \<open>The aggregation hint\<close>

abbreviation gap_of :: "parsedAggregationFact \<Rightarrow> parsedAggregationFact \<Rightarrow> int" where
  "gap_of a b \<equiv> Sub (midnight (pf_date b)) (midnight (pf_date a))"

lemma gap_of_eq: "gap_of a b = max (- (2 ^ 63)) (min (2 ^ 63 - 1) ((pf_date b - pf_date a) * 86400000000000))"
  by (simp add: Sub_def midnight_def algebra_simps)

lemma gap_of_days:
  assumes "pf_date a \<le> pf_date b"
  shows "whole_days (gap_of a b) \<le> maxConsecutivePairGapDays \<longleftrightarrow> pf_date b - pf_date a \<le> 2"
    and "pf_date b - pf_date a \<le> 2 \<Longrightarrow> whole_days (gap_of a b) = pf_date b - pf_date a"
    and "pf_date b - pf_date a \<le> 2 \<Longrightarrow> gap_of a b = (pf_date b - pf_date a) * 86400000000000"
  using assms by (auto simp: gap_of_eq whole_days_def maxConsecutivePairGapDays_def min_def max_def)

abbreviation neighbours :: "'a list \<Rightarrow> ('a \<times> 'a) set" where
  "neighbours xs \<equiv> set (zip xs (tl xs))"

lemma closest_least:
  "closest xs g best = (best', g') \<Longrightarrow> g' \<le> g \<and> (\<forall>(a, b) \<in> neighbours xs. g' \<le> gap_of a b)
     \<and> (best' = best \<and> g' = g \<or> (\<exists>(a, b) \<in> neighbours xs. best' = Some (a, b) \<and> g' = gap_of a b))"
  by (induction xs g best rule: closest.induct) (fastforce simp: Let_def split: if_splits)+

lemma neighbours_within: "(a, b) \<in> neighbours xs \<Longrightarrow> {#a, b#} \<subseteq># mset xs"
proof (induction xs rule: induct_list012)
  case (3 x y zs)
  show ?case
  proof (cases "(a, b) = (x, y)")
    case True
    then show ?thesis by simp
  next
    case False
    then have "{#a, b#} \<subseteq># mset (y # zs)" using 3 by auto
    then show ?thesis by (rule subset_mset.order_trans) simp
  qed
qed simp_all

lemma neighbours_sorted: "sorted (map f xs) \<Longrightarrow> (a, b) \<in> neighbours xs \<Longrightarrow> f a \<le> f b"
  by (induction xs rule: induct_list012) auto

lemma neighbours_closest:
  fixes f :: "'a \<Rightarrow> int"
  assumes "sorted (map f xs)" "{#c, d#} \<subseteq># mset xs"
  shows "\<exists>(a, b) \<in> neighbours xs. f b - f a \<le> \<bar>f d - f c\<bar>"
  using assms
proof (induction xs rule: induct_list012)
  case (3 x y zs)
  show ?case
  proof (cases "{#c, d#} \<subseteq># mset (y # zs)")
    case True
    then show ?thesis using 3 by fastforce
  next
    case False
    have "x \<in># {#c, d#}"
    proof (rule ccontr)
      assume "x \<notin># {#c, d#}"
      then have "count {#c, d#} x = 0" by (simp only: not_in_iff)
      then have "count {#c, d#} z \<le> count (mset (y # zs)) z" for z
        using mset_subset_eq_count [OF "3.prems"(2), of z] by (cases "z = x") (simp_all del: count_add_mset, simp)
      then show False using False by (simp add: subseteq_mset_def)
    qed
    then have "x = c \<and> d \<in># mset (y # zs) \<or> x = d \<and> c \<in># mset (y # zs)"
      using "3.prems"(2) by (auto simp: add_mset_commute)
    then have "f y - f x \<le> \<bar>f d - f c\<bar>" using "3.prems"(1) by auto
    then show ?thesis by force
  qed
qed (auto simp: insert_subset_eq_iff)

lemma nonempty_if: "xs \<noteq> [] \<Longrightarrow> ys \<noteq> [] \<Longrightarrow> (if b then xs else ys) \<noteq> []"
  by simp

lemma relativeDelta_past:
  assumes "start \<le> now"
  shows "relativeDelta start now \<noteq> []"
proof -
  have "\<not> whole_days (Sub now start) < 0" using assms by (simp add: whole_days_def Sub_def)
  then show ?thesis
    unfolding relativeDelta_def pluralAgo_def Let_def
    by (simp only: if_False) (intro nonempty_if; simp only: append_is_Nil_conv list.distinct simp_thms)
qed

definition near :: "parsedAggregationFact \<Rightarrow> parsedAggregationFact \<Rightarrow> int" where
  "near a b = \<bar>pf_date b - pf_date a\<bar>"

definition closest_pair :: "parsedAggregationFact list \<Rightarrow> parsedAggregationFact \<Rightarrow> parsedAggregationFact \<Rightarrow> bool" where
  "closest_pair facts a b \<longleftrightarrow> {#a, b#} \<subseteq># mset facts \<and> pf_date a \<le> pf_date b
     \<and> (\<forall>c d. {#c, d#} \<subseteq># mset facts \<longrightarrow> near a b \<le> near c d)"



text \<open>Two facts of one day are the closest pair, and hide a pair on consecutive days; and a date is \<open>today\<close>
  although the comment says that such a date gives no hint.\<close>

lemma same_day_masks:
  "closest [\<lparr>pf_description = ''a'', pf_date = 1\<rparr>, \<lparr>pf_description = ''b'', pf_date = 1\<rparr>, \<lparr>pf_description = ''c'', pf_date = 2\<rparr>] (2 ^ 63 - 1) None
     = (Some (\<lparr>pf_description = ''a'', pf_date = 1\<rparr>, \<lparr>pf_description = ''b'', pf_date = 1\<rparr>), 0)"
  by code_simp

lemma relativeDelta_today: "relativeDelta t t = ''today''"
  by (simp add: relativeDelta_def Sub_def whole_days_def)

text \<open>A stream that ends without an error and without the closing event is not marked as cut.\<close>

lemma drain_closed: "drain (map Delta ds) = (filter (\<lambda>d. d \<noteq> []) ds, False, False)"
  by (induction ds) simp_all

text \<open>When the client has gone the turn is not captured, for the context of the request is done.\<close>

lemma cut_turn_lost:
  assumes "pv_Stream (t_target t) (calls w) (turn_prompt t) = Inr es" "drain es = (ds, truncated, True)"
  shows "db (snd (handleStream h True t w)) = db w"
proof -
  have none: "wp (capture_turn h t True ep) (\<lambda>_. idle w) (\<lambda>_ _. False) u" if "idle w u" for ep u
    using that by (simp add: capture_turn_def best_effort_def wp_simps)
  have "idle w (w\<lparr>calls := calls w + 1\<rparr>)" by (simp add: idle_step)
  then have "wp (handleStream h True t) (\<lambda>_. idle w) (\<lambda>_ _. False) w"
    unfolding handleStream_def not_True_eq_False if_False wp_tryM wp_call assms sum.case wp_bindM unix_now_def wp_getM prod.case wp_retM
    by (intro wp_newID_then wp_buildEpisode wp_mono [OF none] wp_explain_then) (auto intro: idle_trans)
  then show ?thesis by (auto simp: wp_def idleD split: prod.splits sum.splits)
qed

end
