(* ===== verification/Hpmf.thy ===== *)
theory Hpmf
  imports Gateway "HOL-Library.AList"
begin

text \<open>
  The portable memory format (\<open>internal/hpmf\<close>): a scope's episodes, summaries and entities written to a
  directory of decrypted files, and read back into a scope. A file is the list of the records that reading
  it yields, and one that does not parse is one that cannot be read; what \<open>encoding/json\<close> does to a string is written out, what it does to a raw message is an
  argument. Packing a directory with tar, gzip and age is left out. Timestamps are of the years 0 to 9999.
\<close>

declare One_nat_def [simp del]

section \<open>Records and files\<close>

record EpisodeRecord =
  er_ID :: string
  er_TS :: time
  er_Type :: string
  er_ProviderVendor :: string
  er_ProviderModel :: string
  er_InputText :: string
  er_OutputText :: string
  er_Importance :: "rat option"
  er_Hash :: string
  er_Truncated :: bool
  er_MemoryGate :: string
  er_RetrievedRefs :: "ref list"
  er_RefersTo :: string
  er_Rating :: string
  er_Note :: string

record KeyFactRecord =
  fr_Fact :: string
  fr_SourceEpisodeIDs :: "string list"
  fr_Grounded :: bool

record SummaryRecord =
  sr_ID :: string
  sr_Period :: string
  sr_Level :: string
  sr_Status :: string
  sr_GeneratedByVendor :: string
  sr_GeneratedByModel :: string
  sr_SourceEpisodeIDs :: "string list"
  sr_SourceSummaryPeriods :: "string list"
  sr_Summary :: string
  sr_EntitiesTouched :: "string list"
  sr_GroundingChecked :: bool
  sr_Supersedes :: string
  sr_CorrectionReason :: string
  sr_CreatedAt :: time
  sr_KeyFacts :: "KeyFactRecord list"

record EntityRecord =
  nr_ID :: string
  nr_Kind :: string
  nr_Name :: string
  nr_FirstSeen :: date
  nr_LastUpdated :: date
  nr_Attributes :: string

record ScopeManifest =
  sm_Scope :: scope
  sm_Dir :: string
  sm_EpisodeCount :: nat
  sm_SummaryCount :: nat
  sm_EntityCount :: nat
  sm_EarliestEpisodeAt :: "time option"
  sm_LatestEpisodeAt :: "time option"

record Manifest =
  mf_HPMFVersion :: string
  mf_CreatedAt :: time
  mf_CreatedBy :: string
  mf_Scopes :: "ScopeManifest list"

text \<open>
  The files of one directory, each under the part of its path that varies:
  \<open>episodes/YYYY/MM/YYYY-MM-DD.jsonl\<close> under its day, \<open>summaries/<level>/<period>.json\<close> under level and
  period, and \<open>entities.jsonl\<close>. The lists are in the order in which a walk of the directory finds the files.
\<close>

record scope_dir =
  sd_episodes :: "(string \<times> EpisodeRecord list) list"
  sd_summaries :: "((string \<times> string) \<times> SummaryRecord list) list"
  sd_entities :: "EntityRecord list option"

definition empty_dir :: scope_dir where
  "empty_dir = \<lparr>sd_episodes = [], sd_summaries = [], sd_entities = None\<rparr>"

definition HPMFVersion :: string where "HPMFVersion = ''1.0''"

definition dirName :: "scope \<Rightarrow> string" where
  "dirName sc = ''scopes/'' @ Kind sc @ ''-'' @
     map (\<lambda>r. if r = 58 then CHR ''_'' else char_of (r mod 256)) (runes (Owner sc))"

text \<open>A string after it was written and read: invalid bytes are replaced.\<close>

definition json_string :: "string \<Rightarrow> string" where
  "json_string s = string_of_runes (runes s)"

definition json_episode :: "EpisodeRecord \<Rightarrow> EpisodeRecord" where
  "json_episode r = r\<lparr>er_ID := json_string (er_ID r), er_Type := json_string (er_Type r),
     er_ProviderVendor := json_string (er_ProviderVendor r), er_ProviderModel := json_string (er_ProviderModel r),
     er_InputText := json_string (er_InputText r), er_OutputText := json_string (er_OutputText r),
     er_Hash := json_string (er_Hash r), er_MemoryGate := json_string (er_MemoryGate r),
     er_RetrievedRefs := map (\<lambda>x. x\<lparr>ref_kind := json_string (ref_kind x), ref_id := json_string (ref_id x),
        ref_scope := Scope (json_string (Kind (ref_scope x))) (json_string (Owner (ref_scope x)))\<rparr>) (er_RetrievedRefs r),
     er_RefersTo := json_string (er_RefersTo r), er_Rating := json_string (er_Rating r), er_Note := json_string (er_Note r)\<rparr>"

definition json_fact :: "KeyFactRecord \<Rightarrow> KeyFactRecord" where
  "json_fact r = r\<lparr>fr_Fact := json_string (fr_Fact r), fr_SourceEpisodeIDs := map json_string (fr_SourceEpisodeIDs r)\<rparr>"

definition json_summary :: "SummaryRecord \<Rightarrow> SummaryRecord" where
  "json_summary r = r\<lparr>sr_ID := json_string (sr_ID r), sr_Period := json_string (sr_Period r), sr_Level := json_string (sr_Level r),
     sr_Status := json_string (sr_Status r), sr_GeneratedByVendor := json_string (sr_GeneratedByVendor r),
     sr_GeneratedByModel := json_string (sr_GeneratedByModel r), sr_SourceEpisodeIDs := map json_string (sr_SourceEpisodeIDs r),
     sr_SourceSummaryPeriods := map json_string (sr_SourceSummaryPeriods r), sr_Summary := json_string (sr_Summary r),
     sr_EntitiesTouched := map json_string (sr_EntitiesTouched r), sr_Supersedes := json_string (sr_Supersedes r),
     sr_CorrectionReason := json_string (sr_CorrectionReason r), sr_KeyFacts := map json_fact (sr_KeyFacts r)\<rparr>"

text \<open>What the format needs of its surroundings: the compaction of a raw message, None when it is not JSON, and
  how many records of a file are on the disk when its last flush fails.\<close>

record hpmf =
  hp_aead :: aead
  raw_json :: "string \<Rightarrow> string option"
  hp_flushed :: nat

definition json_entity :: "hpmf \<Rightarrow> EntityRecord \<Rightarrow> EntityRecord option" where
  "json_entity hp r = (if nr_Attributes r = [] then Some (r\<lparr>nr_ID := json_string (nr_ID r), nr_Kind := json_string (nr_Kind r), nr_Name := json_string (nr_Name r)\<rparr>)
     else map_option (\<lambda>a. r\<lparr>nr_ID := json_string (nr_ID r), nr_Kind := json_string (nr_Kind r), nr_Name := json_string (nr_Name r),
       nr_Attributes := a\<rparr>) (raw_json hp (nr_Attributes r)))"

text \<open>One operation on the file system; it fails as statements do.\<close>

definition disk :: "unit proc" where
  "disk = tryM (query (\<lambda>_. ())) (\<lambda>res. case res of Inl _ \<Rightarrow> errM ErrIO | Inr _ \<Rightarrow> retM ())"

definition file_of :: "'k \<Rightarrow> ('k \<times> 'r list) list \<Rightarrow> 'r list" where
  "file_of k files = (case map_of files k of None \<Rightarrow> [] | Some rs \<Rightarrow> rs)"

fun set_file :: "'k \<Rightarrow> 'r list \<Rightarrow> ('k \<times> 'r list) list \<Rightarrow> ('k \<times> 'r list) list" where
  "set_file k rs [] = [(k, rs)]"
| "set_file k rs ((k', rs') # files) = (if k' = k then (k, rs) # files else (k', rs') # set_file k rs files)"

section \<open>Export\<close>

definition EventExport :: string where "EventExport = ''export''"
definition EventImport :: string where "EventImport = ''import''"

definition log_phase :: "string \<Rightarrow> scope \<Rightarrow> string \<Rightarrow> (string \<times> jval) list \<Rightarrow> unit proc" where
  "log_phase event sc actor detail = Run sc sc (audit_Write \<lparr>EventType = event, Actor = actor, ActingScope = sc,
     WorkspaceScope = sc, TargetRef = None, Detail = detail\<rparr>)"

definition text_of :: "string option \<Rightarrow> string" where
  "text_of s = (case s of None \<Rightarrow> [] | Some t \<Rightarrow> t)"

definition episode_record :: "episode \<Rightarrow> string \<Rightarrow> string \<Rightarrow> string \<Rightarrow> EpisodeRecord" where
  "episode_record e inp out note = \<lparr>er_ID = ep_id e, er_TS = ep_ts e, er_Type = ep_type e,
     er_ProviderVendor = text_of (ep_vendor e), er_ProviderModel = text_of (ep_model e), er_InputText = inp, er_OutputText = out,
     er_Importance = ep_importance e, er_Hash = ep_hash e, er_Truncated = ep_truncated e,
     er_MemoryGate = text_of (ep_memory_gate e), er_RetrievedRefs = ep_retrieved_refs e,
     er_RefersTo = text_of (ep_refers_to e), er_Rating = text_of (ep_rating e), er_Note = note\<rparr>"

text \<open>Reading a row, with the key of its own version.\<close>

definition read_episode :: "hpmf \<Rightarrow> scope \<Rightarrow> episode \<Rightarrow> EpisodeRecord proc" where
  "read_episode hp sc e =
     bindM (GetVersion (hp_aead hp) sc (ep_key_version e)) (\<lambda>enc.
     bindM (liftM (Decrypt (hp_aead hp) enc (ep_input_text e))) (\<lambda>inp.
     bindM (liftM (Decrypt (hp_aead hp) enc (ep_output_text e))) (\<lambda>out.
     bindM (liftM (Decrypt (hp_aead hp) enc (ep_note e))) (\<lambda>note.
     retM (episode_record e inp out note)))))"

definition file_day :: "time \<Rightarrow> string" where
  "file_day t = format_date (day_of t)"

text \<open>The open file is the one of \<open>day\<close>, which is empty when none is open. \<open>newJSONLWriter\<close> appends to a file
  that exists.\<close>

definition write_episode :: "string \<Rightarrow> EpisodeRecord \<Rightarrow> (string \<times> EpisodeRecord list) list \<Rightarrow> (string \<times> EpisodeRecord list) list proc" where
  "write_episode day r files =
     bindM (if file_day (er_TS r) \<noteq> day then bindM (if day \<noteq> [] then disk else retM ()) (\<lambda>_. disk) else retM ()) (\<lambda>_.
     bindM disk (\<lambda>_.
     retM (set_file (file_day (er_TS r)) (file_of (file_day (er_TS r)) files @ [json_episode r]) files)))"

definition count_episode :: "EpisodeRecord \<Rightarrow> ScopeManifest \<Rightarrow> ScopeManifest" where
  "count_episode r m = m\<lparr>sm_EpisodeCount := sm_EpisodeCount m + 1,
     sm_EarliestEpisodeAt := (case sm_EarliestEpisodeAt m of None \<Rightarrow> Some (er_TS r) | Some t \<Rightarrow> Some (min t (er_TS r))),
     sm_LatestEpisodeAt := (case sm_LatestEpisodeAt m of None \<Rightarrow> Some (er_TS r) | Some t \<Rightarrow> Some (max t (er_TS r)))\<rparr>"

fun write_episodes :: "hpmf \<Rightarrow> scope \<Rightarrow> episode list \<Rightarrow> string \<Rightarrow> (string \<times> EpisodeRecord list) list \<Rightarrow> ScopeManifest
    \<Rightarrow> (string \<times> (string \<times> EpisodeRecord list) list \<times> ScopeManifest) proc" where
  "write_episodes hp sc [] day files m = retM (day, files, m)"
| "write_episodes hp sc (e # es) day files m =
     bindM (read_episode hp sc e) (\<lambda>r.
     bindM (write_episode day r files) (\<lambda>files'.
     write_episodes hp sc es (file_day (er_TS r)) files' (count_episode r m)))"

text \<open>The deferred \<open>Close\<close>, whose error is dropped: the records still in the buffer are lost.\<close>

definition close_last :: "hpmf \<Rightarrow> 'r list \<Rightarrow> 'r list proc" where
  "close_last hp rs = tryM disk (\<lambda>res. retM (case res of Inl _ \<Rightarrow> take (hp_flushed hp) rs | Inr _ \<Rightarrow> rs))"

definition exportEpisodes :: "hpmf \<Rightarrow> scope \<Rightarrow> scope_dir \<Rightarrow> ScopeManifest \<Rightarrow> (scope_dir \<times> ScopeManifest) proc" where
  "exportEpisodes hp sc dir m = Run sc sc (
     bindM (query (\<lambda>w. sort_key ep_ts (filter (\<lambda>e. ep_scope e = sc) (visible w ep_scope (episodes (db w)))))) (\<lambda>rows.
     bindM (write_episodes hp sc rows [] (sd_episodes dir) m) (\<lambda>(day, files, m').
     if rows = [] then retM (dir, m')
     else bindM (close_last hp (file_of day files)) (\<lambda>rs.
       retM (dir\<lparr>sd_episodes := set_file day rs files\<rparr>, m')))))"

definition summary_record :: "summary \<Rightarrow> string \<Rightarrow> SummaryRecord" where
  "summary_record s t = \<lparr>sr_ID = sum_id s, sr_Period = sum_period s, sr_Level = sum_level s, sr_Status = sum_status s,
     sr_GeneratedByVendor = text_of (sum_vendor s), sr_GeneratedByModel = text_of (sum_model s),
     sr_SourceEpisodeIDs = sum_source_episode_ids s, sr_SourceSummaryPeriods = sum_source_summary_periods s, sr_Summary = t,
     sr_EntitiesTouched = sum_entities_touched s, sr_GroundingChecked = sum_grounding_checked s,
     sr_Supersedes = text_of (sum_supersedes s), sr_CorrectionReason = text_of (sum_correction_reason s),
     sr_CreatedAt = sum_created_at s, sr_KeyFacts = []\<rparr>"

definition read_summary :: "hpmf \<Rightarrow> scope \<Rightarrow> summary \<Rightarrow> SummaryRecord proc" where
  "read_summary hp sc s =
     bindM (GetVersion (hp_aead hp) sc (sum_key_version s)) (\<lambda>enc.
     bindM (liftM (Decrypt (hp_aead hp) enc (sum_summary s))) (\<lambda>t. retM (summary_record s t)))"

definition read_fact :: "hpmf \<Rightarrow> scope \<Rightarrow> key_fact \<Rightarrow> KeyFactRecord proc" where
  "read_fact hp sc f =
     bindM (GetVersion (hp_aead hp) sc (kf_key_version f)) (\<lambda>enc.
     bindM (liftM (Decrypt (hp_aead hp) enc (Some (kf_fact f)))) (\<lambda>t.
     retM \<lparr>fr_Fact = t, fr_SourceEpisodeIDs = kf_source_episode_ids f, fr_Grounded = kf_grounded f\<rparr>))"

definition export_loadKeyFacts :: "hpmf \<Rightarrow> scope \<Rightarrow> string \<Rightarrow> KeyFactRecord list proc" where
  "export_loadKeyFacts hp sc summaryID =
     bindM (query (\<lambda>w. sort_key kf_fact (filter (\<lambda>f. kf_summary_id f = summaryID) (visible w kf_scope (summary_key_facts (db w))))))
       (mapM (read_fact hp sc))"

fun group_periods :: "SummaryRecord list \<Rightarrow> ((string \<times> string) \<times> SummaryRecord list) list \<Rightarrow> ((string \<times> string) \<times> SummaryRecord list) list" where
  "group_periods [] files = files"
| "group_periods (r # rs) files =
     group_periods rs (set_file (sr_Level r, sr_Period r) (file_of (sr_Level r, sr_Period r) files @ [r]) files)"

definition writeJSONFile :: "(string \<times> string) \<times> SummaryRecord list \<Rightarrow> scope_dir \<Rightarrow> scope_dir proc" where
  "writeJSONFile = (\<lambda>(k, rs) dir. bindM disk (\<lambda>_. retM (dir\<lparr>sd_summaries := set_file k (map json_summary rs) (sd_summaries dir)\<rparr>)))"

definition exportSummaries :: "hpmf \<Rightarrow> scope \<Rightarrow> scope_dir \<Rightarrow> ScopeManifest \<Rightarrow> (scope_dir \<times> ScopeManifest) proc" where
  "exportSummaries hp sc dir m =
     bindM (Run sc sc (
       bindM (query (\<lambda>w. sort_key (\<lambda>s. (sum_level s, sum_period s, sum_created_at s))
         (filter (\<lambda>s. sum_scope s = sc) (visible w sum_scope (summaries (db w)))))) (\<lambda>rows.
       bindM (mapM (read_summary hp sc) rows) (\<lambda>scanned.
       mapM (\<lambda>r. bindM (export_loadKeyFacts hp sc (sr_ID r)) (\<lambda>facts. retM (r\<lparr>sr_KeyFacts := facts\<rparr>))) scanned)))) (\<lambda>records.
     bindM (foldM writeJSONFile (group_periods records []) dir) (\<lambda>dir'.
     retM (dir', m\<lparr>sm_SummaryCount := sm_SummaryCount m + length records\<rparr>)))"

definition read_entity :: "hpmf \<Rightarrow> scope \<Rightarrow> entity \<Rightarrow> EntityRecord proc" where
  "read_entity hp sc e =
     bindM (GetVersion (hp_aead hp) sc (en_key_version e)) (\<lambda>enc.
     bindM (liftM (Decrypt (hp_aead hp) enc (en_attributes e))) (\<lambda>attrs.
     retM \<lparr>nr_ID = en_id e, nr_Kind = en_kind e, nr_Name = en_name e, nr_FirstSeen = en_first_seen e,
       nr_LastUpdated = en_last_updated e, nr_Attributes = attrs\<rparr>))"

definition write_entity_record :: "hpmf \<Rightarrow> EntityRecord \<Rightarrow> EntityRecord proc" where
  "write_entity_record hp r = (case json_entity hp r of None \<Rightarrow> errM ErrParse | Some r' \<Rightarrow> bindM disk (\<lambda>_. retM r'))"

definition exportEntities :: "hpmf \<Rightarrow> scope \<Rightarrow> scope_dir \<Rightarrow> ScopeManifest \<Rightarrow> (scope_dir \<times> ScopeManifest) proc" where
  "exportEntities hp sc dir m = Run sc sc (
     bindM (query (\<lambda>w. sort_key en_id (filter (\<lambda>e. en_scope e = sc) (visible w en_scope (entities (db w)))))) (\<lambda>rows.
     bindM disk (\<lambda>_.
     bindM (mapM (\<lambda>e. bindM (read_entity hp sc e) (write_entity_record hp)) rows) (\<lambda>rs.
     bindM (close_last hp ((case sd_entities dir of None \<Rightarrow> [] | Some old \<Rightarrow> old) @ rs)) (\<lambda>file.
     retM (dir\<lparr>sd_entities := Some file\<rparr>, m\<lparr>sm_EntityCount := sm_EntityCount m + length rs\<rparr>))))))"

definition export_detail :: "string \<Rightarrow> nat \<Rightarrow> (string \<times> jval) list" where
  "export_detail phase n = [(''phase'', JStr phase), (''count'', JInt (int n))]"

text \<open>The directory is given as it was before, and returned as it is after.\<close>

definition ExportScope :: "hpmf \<Rightarrow> scope \<Rightarrow> string \<Rightarrow> scope_dir \<Rightarrow> string \<Rightarrow> (scope_dir \<times> ScopeManifest) proc" where
  "ExportScope hp sc name dir actor =
     bindM (exportEpisodes hp sc dir \<lparr>sm_Scope = sc, sm_Dir = name, sm_EpisodeCount = 0, sm_SummaryCount = 0, sm_EntityCount = 0,
       sm_EarliestEpisodeAt = None, sm_LatestEpisodeAt = None\<rparr>) (\<lambda>(dir1, m1).
     bindM (log_phase EventExport sc actor (export_detail ''episodes'' (sm_EpisodeCount m1))) (\<lambda>_.
     bindM (exportSummaries hp sc dir1 m1) (\<lambda>(dir2, m2).
     bindM (log_phase EventExport sc actor (export_detail ''summaries'' (sm_SummaryCount m2))) (\<lambda>_.
     bindM (exportEntities hp sc dir2 m2) (\<lambda>(dir3, m3).
     bindM (log_phase EventExport sc actor (export_detail ''entities'' (sm_EntityCount m3))) (\<lambda>_.
     retM (dir3, m3)))))))"

section \<open>Bundles\<close>

text \<open>The directories of a bundle by their names, and its manifest.\<close>

type_synonym hpmf_bundle = "(string \<times> scope_dir) list \<times> Manifest"

definition dir_in :: "string \<Rightarrow> (string \<times> scope_dir) list \<Rightarrow> scope_dir" where
  "dir_in name dirs = (case map_of dirs name of None \<Rightarrow> empty_dir | Some d \<Rightarrow> d)"

definition export_one :: "hpmf \<Rightarrow> bool \<Rightarrow> string \<Rightarrow> scope \<Rightarrow> (string \<times> scope_dir) list \<times> ScopeManifest list
    \<Rightarrow> ((string \<times> scope_dir) list \<times> ScopeManifest list) proc" where
  "export_one hp flat actor sc = (\<lambda>(dirs, ms).
     let name = (if flat then ''.'' else dirName sc) in
     bindM (ExportScope hp sc name (dir_in name dirs) actor) (\<lambda>(dir, m).
     retM (AList.update name dir dirs, ms @ [m])))"

definition json_scope_manifest :: "ScopeManifest \<Rightarrow> ScopeManifest" where
  "json_scope_manifest m = m\<lparr>sm_Scope := Scope (json_string (Kind (sm_Scope m))) (json_string (Owner (sm_Scope m))),
     sm_Dir := json_string (sm_Dir m)\<rparr>"

definition ExportBundle :: "hpmf \<Rightarrow> scope list \<Rightarrow> string \<Rightarrow> hpmf_bundle proc" where
  "ExportBundle hp scopes actor =
     (if scopes = [] then errM ErrNoScopes
      else bindM disk (\<lambda>_.
        bindM (getM clock) (\<lambda>now.
        bindM (foldM (export_one hp (length scopes = 1) actor) scopes ([], [])) (\<lambda>(dirs, ms).
        bindM disk (\<lambda>_.
        retM (dirs, \<lparr>mf_HPMFVersion = HPMFVersion, mf_CreatedAt = now, mf_CreatedBy = json_string actor,
          mf_Scopes = map json_scope_manifest ms\<rparr>))))))"

text \<open>\<open>manifest\<close> is the decoded file: None when it is not a manifest.\<close>

definition ReadManifest :: "Manifest option \<Rightarrow> Manifest proc" where
  "ReadManifest manifest = bindM disk (\<lambda>_. case manifest of None \<Rightarrow> errM ErrParse
     | Some m \<Rightarrow> if mf_HPMFVersion m = [] \<or> take 1 (mf_HPMFVersion m) \<noteq> take 1 HPMFVersion then errM ErrBundleVersion else retM m)"

section \<open>Import\<close>

record ImportStats =
  EpisodesImported :: nat
  EpisodesSkipped :: nat
  SummariesImported :: nat
  SummariesSkipped :: nat
  EntitiesImported :: nat
  EntitiesSkipped :: nat
  SummariesWithDanglingSupersedes :: nat

definition no_stats :: ImportStats where
  "no_stats = \<lparr>EpisodesImported = 0, EpisodesSkipped = 0, SummariesImported = 0, SummariesSkipped = 0, EntitiesImported = 0,
     EntitiesSkipped = 0, SummariesWithDanglingSupersedes = 0\<rparr>"

definition scopeIsEmpty :: "scope \<Rightarrow> bool proc" where
  "scopeIsEmpty sc = Run sc sc (query (\<lambda>w.
     filter (\<lambda>e. ep_scope e = sc) (visible w ep_scope (episodes (db w))) = []
     \<and> filter (\<lambda>s. sum_scope s = sc) (visible w sum_scope (summaries (db w))) = []
     \<and> filter (\<lambda>e. en_scope e = sc) (visible w en_scope (entities (db w))) = []))"

text \<open>A plain insert: the primary key and the check of the kind may reject it.\<close>

definition insert_entity :: "entity \<Rightarrow> world \<Rightarrow> database \<Rightarrow> database option" where
  "insert_entity e w d =
     (if en_kind e \<in> set entity_kinds \<and> rls_check w (en_scope e)
         \<and> \<not> list_ex (\<lambda>x. en_scope x = en_scope e \<and> en_id x = en_id e) (entities d)
      then Some (d\<lparr>entities := entities d @ [e]\<rparr>) else None)"

fun import_entities :: "hpmf \<Rightarrow> encryptor \<Rightarrow> nat \<Rightarrow> scope \<Rightarrow> EntityRecord list \<Rightarrow> string set \<Rightarrow> ImportStats \<Rightarrow> ImportStats proc" where
  "import_entities hp enc v sc [] existing st = retM st"
| "import_entities hp enc v sc (r # rs) existing st =
     (if nr_ID r \<in> existing then import_entities hp enc v sc rs existing (st\<lparr>EntitiesSkipped := EntitiesSkipped st + 1\<rparr>)
      else bindM (Encrypt (hp_aead hp) enc (nr_Attributes r)) (\<lambda>attrsCT.
        bindM (exec_check (insert_entity \<lparr>en_id = nr_ID r, en_scope = sc, en_kind = nr_Kind r, en_name = nr_Name r,
           en_first_seen = nr_FirstSeen r, en_last_updated = nr_LastUpdated r, en_attributes = Some attrsCT,
           en_key_version = v, en_embedding = None, en_embedding_model = None\<rparr>)) (\<lambda>_.
        import_entities hp enc v sc rs (insert (nr_ID r) existing) (st\<lparr>EntitiesImported := EntitiesImported st + 1\<rparr>))))"

definition importEntities :: "hpmf \<Rightarrow> encryptor \<Rightarrow> nat \<Rightarrow> scope_dir \<Rightarrow> scope \<Rightarrow> ImportStats \<Rightarrow> ImportStats proc" where
  "importEntities hp enc v dir sc st = (case sd_entities dir of None \<Rightarrow> retM st
     | Some records \<Rightarrow> bindM disk (\<lambda>_. if records = [] then retM st
         else Run sc sc (bindM (query (\<lambda>w. en_id ` set (filter (\<lambda>e. en_scope e = sc) (visible w en_scope (entities (db w)))))) (\<lambda>existing.
           import_entities hp enc v sc records existing st))))"

definition periodExists :: "scope \<Rightarrow> string \<Rightarrow> string \<Rightarrow> bool proc" where
  "periodExists sc lvl per = query (\<lambda>w. list_ex (same_period sc lvl per) (visible w sum_scope (summaries (db w))))"

definition nextImportSummaryID :: "scope \<Rightarrow> string \<Rightarrow> string \<Rightarrow> string proc" where
  "nextImportSummaryID sc lvl per = bindM (query (max_version sc lvl per)) (\<lambda>maxVersion.
     if maxVersion > 2147483647 then errM ErrDb else retM (summary_id sc lvl per (maxVersion + 1)))"

definition import_fact :: "hpmf \<Rightarrow> encryptor \<Rightarrow> nat \<Rightarrow> scope \<Rightarrow> string \<Rightarrow> KeyFactRecord \<Rightarrow> unit proc" where
  "import_fact hp enc v sc sid kf = bindM (Encrypt (hp_aead hp) enc (fr_Fact kf)) (\<lambda>factCT.
     exec_check (insert_key_fact \<lparr>kf_id = 0, kf_scope = sc, kf_summary_id = sid, kf_fact = factCT,
       kf_source_episode_ids = fr_SourceEpisodeIDs kf, kf_grounded = fr_Grounded kf, kf_key_version = v,
       kf_embedding = None, kf_embedding_model = None\<rparr>))"

definition dangling :: "(string \<rightharpoonup> string) \<Rightarrow> SummaryRecord \<Rightarrow> bool" where
  "dangling idMap r \<longleftrightarrow> sr_Supersedes r \<noteq> [] \<and> idMap (sr_Supersedes r) = None"

definition import_version :: "hpmf \<Rightarrow> encryptor \<Rightarrow> nat \<Rightarrow> scope \<Rightarrow> string \<Rightarrow> string \<Rightarrow> SummaryRecord
    \<Rightarrow> (string \<rightharpoonup> string) \<times> ImportStats \<Rightarrow> ((string \<rightharpoonup> string) \<times> ImportStats) proc" where
  "import_version hp enc v sc lvl per r = (\<lambda>(idMap, st).
     bindM (nextImportSummaryID sc lvl per) (\<lambda>sid.
     bindM (Encrypt (hp_aead hp) enc (sr_Summary r)) (\<lambda>summaryCT.
     bindM (exec_check (insert_summary \<lparr>sum_id = sid, sum_scope = sc, sum_period = per, sum_level = lvl,
         sum_status = sr_Status r, sum_vendor = Nullable (sr_GeneratedByVendor r), sum_model = Nullable (sr_GeneratedByModel r),
         sum_source_episode_ids = sr_SourceEpisodeIDs r, sum_source_summary_periods = sr_SourceSummaryPeriods r,
         sum_summary = Some summaryCT, sum_entities_touched = sr_EntitiesTouched r,
         sum_grounding_checked = sr_GroundingChecked r,
         sum_supersedes = (if sr_Supersedes r = [] then None else Nullable (text_of (idMap (sr_Supersedes r)))),
         sum_correction_reason = Nullable (sr_CorrectionReason r), sum_created_at = sr_CreatedAt r, sum_key_version = v,
         sum_embedding = None, sum_embedding_model = None\<rparr>)) (\<lambda>_.
     bindM (forM (import_fact hp enc v sc sid) (sr_KeyFacts r)) (\<lambda>_.
     retM (idMap(sr_ID r \<mapsto> sid), st\<lparr>SummariesImported := SummariesImported st + 1,
       SummariesWithDanglingSupersedes := SummariesWithDanglingSupersedes st + (if dangling idMap r then 1 else 0)\<rparr>))))))"

definition import_period :: "hpmf \<Rightarrow> encryptor \<Rightarrow> nat \<Rightarrow> scope \<Rightarrow> (string \<times> string) \<times> SummaryRecord list \<Rightarrow> ImportStats \<Rightarrow> ImportStats proc" where
  "import_period hp enc v sc = (\<lambda>((lvl, per), versions) st. bindM disk (\<lambda>_.
     if versions = [] then retM st
     else Run sc sc (bindM (periodExists sc lvl per) (\<lambda>found.
       if found then retM (st\<lparr>SummariesSkipped := SummariesSkipped st + length versions\<rparr>)
       else bindM (foldM (import_version hp enc v sc lvl per) versions (Map.empty, st)) (\<lambda>(_, st'). retM st')))))"

definition importSummaries :: "hpmf \<Rightarrow> encryptor \<Rightarrow> nat \<Rightarrow> scope_dir \<Rightarrow> scope \<Rightarrow> ImportStats \<Rightarrow> ImportStats proc" where
  "importSummaries hp enc v dir sc st = bindM disk (\<lambda>_. foldM (import_period hp enc v sc) (sd_summaries dir) st)"

definition newImportEpisodeID :: "time \<Rightarrow> string proc" where
  "newImportEpisodeID t = tryM (rand_read 10) (\<lambda>r.
     let suffix = (case r of Inr b \<Rightarrow> b | Inl _ \<Rightarrow> replicate 10 (CHR 0x00)) in
     retM (''ep_'' @ pad13 (t div 1000) @ hex_EncodeToString suffix))"

definition imported_row :: "scope \<Rightarrow> EpisodeRecord \<Rightarrow> string \<Rightarrow> string \<Rightarrow> bytes \<Rightarrow> bytes \<Rightarrow> bytes \<Rightarrow> nat \<Rightarrow> episode" where
  "imported_row sc r i refersTo inputCT outputCT noteCT v = \<lparr>ep_id = i, ep_scope = sc, ep_ts = er_TS r, ep_type = er_Type r,
     ep_vendor = Nullable (er_ProviderVendor r), ep_model = Nullable (er_ProviderModel r), ep_endpoint = None,
     ep_context_tags = [], ep_input_text = Some inputCT, ep_output_text = Some outputCT, ep_importance = er_Importance r,
     ep_hash = er_Hash r, ep_supersedes = None, ep_externalized = False, ep_truncated = er_Truncated r,
     ep_memory_gate = Nullable (er_MemoryGate r), ep_retrieved_refs = er_RetrievedRefs r, ep_refers_to = Nullable refersTo,
     ep_rating = Nullable (er_Rating r), ep_note = Some noteCT, ep_key_version = v, ep_embedding = None,
     ep_embedding_model = None\<rparr>"

text \<open>The insert and its \<open>RowsAffected\<close>.\<close>

definition try_insert :: "episode \<Rightarrow> bool proc" where
  "try_insert row = bindM (getM (\<lambda>w. ep_id row \<notin> ep_id ` set (episodes (db w)))) (\<lambda>free.
     bindM (exec_check (insert_episode row)) (\<lambda>_. retM free))"

text \<open>The loop over ids, seven attempts at most; \<open>row\<close> is the row under a given id.\<close>

fun insert_fresh :: "(string \<Rightarrow> episode) \<Rightarrow> time \<Rightarrow> string \<Rightarrow> nat \<Rightarrow> string proc" where
  "insert_fresh row t i 0 = bindM (try_insert (row i)) (\<lambda>inserted. if inserted then retM i else errM ErrNoFreeID)"
| "insert_fresh row t i (Suc n) = bindM (try_insert (row i)) (\<lambda>inserted. if inserted then retM i
     else bindM (newImportEpisodeID t) (\<lambda>i'. insert_fresh row t i' n))"

definition maxImportAttempts :: nat where "maxImportAttempts = 6"

text \<open>One record: the hashes that exist, the ids that were changed, the statistics.\<close>

definition import_episode :: "hpmf \<Rightarrow> encryptor \<Rightarrow> nat \<Rightarrow> scope \<Rightarrow> EpisodeRecord
    \<Rightarrow> string set \<times> (string \<rightharpoonup> string) \<times> ImportStats \<Rightarrow> (string set \<times> (string \<rightharpoonup> string) \<times> ImportStats) proc" where
  "import_episode hp enc v sc r = (\<lambda>(hashes, idMap, st).
     if er_Hash r \<in> hashes then retM (hashes, idMap, st\<lparr>EpisodesSkipped := EpisodesSkipped st + 1\<rparr>)
     else bindM (Encrypt (hp_aead hp) enc (er_InputText r)) (\<lambda>inputCT.
       bindM (Encrypt (hp_aead hp) enc (er_OutputText r)) (\<lambda>outputCT.
       bindM (Encrypt (hp_aead hp) enc (er_Note r)) (\<lambda>noteCT.
       let refersTo = (case idMap (er_RefersTo r) of None \<Rightarrow> er_RefersTo r | Some i \<Rightarrow> i) in
       bindM (insert_fresh (\<lambda>i. imported_row sc r i refersTo inputCT outputCT noteCT v) (er_TS r) (er_ID r) maxImportAttempts) (\<lambda>i.
       retM (insert (er_Hash r) hashes, if i \<noteq> er_ID r then idMap(er_ID r \<mapsto> i) else idMap,
         st\<lparr>EpisodesImported := EpisodesImported st + 1\<rparr>))))))"

definition import_file :: "hpmf \<Rightarrow> encryptor \<Rightarrow> nat \<Rightarrow> scope \<Rightarrow> string \<times> EpisodeRecord list
    \<Rightarrow> string set \<times> (string \<rightharpoonup> string) \<times> ImportStats \<Rightarrow> (string set \<times> (string \<rightharpoonup> string) \<times> ImportStats) proc" where
  "import_file hp enc v sc = (\<lambda>(_, records) acc. bindM disk (\<lambda>_. foldM (import_episode hp enc v sc) records acc))"

definition importEpisodes :: "hpmf \<Rightarrow> encryptor \<Rightarrow> nat \<Rightarrow> scope_dir \<Rightarrow> scope \<Rightarrow> ImportStats \<Rightarrow> ImportStats proc" where
  "importEpisodes hp enc v dir sc st = bindM disk (\<lambda>_. Run sc sc (
     bindM (query (\<lambda>w. ep_hash ` set (filter (\<lambda>e. ep_scope e = sc) (visible w ep_scope (episodes (db w)))))) (\<lambda>existingHashes.
     bindM (foldM (import_file hp enc v sc) (sort_key fst (sd_episodes dir)) (existingHashes, Map.empty, st)) (\<lambda>(_, _, st').
     retM st'))))"

definition import_detail :: "string \<Rightarrow> nat \<Rightarrow> nat \<Rightarrow> (string \<times> jval) list" where
  "import_detail phase imported unseen = [(''phase'', JStr phase), (''imported'', JInt (int imported)), (''skipped'', JInt (int unseen))]"

definition import_phases :: "hpmf \<Rightarrow> encryptor \<Rightarrow> nat \<Rightarrow> scope_dir \<Rightarrow> scope \<Rightarrow> string \<Rightarrow> ImportStats proc" where
  "import_phases hp enc v dir sc actor =
     bindM (importEntities hp enc v dir sc no_stats) (\<lambda>st1.
     bindM (log_phase EventImport sc actor (import_detail ''entities'' (EntitiesImported st1) (EntitiesSkipped st1))) (\<lambda>_.
     bindM (importSummaries hp enc v dir sc st1) (\<lambda>st2.
     bindM (log_phase EventImport sc actor (import_detail ''summaries'' (SummariesImported st2) (SummariesSkipped st2)
        @ [(''dangling_supersedes'', JInt (int (SummariesWithDanglingSupersedes st2)))])) (\<lambda>_.
     bindM (importEpisodes hp enc v dir sc st2) (\<lambda>st3.
     bindM (log_phase EventImport sc actor (import_detail ''episodes'' (EpisodesImported st3) (EpisodesSkipped st3))) (\<lambda>_.
     retM st3))))))"

definition ImportScope :: "hpmf \<Rightarrow> scope_dir \<Rightarrow> scope \<Rightarrow> bool \<Rightarrow> string \<Rightarrow> ImportStats proc" where
  "ImportScope hp dir sc merge actor =
     bindM (GetOrCreate (hp_aead hp) sc) (\<lambda>(enc, keyVersion).
     bindM (if merge then retM True else scopeIsEmpty sc) (\<lambda>go.
     if \<not> go then errM ErrScopeNotEmpty else import_phases hp enc keyVersion dir sc actor))"

text \<open>\<open>importOne\<close> of the command; it refuses a bundle that does not hold exactly one scope.\<close>

definition importOne :: "hpmf \<Rightarrow> hpmf_bundle \<Rightarrow> scope \<Rightarrow> bool \<Rightarrow> string \<Rightarrow> ImportStats proc" where
  "importOne hp b target merge actor = (case mf_Scopes (snd b) of
     [sm] \<Rightarrow> ImportScope hp (dir_in (sm_Dir sm) (fst b)) target merge actor | _ \<Rightarrow> errM ErrNoScopes)"

end
