(* ===== verification/Hpmf_Correct.thy ===== *)
theory Hpmf_Correct
  imports Hpmf Gateway_Correct
begin

text \<open>
  What an export and an import do to the database, that an import is a round trip of the episodes of an
  export, and what is lost on the way.
\<close>

declare One_nat_def [simp del]

section \<open>What is written\<close>

text \<open>An export leaves audit records of its scope and nothing else.\<close>

definition audit_adds :: "scope \<Rightarrow> database \<Rightarrow> database \<Rightarrow> bool" where
  "audit_adds sc d d' \<longleftrightarrow> (\<exists>as. d' = d\<lparr>audit_log := audit_log d @ as\<rparr>
     \<and> (\<forall>a \<in> set as. au_acting_scope a = sc \<and> au_workspace_scope a = sc))"

text \<open>An import adds rows of its scope at the end of the tables.\<close>

definition import_adds :: "scope \<Rightarrow> database \<Rightarrow> database \<Rightarrow> bool" where
  "import_adds sc d d' \<longleftrightarrow> (\<exists>es ss fs n ens ks as. d' = d\<lparr>episodes := episodes d @ es, summaries := summaries d @ ss,
       summary_key_facts := summary_key_facts d @ fs, key_fact_seq := n, entities := entities d @ ens,
       scope_keys := scope_keys d @ ks, audit_log := audit_log d @ as\<rparr>
     \<and> (\<forall>e \<in> set es. ep_scope e = sc) \<and> (\<forall>s \<in> set ss. sum_scope s = sc) \<and> (\<forall>f \<in> set fs. kf_scope f = sc)
     \<and> (\<forall>e \<in> set ens. en_scope e = sc) \<and> (\<forall>k \<in> set ks. sk_scope k = sc)
     \<and> (\<forall>a \<in> set as. au_acting_scope a = sc \<and> au_workspace_scope a = sc))"

lemma import_addsI:
  assumes "d' = d\<lparr>episodes := episodes d @ es, summaries := summaries d @ ss,
       summary_key_facts := summary_key_facts d @ fs, key_fact_seq := n, entities := entities d @ ens,
       scope_keys := scope_keys d @ ks, audit_log := audit_log d @ as\<rparr>"
    and "\<And>e. e \<in> set es \<Longrightarrow> ep_scope e = sc" "\<And>s. s \<in> set ss \<Longrightarrow> sum_scope s = sc" "\<And>f. f \<in> set fs \<Longrightarrow> kf_scope f = sc"
      "\<And>e. e \<in> set ens \<Longrightarrow> en_scope e = sc" "\<And>k. k \<in> set ks \<Longrightarrow> sk_scope k = sc"
      "\<And>a. a \<in> set as \<Longrightarrow> au_acting_scope a = sc \<and> au_workspace_scope a = sc"
  shows "import_adds sc d d'"
  unfolding import_adds_def using assms by blast

text \<open>The relations an export keeps, and the relations an import keeps.\<close>

locale audited = db_order R for R :: "database \<Rightarrow> database \<Rightarrow> bool" and sc :: scope +
  assumes audit_row: "au_acting_scope a = sc \<Longrightarrow> au_workspace_scope a = sc \<Longrightarrow> R d (d\<lparr>audit_log := audit_log d @ [a]\<rparr>)"
begin

lemma log_phase: "keeps R None (log_phase event sc actor detail)"
  unfolding log_phase_def audit_Write_def
  by (intro transaction checked_statement) (auto intro: audit_row split: if_splits)

lemma disk: "keeps R sess disk"
  unfolding disk_def by (intro combinators attempt)

lemma case_prod_arg:
  "(\<And>x y. keeps R sess (k x y a)) \<Longrightarrow> keeps R sess ((case z of (x, y) \<Rightarrow> k x y) a)"
  "(\<And>x y. keeps R sess (k' x y a b)) \<Longrightarrow> keeps R sess ((case z of (x, y) \<Rightarrow> k' x y) a b)"
  by (cases z, simp)+

lemma reading:
  "keeps R sess (read_episode hp sc' e)" "keeps R sess (write_episode day r files)" "keeps R sess (close_last hp rs)"
  "keeps R sess (read_summary hp sc' s)" "keeps R sess (export_loadKeyFacts hp sc' sid)" "keeps R sess (writeJSONFile kr dir)"
  "keeps R sess (read_entity hp sc' en)" "keeps R sess (write_entity_record hp nr)"
  unfolding read_episode_def write_episode_def close_last_def read_summary_def export_loadKeyFacts_def read_fact_def
    writeJSONFile_def read_entity_def write_entity_record_def
  by (intro combinators attempt disk case_prod_arg)+

lemma write_episodes: "keeps R sess (write_episodes hp sc' es day files m)"
proof (induction es arbitrary: day files m)
  case (Cons e es)
  show ?case unfolding write_episodes.simps by (intro combinators reading Cons.IH)
qed (simp add: ret)

lemma exports:
  "keeps R None (exportEpisodes hp sc' dir m)" "keeps R None (exportSummaries hp sc' dir m)" "keeps R None (exportEntities hp sc' dir m)"
  unfolding exportEpisodes_def exportSummaries_def exportEntities_def
  by (intro combinators transaction fold_each reading write_episodes disk)+

lemma ExportScope: "keeps R None (ExportScope hp sc name dir actor)"
  unfolding ExportScope_def by (intro combinators exports log_phase)

end

locale import_rows = audited R sc for R :: "database \<Rightarrow> database \<Rightarrow> bool" and sc :: scope +
  assumes summary_row: "insert_summary s w d = Some d' \<Longrightarrow> sum_scope s = sc \<Longrightarrow> R d d'"
    and fact_row: "insert_key_fact f w d = Some d' \<Longrightarrow> kf_scope f = sc \<Longrightarrow> R d d'"
    and entity_insert: "insert_entity e w d = Some d' \<Longrightarrow> en_scope e = sc \<Longrightarrow> R d d'"
begin

lemma import_entities: "keeps R sess (import_entities hp enc v sc rs existing st)"
proof (induction rs arbitrary: existing st)
  case (Cons r rs)
  show ?case
    unfolding import_entities.simps by (intro combinators checked_statement Cons.IH) (erule entity_insert, simp)
qed (simp add: ret)

lemma importEntities: "keeps R None (importEntities hp enc v dir sc st)"
  unfolding importEntities_def by (intro combinators disk transaction import_entities)

lemma import_version: "keeps R sess (import_version hp enc v sc lvl per r acc)"
  unfolding import_version_def nextImportSummaryID_def import_fact_def
  by (intro combinators checked_statement) (erule summary_row, simp, erule fact_row, simp)

lemma importSummaries: "keeps R None (importSummaries hp enc v dir sc st)"
  unfolding importSummaries_def import_period_def periodExists_def
  by (intro combinators fold_each disk transaction import_version case_prod_arg)

lemma scopeIsEmpty: "keeps R None (scopeIsEmpty sc)"
  unfolding scopeIsEmpty_def by (intro combinators transaction)

end

text \<open>With keys and the rows of episodes as well.\<close>

locale import_order = key_order R sc + import_rows R sc for R :: "database \<Rightarrow> database \<Rightarrow> bool" and sc :: scope +
  assumes episode_row: "insert_episode e w d = Some d' \<Longrightarrow> ep_scope e = sc \<Longrightarrow> R d d'"
begin

lemma insert_fresh: "(\<And>i. ep_scope (row i) = sc) \<Longrightarrow> keeps R sess (insert_fresh row t i n)"
proof (induction n arbitrary: i)
  case 0
  then show ?case
    unfolding insert_fresh.simps try_insert_def by (intro combinators checked_statement) (erule episode_row, simp)
next
  case (Suc n)
  then show ?case
    unfolding insert_fresh.simps try_insert_def newImportEpisodeID_def Let_def
    by (intro combinators attempt rand_read checked_statement Suc.IH Suc.prems) (erule episode_row, simp add: Suc.prems)
qed

lemma importEpisodes: "keeps R None (importEpisodes hp enc v dir sc st)"
  unfolding importEpisodes_def import_file_def import_episode_def Let_def
  by (intro combinators fold_each disk transaction insert_fresh case_prod_arg) (simp add: imported_row_def)

lemma ImportScope: "keeps R None (ImportScope hp dir sc merge actor)"
  unfolding ImportScope_def import_phases_def
  by (intro combinators GetOrCreate scopeIsEmpty importEntities importSummaries importEpisodes log_phase)

end

interpretation exporting: audited "audit_adds sc" sc
proof
  show "audit_adds sc d d" for d by (simp add: audit_adds_def exI [of _ "[]"])
  show "audit_adds sc d d''" if 1: "audit_adds sc d d'" and 2: "audit_adds sc d' d''" for d d' d''
  proof -
    from 1 obtain as where "d' = d\<lparr>audit_log := audit_log d @ as\<rparr>" "\<forall>a \<in> set as. au_acting_scope a = sc \<and> au_workspace_scope a = sc"
      unfolding audit_adds_def by blast
    moreover from 2 obtain bs where "d'' = d'\<lparr>audit_log := audit_log d' @ bs\<rparr>" "\<forall>a \<in> set bs. au_acting_scope a = sc \<and> au_workspace_scope a = sc"
      unfolding audit_adds_def by blast
    ultimately show ?thesis unfolding audit_adds_def by (intro exI [of _ "as @ bs"]) auto
  qed
  show "audit_adds sc d (d\<lparr>audit_log := audit_log d @ [a]\<rparr>)"
    if "au_acting_scope a = sc" "au_workspace_scope a = sc" for a d
    unfolding audit_adds_def using that by (intro exI [of _ "[a]"]) simp
qed

interpretation importing: import_order "import_adds sc" sc
proof
  show "import_adds sc d d" for d
    by (rule import_addsI [where es = "[]" and ss = "[]" and fs = "[]" and n = "key_fact_seq d" and ens = "[]" and ks = "[]" and as = "[]"]) simp_all
  show "import_adds sc d d''" if 1: "import_adds sc d d'" and 2: "import_adds sc d' d''" for d d' d''
  proof -
    from 1 obtain es ss fs n ens ks as where 1: "d' = d\<lparr>episodes := episodes d @ es, summaries := summaries d @ ss,
         summary_key_facts := summary_key_facts d @ fs, key_fact_seq := n, entities := entities d @ ens,
         scope_keys := scope_keys d @ ks, audit_log := audit_log d @ as\<rparr>"
      "\<forall>e \<in> set es. ep_scope e = sc" "\<forall>s \<in> set ss. sum_scope s = sc" "\<forall>f \<in> set fs. kf_scope f = sc"
      "\<forall>e \<in> set ens. en_scope e = sc" "\<forall>k \<in> set ks. sk_scope k = sc"
      "\<forall>a \<in> set as. au_acting_scope a = sc \<and> au_workspace_scope a = sc"
      unfolding import_adds_def by blast
    from 2 obtain es' ss' fs' n' ens' ks' as' where 2: "d'' = d'\<lparr>episodes := episodes d' @ es', summaries := summaries d' @ ss',
         summary_key_facts := summary_key_facts d' @ fs', key_fact_seq := n', entities := entities d' @ ens',
         scope_keys := scope_keys d' @ ks', audit_log := audit_log d' @ as'\<rparr>"
      "\<forall>e \<in> set es'. ep_scope e = sc" "\<forall>s \<in> set ss'. sum_scope s = sc" "\<forall>f \<in> set fs'. kf_scope f = sc"
      "\<forall>e \<in> set ens'. en_scope e = sc" "\<forall>k \<in> set ks'. sk_scope k = sc"
      "\<forall>a \<in> set as'. au_acting_scope a = sc \<and> au_workspace_scope a = sc"
      unfolding import_adds_def by blast
    show ?thesis
      by (rule import_addsI [where es = "es @ es'" and ss = "ss @ ss'" and fs = "fs @ fs'" and n = n' and ens = "ens @ ens'"
            and ks = "ks @ ks'" and as = "as @ as'"]) (use 1 2 in auto)
  qed
  show "import_adds sc d (insert_key sc v wrapped d)" for d v wrapped
    by (rule import_addsI [where es = "[]" and ss = "[]" and fs = "[]" and n = "key_fact_seq d" and ens = "[]" and as = "[]"
          and ks = "if key_rows sc v d \<noteq> [] then [] else [\<lparr>sk_scope = sc, sk_version = v, sk_wrapped_dek = wrapped\<rparr>]"])
      (auto simp: insert_key_def split: if_splits)
  show "import_adds sc d (d\<lparr>audit_log := audit_log d @ [a]\<rparr>)" if "au_acting_scope a = sc" "au_workspace_scope a = sc" for a d
    by (rule import_addsI [where es = "[]" and ss = "[]" and fs = "[]" and n = "key_fact_seq d" and ens = "[]" and ks = "[]" and as = "[a]"])
      (use that in simp_all)
  show "import_adds sc d d'" if "insert_summary s w d = Some d'" "sum_scope s = sc" for s w d d'
    by (rule import_addsI [where es = "[]" and ss = "[s]" and fs = "[]" and n = "key_fact_seq d" and ens = "[]" and ks = "[]" and as = "[]"])
      (use that in \<open>auto simp: insert_summary_def split: if_splits\<close>)
  show "import_adds sc d d'" if "insert_key_fact f w d = Some d'" "kf_scope f = sc" for f w d d'
    by (rule import_addsI [where es = "[]" and ss = "[]" and fs = "[f\<lparr>kf_id := key_fact_seq d + 1\<rparr>]" and n = "key_fact_seq d + 1"
          and ens = "[]" and ks = "[]" and as = "[]"])
      (use that in \<open>auto simp: insert_key_fact_def split: if_splits\<close>)
  show "import_adds sc d d'" if "insert_entity e w d = Some d'" "en_scope e = sc" for e w d d'
    by (rule import_addsI [where es = "[]" and ss = "[]" and fs = "[]" and n = "key_fact_seq d" and ens = "[e]" and ks = "[]" and as = "[]"])
      (use that in \<open>auto simp: insert_entity_def split: if_splits\<close>)
  show "import_adds sc d d'" if "insert_episode e w d = Some d'" "ep_scope e = sc" for e w d d'
    by (rule import_addsI [where es = "if ep_id e \<in> ep_id ` set (episodes d) then [] else [e]" and ss = "[]" and fs = "[]"
          and n = "key_fact_seq d" and ens = "[]" and ks = "[]" and as = "[]"])
      (use that in \<open>auto simp: insert_episode_def split: if_splits\<close>)
qed

text \<open>
  C14. An export reads and an import adds. Whatever files it is given, whatever statement or file operation
  fails, \<open>ExportScope\<close> changes nothing but the audit log, and \<open>ImportScope\<close> leaves every row of every table
  as it was: what it adds are episodes, summaries, key facts, entities, keys and audit records of the target
  scope. Neither leaves a transaction open.
\<close>

theorem portable_frames:
  assumes "tx w = None"
  shows "audit_adds sc (db w) (db (snd (ExportScope hp sc name dir actor w)))
       \<and> tx (snd (ExportScope hp sc name dir actor w)) = None
       \<and> import_adds sc (db w) (db (snd (ImportScope hp dir sc merge actor w)))
       \<and> tx (snd (ImportScope hp dir sc merge actor w)) = None"
proof -
  have kept: "R (db w) (db (snd (m w))) \<and> tx (snd (m w)) = None" if "keeps R None m" for R and m :: "'b proc"
    using that keepsD [of R None m w] assms by (cases "m w") simp
  show ?thesis
    using kept [OF exporting.ExportScope [of sc hp name dir actor]] kept [OF importing.ImportScope [of sc hp dir merge actor]] by simp
qed

section \<open>What an import stores\<close>

text \<open>The first two phases leave episodes and keys alone.\<close>

interpretation other_tables: import_rows "unchanged (\<lambda>d. (episodes d, scope_keys d))" sc
  by unfold_locales
    (auto simp: unchanged_def insert_summary_def insert_key_fact_def insert_entity_def split: if_splits)

text \<open>A row that reads as a record under a key.\<close>

definition reads_as :: "aead \<Rightarrow> bytes \<Rightarrow> episode \<Rightarrow> EpisodeRecord \<Rightarrow> bool" where
  "reads_as A k e r \<longleftrightarrow> (\<exists>i out n. Decrypt A (Encryptor k) (ep_input_text e) = Inr i
     \<and> Decrypt A (Encryptor k) (ep_output_text e) = Inr out \<and> Decrypt A (Encryptor k) (ep_note e) = Inr n
     \<and> r = episode_record e i out n)"

lemma text_of_Nullable [simp]: "text_of (Nullable s) = s"
  by (simp add: text_of_def Nullable_def)

lemma imported_row_simps [simp]:
  "ep_id (imported_row sc r j refersTo i out n v) = j" "ep_scope (imported_row sc r j refersTo i out n v) = sc"
  "ep_key_version (imported_row sc r j refersTo i out n v) = v" "ep_input_text (imported_row sc r j refersTo i out n v) = Some i"
  "ep_output_text (imported_row sc r j refersTo i out n v) = Some out" "ep_note (imported_row sc r j refersTo i out n v) = Some n"
  by (simp_all add: imported_row_def)

lemma record_imported_row:
  "episode_record (imported_row sc r j refersTo i out n v) (er_InputText r) (er_OutputText r) (er_Note r) = r\<lparr>er_ID := j, er_RefersTo := refersTo\<rparr>"
  by (cases r) (simp add: imported_row_def episode_record_def)

lemma reads_as_imported:
  assumes "Decrypt A (Encryptor k) (Some i) = Inr (er_InputText r)" "Decrypt A (Encryptor k) (Some out) = Inr (er_OutputText r)"
    and "Decrypt A (Encryptor k) (Some n) = Inr (er_Note r)"
  shows "reads_as A k (imported_row sc r j refersTo i out n v) (r\<lparr>er_ID := j, er_RefersTo := refersTo\<rparr>)"
  unfolding reads_as_def
  by (rule exI [of _ "er_InputText r"], rule exI [of _ "er_OutputText r"], rule exI [of _ "er_Note r"])
    (simp add: assms record_imported_row)

text \<open>The import as a relation: the ids in use, the hashes seen and the ids that were changed, the records,
  the rows they became, and what holds afterwards.\<close>

definition renamed :: "(string \<rightharpoonup> string) \<Rightarrow> string \<Rightarrow> string" where
  "renamed m i = (case m i of None \<Rightarrow> i | Some j \<Rightarrow> j)"

inductive becomes :: "aead \<Rightarrow> bytes \<Rightarrow> scope \<Rightarrow> nat \<Rightarrow> string set \<Rightarrow> string set \<Rightarrow> (string \<rightharpoonup> string) \<Rightarrow> EpisodeRecord list
    \<Rightarrow> episode list \<Rightarrow> string set \<Rightarrow> string set \<Rightarrow> (string \<rightharpoonup> string) \<Rightarrow> bool" for A k sc v where
  done_: "becomes A k sc v U H m [] [] U H m"
| skip: "er_Hash r \<in> H \<Longrightarrow> becomes A k sc v U H m rs rows U' H' m' \<Longrightarrow> becomes A k sc v U H m (r # rs) rows U' H' m'"
| store: "er_Hash r \<notin> H \<Longrightarrow> ep_scope row = sc \<Longrightarrow> ep_key_version row = v \<Longrightarrow> ep_id row \<notin> U
     \<Longrightarrow> (er_ID r \<notin> U \<longrightarrow> ep_id row = er_ID r)
     \<Longrightarrow> reads_as A k row (r\<lparr>er_ID := ep_id row, er_RefersTo := renamed m (er_RefersTo r)\<rparr>)
     \<Longrightarrow> becomes A k sc v (insert (ep_id row) U) (insert (er_Hash r) H)
           (if ep_id row \<noteq> er_ID r then m(er_ID r \<mapsto> ep_id row) else m) rs rows U' H' m'
     \<Longrightarrow> becomes A k sc v U H m (r # rs) (row # rows) U' H' m'"

lemma becomes_append:
  "becomes A k sc v U H m rs rows U' H' m' \<Longrightarrow> becomes A k sc v U' H' m' rs' rows' U'' H'' m''
    \<Longrightarrow> becomes A k sc v U H m (rs @ rs') (rows @ rows') U'' H'' m''"
  by (induction rule: becomes.induct) (simp_all add: becomes.skip becomes.store)

lemma becomes_ids: "becomes A k sc v U H m rs rows U' H' m' \<Longrightarrow> U' = U \<union> ep_id ` set rows"
  by (induction rule: becomes.induct) auto

lemma wp_disk [wp_simps]: "wp disk Q E = (\<lambda>w. if fault_now w = NoFault then Q () (tick w) else E ErrIO (tick w))"
  by (simp add: disk_def wp_simps fun_eq_iff)

lemma wp_foldM_prefix:
  assumes "\<And>ps x acc t. I ps acc t \<Longrightarrow> wp (f x acc) (\<lambda>acc'. I (ps @ [x]) acc') E t" "I qs acc t"
  shows "wp (foldM f xs acc) (I (qs @ xs)) E t"
  using assms(2)
proof (induction xs arbitrary: qs acc t)
  case Nil
  then show ?case by (simp add: wp_simps)
next
  case (Cons x xs)
  have "wp (f x acc) (\<lambda>acc'. I (qs @ [x]) acc') E t" by (rule assms(1) [OF Cons.prems])
  then show ?case
    by (simp add: wp_simps) (rule wp_mono, assumption, use Cons.IH [of "qs @ [x]"] in simp_all)
qed

text \<open>A transaction of the scope, with rows added to the episodes it began with.\<close>

definition adding :: "scope \<Rightarrow> database \<Rightarrow> episode list \<Rightarrow> world \<Rightarrow> bool" where
  "adding sc d rows t \<longleftrightarrow> tx t = Some (sc, sc, d) \<and> db t = d\<lparr>episodes := episodes d @ rows\<rparr>"

abbreviation in_import :: "scope \<Rightarrow> database \<Rightarrow> world \<Rightarrow> bool" where
  "in_import sc d t \<equiv> tx t = Some (sc, sc, d)"

lemma wp_try_insert:
  assumes t: "adding sc d rows t"
    and Q: "\<And>u. adding sc d (rows @ [row]) u \<Longrightarrow> ep_id row \<notin> ep_id ` set (episodes d @ rows) \<Longrightarrow> Q True u"
      "\<And>u. adding sc d rows u \<Longrightarrow> ep_id row \<in> ep_id ` set (episodes d @ rows) \<Longrightarrow> Q False u"
    and E: "\<And>e u. in_import sc d u \<Longrightarrow> E e u"
  shows "wp (try_insert row) Q E t"
proof (cases "insert_episode row t (db t)")
  case None
  then show ?thesis using t E by (simp add: try_insert_def wp_simps adding_def)
next
  case (Some d')
  have d: "db t = d\<lparr>episodes := episodes d @ rows\<rparr>" "tx t = Some (sc, sc, d)" using t by (simp_all add: adding_def)
  have ids: "ep_id ` set (episodes (db t)) = ep_id ` set (episodes d @ rows)" using d by simp
  have "Q (ep_id row \<notin> ep_id ` set (episodes d @ rows)) (map_db (\<lambda>_. d') (tick t))"
  proof (cases "ep_id row \<in> ep_id ` set (episodes d @ rows)")
    case True
    then have "d' = db t" using Some ids by (simp add: insert_episode_def split: if_splits)
    then show ?thesis using True d Q(2) [of "map_db (\<lambda>_. d') (tick t)"] by (simp add: adding_def)
  next
    case False
    then have "d' = d\<lparr>episodes := episodes d @ rows @ [row]\<rparr>" using Some ids d by (simp add: insert_episode_def split: if_splits)
    then show ?thesis using False d Q(1) [of "map_db (\<lambda>_. d') (tick t)"] by (simp add: adding_def)
  qed
  then show ?thesis using Some d E ids by (simp add: try_insert_def wp_simps split: fault.splits)
qed

lemma wp_newImportEpisodeID:
  assumes "adding sc d rows t" "\<And>i u. adding sc d rows u \<Longrightarrow> Q i u"
  shows "wp (newImportEpisodeID ts) Q E t"
  using assms by (simp add: newImportEpisodeID_def wp_simps adding_def)

lemma wp_insert_fresh:
  assumes row: "\<And>i. ep_id (row i) = i"
    and Q: "\<And>i u. adding sc d (rows @ [row i]) u \<Longrightarrow> i \<notin> ep_id ` set (episodes d @ rows) \<Longrightarrow>
       (i0 \<notin> ep_id ` set (episodes d @ rows) \<longrightarrow> i = i0) \<Longrightarrow> Q i u"
    and E: "\<And>e u. in_import sc d u \<Longrightarrow> E e u"
    and t: "adding sc d rows t" and i: "i0 \<notin> ep_id ` set (episodes d @ rows) \<longrightarrow> i = i0"
  shows "wp (insert_fresh row ts i n) Q E t"
  using t i
proof (induction n arbitrary: i t)
  case 0
  then show ?case
    unfolding insert_fresh.simps wp_bindM
    by (intro wp_try_insert [OF 0(1) _ _ E]) (auto simp: wp_simps row adding_def intro!: Q E)
next
  case (Suc n)
  show ?case
    unfolding insert_fresh.simps wp_bindM
  proof (rule wp_try_insert [OF Suc.prems(1) _ _ E])
    fix u
    assume "adding sc d rows u" "ep_id (row i) \<in> ep_id ` set (episodes d @ rows)"
    then have u: "adding sc d rows u" "i0 \<in> ep_id ` set (episodes d @ rows)"
      using Suc.prems(2) row by auto
    show "wp (if False then retM i else bindM (newImportEpisodeID ts) (\<lambda>i'. insert_fresh row ts i' n)) Q E u"
      by (simp add: wp_simps) (rule wp_newImportEpisodeID [OF u(1)], rule Suc.IH, use u(2) in auto)
  qed (use Suc.prems(2) in \<open>auto simp: wp_simps row intro!: Q\<close>)
qed

text \<open>The state of the loop over the records.\<close>

definition import_state :: "aead \<Rightarrow> bytes \<Rightarrow> scope \<Rightarrow> nat \<Rightarrow> database \<Rightarrow> EpisodeRecord list
    \<Rightarrow> string set \<times> (string \<rightharpoonup> string) \<times> ImportStats \<Rightarrow> world \<Rightarrow> bool" where
  "import_state A k sc v d rs = (\<lambda>(H, m, _) t. \<exists>rows U. adding sc d rows t
     \<and> becomes A k sc v (ep_id ` set (episodes d)) (ep_hash ` set (filter (\<lambda>e. ep_scope e = sc) (episodes d))) Map.empty rs rows U H m)"

lemma becomes_one:
  assumes "becomes A k sc v U0 H0 m0 rs rows U H m" "er_Hash r \<notin> H" "ep_scope row = sc" "ep_key_version row = v" "ep_id row \<notin> U"
    "er_ID r \<notin> U \<longrightarrow> ep_id row = er_ID r" "reads_as A k row (r\<lparr>er_ID := ep_id row, er_RefersTo := renamed m (er_RefersTo r)\<rparr>)"
  shows "becomes A k sc v U0 H0 m0 (rs @ [r]) (rows @ [row]) (insert (ep_id row) U) (insert (er_Hash r) H)
     (if ep_id row \<noteq> er_ID r then m(er_ID r \<mapsto> ep_id row) else m)"
  by (rule becomes_append [OF assms(1)]) (rule becomes.store [OF assms(2-7)], rule becomes.done_)

lemma becomes_skipped:
  assumes "becomes A k sc v U0 H0 m0 rs rows U H m" "er_Hash r \<in> H"
  shows "becomes A k sc v U0 H0 m0 (rs @ [r]) rows U H m"
  using becomes_append [OF assms(1) becomes.skip [OF assms(2) becomes.done_]] by simp

lemma wp_import_episode:
  assumes A: "aead_correct (hp_aead hp)" and len: "length (dek_of enc) = 32"
    and s: "import_state (hp_aead hp) (dek_of enc) sc v d rs acc t"
  shows "wp (import_episode hp enc v sc r acc) (\<lambda>acc'. import_state (hp_aead hp) (dek_of enc) sc v d (rs @ [r]) acc')
     (\<lambda>_. in_import sc d) t"
proof -
  obtain H m st where acc: "acc = (H, m, st)" by (cases acc)
  obtain rows U where b: "adding sc d rows t" "becomes (hp_aead hp) (dek_of enc) sc v (ep_id ` set (episodes d))
      (ep_hash ` set (filter (\<lambda>e. ep_scope e = sc) (episodes d))) Map.empty rs rows U H m"
    using s acc by (auto simp: import_state_def)
  have U: "U = ep_id ` set (episodes d @ rows)" using becomes_ids [OF b(2)] by auto
  have enc: "Encryptor (dek_of enc) = enc" by simp
  show ?thesis
  proof (cases "er_Hash r \<in> H")
    case True
    then show ?thesis
      using b becomes_skipped [OF b(2) True] by (auto simp: acc import_episode_def wp_simps import_state_def)
  next
    case False
    let ?refers = "renamed m (er_RefersTo r)"
    have refers: "(case m (er_RefersTo r) of None \<Rightarrow> er_RefersTo r | Some i \<Rightarrow> i) = ?refers" by (simp add: renamed_def)
    have rand: "adding sc d rows (t\<lparr>rand_pos := n\<rparr>)" for n using b(1) by (simp add: adding_def)
    have rand': "in_import sc d (t\<lparr>rand_pos := n\<rparr>)" for n using b(1) by (simp add: adding_def)
    have stored: "wp (insert_fresh (\<lambda>i. imported_row sc r i ?refers ic oc nc v) (er_TS r) (er_ID r) maxImportAttempts)
       (\<lambda>i. wp (retM (insert (er_Hash r) H, if i \<noteq> er_ID r then m(er_ID r \<mapsto> i) else m, st\<lparr>EpisodesImported := EpisodesImported st + 1\<rparr>))
          (\<lambda>acc'. import_state (hp_aead hp) (dek_of enc) sc v d (rs @ [r]) acc') (\<lambda>_. in_import sc d))
       (\<lambda>_. in_import sc d) (t\<lparr>rand_pos := n\<rparr>)"
      if dec: "Decrypt (hp_aead hp) enc (Some ic) = Inr (er_InputText r)" "Decrypt (hp_aead hp) enc (Some oc) = Inr (er_OutputText r)"
        "Decrypt (hp_aead hp) enc (Some nc) = Inr (er_Note r)" for ic oc nc n
    proof (rule wp_insert_fresh [where sc = sc and d = d and rows = rows and ?i0.0 = "er_ID r"])
      fix i u
      let ?row = "imported_row sc r i ?refers ic oc nc v"
      assume u: "adding sc d (rows @ [?row]) u" "i \<notin> ep_id ` set (episodes d @ rows)"
        "er_ID r \<notin> ep_id ` set (episodes d @ rows) \<longrightarrow> i = er_ID r"
      have row: "ep_id ?row = i" "ep_scope ?row = sc" "ep_key_version ?row = v" by (simp_all add: imported_row_def)
      have "reads_as (hp_aead hp) (dek_of enc) ?row (r\<lparr>er_ID := i, er_RefersTo := ?refers\<rparr>)"
        using dec by (intro reads_as_imported) simp_all
      then have "becomes (hp_aead hp) (dek_of enc) sc v (ep_id ` set (episodes d))
          (ep_hash ` set (filter (\<lambda>e. ep_scope e = sc) (episodes d))) Map.empty (rs @ [r]) (rows @ [?row])
          (insert i U) (insert (er_Hash r) H) (if i \<noteq> er_ID r then m(er_ID r \<mapsto> i) else m)"
        by (intro becomes_one [OF b(2) False, of ?row, unfolded row]) (use u(2,3) U in simp_all)
      then show "wp (retM (insert (er_Hash r) H, if i \<noteq> er_ID r then m(er_ID r \<mapsto> i) else m, st\<lparr>EpisodesImported := EpisodesImported st + 1\<rparr>))
          (\<lambda>acc'. import_state (hp_aead hp) (dek_of enc) sc v d (rs @ [r]) acc') (\<lambda>_. in_import sc d) u"
        using u(1) unfolding wp_retM import_state_def prod.case by blast
    qed (use rand in \<open>simp_all add: imported_row_def\<close>)
    show ?thesis
      unfolding acc import_episode_def prod.case if_not_P [OF False] wp_bindM Let_def refers
      by (intro wp_Encrypt [OF A len]) (use stored rand' in auto)
  qed
qed

section \<open>The import of the episodes\<close>

definition dir_records :: "scope_dir \<Rightarrow> EpisodeRecord list" where
  "dir_records dir = concat (map snd (sort_key fst (sd_episodes dir)))"

definition hashes_of :: "scope \<Rightarrow> database \<Rightarrow> string set" where
  "hashes_of sc d = ep_hash ` set (filter (\<lambda>e. ep_scope e = sc) (episodes d))"

text \<open>The rows that were added are what the records became.\<close>

definition episodes_imported :: "aead \<Rightarrow> bytes \<Rightarrow> scope \<Rightarrow> EpisodeRecord list \<Rightarrow> database \<Rightarrow> database \<Rightarrow> bool" where
  "episodes_imported A K sc rs d d' \<longleftrightarrow> (\<exists>k v rows U H m. episodes d' = episodes d @ rows
     \<and> dek_in A K (scope_keys d') sc v = Some k
     \<and> becomes A k sc v (ep_id ` set (episodes d)) (hashes_of sc d) Map.empty rs rows U H m)"

lemma wp_import_files:
  assumes A: "aead_correct (hp_aead hp)" and len: "length (dek_of enc) = 32"
    and t: "import_state (hp_aead hp) (dek_of enc) sc v d [] acc t"
  shows "wp (foldM (import_file hp enc v sc) files acc)
     (import_state (hp_aead hp) (dek_of enc) sc v d (concat (map snd files))) (\<lambda>_. in_import sc d) t"
proof -
  have ticked: "import_state (hp_aead hp) (dek_of enc) sc v d rs acc (tick u)" if "import_state (hp_aead hp) (dek_of enc) sc v d rs acc u" for rs acc u
    using that by (cases acc) (auto simp: import_state_def adding_def)
  have out: "in_import sc d u" if "import_state (hp_aead hp) (dek_of enc) sc v d rs acc u" for rs acc u
    using that by (cases acc) (auto simp: import_state_def adding_def)
  have one: "wp (import_file hp enc v sc f acc) (import_state (hp_aead hp) (dek_of enc) sc v d (concat (map snd (fs @ [f])))) (\<lambda>_. in_import sc d) u"
    if u: "import_state (hp_aead hp) (dek_of enc) sc v d (concat (map snd fs)) acc u" for f fs acc u
  proof -
    have "wp (foldM (import_episode hp enc v sc) (snd f) acc)
       (import_state (hp_aead hp) (dek_of enc) sc v d (concat (map snd fs) @ snd f)) (\<lambda>_. in_import sc d) (tick u)"
      by (rule wp_foldM_prefix [where I = "import_state (hp_aead hp) (dek_of enc) sc v d"])
        (rule wp_import_episode [OF A len], assumption, rule ticked [OF u])
    then show ?thesis using out [OF ticked [OF u]] by (simp add: import_file_def wp_simps split_beta)
  qed
  show ?thesis
    using wp_foldM_prefix [where I = "\<lambda>fs. import_state (hp_aead hp) (dek_of enc) sc v d (concat (map snd fs))"
        and qs = "[]" and f = "import_file hp enc v sc" and E = "\<lambda>_. in_import sc d" and xs = files, OF one] t by simp
qed

lemma wp_importEpisodes:
  assumes A: "aead_correct (hp_aead hp)" and len: "length (dek_of enc) = 32" and w: "tx w = None"
  shows "wp (importEpisodes hp enc v dir sc st)
     (\<lambda>_ t. tx t = None \<and> (\<exists>rows U H m. db t = (db w)\<lparr>episodes := episodes (db w) @ rows\<rparr>
        \<and> becomes (hp_aead hp) (dek_of enc) sc v (ep_id ` set (episodes (db w))) (hashes_of sc (db w)) Map.empty (dir_records dir) rows U H m))
     (\<lambda>_ t. tx t = None \<and> (db t = db w \<or> (\<exists>rows U H m. db t = (db w)\<lparr>episodes := episodes (db w) @ rows\<rparr>
        \<and> becomes (hp_aead hp) (dek_of enc) sc v (ep_id ` set (episodes (db w))) (hashes_of sc (db w)) Map.empty (dir_records dir) rows U H m))) w"
    (is "wp _ (\<lambda>_ t. tx t = None \<and> ?done t) _ w")
proof -
  let ?body = "bindM (query (\<lambda>w. ep_hash ` set (filter (\<lambda>e. ep_scope e = sc) (visible w ep_scope (episodes (db w)))))) (\<lambda>existingHashes.
     bindM (foldM (import_file hp enc v sc) (sort_key fst (sd_episodes dir)) (existingHashes, Map.empty, st)) (\<lambda>(_, _, st'). retM st'))"
  have "wp (Run sc sc ?body) (\<lambda>_ t. tx t = None \<and> ?done t) (\<lambda>_ t. tx t = None \<and> (db t = db w \<or> ?done t)) (tick w)"
  proof (rule wp_Run)
    fix n
    let ?t = "(tick w)\<lparr>tx := Some (sc, sc, db (tick w)), ticks := n\<rparr>"
    have seen: "ep_hash ` set (filter (\<lambda>e. ep_scope e = sc) (visible ?t ep_scope (episodes (db ?t)))) = hashes_of sc (db w)"
      by (auto simp: visible_def rls_visible_def hashes_of_def)
    have start: "import_state (hp_aead hp) (dek_of enc) sc v (db w) [] (hashes_of sc (db w), Map.empty, st) (tick ?t)"
      unfolding import_state_def hashes_of_def prod.case
      by (intro exI conjI, rule_tac [2] becomes.done_) (simp add: adding_def)
    have "wp (foldM (import_file hp enc v sc) (sort_key fst (sd_episodes dir)) (hashes_of sc (db w), Map.empty, st))
       (\<lambda>x. wp (case x of (_, _, st') \<Rightarrow> retM st') (\<lambda>_ t. in_import sc (db w) t \<and> ?done t) (\<lambda>_. in_import sc (db w)))
       (\<lambda>_. in_import sc (db w)) (tick ?t)"
    proof (rule wp_mono [OF wp_import_files [OF A len start]])
      fix x u
      assume u: "import_state (hp_aead hp) (dek_of enc) sc v (db w) (concat (map snd (sort_key fst (sd_episodes dir)))) x u"
      obtain H m st' where x: "x = (H, m, st')" by (cases x)
      have "in_import sc (db w) u \<and> ?done u"
        using u unfolding x import_state_def prod.case adding_def dir_records_def hashes_of_def by blast
      then show "wp (case x of (_, _, st') \<Rightarrow> retM st') (\<lambda>_ t. in_import sc (db w) t \<and> ?done t) (\<lambda>_. in_import sc (db w)) u"
        by (simp add: x wp_simps)
    qed simp
    then have "wp ?body (\<lambda>_ t. in_import sc (db w) t \<and> ?done t) (\<lambda>_. in_import sc (db w)) ?t"
      unfolding wp_bindM wp_query seen by simp
    then show "wp ?body
        (\<lambda>_ t. \<forall>m. (tx (t\<lparr>tx := None, ticks := m\<rparr>) = None \<and> ?done (t\<lparr>tx := None, ticks := m\<rparr>))
           \<and> (tx (t\<lparr>tx := None, ticks := m\<rparr>) = None \<and> (db (t\<lparr>tx := None, ticks := m\<rparr>) = db w \<or> ?done (t\<lparr>tx := None, ticks := m\<rparr>)))
           \<and> (tx (rollback (t\<lparr>ticks := m\<rparr>)) = None \<and> (db (rollback (t\<lparr>ticks := m\<rparr>)) = db w \<or> ?done (rollback (t\<lparr>ticks := m\<rparr>)))))
        (\<lambda>e t. tx (rollback t) = None \<and> (db (rollback t) = db w \<or> ?done (rollback t))) ?t"
      by (rule wp_mono) (auto simp: rollback_def)
  qed (use w in simp_all)
  then show ?thesis using w by (simp add: importEpisodes_def wp_simps)
qed

text \<open>A step that leaves episodes and keys alone, between two others.\<close>

definition quiet :: "world \<Rightarrow> world \<Rightarrow> bool" where
  "quiet w t \<longleftrightarrow> tx t = None \<and> episodes (db t) = episodes (db w) \<and> scope_keys (db t) = scope_keys (db w)"

lemma wp_quiet:
  assumes m: "keeps (unchanged (\<lambda>d. (episodes d, scope_keys d))) None m" and "quiet w t"
    and "\<And>x u. quiet w u \<Longrightarrow> Q x u" "\<And>e u. quiet w u \<Longrightarrow> E e u"
  shows "wp m Q E t"
proof -
  have "session t = None" using assms(2) by (simp add: quiet_def)
  from keeps_wp [OF m this] show ?thesis
    by (rule wp_mono) (use assms(2-4) in \<open>auto simp: quiet_def unchanged_def\<close>)
qed

lemma quiet_imported:
  "episodes_imported A K sc rs d (db t) \<Longrightarrow> quiet t u \<Longrightarrow> episodes_imported A K sc rs d (db u)"
  by (simp add: episodes_imported_def quiet_def)

lemma wp_import_phases:
  assumes A: "aead_correct (hp_aead hp)" and key: "dek_in (hp_aead hp) K (scope_keys (db w)) sc v = Some (dek_of enc)"
    and w: "tx w = None" and d: "episodes (db w) = episodes d"
  shows "wp (import_phases hp enc v dir sc actor)
     (\<lambda>_ t. episodes_imported (hp_aead hp) K sc (dir_records dir) d (db t))
     (\<lambda>_ t. episodes (db t) = episodes d \<or> episodes_imported (hp_aead hp) K sc (dir_records dir) d (db t)) w"
proof -
  let ?ok = "\<lambda>t :: world. episodes_imported (hp_aead hp) K sc (dir_records dir) d (db t)"
  let ?E = "\<lambda>_ (t :: world). episodes (db t) = episodes d \<or> ?ok t"
  have len: "length (dek_of enc) = 32" by (rule dek_in_length [OF key])
  have off: "?E e u" if "quiet w u" for e :: err and u using that d by (simp add: quiet_def)
  have done_: "?ok u" if "quiet w t" "db u = (db t)\<lparr>episodes := episodes (db t) @ rows\<rparr>"
    "becomes (hp_aead hp) (dek_of enc) sc v (ep_id ` set (episodes (db t))) (hashes_of sc (db t)) Map.empty (dir_records dir) rows U H m"
    for t u :: world and rows U H m
  proof -
    have "hashes_of sc (db t) = hashes_of sc d" "episodes (db t) = episodes d" using that(1) d by (simp_all add: quiet_def hashes_of_def)
    then show ?thesis
      using that key unfolding episodes_imported_def quiet_def
      by (intro exI [of _ "dek_of enc"] exI [of _ v] exI [of _ rows] exI [of _ U] exI [of _ H] exI [of _ m]) simp
  qed
  have last: "wp (importEpisodes hp enc v dir sc st) (\<lambda>st3. wp (log_phase EventImport sc actor (dt st3)) (\<lambda>_. wp (retM st3) (\<lambda>_. ?ok) ?E) ?E) ?E t"
    if t: "quiet w t" for st and t :: world and dt
  proof (rule wp_mono [OF wp_importEpisodes [OF A len]])
    show "tx t = None" using t by (simp add: quiet_def)
  next
    fix x and u :: world
    assume u: "tx u = None \<and> (\<exists>rows U H m. db u = (db t)\<lparr>episodes := episodes (db t) @ rows\<rparr> \<and>
       becomes (hp_aead hp) (dek_of enc) sc v (ep_id ` set (episodes (db t))) (hashes_of sc (db t)) Map.empty (dir_records dir) rows U H m)"
    then have ok: "?ok u" using done_ [OF t] by blast
    have "quiet u u" using u by (simp add: quiet_def)
    then show "wp (log_phase EventImport sc actor (dt x)) (\<lambda>_. wp (retM x) (\<lambda>_. ?ok) ?E) ?E u"
      by (rule wp_quiet [OF other_tables.log_phase]) (use quiet_imported [OF ok] in \<open>auto simp: wp_simps\<close>)
  next
    fix e and u :: world
    assume "tx u = None \<and> (db u = db t \<or> (\<exists>rows U H m. db u = (db t)\<lparr>episodes := episodes (db t) @ rows\<rparr> \<and>
       becomes (hp_aead hp) (dek_of enc) sc v (ep_id ` set (episodes (db t))) (hashes_of sc (db t)) Map.empty (dir_records dir) rows U H m))"
    then show "?E e u" using done_ [OF t] t d by (auto simp: quiet_def)
  qed
  have start: "quiet w w" using w by (simp add: quiet_def)
  show ?thesis
    unfolding import_phases_def wp_bindM
    by (intro wp_quiet [OF other_tables.importEntities start] wp_quiet [OF other_tables.log_phase]
        wp_quiet [OF other_tables.importSummaries] last; (assumption | rule off))
qed

lemma wp_ImportScope:
  assumes A: "aead_correct (hp_aead hp)" and w: "holds (key_inv (hp_aead hp) K rows) None w"
  shows "wp (ImportScope hp dir sc merge actor)
     (\<lambda>_ t. episodes_imported (hp_aead hp) K sc (dir_records dir) (db w) (db t))
     (\<lambda>_ t. episodes (db t) = episodes (db w) \<or> episodes_imported (hp_aead hp) K sc (dir_records dir) (db w) (db t)) w"
proof -
  let ?ok = "\<lambda>t :: world. episodes_imported (hp_aead hp) K sc (dir_records dir) (db w) (db t)"
  let ?E = "\<lambda>_ (t :: world). episodes (db t) = episodes (db w) \<or> ?ok t"
  have kept: "tx t = None \<and> episodes (db t) = episodes (db w)" if "keys_kept (hp_aead hp) K rows None sc 1 w t" for t
  proof -
    have t: "tx t = None" "db t = (db w)\<lparr>scope_keys := scope_keys (db t)\<rparr>"
      using that by (auto simp: keys_kept_def only_keys_def holds_def)
    have "episodes (db t) = episodes ((db w)\<lparr>scope_keys := scope_keys (db t)\<rparr>)" by (rule arg_cong [OF t(2)])
    then show ?thesis using t(1) by simp
  qed
  have K: "kek w = K" using holds_rows [OF w] by simp
  have rest: "wp (if merge then retM True else scopeIsEmpty sc) (\<lambda>go. wp (if \<not> go then errM ErrScopeNotEmpty
       else import_phases hp enc v dir sc actor) (\<lambda>_. ?ok) ?E) ?E t"
    if t: "tx t = None" "episodes (db t) = episodes (db w)" and key: "dek_in (hp_aead hp) K (scope_keys (db t)) sc v = Some (dek_of enc)"
    for enc v t
  proof (rule wp_quiet [where w = t])
    show "keeps (unchanged (\<lambda>d. (episodes d, scope_keys d))) None (if merge then retM True else scopeIsEmpty sc)"
      unfolding scopeIsEmpty_def by (intro unchanged.combinators unchanged.transaction)
    show "quiet t t" using t by (simp add: quiet_def)
    show "wp (if \<not> x then errM ErrScopeNotEmpty else import_phases hp enc v dir sc actor) (\<lambda>_. ?ok) ?E u" if "quiet t u" for x u
    proof (cases x)
      case True
      have "wp (import_phases hp enc v dir sc actor) (\<lambda>_. ?ok) ?E u"
        by (rule wp_import_phases [OF A]) (use that t key in \<open>auto simp: quiet_def\<close>)
      then show ?thesis using True by simp
    qed (use that t in \<open>simp add: wp_simps quiet_def\<close>)
  qed (use t in \<open>simp add: quiet_def\<close>)
  show ?thesis
    unfolding ImportScope_def wp_bindM
  proof (rule wp_mono [OF wp_GetOrCreate [OF A w]])
    fix x t
    assume a: "keys_kept (hp_aead hp) K rows None sc 1 w t \<and> current_key (hp_aead hp) sc w x t"
    obtain enc v where x: "x = (enc, v)" by (cases x)
    have "dek_in (hp_aead hp) K (scope_keys (db t)) sc v = Some (dek_of enc)" using a K by (auto simp: x current_key_def)
    then show "wp (case x of (enc, keyVersion) \<Rightarrow> bindM (if merge then retM True else scopeIsEmpty sc) (\<lambda>go.
        if \<not> go then errM ErrScopeNotEmpty else import_phases hp enc keyVersion dir sc actor)) (\<lambda>_. ?ok) ?E t"
      using kept a unfolding x prod.case wp_bindM by (intro rest) simp_all
  qed (use kept in simp)
qed

section \<open>What an export writes\<close>

text \<open>Steps of which only the value matters.\<close>

definition yields :: "('a \<Rightarrow> bool) \<Rightarrow> 'a proc \<Rightarrow> bool" where
  "yields P m \<longleftrightarrow> (\<forall>w x w'. m w = (Inr x, w') \<longrightarrow> P x)"

lemma yields_wp: "yields P m \<Longrightarrow> wp m (\<lambda>x _. P x) (\<lambda>_ _. True) w"
  by (auto simp: yields_def wp_def split: prod.splits sum.splits)

lemma yields_ret: "P x \<Longrightarrow> yields P (retM x)"
  by (simp add: yields_def retM_def)

lemma yields_seq: "yields Q m \<Longrightarrow> (\<And>x. Q x \<Longrightarrow> yields P (k x)) \<Longrightarrow> yields P (bindM m k)"
  unfolding yields_def by (metis bind_success)

lemma yields_bind: "(\<And>x. yields P (k x)) \<Longrightarrow> yields P (bindM m k)"
  unfolding yields_def by (metis bind_success)

lemma yields_try: "(\<And>x. yields P (k x)) \<Longrightarrow> yields P (tryM m k)"
  unfolding yields_def by (auto simp: tryM_def split: prod.splits)

lemma yields_Run:
  assumes "yields P fn"
  shows "yields P (Run a ws fn)"
  unfolding yields_def
proof (intro allI impI)
  fix w x w'
  assume "Run a ws fn w = (Inr x, w')"
  then have "bindM begin_tx (\<lambda>_. bindM (SetSession a ws) (\<lambda>_. bindM fn (\<lambda>x. bindM commit (\<lambda>_. retM x)))) w = (Inr x, w')"
    by (auto simp: Run_def split: prod.splits sum.splits)
  then obtain t u y where "fn t = (Inr y, u)" "y = x"
    by (auto simp: retM_def dest!: bind_success)
  then show "P x" using assms by (auto simp: yields_def)
qed

lemma yields_foldM: "(\<And>x acc. I acc \<Longrightarrow> yields I (f x acc)) \<Longrightarrow> I acc \<Longrightarrow> yields I (foldM f xs acc)"
  by (induction xs arbitrary: acc) (auto intro: yields_ret yields_seq)

text \<open>The later phases keep the files of the episodes and their number.\<close>

definition same_episodes :: "scope_dir \<Rightarrow> ScopeManifest \<Rightarrow> scope_dir \<times> ScopeManifest \<Rightarrow> bool" where
  "same_episodes dir m = (\<lambda>(dir', m'). sd_episodes dir' = sd_episodes dir \<and> sm_EpisodeCount m' = sm_EpisodeCount m)"

lemma yields_exportSummaries: "yields (same_episodes dir m) (exportSummaries hp sc dir m)"
  unfolding exportSummaries_def
proof (rule yields_bind)
  fix records
  have "yields (\<lambda>d. sd_episodes d = sd_episodes dir) (foldM writeJSONFile (group_periods records []) dir)"
    by (rule yields_foldM) (auto simp: writeJSONFile_def intro!: yields_bind yields_ret)
  then show "yields (same_episodes dir m) (bindM (foldM writeJSONFile (group_periods records []) dir) (\<lambda>dir'.
     retM (dir', m\<lparr>sm_SummaryCount := sm_SummaryCount m + length records\<rparr>)))"
    by (rule yields_seq) (auto simp: same_episodes_def intro!: yields_ret)
qed

lemma yields_exportEntities: "yields (same_episodes dir m) (exportEntities hp sc dir m)"
  unfolding exportEntities_def by (intro yields_Run yields_bind, rule yields_ret, simp add: same_episodes_def)

text \<open>Files as bags of records.\<close>

definition put_record :: "EpisodeRecord \<Rightarrow> (string \<times> EpisodeRecord list) list \<Rightarrow> (string \<times> EpisodeRecord list) list" where
  "put_record r files = set_file (file_day (er_TS r)) (file_of (file_day (er_TS r)) files @ [json_episode r]) files"

lemma mset_set_file:
  "mset (concat (map snd (set_file k rs files))) + mset (file_of k files) = mset (concat (map snd files)) + mset rs"
proof (induction k rs files rule: set_file.induct)
  case (2 k rs k' rs' files)
  then show ?case by (cases "k' = k") (auto simp: file_of_def)
qed (simp add: file_of_def)

lemma mset_put_record: "mset (concat (map snd (put_record r files))) = mset (concat (map snd files)) + {#json_episode r#}"
proof -
  let ?k = "file_day (er_TS r)"
  have "mset (concat (map snd (put_record r files))) + mset (file_of ?k files)
      = mset (concat (map snd files)) + {#json_episode r#} + mset (file_of ?k files)"
    unfolding put_record_def mset_set_file by simp
  then show ?thesis by (simp only: add_right_cancel)
qed

lemma mset_put_records: "mset (concat (map snd (fold put_record rs files))) = mset (concat (map snd files)) + mset (map json_episode rs)"
  by (induction rs arbitrary: files) (simp_all add: mset_put_record)

lemma mset_dir_records: "mset (dir_records dir) = mset (concat (map snd (sd_episodes dir)))"
proof -
  have "mset (concat xs) = mset (concat ys)" if "mset xs = mset ys" for xs ys :: "'a list list"
    using that by (metis mset_concat mset_map sum_mset_sum_list)
  then show ?thesis unfolding dir_records_def by (metis mset_map mset_sort)
qed

text \<open>What reading a row finds.\<close>

definition found :: "aead \<Rightarrow> bytes \<Rightarrow> scope_key list \<Rightarrow> scope \<Rightarrow> episode \<Rightarrow> EpisodeRecord \<Rightarrow> bool" where
  "found A K rows sc e r \<longleftrightarrow> (\<exists>k. dek_in A K rows sc (ep_key_version e) = Some k \<and> reads_as A k e r)"

lemma wp_read_episode:
  assumes "holds (key_inv (hp_aead hp) K rows) sess t"
    and "\<And>r u. found (hp_aead hp) K rows sc e r \<Longrightarrow> holds (key_inv (hp_aead hp) K rows) sess u \<Longrightarrow> Q r u"
  shows "wp (read_episode hp sc e) Q (\<lambda>_ _. True) t"
  unfolding read_episode_def wp_bindM
proof (rule wp_mono [OF wp_GetVersion [OF assms(1)]])
  fix enc u
  assume u: "holds (key_inv (hp_aead hp) K rows) sess u \<and> same_but_cache t u \<and> dek_in (hp_aead hp) K rows sc (ep_key_version e) = Some (dek_of enc)"
  have enc: "Encryptor (dek_of enc) = enc" by simp
  show "wp (liftM (Decrypt (hp_aead hp) enc (ep_input_text e))) (\<lambda>inp.
       wp (liftM (Decrypt (hp_aead hp) enc (ep_output_text e))) (\<lambda>out.
       wp (liftM (Decrypt (hp_aead hp) enc (ep_note e))) (\<lambda>note. wp (retM (episode_record e inp out note)) Q (\<lambda>_ _. True))
          (\<lambda>_ _. True)) (\<lambda>_ _. True)) (\<lambda>_ _. True) u"
    using u assms(2) [of _ u]
    by (auto simp: wp_simps found_def reads_as_def split: sum.splits)
qed simp

lemma wp_write_episode:
  assumes "holds (key_inv A K rows) sess t"
    and "\<And>u. holds (key_inv A K rows) sess u \<Longrightarrow> Q (put_record r files) u"
  shows "wp (write_episode day r files) Q (\<lambda>_ _. True) t"
  using assms unfolding write_episode_def put_record_def [symmetric] by (simp add: wp_simps key_inv_process)

definition exported_files :: "aead \<Rightarrow> bytes \<Rightarrow> scope_key list \<Rightarrow> scope \<Rightarrow> episode list \<Rightarrow> (string \<times> EpisodeRecord list) list \<Rightarrow> nat
    \<Rightarrow> (string \<times> EpisodeRecord list) list \<times> nat \<Rightarrow> bool" where
  "exported_files A K rows sc es files n = (\<lambda>(files', n'). \<exists>rs. list_all2 (found A K rows sc) es rs
     \<and> files' = fold put_record rs files \<and> n' = n + length rs)"

lemma wp_write_episodes:
  assumes "holds (key_inv (hp_aead hp) K rows) sess t"
  shows "wp (write_episodes hp sc es day files m) (\<lambda>x _.
     exported_files (hp_aead hp) K rows sc es files (sm_EpisodeCount m) (fst (snd x), sm_EpisodeCount (snd (snd x)))) (\<lambda>_ _. True) t"
  using assms
proof (induction es arbitrary: day files m t)
  case Nil
  then show ?case by (simp add: wp_simps exported_files_def)
next
  case (Cons e es)
  show ?case
    unfolding write_episodes.simps wp_bindM
  proof (rule wp_read_episode [OF Cons.prems], rule wp_write_episode, assumption)
    fix r and u v :: world
    assume r: "found (hp_aead hp) K rows sc e r" and v: "holds (key_inv (hp_aead hp) K rows) sess v"
    show "wp (write_episodes hp sc es (file_day (er_TS r)) (put_record r files) (count_episode r m)) (\<lambda>x _.
       exported_files (hp_aead hp) K rows sc (e # es) files (sm_EpisodeCount m) (fst (snd x), sm_EpisodeCount (snd (snd x)))) (\<lambda>_ _. True) v"
    proof (rule wp_mono [OF Cons.IH [OF v]])
      fix x :: "string \<times> (string \<times> EpisodeRecord list) list \<times> ScopeManifest" and w :: world
      assume "exported_files (hp_aead hp) K rows sc es (put_record r files)
         (sm_EpisodeCount (count_episode r m)) (fst (snd x), sm_EpisodeCount (snd (snd x)))"
      then obtain rs where x: "list_all2 (found (hp_aead hp) K rows sc) es rs"
        "fst (snd x) = fold put_record rs (put_record r files)"
        "sm_EpisodeCount (snd (snd x)) = sm_EpisodeCount (count_episode r m) + length rs"
        by (auto simp: exported_files_def)
      then show "exported_files (hp_aead hp) K rows sc (e # es) files (sm_EpisodeCount m) (fst (snd x), sm_EpisodeCount (snd (snd x)))"
        using r unfolding exported_files_def prod.case by (intro exI [of _ "r # rs"]) (simp add: count_episode_def)
    qed simp
  qed
qed

text \<open>All records are in the files when the files hold as many as the manifest says.\<close>

definition exported :: "aead \<Rightarrow> bytes \<Rightarrow> scope_key list \<Rightarrow> scope \<Rightarrow> episode list \<Rightarrow> scope_dir \<times> ScopeManifest \<Rightarrow> bool" where
  "exported A K rows sc es = (\<lambda>(dir, m). \<exists>rs. list_all2 (found A K rows sc) es rs \<and> sm_EpisodeCount m = length rs
     \<and> (length (dir_records dir) = length rs \<longrightarrow> mset (dir_records dir) = mset (map json_episode rs)))"

lemma exported_closed:
  assumes f: "exported_files A K rows sc es [] 0 (files, sm_EpisodeCount m)" and rs: "rs' = file_of day files \<or> rs' = take n (file_of day files)"
    and dir: "sd_episodes dir = set_file day rs' files"
  shows "exported A K rows sc es (dir, m)"
proof -
  obtain rs where r: "list_all2 (found A K rows sc) es rs" "files = fold put_record rs []" "sm_EpisodeCount m = length rs"
    using f by (auto simp: exported_files_def)
  have all: "mset (concat (map snd files)) = mset (map json_episode rs)" using mset_put_records [of rs "[]"] r(2) by simp
  have sum: "mset (dir_records dir) + mset (file_of day files) = mset (map json_episode rs) + mset rs'"
    unfolding mset_dir_records dir mset_set_file all ..
  have "mset (dir_records dir) = mset (map json_episode rs)" if "length (dir_records dir) = length rs"
  proof -
    have "length (file_of day files) = length rs'" using arg_cong [OF sum, of size] that by simp
    then have "rs' = file_of day files" using rs by auto
    then show ?thesis using sum by simp
  qed
  then show ?thesis using r by (auto simp: exported_def)
qed

lemma wp_exportEpisodes:
  assumes w: "holds (key_inv (hp_aead hp) K rows) None w" and m: "sm_EpisodeCount m = 0"
  shows "wp (exportEpisodes hp sc empty_dir m)
     (\<lambda>x _. exported (hp_aead hp) K rows sc (sort_key ep_ts (filter (\<lambda>e. ep_scope e = sc) (episodes (db w)))) x) (\<lambda>_ _. True) w"
proof -
  let ?es = "sort_key ep_ts (filter (\<lambda>e. ep_scope e = sc) (episodes (db w)))"
  let ?body = "bindM (query (\<lambda>w. sort_key ep_ts (filter (\<lambda>e. ep_scope e = sc) (visible w ep_scope (episodes (db w)))))) (\<lambda>rows.
     bindM (write_episodes hp sc rows [] (sd_episodes empty_dir) m) (\<lambda>(day, files, m').
     if rows = [] then retM (empty_dir, m')
     else bindM (close_last hp (file_of day files)) (\<lambda>rs. retM (empty_dir\<lparr>sd_episodes := set_file day rs files\<rparr>, m'))))"
  have "wp (Run sc sc ?body) (\<lambda>x _. exported (hp_aead hp) K rows sc ?es x) (\<lambda>_ _. True) w"
  proof (rule wp_Run)
    show "tx w = None" using w by (simp add: holds_def)
    fix n
    let ?t = "w\<lparr>tx := Some (sc, sc, db w), ticks := n\<rparr>"
    have t: "holds (key_inv (hp_aead hp) K rows) (Some (sc, sc)) (tick ?t)" using holds_begin [OF key_inv_process w] by (simp add: key_inv_process)
    have seen: "sort_key ep_ts (filter (\<lambda>e. ep_scope e = sc) (visible ?t ep_scope (episodes (db ?t)))) = ?es"
      by (simp add: visible_def rls_visible_def cong: conj_cong)
    have "wp (write_episodes hp sc ?es [] (sd_episodes empty_dir) m) (\<lambda>x. wp (case x of (day, files, m') \<Rightarrow>
       if ?es = [] then retM (empty_dir, m')
       else bindM (close_last hp (file_of day files)) (\<lambda>rs. retM (empty_dir\<lparr>sd_episodes := set_file day rs files\<rparr>, m')))
       (\<lambda>x _. exported (hp_aead hp) K rows sc ?es x) (\<lambda>_ _. True)) (\<lambda>_ _. True) (tick ?t)"
    proof (rule wp_mono [OF wp_write_episodes [OF t]])
      fix x :: "string \<times> (string \<times> EpisodeRecord list) list \<times> ScopeManifest" and u :: world
      assume x: "exported_files (hp_aead hp) K rows sc ?es (sd_episodes empty_dir) (sm_EpisodeCount m)
         (fst (snd x), sm_EpisodeCount (snd (snd x)))"
      obtain day files m' where xs: "x = (day, files, m')" by (cases x)
      have f: "exported_files (hp_aead hp) K rows sc ?es [] 0 (files, sm_EpisodeCount m')" using x m by (simp add: xs empty_dir_def)
      show "wp (case x of (day, files, m') \<Rightarrow>
         if ?es = [] then retM (empty_dir, m')
         else bindM (close_last hp (file_of day files)) (\<lambda>rs. retM (empty_dir\<lparr>sd_episodes := set_file day rs files\<rparr>, m')))
         (\<lambda>x _. exported (hp_aead hp) K rows sc ?es x) (\<lambda>_ _. True) u"
      proof (cases "?es = []")
        case True
        then have "exported (hp_aead hp) K rows sc ?es (empty_dir, m')"
          using f by (simp add: exported_files_def exported_def dir_records_def empty_dir_def)
        then show ?thesis unfolding xs prod.case if_P [OF True] wp_retM .
      next
        case False
        have "exported (hp_aead hp) K rows sc ?es (empty_dir\<lparr>sd_episodes := set_file day rs' files\<rparr>, m')"
          if "rs' = file_of day files \<or> rs' = take (hp_flushed hp) (file_of day files)" for rs'
          by (rule exported_closed [OF f that]) simp
        then show ?thesis
          unfolding xs prod.case if_not_P [OF False] by (simp add: close_last_def wp_simps)
      qed
    qed simp
    then have "wp ?body (\<lambda>x _. exported (hp_aead hp) K rows sc ?es x) (\<lambda>_ _. True) ?t"
      unfolding wp_bindM wp_query seen by simp
    then show "wp ?body (\<lambda>x t. \<forall>m. exported (hp_aead hp) K rows sc ?es x \<and> True \<and> True) (\<lambda>e t. True) ?t"
      by simp
  qed simp_all
  then show ?thesis unfolding exportEpisodes_def .
qed

lemma wp_ExportScope:
  assumes w: "holds (key_inv (hp_aead hp) K rows) None w"
  shows "wp (ExportScope hp sc name empty_dir actor)
     (\<lambda>x _. exported (hp_aead hp) K rows sc (sort_key ep_ts (filter (\<lambda>e. ep_scope e = sc) (episodes (db w)))) x) (\<lambda>_ _. True) w"
    (is "wp _ (\<lambda>x _. ?P x) _ _")
proof -
  have keep: "?P x'" if "?P x" "same_episodes (fst x) (snd x) x'" for x x'
    using that by (cases x; cases x') (simp add: exported_def same_episodes_def dir_records_def)
  have rest: "yields ?P (case x of (dir1, m1) \<Rightarrow>
     bindM (log_phase EventExport sc actor (export_detail ''episodes'' (sm_EpisodeCount m1))) (\<lambda>_.
     bindM (exportSummaries hp sc dir1 m1) (\<lambda>(dir2, m2).
     bindM (log_phase EventExport sc actor (export_detail ''summaries'' (sm_SummaryCount m2))) (\<lambda>_.
     bindM (exportEntities hp sc dir2 m2) (\<lambda>(dir3, m3).
     bindM (log_phase EventExport sc actor (export_detail ''entities'' (sm_EntityCount m3))) (\<lambda>_. retM (dir3, m3)))))))" if "?P x" for x
  proof (cases x)
    case (Pair dir1 m1)
    show ?thesis
      unfolding Pair prod.case
    proof (rule yields_bind, rule yields_seq [OF yields_exportSummaries], clarsimp, rule yields_bind,
        rule yields_seq [OF yields_exportEntities], clarsimp, rule yields_bind, rule yields_ret)
      fix dir2 m2 dir3 m3
      assume "same_episodes dir1 m1 (dir2, m2)" "same_episodes dir2 m2 (dir3, m3)"
      then show "?P (dir3, m3)" using keep that Pair by (metis fst_conv snd_conv)
    qed
  qed
  show ?thesis
    unfolding ExportScope_def wp_bindM
    by (rule wp_mono [OF wp_exportEpisodes [OF w]]) (simp, rule yields_wp [OF rest], simp_all)
qed

lemma becomes_hashes:
  assumes "becomes A k sc v U H m rs rows U' H' m'"
  shows "distinct (map ep_hash rows) \<and> H \<inter> ep_hash ` set rows = {} \<and> ep_hash ` set rows = er_Hash ` set rs - H"
  using assms
proof (induction rule: becomes.induct)
  case (store r H row U m rs rows U' H' m')
  have "ep_hash row = er_Hash r" using store(6) by (cases r) (auto simp: reads_as_def episode_record_def)
  then show ?case using store(1) store.IH by auto
qed auto

text \<open>
  C13. An import is idempotent and all or nothing by hash. Whatever the files hold and whichever statement
  fails, the episodes \<open>ImportScope\<close> leaves behind are those it found, followed by exactly one row for each hash
  of the records that the scope did not have; or, when it reports an error, none at all.
\<close>

theorem ImportScope_each_hash_once:
  assumes "aead_correct (hp_aead hp)"
    and "holds (key_inv (hp_aead hp) (kek t) (scope_keys (db t))) None t"
    and "ImportScope hp dir target merge actor t = (res, t')"
  shows "\<exists>rows. episodes (db t') = episodes (db t) @ rows \<and> distinct (map ep_hash rows)
     \<and> (ep_hash ` set rows = er_Hash ` set (dir_records dir) - hashes_of target (db t) \<or> rows = [] \<and> (\<exists>e. res = Inl e))"
proof -
  have all: "\<exists>rows. episodes (db t') = episodes (db t) @ rows \<and> distinct (map ep_hash rows)
     \<and> ep_hash ` set rows = er_Hash ` set (dir_records dir) - hashes_of target (db t)"
    if "episodes_imported (hp_aead hp) (kek t) target (dir_records dir) (db t) (db t')"
    using that becomes_hashes unfolding episodes_imported_def by blast
  show ?thesis
    using wp_ImportScope [OF assms(1,2), of dir target merge actor] assms(3) all
    by (cases res) (auto simp: wp_def)
qed

section \<open>The round trip\<close>

text \<open>The record a row reads as, under the key the database has for it.\<close>

definition plain_record :: "aead \<Rightarrow> bytes \<Rightarrow> database \<Rightarrow> episode \<Rightarrow> EpisodeRecord option" where
  "plain_record A K d e = (case dek_in A K (scope_keys d) (ep_scope e) (ep_key_version e) of None \<Rightarrow> None
     | Some k \<Rightarrow> (case (Decrypt A (Encryptor k) (ep_input_text e), Decrypt A (Encryptor k) (ep_output_text e), Decrypt A (Encryptor k) (ep_note e)) of
         (Inr i, Inr out, Inr n) \<Rightarrow> Some (episode_record e i out n) | _ \<Rightarrow> None))"

lemma plain_record_found:
  "found A K (scope_keys d) sc e r \<Longrightarrow> ep_scope e = sc \<Longrightarrow> plain_record A K d e = Some r"
  by (auto simp: found_def reads_as_def plain_record_def)

lemma becomes_all:
  assumes "becomes A k sc v U H m rs rows U' H' m'" "m = Map.empty" "distinct (map er_Hash rs)" "distinct (map er_ID rs)"
    "H \<inter> er_Hash ` set rs = {}" "U \<inter> er_ID ` set rs = {}"
  shows "list_all2 (\<lambda>r row. ep_scope row = sc \<and> ep_key_version row = v \<and> reads_as A k row r) rs rows"
  using assms
proof (induction rule: becomes.induct)
  case (store r H row U m rs rows U' H' m')
  have i: "ep_id row = er_ID r" using store by auto
  have "reads_as A k row r" using store(6) i store.prems(1) by (simp add: renamed_def)
  moreover have "list_all2 (\<lambda>r row. ep_scope row = sc \<and> ep_key_version row = v \<and> reads_as A k row r) rs rows"
    using i store.prems by (intro store.IH) auto
  ultimately show ?case using store by simp
qed auto


section \<open>A sample bundle\<close>

text \<open>One episode of the default scope; its texts are sealed under the key of version 1.\<close>

definition sample_hpmf :: hpmf where
  "sample_hpmf = \<lparr>hp_aead = prefix_aead, raw_json = Some, hp_flushed = 0\<rparr>"

definition sealed :: "string \<Rightarrow> bytes option" where "sealed p = Some (replicate 12 CHR ''n'' @ replicate 32 CHR ''d'' @ p)"

definition source_row :: episode where
  "source_row = \<lparr>ep_id = ''ep_1'', ep_scope = DefaultScope, ep_ts = 0, ep_type = ''interaction'',
     ep_vendor = None, ep_model = None, ep_endpoint = None, ep_context_tags = [], ep_input_text = sealed ''hi'', ep_output_text = sealed ''ho'', ep_importance = None,
     ep_hash = ''h'', ep_supersedes = None, ep_externalized = False, ep_truncated = False,
     ep_memory_gate = None, ep_retrieved_refs = [], ep_refers_to = None,
     ep_rating = None, ep_note = None, ep_key_version = 1, ep_embedding = None,
     ep_embedding_model = None\<rparr>"

definition source_db :: database where
  "source_db = empty_db\<lparr>episodes := [source_row], scope_keys := [\<lparr>sk_scope = DefaultScope, sk_version = 1, sk_wrapped_dek = replicate 12 CHR ''n'' @ replicate 32 CHR ''k'' @ replicate 32 CHR ''d''\<rparr>]\<rparr>"

definition source_world :: world where
  "source_world = init_world\<lparr>db := source_db\<rparr>"

lemma sealed_reads: "Decrypt prefix_aead (Encryptor (replicate 32 CHR ''d'')) (sealed p) = Inr p"
  by (simp add: Decrypt_def sealed_def blob_bytes_def NonceSize_def prefix_aead_def Let_def)

lemma null_reads: "Decrypt prefix_aead e None = Inr []"
  by (simp add: Decrypt_def blob_bytes_def)

lemma unwraps: "UnwrapDEK prefix_aead (replicate 32 CHR ''k'') (replicate 12 CHR ''n'' @ replicate 32 CHR ''k'' @ replicate 32 CHR ''d'') = Inr (replicate 32 CHR ''d'')"
  by code_simp

lemma source_found: "found prefix_aead (kek source_world) (scope_keys source_db) DefaultScope source_row (episode_record source_row ''hi'' ''ho'' [])"
  unfolding found_def
  by (intro exI [of _ "replicate 32 CHR ''d''"]) (simp add: dek_in_def source_db_def unwraps source_world_def init_world_def source_row_def reads_as_def sealed_reads null_reads)

lemma source_keys: "holds (key_inv prefix_aead (kek source_world) (scope_keys (db source_world))) None source_world"
  by (simp add: holds_def key_inv_def keys_ok_def source_world_def init_world_def source_db_def dek_in_def unwraps)

lemma wp_Run_fine:
  assumes "faults w = (\<lambda>_. NoFault)"
    and "wp fn (\<lambda>x t. faults t = (\<lambda>_. NoFault) \<and> Q x ((tick t)\<lparr>tx := None\<rparr>)) (\<lambda>_ _. False) ((tick (tick w))\<lparr>tx := Some (a, ws, db w)\<rparr>)"
  shows "wp (Run a ws fn) Q (\<lambda>_ _. False) w"
  using assms by (auto simp: wp_def Run_def bindM_def begin_tx_def SetSession_def query_def modM_def commit_def retM_def fault_now_def
      split: prod.splits sum.splits)

lemma json_ascii: "list_all (\<lambda>c. of_char c < (128::nat)) s \<Longrightarrow> json_string s = s"
  using ToLower_ascii [of s] by (simp add: json_string_def ToLower_def)

lemma json_sample: "json_episode (episode_record source_row ''hi'' ''ho'' []) = episode_record source_row ''hi'' ''ho'' []"
  by (simp add: json_episode_def episode_record_def source_row_def json_ascii text_of_def)

lemma log_fine:
  assumes "faults w = (\<lambda>_. NoFault)" "tx w = None"
    "\<And>u a. faults u = (\<lambda>_. NoFault) \<Longrightarrow> tx u = None \<Longrightarrow> db u = (db w)\<lparr>audit_log := a\<rparr> \<Longrightarrow> kek u = kek w \<Longrightarrow> cache u = cache w \<Longrightarrow> Q () u"
  shows "wp (log_phase ev sc act dt) Q (\<lambda>_ _. False) w"
  unfolding log_phase_def
  apply (rule wp_Run_fine [OF assms(1)]) 
  using assms
  by (simp add: audit_Write_def wp_simps audit_policy_def fault_now_def)

lemma source_exportEpisodes: "wp (exportEpisodes sample_hpmf DefaultScope empty_dir m) (\<lambda>x t. x = (empty_dir\<lparr>sd_episodes := [(file_day 0, [episode_record source_row ''hi'' ''ho'' []])]\<rparr>, count_episode (episode_record source_row ''hi'' ''ho'' []) m)
   \<and> faults t = (\<lambda>_. NoFault) \<and> tx t = None \<and> db t = source_db) (\<lambda>_ _. False) source_world"
  unfolding exportEpisodes_def
proof (rule wp_Run_fine, goal_cases)
  case 2
  let ?w = "(tick (tick source_world))\<lparr>tx := Some (DefaultScope, DefaultScope, db source_world)\<rparr>"
  have q: "fault_now ?w = NoFault" "sort_key ep_ts (filter (\<lambda>e. ep_scope e = DefaultScope) (visible ?w ep_scope (episodes (db ?w)))) = [source_row]"
    by (simp_all add: visible_def rls_visible_def source_world_def source_db_def init_world_def empty_db_def fault_now_def source_row_def)
  have r: "ep_ts source_row = 0" "ep_key_version source_row = 1" "er_TS (episode_record e i out n) = ep_ts e" for e i out n
    by (simp_all add: source_row_def episode_record_def)
  have ct: "ep_input_text source_row = sealed ''hi''" "ep_output_text source_row = sealed ''ho''" "ep_note source_row = None"
    by (simp_all add: source_row_def)
  have fd: "file_day 0 \<noteq> []" by (simp add: file_day_def format_date_def)
  show ?case
    unfolding wp_bindM wp_query q 
    apply (simp add: wp_simps read_episode_def GetVersion_def cached_def unwrap_def key_rows_def fault_now_def sample_hpmf_def unwraps NewEncryptor_def store_enc_def sealed_reads null_reads write_episode_def file_of_def close_last_def empty_dir_def disk_def source_world_def source_db_def init_world_def empty_db_def r ct fd json_sample)
    done
qed (simp add: source_world_def init_world_def)

lemma target_import: "wp (ImportScope sample_hpmf \<lparr>sd_episodes = [(x, [(episode_record source_row ''hi'' ''ho'' [])])], sd_summaries = [], sd_entities = Some []\<rparr> (Scope ScopeKindShared ''team:a'') False ''op'') (\<lambda>_ _. True) (\<lambda>_ _. False) init_world"
  by code_simp

definition source_kept :: "world \<Rightarrow> bool" where "source_kept w \<longleftrightarrow> faults w = (\<lambda>_. NoFault) \<and> tx w = None \<and> (\<exists>a. db w = source_db\<lparr>audit_log := a\<rparr>)"

lemma log_kept: "source_kept w \<Longrightarrow> wp (log_phase ev sc act dt) (\<lambda>_ t. source_kept t) (\<lambda>_ _. False) w"
  by (rule log_fine) (auto simp: source_kept_def)

lemma exportSummaries_kept: "source_kept w \<Longrightarrow> wp (exportSummaries sample_hpmf DefaultScope dir m) (\<lambda>x t. x = (dir, m) \<and> source_kept t) (\<lambda>_ _. False) w"
  unfolding exportSummaries_def wp_bindM
  by (rule wp_Run_fine) (auto simp: source_kept_def wp_simps visible_def fault_now_def source_db_def empty_db_def)

lemma exportEntities_kept: "source_kept w \<Longrightarrow> wp (exportEntities sample_hpmf DefaultScope dir m) (\<lambda>x t. x = (dir\<lparr>sd_entities := Some (case sd_entities dir of None \<Rightarrow> [] | Some old \<Rightarrow> old)\<rparr>, m) \<and> source_kept t) (\<lambda>_ _. False) w"
  unfolding exportEntities_def
  by (rule wp_Run_fine) (auto simp: source_kept_def wp_simps visible_def fault_now_def source_db_def empty_db_def disk_def close_last_def)

lemma source_export: "wp (ExportScope sample_hpmf DefaultScope ''.'' empty_dir ''op'') (\<lambda>x t. fst x = \<lparr>sd_episodes = [(file_day 0, [episode_record source_row ''hi'' ''ho'' []])], sd_summaries = [], sd_entities = Some []\<rparr> \<and> sm_EpisodeCount (snd x) = 1)
   (\<lambda>_ _. False) source_world"
  unfolding ExportScope_def wp_bindM
  apply (rule wp_mono [OF source_exportEpisodes])
   apply (clarsimp simp: wp_simps)
   apply (rule wp_mono [OF log_kept])
     apply (simp add: source_kept_def exI [of _ "audit_log source_db"])
    apply (clarsimp simp: wp_simps)
    apply (rule wp_mono [OF exportSummaries_kept], assumption)
    apply (clarsimp simp: wp_simps)
    apply (rule wp_mono [OF log_kept], assumption)
    apply (clarsimp simp: wp_simps)
    apply (rule wp_mono [OF exportEntities_kept], assumption)
    apply (clarsimp simp: wp_simps)
    apply (rule wp_mono [OF log_kept], assumption)
    apply (simp_all add: empty_dir_def count_episode_def wp_simps)
  done

lemma target_keys: "holds (key_inv (hp_aead sample_hpmf) (kek init_world) (scope_keys (db init_world))) None init_world"
  by (simp add: holds_def key_inv_def keys_ok_def init_world_def empty_db_def)

theorem portable_frames_witness:
  "audit_adds DefaultScope empty_db (db (snd (ExportScope sample_hpmf DefaultScope ''.'' empty_dir ''op'' init_world)))
   \<and> import_adds DefaultScope empty_db (db (snd (ImportScope sample_hpmf empty_dir DefaultScope False ''op'' init_world)))"
  using portable_frames [of init_world DefaultScope sample_hpmf "''.''" empty_dir "''op''" False]
  by (simp add: init_world_def)

theorem ImportScope_each_hash_once_witness:
  "\<exists>rows. episodes (db (snd (ImportScope sample_hpmf \<lparr>sd_episodes = [(''x'', [episode_record source_row ''hi'' ''ho'' []])],
        sd_summaries = [], sd_entities = Some []\<rparr> (Scope ScopeKindShared ''team:a'') False ''op'' init_world))) = rows
     \<and> map ep_hash rows = [''h'']"
proof -
  let ?r = "episode_record source_row ''hi'' ''ho'' []" and ?sc = "Scope ScopeKindShared ''team:a''"
  let ?dir = "\<lparr>sd_episodes = [(''x'', [?r])], sd_summaries = [], sd_entities = Some []\<rparr>"
  obtain stats t' where i: "ImportScope sample_hpmf ?dir ?sc False ''op'' init_world = (Inr stats, t')"
    using target_import [of "''x''"]
    by (cases "ImportScope sample_hpmf ?dir ?sc False ''op'' init_world") (auto simp: wp_def split: sum.splits)
  have "\<exists>rows. episodes (db t') = episodes (db init_world) @ rows \<and> distinct (map ep_hash rows)
     \<and> (ep_hash ` set rows = er_Hash ` set (dir_records ?dir) - hashes_of ?sc (db init_world) \<or> rows = [] \<and> (\<exists>e. Inr stats = (Inl e :: err + ImportStats)))"
    by (rule ImportScope_each_hash_once [OF _ target_keys i]) (simp add: sample_hpmf_def prefix_aead_correct)
  then obtain rows where r: "episodes (db t') = rows" "distinct (map ep_hash rows)" "ep_hash ` set rows = {''h''}"
    by (auto simp: init_world_def empty_db_def dir_records_def hashes_of_def episode_record_def source_row_def)
  then have "map ep_hash rows = [''h'']"
    by (cases rows; cases "tl rows") auto
  then show ?thesis unfolding i using r(1) by simp
qed


end
