(* ===== verification/Admin.thy ===== *)
theory Admin
  imports Auth Ranking
begin

text \<open>
  Reading the audit log (\<open>internal/audit/query.go\<close>, \<open>cmd/hupi-audit/main.go\<close>) and the operators' web interface
  (\<open>cmd/hupi-admin-ui/main.go\<close> and \<open>handlers.go\<close>): its two middlewares and every route of the build
  without the extension of the third tier. A request is what was decoded of it, a reply the value that is
  encoded; the embedded pages are left out.
\<close>

declare One_nat_def [simp del]

section \<open>Queries of the audit log\<close>

record QueryFilter =
  qf_ScopeKind :: string
  qf_ScopeOwner :: string
  qf_Actor :: string
  qf_EventType :: string
  qf_TargetID :: string
  qf_Since :: "time option"
  qf_Until :: "time option"
  qf_Limit :: int
  qf_Ascending :: bool

definition no_filter :: QueryFilter where
  "no_filter = \<lparr>qf_ScopeKind = [], qf_ScopeOwner = [], qf_Actor = [], qf_EventType = [], qf_TargetID = [],
     qf_Since = None, qf_Until = None, qf_Limit = 0, qf_Ascending = False\<rparr>"

text \<open>The conjuncts of the where clause; an empty field adds none.\<close>

definition matches :: "QueryFilter \<Rightarrow> audit_row \<Rightarrow> bool" where
  "matches f r \<longleftrightarrow> (qf_ScopeKind f = [] \<or> Kind (au_workspace_scope r) = qf_ScopeKind f)
     \<and> (qf_ScopeOwner f = [] \<or> Owner (au_workspace_scope r) = qf_ScopeOwner f)
     \<and> (qf_Actor f = [] \<or> au_actor r = qf_Actor f)
     \<and> (qf_EventType f = [] \<or> au_event_type r = qf_EventType f)
     \<and> (qf_TargetID f = [] \<or> (case au_target_ref r of None \<Rightarrow> False | Some t \<Rightarrow> ref_id t = qf_TargetID f))
     \<and> (case qf_Since f of None \<Rightarrow> True | Some t \<Rightarrow> au_ts r \<ge> t)
     \<and> (case qf_Until f of None \<Rightarrow> True | Some t \<Rightarrow> au_ts r < t)"

definition newest_first :: "audit_row list \<Rightarrow> audit_row list" where
  "newest_first rows = rev (sort_key au_ts rows)"

text \<open>A negative limit is an error of the statement.\<close>

definition audit_Query :: "QueryFilter \<Rightarrow> audit_row list proc" where
  "audit_Query f =
     bindM (query (\<lambda>w. let rows = filter (matches f) (audit_log (db w)) in
       take (nat (qf_Limit f)) (if qf_Ascending f then sort_key au_ts rows else newest_first rows))) (\<lambda>rows.
     if qf_Limit f < 0 then errM ErrDb else retM rows)"

text \<open>The two subcommands of \<open>hupi-audit\<close>; a time that does not parse is \<open>Some None\<close>.\<close>

definition runTail :: "int \<Rightarrow> audit_row list proc" where
  "runTail n = bindM (audit_Query (no_filter\<lparr>qf_Limit := n\<rparr>)) (\<lambda>entries. retM (rev entries))"

definition runQuery :: "QueryFilter \<Rightarrow> time option option \<Rightarrow> time option option \<Rightarrow> audit_row list proc" where
  "runQuery f since till =
     (if since = Some None \<or> till = Some None then errM ErrUsage
      else audit_Query (f\<lparr>qf_Ascending := True, qf_Since := Option.bind since id, qf_Until := Option.bind till id\<rparr>))"

section \<open>Requests and replies of the web interface\<close>

datatype 'a body = Bad_body | Body 'a      \<comment> \<open>an empty body decodes as the zero value\<close>

record audit_params =
  ap_filter :: QueryFilter                    \<comment> \<open>the five texts\<close>
  ap_limit :: string
  ap_since :: "time option option"
  ap_until :: "time option option"

datatype route =
    List_users
  | New_user "(string \<times> string) body"
  | User_detail string
  | New_password string "string body"
  | List_operators
  | New_operator "string body"
  | Revoke "string body"
  | Whoami
  | Audit_log audit_params
  | No_route

record admin_request =
  ar_get :: bool                              \<comment> \<open>the method is GET\<close>
  ar_basic :: "(string \<times> string) option"
  ar_site :: string                           \<comment> \<open>\<open>Sec-Fetch-Site\<close>\<close>
  ar_route :: route

datatype admin_reply =
    Refused nat
  | Users "User list"
  | Created_user string string
  | Detail_of User
  | Okay
  | Operators "operator list"
  | Raw_token string
  | Name string
  | Entries "audit_row list"

record admin_server =
  srv_auth :: auth
  filter_json :: "QueryFilter \<Rightarrow> string"      \<comment> \<open>a filter as \<open>encoding/json\<close> writes it\<close>

definition EventAdminUIView :: string where "EventAdminUIView = ''admin_ui_view''"

definition ui_audit :: "string \<Rightarrow> string \<Rightarrow> scope \<Rightarrow> (string \<times> jval) list \<Rightarrow> unit proc" where
  "ui_audit actor eventType sc detail =
     tryM (LogStandalone \<lparr>EventType = eventType, Actor = actor, ActingScope = sc, WorkspaceScope = sc, TargetRef = None, Detail = detail\<rparr>)
       (\<lambda>_. retM ())"

text \<open>An error of the store is an internal error.\<close>

definition or_internal :: "'a proc \<Rightarrow> ('a \<Rightarrow> admin_reply proc) \<Rightarrow> admin_reply proc" where
  "or_internal m k = tryM m (\<lambda>res. case res of Inl _ \<Rightarrow> retM (Refused 500) | Inr x \<Rightarrow> k x)"

definition with_body :: "'a body \<Rightarrow> ('a \<Rightarrow> admin_reply proc) \<Rightarrow> admin_reply proc" where
  "with_body b k = (case b of Bad_body \<Rightarrow> retM (Refused 400) | Body x \<Rightarrow> k x)"

section \<open>The handlers\<close>

definition listUsers :: "admin_reply proc" where
  "listUsers = or_internal ListUsers (\<lambda>us. retM (Users us))"

definition ui_createUser :: "admin_server \<Rightarrow> string \<Rightarrow> (string \<times> string) body \<Rightarrow> admin_reply proc" where
  "ui_createUser s actor b = with_body b (\<lambda>(i, email).
     if i = [] then retM (Refused 400)
     else or_internal (CreateUser (auth_aead (srv_auth s)) i email) (\<lambda>_.
       bindM (ui_audit actor EventAdminProvision (Scope ScopeKindPrivate i) [(''action'', JStr ''create-user''), (''user_id'', JStr i)]) (\<lambda>_.
       retM (Created_user i email))))"

definition userDetail :: "string \<Rightarrow> string \<Rightarrow> admin_reply proc" where
  "userDetail actor i = or_internal ListUsers (\<lambda>us. case List.find (\<lambda>u. User_ID u = i) us of
       None \<Rightarrow> retM (Refused 404)
     | Some u \<Rightarrow>
       bindM (ui_audit actor EventAdminUIView (Scope ScopeKindPrivate i) [(''page'', JStr ''user_detail''), (''user_id'', JStr i)]) (\<lambda>_.
       retM (Detail_of u)))"

definition setPassword :: "admin_server \<Rightarrow> string \<Rightarrow> string \<Rightarrow> string body \<Rightarrow> admin_reply proc" where
  "setPassword s actor i b = with_body b (\<lambda>password.
     if password = [] then retM (Refused 400)
     else or_internal (SetPassword (srv_auth s) i password) (\<lambda>_.
       bindM (ui_audit actor EventAdminProvision (Scope ScopeKindPrivate i) [(''action'', JStr ''set-password''), (''user_id'', JStr i)]) (\<lambda>_.
       retM Okay)))"

definition listOperators :: "admin_reply proc" where
  "listOperators = or_internal ListOperators (\<lambda>os. retM (Operators os))"

definition ui_createOperator :: "admin_server \<Rightarrow> string \<Rightarrow> string body \<Rightarrow> admin_reply proc" where
  "ui_createOperator s actor b = with_body b (\<lambda>name.
     if name = [] then retM (Refused 400)
     else or_internal (CreateOperator (srv_auth s) name) (\<lambda>rawToken.
       bindM (ui_audit actor EventAdminProvision DefaultScope [(''action'', JStr ''create-operator''), (''operator_name'', JStr name)]) (\<lambda>_.
       retM (Raw_token rawToken))))"

definition ui_revokeOperator :: "string \<Rightarrow> string body \<Rightarrow> admin_reply proc" where
  "ui_revokeOperator actor b = with_body b (\<lambda>name.
     if name = [] then retM (Refused 400)
     else or_internal (RevokeOperator name) (\<lambda>_.
       bindM (ui_audit actor EventAdminProvision DefaultScope [(''action'', JStr ''revoke-operator''), (''operator_name'', JStr name)]) (\<lambda>_.
       retM Okay)))"

definition defaultAuditLimit :: int where "defaultAuditLimit = 100"
definition maxAuditLimit :: int where "maxAuditLimit = 500"

text \<open>None is a limit that is refused.\<close>

definition audit_limit :: "string \<Rightarrow> int option" where
  "audit_limit raw = (if raw = [] then Some (min defaultAuditLimit maxAuditLimit)
     else case Atoi raw of None \<Rightarrow> None | Some n \<Rightarrow> if n \<le> 0 then None else Some (min n maxAuditLimit))"

definition viewed_scope :: "QueryFilter \<Rightarrow> scope" where
  "viewed_scope f = (if qf_ScopeOwner f = [] then DefaultScope
     else Scope (if qf_ScopeKind f = [] then ScopeKindPrivate else qf_ScopeKind f) (qf_ScopeOwner f))"

definition auditQuery :: "admin_server \<Rightarrow> string \<Rightarrow> audit_params \<Rightarrow> admin_reply proc" where
  "auditQuery s actor p = (case audit_limit (ap_limit p) of None \<Rightarrow> retM (Refused 400) | Some n \<Rightarrow>
     if ap_since p = Some None \<or> ap_until p = Some None then retM (Refused 400)
     else let f = (ap_filter p)\<lparr>qf_Limit := n, qf_Ascending := False, qf_Since := Option.bind (ap_since p) id,
                qf_Until := Option.bind (ap_until p) id\<rparr> in
       or_internal (audit_Query f) (\<lambda>entries.
         bindM (ui_audit actor EventAdminUIView (viewed_scope f) [(''page'', JStr ''audit_log''), (''filter'', JRaw (filter_json s f))]) (\<lambda>_.
         retM (Entries entries))))"

fun routes :: "admin_server \<Rightarrow> string \<Rightarrow> route \<Rightarrow> admin_reply proc" where
  "routes s actor List_users = listUsers"
| "routes s actor (New_user b) = ui_createUser s actor b"
| "routes s actor (User_detail i) = userDetail actor i"
| "routes s actor (New_password i b) = setPassword s actor i b"
| "routes s actor List_operators = listOperators"
| "routes s actor (New_operator b) = ui_createOperator s actor b"
| "routes s actor (Revoke b) = ui_revokeOperator actor b"
| "routes s actor Whoami = retM (Name actor)"
| "routes s actor (Audit_log p) = auditQuery s actor p"
| "routes s actor No_route = retM (Refused 404)"

section \<open>The middlewares\<close>

definition requireOperatorAuth :: "admin_server \<Rightarrow> (string \<Rightarrow> route \<Rightarrow> admin_reply proc) \<Rightarrow> admin_request \<Rightarrow> admin_reply proc" where
  "requireOperatorAuth s inner r = (case ar_basic r of None \<Rightarrow> retM (Refused 401)
     | Some (user, pass) \<Rightarrow> tryM (ResolveOperator (srv_auth s) pass) (\<lambda>res. case res of
         Inl _ \<Rightarrow> retM (Refused 401)
       | Inr name \<Rightarrow> if user \<noteq> [] \<and> user \<noteq> name then retM (Refused 401) else inner name (ar_route r)))"

definition requireCSRFSafe :: "(admin_request \<Rightarrow> admin_reply proc) \<Rightarrow> admin_request \<Rightarrow> admin_reply proc" where
  "requireCSRFSafe inner r =
     (if \<not> ar_get r \<and> ar_site r \<noteq> [] \<and> ar_site r \<noteq> ''same-origin'' then retM (Refused 403) else inner r)"

definition serve :: "admin_server \<Rightarrow> admin_request \<Rightarrow> admin_reply proc" where
  "serve s = requireCSRFSafe (requireOperatorAuth s (routes s))"

end
