(* ===== verification/Admin_Correct.thy ===== *)
theory Admin_Correct
  imports Admin Runner_Frame
begin

text \<open>
  What the administrators' command and web interface guarantee: a credential names one operator for as long as
  it exists and nobody once it is revoked, over every history; a request is served only to an operator and
  what it leaves in the audit log has that operator's name; and passwords.
\<close>

declare One_nat_def [simp del]

section \<open>The rows that administration writes\<close>

text \<open>The relations kept by everything an administrator does under one name.\<close>

locale admin_order = db_order R for R :: "database \<Rightarrow> database \<Rightarrow> bool" +
  fixes actor :: string
  assumes user_row: "R d (insert_user i email w d)"
    and team_row: "R d (insert_team i name w d)"
    and password_row: "R d (d\<lparr>users := update_where P f (users d)\<rparr>)"
    and operator_row: "insert_operator name h w d = Some d' \<Longrightarrow> R d d'"
    and revoked_row: "R d (d\<lparr>operators := update_where (\<lambda>x. op_name x = name \<and> op_revoked_at x = None)
      (\<lambda>x. x\<lparr>op_revoked_at := Some t\<rparr>) (operators d)\<rparr>)"
    and key_row: "R d (insert_key sc v wrapped d)"
    and audit_row: "au_actor a = actor \<Longrightarrow> R d (d\<lparr>audit_log := audit_log d @ [a]\<rparr>)"
begin

sublocale keyed: key_order R sc for sc
  by unfold_locales (rule key_row)

lemma LogStandalone: "Actor e = actor \<Longrightarrow> keeps R None (LogStandalone e)"
  unfolding LogStandalone_def audit_Write_def
  by (intro transaction checked_statement) (auto intro: audit_row split: if_splits)

lemma store_operations:
  "keeps R sess (CreateUser A i email)" "keeps R sess (CreateTeam A i name)" "keeps R sess (SetPassword au i pw)"
  "keeps R sess (CreateOperator au name)" "keeps R sess (RevokeOperator name)" "keeps R sess (ResolveOperator au tok)"
  "keeps R sess ListUsers" "keeps R sess ListOperators" "keeps R sess (VerifyPassword au i pw)"
  unfolding CreateUser_def CreateTeam_def SetPassword_def CreateOperator_def RevokeOperator_def ResolveOperator_def
    ListUsers_def ListOperators_def VerifyPassword_def GenerateOperatorToken_def generateToken_def Let_def
  by (intro combinators rand_read statement checked_statement keyed.GetOrCreate user_row team_row password_row revoked_row; erule operator_row)+

lemma audit_Query: "keeps R sess (audit_Query f)"
  unfolding audit_Query_def by (intro combinators)

lemma logs: "keeps R None (logAdminAction actor sc action detail)" "keeps R None (ui_audit actor ev sc detail)"
  unfolding logAdminAction_def ui_audit_def by (rule attempt, rule LogStandalone, simp, rule ret)+

lemma hupi_admin: "keeps R None (hupi_admin au actor cmd)"
  by (cases cmd; simp only: hupi_admin.simps; intro combinators store_operations logs)

lemma with_body: "(\<And>x. keeps R sess (k x)) \<Longrightarrow> keeps R sess (with_body b k)"
  unfolding with_body_def by (cases b) (simp_all add: ret)

lemma or_internal: "keeps R sess m \<Longrightarrow> (\<And>x. keeps R sess (k x)) \<Longrightarrow> keeps R sess (or_internal m k)"
  unfolding or_internal_def by (intro combinators)

lemma routes: "keeps R None (routes srv actor rt)"
  by (cases rt; simp only: routes.simps listUsers_def ui_createUser_def userDetail_def setPassword_def listOperators_def ui_createOperator_def
      ui_revokeOperator_def auditQuery_def Let_def; intro with_body or_internal combinators store_operations logs audit_Query)

end

section \<open>Credentials\<close>

text \<open>Names and hashes are unique; who holds a hash, and since when it is revoked.\<close>

definition operators_ok :: "database \<Rightarrow> bool" where
  "operators_ok d \<longleftrightarrow> distinct (map op_name (operators d)) \<and> distinct (map op_token_hash (operators d))"

definition holds_credential :: "database \<Rightarrow> string \<Rightarrow> string \<Rightarrow> time option \<Rightarrow> bool" where
  "holds_credential d h name revoked \<longleftrightarrow>
     (\<exists>x \<in> set (operators d). op_token_hash x = h \<and> op_name x = name \<and> op_revoked_at x = revoked)"

definition credentials :: "database \<Rightarrow> database \<Rightarrow> bool" where
  "credentials d d' \<longleftrightarrow> (operators_ok d \<longrightarrow> operators_ok d' \<and> (\<forall>h name r. holds_credential d h name r \<longrightarrow>
     (\<exists>r'. holds_credential d' h name r' \<and> (r \<noteq> None \<longrightarrow> r' = r))))"

lemma credentials_same: "operators d' = operators d \<Longrightarrow> credentials d d'"
  by (auto simp: credentials_def operators_ok_def holds_credential_def)

lemma credentials_insert:
  assumes "insert_operator name h w d = Some d'"
  shows "credentials d d'"
proof -
  have d': "operators d' = operators d @ [\<lparr>op_name = name, op_token_hash = h, op_created_at = clock w, op_revoked_at = None\<rparr>]"
    and new: "name \<notin> op_name ` set (operators d)" "h \<notin> op_token_hash ` set (operators d)"
    using assms by (auto simp: insert_operator_def split: if_splits)
  have "operators_ok d \<Longrightarrow> operators_ok d'"
    using new by (auto simp: operators_ok_def d')
  moreover have "holds_credential d h' n r \<Longrightarrow> holds_credential d' h' n r" for h' n r
    by (auto simp: holds_credential_def d')
  ultimately show ?thesis unfolding credentials_def by blast
qed

lemma credentials_revoke:
  "credentials d (d\<lparr>operators := update_where (\<lambda>x. op_name x = name \<and> op_revoked_at x = None)
     (\<lambda>x. x\<lparr>op_revoked_at := Some t\<rparr>) (operators d)\<rparr>)" (is "credentials d ?d")
proof -
  have "map op_name (operators ?d) = map op_name (operators d)" "map op_token_hash (operators ?d) = map op_token_hash (operators d)"
    by (simp_all add: update_where_def)
  then have ok: "operators_ok d \<Longrightarrow> operators_ok ?d" by (simp add: operators_ok_def)
  have "\<exists>r'. holds_credential ?d h n r' \<and> (r \<noteq> None \<longrightarrow> r' = r)" if "holds_credential d h n r" for h n r
  proof -
    from that obtain x where x: "x \<in> set (operators d)" "op_token_hash x = h" "op_name x = n" "op_revoked_at x = r"
      unfolding holds_credential_def by blast
    show ?thesis
    proof (cases "n = name \<and> r = None")
      case True
      then have "x\<lparr>op_revoked_at := Some t\<rparr> \<in> set (operators ?d)" using x by (force simp: update_where_def)
      then have "holds_credential ?d h n (Some t)"
        unfolding holds_credential_def by (rule bexI [rotated]) (simp add: x)
      then show ?thesis using True by blast
    next
      case False
      then have "x \<in> set (operators ?d)" using x by (force simp: update_where_def)
      then show ?thesis using x unfolding holds_credential_def by blast
    qed
  qed
  then show ?thesis using ok unfolding credentials_def by blast
qed

interpretation credentials: admin_order credentials actor
proof
  show "credentials d d" for d by (rule credentials_same) simp
  show "credentials d d''" if "credentials d d'" "credentials d' d''" for d d' d''
    using that unfolding credentials_def by metis
  show "credentials d d'" if "insert_operator name h w d = Some d'" for name h w d d' using that by (rule credentials_insert)
  show "credentials d (d\<lparr>operators := update_where (\<lambda>x. op_name x = name \<and> op_revoked_at x = None)
      (\<lambda>x. x\<lparr>op_revoked_at := Some t\<rparr>) (operators d)\<rparr>)" for d name t by (rule credentials_revoke)
qed (simp_all add: credentials_same insert_user_def insert_team_def insert_key_def)

text \<open>
  A history of the database: commands and requests of administrators, each run by a process in any state
  and with any faults, and steps of other components, which leave the operators alone.
\<close>

inductive admin_history :: "admin_server \<Rightarrow> database \<Rightarrow> database \<Rightarrow> bool" for srv d where
  start: "admin_history srv d d"
| command: "admin_history srv d (db w) \<Longrightarrow> tx w = None
    \<Longrightarrow> admin_history srv d (db (snd (hupi_admin (srv_auth srv) actor cmd w)))"
| request: "admin_history srv d (db w) \<Longrightarrow> tx w = None \<Longrightarrow> admin_history srv d (db (snd (serve srv r w)))"
| elsewhere: "admin_history srv d d' \<Longrightarrow> operators d'' = operators d' \<Longrightarrow> admin_history srv d d''"

text \<open>A request that is refused changes nothing; otherwise it runs as the operator it was authenticated as.\<close>

definition admitted :: "admin_server \<Rightarrow> admin_request \<Rightarrow> database \<Rightarrow> string \<Rightarrow> bool" where
  "admitted srv r d name \<longleftrightarrow> (ar_get r \<or> ar_site r = [] \<or> ar_site r = ''same-origin'')
     \<and> (\<exists>user pass. ar_basic r = Some (user, pass) \<and> (user = [] \<or> user = name)
          \<and> holds_credential d (hashKey (srv_auth srv) pass) name None)"

lemma ResolveOperator_run:
  "fst (ResolveOperator a tok w) = Inr name \<Longrightarrow> holds_credential (db w) (hashKey a tok) name None"
  "db (snd (ResolveOperator a tok w)) = db w" "tx (snd (ResolveOperator a tok w)) = tx w"
  by (auto simp: ResolveOperator_def tryM_def query_row_def bindM_def query_def retM_def errM_def holds_credential_def
      filter_eq_Cons_iff split: if_splits list.splits prod.splits)

lemma serve_cases:
  obtains (refused) c where "c \<in> {401, 403}" "fst (serve srv r w) = Inr (Refused c)" "db (snd (serve srv r w)) = db w"
      "tx (snd (serve srv r w)) = tx w"
  | (served) name t where "admitted srv r (db w) name" "serve srv r w = routes srv name (ar_route r) t" "db t = db w" "tx t = tx w"
proof -
  consider (csrf) "\<not> ar_get r \<and> ar_site r \<noteq> [] \<and> ar_site r \<noteq> ''same-origin''"
    | (anonymous) "ar_get r \<or> ar_site r = [] \<or> ar_site r = ''same-origin''" "ar_basic r = None"
    | (basic) user pass where "ar_get r \<or> ar_site r = [] \<or> ar_site r = ''same-origin''" "ar_basic r = Some (user, pass)"
    by (cases "ar_basic r") auto
  then show thesis
  proof cases
    case csrf
    then show thesis by (intro refused [of 403]) (simp_all add: serve_def requireCSRFSafe_def retM_def)
  next
    case anonymous
    then show thesis by (intro refused [of 401]) (auto simp: serve_def requireCSRFSafe_def requireOperatorAuth_def retM_def)
  next
    case basic
    obtain res t where t: "ResolveOperator (srv_auth srv) pass w = (res, t)" by fastforce
    have kept: "db t = db w" "tx t = tx w" using ResolveOperator_run(2,3) [of "srv_auth srv" pass w] t by simp_all
    have run: "serve srv r w = (case res of Inl _ \<Rightarrow> retM (Refused 401)
        | Inr name \<Rightarrow> if user \<noteq> [] \<and> user \<noteq> name then retM (Refused 401) else routes srv name (ar_route r)) t"
      using basic t by (auto simp: serve_def requireCSRFSafe_def requireOperatorAuth_def tryM_def)
    show thesis
    proof (cases "\<exists>name. res = Inr name \<and> (user = [] \<or> user = name)")
      case True
      then obtain name where n: "res = Inr name" "user = [] \<or> user = name" by blast
      then have "admitted srv r (db w) name"
        using ResolveOperator_run(1) [of "srv_auth srv" pass w name] basic t unfolding admitted_def by auto
      then show thesis using n run kept by (intro served [of name t]) auto
    next
      case False
      then have "serve srv r w = (Inr (Refused 401), t)" using run by (cases res) (auto simp: retM_def)
      then show thesis using kept by (intro refused [of 401]) simp_all
    qed
  qed
qed

lemma history_credentials: "admin_history srv d d' \<Longrightarrow> credentials d d'"
proof (induction rule: admin_history.induct)
  case start
  show ?case by (rule credentials.refl)
next
  case (command w actor cmd)
  show ?case
    using keepsD(2) [OF credentials.hupi_admin, of w "srv_auth srv" actor cmd] command(2,3)
    by (intro credentials.trans [OF command(3)]) (cases "hupi_admin (srv_auth srv) actor cmd w", simp)
next
  case (request w r)
  have "credentials (db w) (db (snd (serve srv r w)))"
  proof (cases rule: serve_cases [of srv r w])
    case (refused c)
    then show ?thesis by (simp add: credentials.refl)
  next
    case (served name t)
    then show ?thesis
      using keepsD(2) [OF credentials.routes [of srv name "ar_route r"], of t] request(2)
      by (cases "routes srv name (ar_route r) t") simp
  qed
  then show ?case using request(3) credentials.trans by blast
next
  case (elsewhere d' d'')
  then show ?case using credentials_same credentials.trans by blast
qed

lemma credential_unique:
  assumes "operators_ok d" "holds_credential d h name r" "holds_credential d h name' r'"
  shows "name' = name \<and> r' = r"
proof -
  obtain x y where x: "x \<in> set (operators d)" "op_token_hash x = h" "op_name x = name" "op_revoked_at x = r"
    and y: "y \<in> set (operators d)" "op_token_hash y = h" "op_name y = name'" "op_revoked_at y = r'"
    using assms(2,3) unfolding holds_credential_def by blast
  have "x = y"
    using assms(1) x(1,2) y(1,2) unfolding operators_ok_def distinct_map by (auto dest: inj_onD)
  then show ?thesis using x y by simp
qed

lemma RevokeOperator_run:
  assumes "RevokeOperator name u = (Inr (), u')" "holds_credential (db u) h name r" "operators_ok (db u)"
  shows "\<exists>t. holds_credential (db u') h name (Some t) \<and> operators_ok (db u')"
proof -
  have db: "db u' = (db u)\<lparr>operators := update_where (\<lambda>x. op_name x = name \<and> op_revoked_at x = None)
     (\<lambda>x. x\<lparr>op_revoked_at := Some (clock u)\<rparr>) (operators (db u))\<rparr>"
    using assms(1) by (auto simp: RevokeOperator_def exec_def map_db_def split: fault.splits)
  obtain x where x: "x \<in> set (operators (db u))" "op_token_hash x = h" "op_name x = name" "op_revoked_at x = r"
    using assms(2) unfolding holds_credential_def by blast
  let ?y = "if op_revoked_at x = None then x\<lparr>op_revoked_at := Some (clock u)\<rparr> else x"
  have "?y \<in> set (operators (db u'))" using x(1,3) by (force simp: db update_where_def)
  moreover have "op_token_hash ?y = h \<and> op_name ?y = name \<and> op_revoked_at ?y \<noteq> None" using x by simp
  ultimately have "\<exists>t. holds_credential (db u') h name (Some t)" unfolding holds_credential_def by blast
  moreover have "operators_ok (db u')"
    using credentials_revoke [of "db u" name "clock u"] assms(3) unfolding db credentials_def by blast
  ultimately show ?thesis by blast
qed

text \<open>
  C15. A revoked credential is dead. Take a token that authenticated an operator, any history of commands,
  requests and steps of other components, under any faults, then a revocation of that operator that
  reported success, and any history again: nothing that happens makes the token authenticate anyone, and
  the name of a revoked operator cannot be given out again under it.
\<close>

theorem revoked_token_is_dead:
  assumes "operators_ok (db w)" and "fst (ResolveOperator (srv_auth srv) tok w) = Inr name"
    and "admin_history srv (db w) (db u)" and "RevokeOperator name u = (Inr (), u')"
    and "admin_history srv (db u') (db v)"
  shows "\<exists>e. fst (ResolveOperator (srv_auth srv) tok v) = Inl e"
proof (rule ccontr)
  assume "\<not> ?thesis"
  then obtain n where n: "fst (ResolveOperator (srv_auth srv) tok v) = Inr n"
    by (cases "fst (ResolveOperator (srv_auth srv) tok v)") auto
  let ?h = "hashKey (srv_auth srv) tok"
  obtain r where u: "operators_ok (db u)" "holds_credential (db u) ?h name r"
    using history_credentials [OF assms(3)] ResolveOperator_run(1) [OF assms(2)] assms(1) unfolding credentials_def by blast
  obtain t where u': "operators_ok (db u')" "holds_credential (db u') ?h name (Some t)"
    using RevokeOperator_run [OF assms(4) u(2,1)] by blast
  have v: "operators_ok (db v)" "holds_credential (db v) ?h name (Some t)"
    using history_credentials [OF assms(5)] u' unfolding credentials_def by fastforce+
  then show False using credential_unique [OF v(1) v(2) ResolveOperator_run(1) [OF n]] by simp
qed

section \<open>What a request may do\<close>

definition audited_as :: "string \<Rightarrow> database \<Rightarrow> database \<Rightarrow> bool" where
  "audited_as name d d' \<longleftrightarrow> (\<exists>as. audit_log d' = audit_log d @ as \<and> (\<forall>a \<in> set as. au_actor a = name))"

definition memory :: "database \<Rightarrow> _" where
  "memory d = (episodes d, summaries d, summary_key_facts d, entities d, entity_relationships d, key_rotations d, demo_sessions d)"

interpretation audited_as: admin_order "both (audited_as name) (unchanged memory)" name
proof
  show "both (audited_as name) (unchanged memory) d d" for d by (simp add: both_def audited_as_def unchanged_def)
  show "both (audited_as name) (unchanged memory) d d''"
    if "both (audited_as name) (unchanged memory) d d'" "both (audited_as name) (unchanged memory) d' d''" for d d' d''
    using that unfolding both_def audited_as_def unchanged_def by (metis Un_iff append.assoc set_append)
qed (auto simp: both_def audited_as_def unchanged_def memory_def insert_user_def insert_team_def insert_operator_def insert_key_def
    split: if_splits)

text \<open>
  C16. The administrators' interface serves operators only, and says who it was. Whatever the request and
  the faults, either the answer is 401 or 403 and the database is as it was, or the request carried the
  token of an operator whose name it claimed, not revoked, and came from the same origin when it changes
  anything; then every audit record it leaves has the name of that operator, and no memory of any scope,
  no rotation and no guest session has changed.
\<close>

theorem serve_operators_only:
  assumes "tx w = None"
  shows "(\<exists>c \<in> {401, 403}. fst (serve srv r w) = Inr (Refused c)) \<and> db (snd (serve srv r w)) = db w
     \<or> (\<exists>name. admitted srv r (db w) name \<and> audited_as name (db w) (db (snd (serve srv r w)))
          \<and> memory (db (snd (serve srv r w))) = memory (db w))"
proof (cases rule: serve_cases [of srv r w])
  case (refused c)
  then show ?thesis by blast
next
  case (served name t)
  have "both (audited_as name) (unchanged memory) (db w) (db (snd (serve srv r w)))"
    using keepsD(2) [OF audited_as.routes [of name srv "ar_route r"], of t] served assms
    by (cases "routes srv name (ar_route r) t") simp
  then show ?thesis using served(1) by (auto simp: both_def unchanged_def)
qed

section \<open>Passwords\<close>


lemma filter_updated_rows: "(\<And>x. P x \<Longrightarrow> P (f x)) \<Longrightarrow> filter P (update_where P f xs) = map f (filter P xs)"
  by (induction xs) (simp_all add: update_where_def)

text \<open>
  C17. A password that was set is verified, and it alone. When \<open>SetPassword\<close> reports success, then in every later
  state in which the row of the user still has the hash it wrote and the database answers, \<open>VerifyPassword\<close>
  accepts exactly the passwords that compare equal to the hash; and what it wrote is the hash of the password.
\<close>

theorem SetPassword_verifies:
  assumes "SetPassword a userID password w = (Inr (), w')"
    and "filter (\<lambda>u. us_id u = userID) (users (db t)) = filter (\<lambda>u. us_id u = userID) (users (db w'))"
    and "fault_now t = NoFault"
  shows "\<exists>salt h. bcrypt_generate a salt password = Some h
     \<and> (\<forall>p. fst (VerifyPassword a userID p t) = (if bcrypt_compare a h p then Inr () else Inl ErrInvalidPassword))"
proof -
  obtain salt h where h: "bcrypt_generate a salt password = Some h"
    and us: "users (db w') = update_where (\<lambda>u. us_id u = userID) (\<lambda>u. u\<lparr>us_password_hash := Some h\<rparr>) (users (db w))"
    and n: "filter (\<lambda>u. us_id u = userID) (users (db w)) \<noteq> []"
    using assms(1) by (auto simp: SetPassword_def bindM_def rand_read_def exec_ret_def map_db_def retM_def errM_def
        split: if_splits option.splits fault.splits)
  have "filter (\<lambda>u. us_id u = userID) (users (db w')) = map (\<lambda>u. u\<lparr>us_password_hash := Some h\<rparr>) (filter (\<lambda>u. us_id u = userID) (users (db w)))"
    unfolding us by (rule filter_updated_rows) simp
  then obtain u rest where "filter (\<lambda>u. us_id u = userID) (users (db t)) = u # rest" "us_password_hash u = Some h"
    using n assms(2) by (cases "filter (\<lambda>u. us_id u = userID) (users (db w))") auto
  then have "fst (VerifyPassword a userID p t) = (if bcrypt_compare a h p then Inr () else Inl ErrInvalidPassword)" for p
    using assms(3) by (simp add: VerifyPassword_def tryM_def query_row_def bindM_def query_def retM_def errM_def Let_def)
  then show ?thesis using h by blast
qed

section \<open>A sample deployment\<close>

definition sample_auth :: auth where
  "sample_auth = \<lparr>auth_aead = prefix_aead, auth_sha256 = (\<lambda>s. s), bcrypt_generate = (\<lambda>salt p. Some p),
     bcrypt_compare = (=)\<rparr>"

definition sample_admin :: admin_server where
  "sample_admin = \<lparr>srv_auth = sample_auth, filter_json = (\<lambda>_. ''{}'')\<rparr>"

definition admin_world :: world where
  "admin_world = init_world\<lparr>db := empty_db
     \<lparr>users := [\<lparr>us_id = ''user:ann'', us_email = None, us_created_at = 0, us_password_hash = None\<rparr>],
      operators := [\<lparr>op_name = ''alice'', op_token_hash = hashKey sample_auth ''t'', op_created_at = 0, op_revoked_at = None\<rparr>]\<rparr>\<rparr>"

lemma admin_world_simps [simp]:
  "tx admin_world = None" "fault_now admin_world = NoFault"
  "operators (db admin_world) = [\<lparr>op_name = ''alice'', op_token_hash = hashKey sample_auth ''t'', op_created_at = 0, op_revoked_at = None\<rparr>]"
  "srv_auth sample_admin = sample_auth"
  by (simp_all add: admin_world_def init_world_def fault_now_def sample_admin_def)

theorem revoked_token_is_dead_witness:
  "\<exists>e. fst (ResolveOperator sample_auth ''t'' (snd (RevokeOperator ''alice'' admin_world))) = Inl e"
proof -
  have run: "RevokeOperator ''alice'' admin_world = (Inr (), snd (RevokeOperator ''alice'' admin_world))"
    by (simp add: RevokeOperator_def exec_def)
  have token: "fst (ResolveOperator (srv_auth sample_admin) ''t'' admin_world) = Inr ''alice''"
    by (simp add: ResolveOperator_def tryM_def query_row_def bindM_def query_def retM_def)
  have "operators_ok (db admin_world)" by (simp add: operators_ok_def)
  from revoked_token_is_dead [OF this token admin_history.start run admin_history.start]
  show ?thesis by simp
qed

theorem serve_operators_only_witness:
  "let r = \<lparr>ar_get = False, ar_basic = Some (''alice'', ''t''), ar_site = ''same-origin'', ar_route = Revoke (Body ''bob'')\<rparr>;
       w' = snd (serve sample_admin r admin_world)
   in fst (serve sample_admin r admin_world) = Inr Okay \<and> audited_as ''alice'' (db admin_world) (db w') \<and> memory (db w') = memory (db admin_world)"
proof -
  let ?r = "\<lparr>ar_get = False, ar_basic = Some (''alice'', ''t''), ar_site = ''same-origin'', ar_route = Revoke (Body ''bob'')\<rparr>"
  have okay: "fst (serve sample_admin ?r admin_world) = Inr Okay" by code_simp
  have alice: "admitted sample_admin ?r (db admin_world) name \<Longrightarrow> name = ''alice''" for name
    by (auto simp: admitted_def holds_credential_def)
  show ?thesis using serve_operators_only [of admin_world sample_admin ?r] okay alice by (auto simp: Let_def)
qed

theorem SetPassword_verifies_witness:
  "fst (VerifyPassword sample_auth ''user:ann'' ''pw'' (snd (SetPassword sample_auth ''user:ann'' ''pw'' admin_world))) = Inr ()"
proof -
  let ?w = "snd (SetPassword sample_auth ''user:ann'' ''pw'' admin_world)"
  have run: "SetPassword sample_auth ''user:ann'' ''pw'' admin_world = (Inr (), ?w)" "fault_now ?w = NoFault"
    by (simp_all add: SetPassword_def bindM_def rand_read_def exec_ret_def retM_def errM_def sample_auth_def admin_world_def init_world_def
        fault_now_def map_db_def)
  obtain salt h where h: "bcrypt_generate sample_auth salt ''pw'' = Some h"
      "\<forall>p. fst (VerifyPassword sample_auth ''user:ann'' p ?w) = (if bcrypt_compare sample_auth h p then Inr () else Inl ErrInvalidPassword)"
    using SetPassword_verifies [OF run(1) refl run(2)] by blast
  then show ?thesis by (simp add: sample_auth_def)
qed

end
