(* ===== verification/Views.thy ===== *)
theory Views
  imports Retrieve
begin

text \<open>
  The views of the store for people: what one turn saw (\<open>internal/store/trace.go\<close>) and everything a scope knows
  (\<open>internal/store/export.go\<close>), decrypted. Both leave an audit record first; every row a reference names is
  read in a transaction of its own scope.
\<close>

declare One_nat_def [simp del]

section \<open>The trace of a turn\<close>

record TraceEpisode =
  te_Scope :: scope
  te_ID :: string
  te_TS :: time
  te_MemoryGate :: string
  te_InputText :: string
  te_OutputText :: string
  te_RetrievedRefs :: "ref list"

record TraceSummary =
  ts_Ref :: ref
  ts_Period :: string
  ts_Level :: string
  ts_GroundingChecked :: bool
  ts_Text :: string

record TraceEntity =
  tn_Ref :: ref
  tn_Kind :: string
  tn_Name :: string
  tn_Attributes :: string

record TraceEpisodeHit =
  th_Ref :: ref
  th_InputText :: string
  th_OutputText :: string

record turn_trace =
  tr_Episode :: TraceEpisode
  tr_Summaries :: "TraceSummary list"
  tr_Entities :: "TraceEntity list"
  tr_Episodes :: "TraceEpisodeHit list"

definition EventTrace :: string where "EventTrace = ''trace''"

text \<open>The column by its key version.\<close>

definition open_field :: "aead \<Rightarrow> scope \<Rightarrow> nat \<Rightarrow> bytes option \<Rightarrow> string proc" where
  "open_field A sc v ct = bindM (GetVersion A sc v) (\<lambda>enc. liftM (Decrypt A enc ct))"

definition open_fields :: "aead \<Rightarrow> scope \<Rightarrow> nat \<Rightarrow> bytes option \<Rightarrow> bytes option \<Rightarrow> (string \<times> string) proc" where
  "open_fields A sc v ct ct' = bindM (GetVersion A sc v) (\<lambda>enc.
     bindM (liftM (Decrypt A enc ct)) (\<lambda>t. bindM (liftM (Decrypt A enc ct')) (\<lambda>t'. retM (t, t'))))"

definition loadTraceSummary :: "store \<Rightarrow> ref \<Rightarrow> TraceSummary proc" where
  "loadTraceSummary st r =
     bindM (Run (ref_scope r) (ref_scope r) (query_row (\<lambda>w. filter (\<lambda>s. sum_id s = ref_id r \<and> sum_scope s = ref_scope r)
       (visible w sum_scope (summaries (db w)))))) (\<lambda>s.
     bindM (open_field (st_aead st) (ref_scope r) (sum_key_version s) (sum_summary s)) (\<lambda>t.
     retM \<lparr>ts_Ref = r, ts_Period = sum_period s, ts_Level = sum_level s, ts_GroundingChecked = sum_grounding_checked s, ts_Text = t\<rparr>))"

definition loadTraceEpisodeHit :: "store \<Rightarrow> ref \<Rightarrow> TraceEpisodeHit proc" where
  "loadTraceEpisodeHit st r =
     bindM (Run (ref_scope r) (ref_scope r) (query_row (\<lambda>w. filter (\<lambda>e. ep_id e = ref_id r \<and> ep_scope e = ref_scope r)
       (visible w ep_scope (episodes (db w)))))) (\<lambda>e.
     bindM (open_fields (st_aead st) (ref_scope r) (ep_key_version e) (ep_input_text e) (ep_output_text e)) (\<lambda>(i, out).
     retM \<lparr>th_Ref = r, th_InputText = i, th_OutputText = out\<rparr>))"

definition loadTraceEntity :: "store \<Rightarrow> ref \<Rightarrow> TraceEntity proc" where
  "loadTraceEntity st r =
     bindM (Run (ref_scope r) (ref_scope r) (query_row (\<lambda>w. filter (\<lambda>e. en_id e = ref_id r \<and> en_scope e = ref_scope r)
       (visible w en_scope (entities (db w)))))) (\<lambda>e.
     bindM (open_field (st_aead st) (ref_scope r) (en_key_version e) (en_attributes e)) (\<lambda>t.
     retM \<lparr>tn_Ref = r, tn_Kind = en_kind e, tn_Name = en_name e, tn_Attributes = t\<rparr>))"

definition trace_ref :: "store \<Rightarrow> ref \<Rightarrow> turn_trace \<Rightarrow> turn_trace proc" where
  "trace_ref st r tr =
     (if ref_kind r = RefKindSummary then bindM (loadTraceSummary st r) (\<lambda>x. retM (tr\<lparr>tr_Summaries := tr_Summaries tr @ [x]\<rparr>))
      else if ref_kind r = RefKindEntity then bindM (loadTraceEntity st r) (\<lambda>x. retM (tr\<lparr>tr_Entities := tr_Entities tr @ [x]\<rparr>))
      else if ref_kind r = RefKindEpisode then bindM (loadTraceEpisodeHit st r) (\<lambda>x. retM (tr\<lparr>tr_Episodes := tr_Episodes tr @ [x]\<rparr>))
      else errM (ErrUnknownRefKind (ref_kind r)))"

definition Trace :: "store \<Rightarrow> scope \<Rightarrow> string \<Rightarrow> string \<Rightarrow> turn_trace proc" where
  "Trace st sc episodeID actor =
     bindM (Run sc sc (
       bindM (query_row (\<lambda>w. filter (\<lambda>e. ep_id e = episodeID \<and> ep_scope e = sc) (visible w ep_scope (episodes (db w))))) (\<lambda>e.
       bindM (audit_Write \<lparr>EventType = EventTrace, Actor = actor, ActingScope = sc, WorkspaceScope = sc,
         TargetRef = Some \<lparr>ref_kind = RefKindEpisode, ref_scope = sc, ref_id = episodeID\<rparr>, Detail = []\<rparr>) (\<lambda>_. retM e)))) (\<lambda>e.
     bindM (open_fields (st_aead st) sc (ep_key_version e) (ep_input_text e) (ep_output_text e)) (\<lambda>(i, out).
     foldM (trace_ref st) (ep_retrieved_refs e)
       \<lparr>tr_Episode = \<lparr>te_Scope = sc, te_ID = episodeID, te_TS = ep_ts e,
          te_MemoryGate = (case ep_memory_gate e of None \<Rightarrow> [] | Some g \<Rightarrow> g), te_InputText = i, te_OutputText = out,
          te_RetrievedRefs = ep_retrieved_refs e\<rparr>, tr_Summaries = [], tr_Entities = [], tr_Episodes = []\<rparr>))"

section \<open>The memory of a scope\<close>

record ExportedEntity =
  xn_ID :: string
  xn_Kind :: string
  xn_Name :: string
  xn_Attributes :: string

record ExportedKeyFact =
  xf_Fact :: string
  xf_Grounded :: bool

record ExportedSummary =
  xs_ID :: string
  xs_Period :: string
  xs_Level :: string
  xs_GroundingChecked :: bool
  xs_Text :: string
  xs_KeyFacts :: "ExportedKeyFact list"

record ExportedRelationship =
  xr_ID :: string
  xr_SubjectID :: string
  xr_Predicate :: string
  xr_ObjectID :: string
  xr_ValidFrom :: string
  xr_ValidUntil :: string

record MemoryExport =
  mx_Scope :: scope
  mx_Entities :: "ExportedEntity list"
  mx_Summaries :: "ExportedSummary list"
  mx_Relationships :: "ExportedRelationship list"

definition export_entity :: "store \<Rightarrow> scope \<Rightarrow> entity \<Rightarrow> ExportedEntity proc" where
  "export_entity st sc e =
     bindM (open_field (st_aead st) sc (en_key_version e) (en_attributes e)) (\<lambda>t.
     retM \<lparr>xn_ID = en_id e, xn_Kind = en_kind e, xn_Name = en_name e, xn_Attributes = t\<rparr>)"

definition store_exportEntities :: "store \<Rightarrow> scope \<Rightarrow> ExportedEntity list proc" where
  "store_exportEntities st sc =
     bindM (Run sc sc (query (\<lambda>w. sort_key en_id (filter (\<lambda>e. en_scope e = sc) (visible w en_scope (entities (db w)))))))
       (mapM (export_entity st sc))"

text \<open>The facts are read with the encryptor of their summary.\<close>

definition store_exportKeyFacts :: "store \<Rightarrow> scope \<Rightarrow> string \<Rightarrow> encryptor \<Rightarrow> ExportedKeyFact list proc" where
  "store_exportKeyFacts st sc summaryID enc =
     bindM (Run sc sc (query (\<lambda>w. sort_key kf_id (filter (\<lambda>f. kf_summary_id f = summaryID) (visible w kf_scope (summary_key_facts (db w)))))))
       (mapM (\<lambda>f. bindM (liftM (Decrypt (st_aead st) enc (Some (kf_fact f)))) (\<lambda>t. retM \<lparr>xf_Fact = t, xf_Grounded = kf_grounded f\<rparr>)))"

definition export_summary :: "store \<Rightarrow> scope \<Rightarrow> summary \<Rightarrow> ExportedSummary proc" where
  "export_summary st sc s =
     bindM (GetVersion (st_aead st) sc (sum_key_version s)) (\<lambda>enc.
     bindM (liftM (Decrypt (st_aead st) enc (sum_summary s))) (\<lambda>t.
     bindM (store_exportKeyFacts st sc (sum_id s) enc) (\<lambda>facts.
     retM \<lparr>xs_ID = sum_id s, xs_Period = sum_period s, xs_Level = sum_level s, xs_GroundingChecked = sum_grounding_checked s,
       xs_Text = t, xs_KeyFacts = facts\<rparr>)))"

definition store_exportSummaries :: "store \<Rightarrow> scope \<Rightarrow> ExportedSummary list proc" where
  "store_exportSummaries st sc =
     bindM (Run sc sc (query (\<lambda>w. sort_key sum_period (current_summaries sc w)))) (mapM (export_summary st sc))"

definition export_relationship :: "relationship \<Rightarrow> ExportedRelationship" where
  "export_relationship e = \<lparr>xr_ID = rel_id e, xr_SubjectID = rel_subject_id e, xr_Predicate = rel_predicate e,
     xr_ObjectID = rel_object_id e, xr_ValidFrom = (case rel_valid_from e of None \<Rightarrow> [] | Some d \<Rightarrow> d),
     xr_ValidUntil = (case rel_valid_until e of None \<Rightarrow> [] | Some d \<Rightarrow> d)\<rparr>"

definition exportRelationships :: "scope \<Rightarrow> ExportedRelationship list proc" where
  "exportRelationships sc = Run sc sc (query (\<lambda>w. map export_relationship
     (sort_key rel_id (filter (\<lambda>e. rel_scope e = sc) (visible w rel_scope (entity_relationships (db w)))))))"

definition ExportMemory :: "store \<Rightarrow> scope \<Rightarrow> string \<Rightarrow> MemoryExport proc" where
  "ExportMemory st sc actor =
     bindM (Run sc sc (audit_Write \<lparr>EventType = EventTrace, Actor = actor, ActingScope = sc, WorkspaceScope = sc,
       TargetRef = Some \<lparr>ref_kind = RefKindEntity, ref_scope = sc, ref_id = ''*''\<rparr>, Detail = []\<rparr>)) (\<lambda>_.
     bindM (store_exportEntities st sc) (\<lambda>ens.
     bindM (store_exportSummaries st sc) (\<lambda>ss.
     bindM (exportRelationships sc) (\<lambda>rels.
     retM \<lparr>mx_Scope = sc, mx_Entities = ens, mx_Summaries = ss, mx_Relationships = rels\<rparr>))))"

end
