(* ===== verification/Views_Correct.thy ===== *)
theory Views_Correct
  imports Views Hpmf_Correct
begin

text \<open>
  The views of a scope are exact: what a trace or an export returns is what the rows of the database read as,
  all of them and in order, and reading leaves one audit record of the scope.
\<close>

declare One_nat_def [simp del]

section \<open>Procedures that only read\<close>

text \<open>The tables a view reads, and a world in which they are as they were and the keys are sound.\<close>

definition contents :: "database \<Rightarrow> _" where
  "contents d = (episodes d, summaries d, summary_key_facts d, entities d, entity_relationships d)"

definition reading :: "aead \<Rightarrow> bytes \<Rightarrow> scope_key list \<Rightarrow> database \<Rightarrow> world \<Rightarrow> database \<Rightarrow> bool" where
  "reading A K rows d0 w d \<longleftrightarrow> key_inv A K rows w d \<and> contents d = contents d0"

lemma reading_process: "process_pred (reading A K rows d0)"
  using key_inv_process [of A K rows, unfolded process_pred_def] by (simp add: process_pred_def reading_def fun_eq_iff)

lemma reading_start: "holds (key_inv A K rows) None w \<Longrightarrow> holds (reading A K rows (db w)) None w"
  by (simp add: holds_def reading_def session_def)

lemma readingD:
  assumes "holds (reading A K rows d0) sess w"
  shows "holds (key_inv A K rows) sess w" "episodes (db w) = episodes d0" "summaries (db w) = summaries d0"
    "summary_key_facts (db w) = summary_key_facts d0" "entities (db w) = entities d0" "entity_relationships (db w) = entity_relationships d0"
  using assms by (auto simp: holds_def reading_def contents_def)

text \<open>What a procedure returns when it succeeds in such a world; it leaves one behind.\<close>

definition sees :: "aead \<Rightarrow> bytes \<Rightarrow> scope_key list \<Rightarrow> database \<Rightarrow> ('a \<Rightarrow> bool) \<Rightarrow> 'a proc \<Rightarrow> bool" where
  "sees A K rows d0 Q m \<longleftrightarrow> (\<forall>w. holds (reading A K rows d0) None w \<longrightarrow>
     wp m (\<lambda>x t. holds (reading A K rows d0) None t \<and> Q x) (\<lambda>_ _. True) w)"

lemma sees_ret: "Q x \<Longrightarrow> sees A K rows d0 Q (retM x)"
  by (simp add: sees_def wp_simps)

lemma sees_err: "sees A K rows d0 Q (errM e)"
  by (simp add: sees_def wp_simps)

lemma sees_lift: "(\<And>x. r = Inr x \<Longrightarrow> Q x) \<Longrightarrow> sees A K rows d0 Q (liftM r)"
  by (auto simp: sees_def wp_simps split: sum.split)

lemma sees_bind: "sees A K rows d0 R m \<Longrightarrow> (\<And>x. R x \<Longrightarrow> sees A K rows d0 Q (k x)) \<Longrightarrow> sees A K rows d0 Q (bindM m k)"
  unfolding sees_def wp_bindM by (intro allI impI) (rule wp_mono, blast+)

lemma sees_mono: "sees A K rows d0 R m \<Longrightarrow> (\<And>x. R x \<Longrightarrow> Q x) \<Longrightarrow> sees A K rows d0 Q m"
  unfolding sees_def by (intro allI impI) (rule wp_mono, blast+)

lemma sees_if: "sees A K rows d0 Q m \<Longrightarrow> sees A K rows d0 Q m' \<Longrightarrow> sees A K rows d0 Q (if b then m else m')"
  by simp

lemma sees_mapM: "(\<And>x. x \<in> set xs \<Longrightarrow> sees A K rows d0 (Q x) (f x)) \<Longrightarrow> sees A K rows d0 (list_all2 Q xs) (mapM f xs)"
proof (induction xs)
  case (Cons x xs)
  have "sees A K rows d0 (list_all2 Q xs) (mapM f xs)" using Cons by simp
  then show ?case
    unfolding mapM.simps
    by (intro sees_bind [OF Cons.prems [of x, simplified]] sees_bind [of A K rows d0 "list_all2 Q xs"] sees_ret) auto
qed (simp add: sees_ret)

lemma sees_foldM:
  "(\<And>ps x acc. I ps acc \<Longrightarrow> sees A K rows d0 (I (ps @ [x])) (f x acc)) \<Longrightarrow> I qs acc \<Longrightarrow> sees A K rows d0 (I (qs @ xs)) (foldM f xs acc)"
proof (induction xs arbitrary: qs acc)
  case Nil
  then show ?case by (simp add: sees_ret)
next
  case (Cons x xs)
  have "sees A K rows d0 (I ((qs @ [x]) @ xs)) (foldM f xs acc')" if "I (qs @ [x]) acc'" for acc'
    using Cons.IH [OF Cons.prems(1)] that by blast
  then show ?case unfolding foldM.simps by (intro sees_bind [OF Cons.prems(1) [OF Cons.prems(2)]]) simp
qed

lemma sees_Run:
  assumes "\<And>t. holds (reading A K rows d0) (Some (a, ws)) t \<Longrightarrow> wp fn (\<lambda>x u. holds (reading A K rows d0) (Some (a, ws)) u \<and> Q x)
     (\<lambda>_. kept (reading A K rows d0) (Some (a, ws))) t"
  shows "sees A K rows d0 Q (Run a ws fn)"
  unfolding sees_def
proof (intro allI impI)
  fix w
  assume w: "holds (reading A K rows d0) None w"
  have "wp (Run a ws fn) (\<lambda>x t. holds (reading A K rows d0) None t \<and> Q x) (\<lambda>_ t. holds (reading A K rows d0) None t \<and> True) w"
  proof (rule wp_Run_result [OF reading_process w, where R = "\<lambda>x _. Q x"])
    fix n
    have "holds (reading A K rows d0) (Some (a, ws)) (w\<lparr>tx := Some (a, ws, db w), ticks := n\<rparr>)"
      using holds_begin [OF reading_process w] by simp
    from assms [OF this] show "wp fn (\<lambda>x t. holds (reading A K rows d0) (Some (a, ws)) t \<and> Q x \<and> (fault_now t \<noteq> NoFault \<longrightarrow> True))
        (\<lambda>_ t. kept (reading A K rows d0) (Some (a, ws)) t \<and> True) (w\<lparr>tx := Some (a, ws, db w), ticks := n\<rparr>)" by simp
  qed simp
  then show "wp (Run a ws fn) (\<lambda>x t. holds (reading A K rows d0) None t \<and> Q x) (\<lambda>_ _. True) w" by (rule wp_mono) simp_all
qed

lemma sees_GetVersion: "sees A K rows d0 (\<lambda>e. dek_in A K rows sc v = Some (dek_of e)) (GetVersion A sc v)"
  unfolding sees_def
proof (intro allI impI)
  fix w
  assume w: "holds (reading A K rows d0) None w"
  have old: "contents (db w) = contents d0" using w by (simp add: holds_def reading_def)
  show "wp (GetVersion A sc v) (\<lambda>x t. holds (reading A K rows d0) None t \<and> dek_in A K rows sc v = Some (dek_of x)) (\<lambda>_ _. True) w"
  proof (rule wp_mono [OF wp_GetVersion [OF readingD(1) [OF w]]])
    fix e t
    assume t: "holds (key_inv A K rows) None t \<and> same_but_cache w t \<and> dek_in A K rows sc v = Some (dek_of e)"
    then have "db t = db w" by (simp add: same_but_cache_def)
    then show "holds (reading A K rows d0) None t \<and> dek_in A K rows sc v = Some (dek_of e)"
      using t old by (simp add: holds_def reading_def)
  qed simp
qed

text \<open>Rows, and audit records.\<close>

lemma holds_tick_reading: "holds (reading A K rows d0) sess w \<Longrightarrow> holds (reading A K rows d0) sess (tick w)"
  by (simp add: holds_tick [OF reading_process])

lemma sees_rows:
  assumes "\<And>t. holds (reading A K rows d0) (Some (a, ws)) t \<Longrightarrow> Q (f t)"
  shows "sees A K rows d0 Q (Run a ws (query f))"
  by (rule sees_Run) (use assms in \<open>auto simp: wp_simps intro: holds_tick_reading holds_kept\<close>)

lemma sees_row:
  assumes "\<And>t x. holds (reading A K rows d0) (Some (a, ws)) t \<Longrightarrow> x \<in> set (f t) \<Longrightarrow> Q x"
  shows "sees A K rows d0 Q (Run a ws (query_row f))"
  by (rule sees_Run) (use assms in \<open>auto simp: wp_simps query_row_def intro: holds_tick_reading holds_kept split: list.split\<close>)

lemma wp_audit_reading:
  assumes t: "holds (reading A K rows d0) (Some (a, ws)) t"
  shows "wp (audit_Write e) (\<lambda>_ u. holds (reading A K rows d0) (Some (a, ws)) u) (\<lambda>_. kept (reading A K rows d0) (Some (a, ws))) t"
proof -
  have "reading A K rows d0 w (d\<lparr>audit_log := as\<rparr>) = reading A K rows d0 w d" for w d as
    by (simp add: reading_def contents_def key_inv_def)
  then show ?thesis
    unfolding audit_Write_def
    by (intro wp_exec_check_inv [OF reading_process t, THEN wp_mono]) (auto intro: holds_kept split: if_splits)
qed

section \<open>Fields\<close>

text \<open>What a column reads as, under the key the database has for its version.\<close>

definition plain :: "aead \<Rightarrow> bytes \<Rightarrow> scope_key list \<Rightarrow> scope \<Rightarrow> nat \<Rightarrow> bytes option \<Rightarrow> string \<Rightarrow> bool" where
  "plain A K rows sc v ct t \<longleftrightarrow> (\<exists>k. dek_in A K rows sc v = Some k \<and> Decrypt A (Encryptor k) ct = Inr t)"

lemma plain_dek: "dek_in A K rows sc v = Some (dek_of e) \<Longrightarrow> Decrypt A e ct = Inr t \<Longrightarrow> plain A K rows sc v ct t"
  unfolding plain_def by (intro exI [of _ "dek_of e"]) simp

lemma sees_open_field: "sees A K rows d0 (plain A K rows sc v ct) (open_field A sc v ct)"
  unfolding open_field_def by (rule sees_bind [OF sees_GetVersion], rule sees_lift, rule plain_dek)

lemma sees_open_fields:
  "sees A K rows d0 (\<lambda>(t, t'). plain A K rows sc v ct t \<and> plain A K rows sc v ct' t') (open_fields A sc v ct ct')"
  unfolding open_fields_def
proof (rule sees_bind [OF sees_GetVersion])
  fix enc
  assume e: "dek_in A K rows sc v = Some (dek_of enc)"
  have "sees A K rows d0 (plain A K rows sc v b) (liftM (Decrypt A enc b))" for b
    by (rule sees_lift) (rule plain_dek [OF e])
  then show "sees A K rows d0 (\<lambda>(t, t'). plain A K rows sc v ct t \<and> plain A K rows sc v ct' t')
     (bindM (liftM (Decrypt A enc ct)) (\<lambda>t. bindM (liftM (Decrypt A enc ct')) (\<lambda>t'. retM (t, t'))))"
    by (rule sees_bind, intro sees_bind [OF \<open>\<And>b. sees A K rows d0 (plain A K rows sc v b) (liftM (Decrypt A enc b))\<close> [of ct']] sees_ret) simp
qed

lemma visible_own: "session t = Some (sc, sc) \<Longrightarrow> set (filter (\<lambda>x. P x \<and> f x = sc) (visible t f xs)) = {x \<in> set xs. P x \<and> f x = sc}"
  by (auto simp: visible_def rls_visible_def session_def split: option.splits)

lemma visible_filter: "session t = Some (sc, sc) \<Longrightarrow> filter (\<lambda>x. f x = sc) (visible t f xs) = filter (\<lambda>x. f x = sc) xs"
  by (auto simp: visible_def rls_visible_def session_def intro!: filter_cong split: option.splits)

section \<open>The trace\<close>

definition traced_summary :: "aead \<Rightarrow> bytes \<Rightarrow> scope_key list \<Rightarrow> database \<Rightarrow> ref \<Rightarrow> TraceSummary \<Rightarrow> bool" where
  "traced_summary A K rows d r x \<longleftrightarrow> (\<exists>s \<in> set (summaries d). sum_id s = ref_id r \<and> sum_scope s = ref_scope r
     \<and> ts_Ref x = r \<and> ts_Period x = sum_period s \<and> ts_Level x = sum_level s \<and> ts_GroundingChecked x = sum_grounding_checked s
     \<and> plain A K rows (ref_scope r) (sum_key_version s) (sum_summary s) (ts_Text x))"

definition traced_entity :: "aead \<Rightarrow> bytes \<Rightarrow> scope_key list \<Rightarrow> database \<Rightarrow> ref \<Rightarrow> TraceEntity \<Rightarrow> bool" where
  "traced_entity A K rows d r x \<longleftrightarrow> (\<exists>e \<in> set (entities d). en_id e = ref_id r \<and> en_scope e = ref_scope r
     \<and> tn_Ref x = r \<and> tn_Kind x = en_kind e \<and> tn_Name x = en_name e
     \<and> plain A K rows (ref_scope r) (en_key_version e) (en_attributes e) (tn_Attributes x))"

definition traced_hit :: "aead \<Rightarrow> bytes \<Rightarrow> scope_key list \<Rightarrow> database \<Rightarrow> ref \<Rightarrow> TraceEpisodeHit \<Rightarrow> bool" where
  "traced_hit A K rows d r x \<longleftrightarrow> (\<exists>e \<in> set (episodes d). ep_id e = ref_id r \<and> ep_scope e = ref_scope r \<and> th_Ref x = r
     \<and> plain A K rows (ref_scope r) (ep_key_version e) (ep_input_text e) (th_InputText x)
     \<and> plain A K rows (ref_scope r) (ep_key_version e) (ep_output_text e) (th_OutputText x))"

lemma sees_loads:
  "sees (st_aead st) K rows d (traced_summary (st_aead st) K rows d r) (loadTraceSummary st r)"
  "sees (st_aead st) K rows d (traced_entity (st_aead st) K rows d r) (loadTraceEntity st r)"
  "sees (st_aead st) K rows d (traced_hit (st_aead st) K rows d r) (loadTraceEpisodeHit st r)"
proof -
  have s: "sees (st_aead st) K rows d (\<lambda>s. s \<in> set (summaries d) \<and> sum_id s = ref_id r \<and> sum_scope s = ref_scope r)
     (Run (ref_scope r) (ref_scope r) (query_row (\<lambda>w. filter (\<lambda>s. sum_id s = ref_id r \<and> sum_scope s = ref_scope r)
       (visible w sum_scope (summaries (db w))))))"
    by (rule sees_row) (frule readingD(3), auto simp: visible_def)
  show "sees (st_aead st) K rows d (traced_summary (st_aead st) K rows d r) (loadTraceSummary st r)"
    unfolding loadTraceSummary_def
    by (rule sees_bind [OF s], rule sees_bind [OF sees_open_field], rule sees_ret) (auto simp: traced_summary_def)
  have n: "sees (st_aead st) K rows d (\<lambda>e. e \<in> set (entities d) \<and> en_id e = ref_id r \<and> en_scope e = ref_scope r)
     (Run (ref_scope r) (ref_scope r) (query_row (\<lambda>w. filter (\<lambda>e. en_id e = ref_id r \<and> en_scope e = ref_scope r)
       (visible w en_scope (entities (db w))))))"
    by (rule sees_row) (frule readingD(5), auto simp: visible_def)
  show "sees (st_aead st) K rows d (traced_entity (st_aead st) K rows d r) (loadTraceEntity st r)"
    unfolding loadTraceEntity_def
    by (rule sees_bind [OF n], rule sees_bind [OF sees_open_field], rule sees_ret) (auto simp: traced_entity_def)
  have e: "sees (st_aead st) K rows d (\<lambda>e. e \<in> set (episodes d) \<and> ep_id e = ref_id r \<and> ep_scope e = ref_scope r)
     (Run (ref_scope r) (ref_scope r) (query_row (\<lambda>w. filter (\<lambda>e. ep_id e = ref_id r \<and> ep_scope e = ref_scope r)
       (visible w ep_scope (episodes (db w))))))"
    by (rule sees_row) (frule readingD(2), auto simp: visible_def)
  show "sees (st_aead st) K rows d (traced_hit (st_aead st) K rows d r) (loadTraceEpisodeHit st r)"
    unfolding loadTraceEpisodeHit_def
    by (rule sees_bind [OF e], rule sees_bind [OF sees_open_fields], clarsimp, rule sees_ret) (auto simp: traced_hit_def)
qed

text \<open>The sections of a trace, after some of the references.\<close>

definition of_kind :: "string \<Rightarrow> ref list \<Rightarrow> ref list" where
  "of_kind k rs = filter (\<lambda>r. ref_kind r = k) rs"

definition traced :: "aead \<Rightarrow> bytes \<Rightarrow> scope_key list \<Rightarrow> database \<Rightarrow> TraceEpisode \<Rightarrow> ref list \<Rightarrow> turn_trace \<Rightarrow> bool" where
  "traced A K rows d te rs tr \<longleftrightarrow> tr_Episode tr = te
     \<and> list_all2 (traced_summary A K rows d) (of_kind RefKindSummary rs) (tr_Summaries tr)
     \<and> list_all2 (traced_entity A K rows d) (of_kind RefKindEntity rs) (tr_Entities tr)
     \<and> list_all2 (traced_hit A K rows d) (of_kind RefKindEpisode rs) (tr_Episodes tr)
     \<and> (\<forall>r \<in> set rs. ref_kind r \<in> {RefKindSummary, RefKindEntity, RefKindEpisode})"

lemma ref_kinds: "RefKindSummary \<noteq> RefKindEntity" "RefKindSummary \<noteq> RefKindEpisode" "RefKindEntity \<noteq> RefKindEpisode"
  by (simp_all add: RefKindSummary_def RefKindEntity_def RefKindEpisode_def)

lemma traced_snoc:
  assumes "traced A K rows d te rs tr"
  shows "ref_kind r = RefKindSummary \<Longrightarrow> traced_summary A K rows d r x \<Longrightarrow> traced A K rows d te (rs @ [r]) (tr\<lparr>tr_Summaries := tr_Summaries tr @ [x]\<rparr>)"
    and "ref_kind r = RefKindEntity \<Longrightarrow> traced_entity A K rows d r y \<Longrightarrow> traced A K rows d te (rs @ [r]) (tr\<lparr>tr_Entities := tr_Entities tr @ [y]\<rparr>)"
    and "ref_kind r = RefKindEpisode \<Longrightarrow> traced_hit A K rows d r z \<Longrightarrow> traced A K rows d te (rs @ [r]) (tr\<lparr>tr_Episodes := tr_Episodes tr @ [z]\<rparr>)"
  using assms ref_kinds by (simp_all add: traced_def of_kind_def list_all2_appendI)

lemma sees_trace_ref:
  assumes "traced (st_aead st) K rows d te rs tr"
  shows "sees (st_aead st) K rows d (traced (st_aead st) K rows d te (rs @ [r])) (trace_ref st r tr)"
proof -
  consider "ref_kind r = RefKindSummary" | "ref_kind r = RefKindEntity" | "ref_kind r = RefKindEpisode"
    | "ref_kind r \<notin> {RefKindSummary, RefKindEntity, RefKindEpisode}" by blast
  then show ?thesis
  proof cases
    case 1
    then show ?thesis
      unfolding trace_ref_def if_P [OF 1] by (intro sees_bind [OF sees_loads(1)] sees_ret traced_snoc [OF assms])
  next
    case 2
    then have "trace_ref st r tr = bindM (loadTraceEntity st r) (\<lambda>x. retM (tr\<lparr>tr_Entities := tr_Entities tr @ [x]\<rparr>))"
      using ref_kinds by (simp add: trace_ref_def)
    then show ?thesis using 2 by (simp only:) (intro sees_bind [OF sees_loads(2)] sees_ret traced_snoc [OF assms])
  next
    case 3
    then have "trace_ref st r tr = bindM (loadTraceEpisodeHit st r) (\<lambda>x. retM (tr\<lparr>tr_Episodes := tr_Episodes tr @ [x]\<rparr>))"
      using ref_kinds by (simp add: trace_ref_def)
    then show ?thesis using 3 by (simp only:) (intro sees_bind [OF sees_loads(3)] sees_ret traced_snoc [OF assms])
  qed (simp add: trace_ref_def sees_err)
qed

text \<open>Both views start with a row and an audit record, or an audit record alone.\<close>

lemma sees_audited_row:
  assumes "\<And>t x. holds (reading A K rows d) (Some (a, ws)) t \<Longrightarrow> x \<in> set (f t) \<Longrightarrow> Q x"
  shows "sees A K rows d Q (Run a ws (bindM (query_row f) (\<lambda>x. bindM (audit_Write e) (\<lambda>_. retM x))))"
proof (rule sees_Run)
  fix t
  assume t: "holds (reading A K rows d) (Some (a, ws)) t"
  have "wp (audit_Write e) (\<lambda>_ u. holds (reading A K rows d) (Some (a, ws)) u \<and> Q x) (\<lambda>_. kept (reading A K rows d) (Some (a, ws))) (tick t)"
    if "x \<in> set (f t)" for x
    by (rule wp_mono [OF wp_audit_reading [OF holds_tick_reading [OF t]]]) (use assms [OF t that] in simp_all)
  then show "wp (bindM (query_row f) (\<lambda>x. bindM (audit_Write e) (\<lambda>_. retM x)))
     (\<lambda>x u. holds (reading A K rows d) (Some (a, ws)) u \<and> Q x) (\<lambda>_. kept (reading A K rows d) (Some (a, ws))) t"
    using holds_kept [OF holds_tick_reading [OF t]] by (auto simp: wp_simps query_row_def split: list.split)
qed

lemma sees_audit: "sees A K rows d (\<lambda>_. True) (Run a ws (audit_Write e))"
  by (rule sees_Run) (simp add: wp_audit_reading)

lemma sees_result:
  assumes "sees A K rows (db w) Q m" "holds (key_inv A K rows) None w" "m w = (Inr x, w')"
  shows "Q x"
proof -
  have "wp m (\<lambda>x t. holds (reading A K rows (db w)) None t \<and> Q x) (\<lambda>_ _. True) w"
    using assms(1) reading_start [OF assms(2)] unfolding sees_def by blast
  then show ?thesis using assms(3) by (simp add: wp_def)
qed

text \<open>A view leaves one record of itself in the audit log and changes nothing else.\<close>

definition leaves_trace :: "scope \<Rightarrow> string \<Rightarrow> ref \<Rightarrow> database \<Rightarrow> database \<Rightarrow> bool" where
  "leaves_trace sc actor r d d' \<longleftrightarrow> (\<exists>t. d' = d\<lparr>audit_log := audit_log d @ [\<lparr>au_ts = t, au_event_type = EventTrace, au_actor = actor,
     au_acting_scope = sc, au_workspace_scope = sc, au_target_ref = Some r, au_detail = []\<rparr>]\<rparr>)"

lemma leaves_first:
  assumes w: "session w = None" and run: "bindM m k w = (Inr y, w')"
    and m: "wp m (\<lambda>_ t. leaves_trace sc actor r (db w) (db t) \<and> session t = None) (\<lambda>_ _. True) w"
    and k: "\<And>x. keeps (unchanged (\<lambda>d. d)) None (k x)"
  shows "leaves_trace sc actor r (db w) (db w')"
proof -
  obtain x t where t: "m w = (Inr x, t)" "k x t = (Inr y, w')" using bind_success [OF run] by blast
  then have "leaves_trace sc actor r (db w) (db t)" "session t = None" using m by (simp_all add: wp_def)
  then show ?thesis using keepsD(2) [OF k _ t(2)] by (simp add: unchanged_def)
qed

lemma trace_reads:
  "keeps (unchanged (\<lambda>d. d)) None (bindM (open_fields A sc v ct ct') (\<lambda>(inp, out). foldM (trace_ref st) rs (f inp out)))"
  unfolding trace_ref_def loadTraceSummary_def loadTraceEntity_def loadTraceEpisodeHit_def open_field_def open_fields_def
  by (intro unchanged.reads unchanged.transaction)

lemma export_reads:
  "keeps (unchanged (\<lambda>d. d)) None (bindM (store_exportEntities st sc) (\<lambda>ens. bindM (store_exportSummaries st sc) (\<lambda>ss.
     bindM (exportRelationships sc) (\<lambda>rels. retM (f ens ss rels)))))"
  unfolding store_exportEntities_def store_exportSummaries_def store_exportKeyFacts_def exportRelationships_def
    export_entity_def export_summary_def open_field_def
  by (intro unchanged.reads unchanged.transaction)

lemma audit_leaves:
  assumes "session w = None" "e = \<lparr>EventType = EventTrace, Actor = actor, ActingScope = sc, WorkspaceScope = sc, TargetRef = Some r, Detail = []\<rparr>"
  shows "wp (Run sc sc (audit_Write e)) (\<lambda>_ t. leaves_trace sc actor r (db w) (db t) \<and> session t = None) (\<lambda>_ _. True) w"
    and "wp (Run sc sc (bindM (query_row f) (\<lambda>x. bindM (audit_Write e) (\<lambda>_. retM x))))
      (\<lambda>_ t. leaves_trace sc actor r (db w) (db t) \<and> session t = None) (\<lambda>_ _. True) w"
  using assms
  by (auto intro!: wp_Run simp: wp_simps session_def audit_Write_def query_row_def leaves_trace_def audit_policy_def split: list.split fault.split)

definition told :: "aead \<Rightarrow> bytes \<Rightarrow> database \<Rightarrow> scope \<Rightarrow> string \<Rightarrow> turn_trace \<Rightarrow> bool" where
  "told A K d sc i tr \<longleftrightarrow> (\<exists>e \<in> set (episodes d). ep_id e = i \<and> ep_scope e = sc
     \<and> te_Scope (tr_Episode tr) = sc \<and> te_ID (tr_Episode tr) = i \<and> te_TS (tr_Episode tr) = ep_ts e
     \<and> te_RetrievedRefs (tr_Episode tr) = ep_retrieved_refs e
     \<and> plain A K (scope_keys d) sc (ep_key_version e) (ep_input_text e) (te_InputText (tr_Episode tr))
     \<and> plain A K (scope_keys d) sc (ep_key_version e) (ep_output_text e) (te_OutputText (tr_Episode tr))
     \<and> traced A K (scope_keys d) d (tr_Episode tr) (ep_retrieved_refs e) tr)"

lemma sees_Trace: "sees (st_aead st) K (scope_keys d) d (told (st_aead st) K d sc i) (Trace st sc i actor)"
  unfolding Trace_def
proof (rule sees_bind [OF sees_audited_row [where Q = "\<lambda>e. e \<in> set (episodes d) \<and> ep_id e = i \<and> ep_scope e = sc"]])
  show "x \<in> set (episodes d) \<and> ep_id x = i \<and> ep_scope x = sc"
    if "holds (reading (st_aead st) K (scope_keys d) d) (Some (sc, sc)) t"
      "x \<in> set (filter (\<lambda>e. ep_id e = i \<and> ep_scope e = sc) (visible t ep_scope (episodes (db t))))" for t x
    using readingD(2) [OF that(1)] that(2) by (auto simp: visible_def)
  fix e
  assume e: "e \<in> set (episodes d) \<and> ep_id e = i \<and> ep_scope e = sc"
  show "sees (st_aead st) K (scope_keys d) d (told (st_aead st) K d sc i)
     (bindM (open_fields (st_aead st) sc (ep_key_version e) (ep_input_text e) (ep_output_text e)) (\<lambda>(inp, out).
     foldM (trace_ref st) (ep_retrieved_refs e)
       \<lparr>tr_Episode = \<lparr>te_Scope = sc, te_ID = i, te_TS = ep_ts e,
          te_MemoryGate = (case ep_memory_gate e of None \<Rightarrow> [] | Some g \<Rightarrow> g), te_InputText = inp, te_OutputText = out,
          te_RetrievedRefs = ep_retrieved_refs e\<rparr>, tr_Summaries = [], tr_Entities = [], tr_Episodes = []\<rparr>))"
  proof (rule sees_bind [OF sees_open_fields], clarsimp)
    fix inp out
    assume p: "plain (st_aead st) K (scope_keys d) sc (ep_key_version e) (ep_input_text e) inp"
      "plain (st_aead st) K (scope_keys d) sc (ep_key_version e) (ep_output_text e) out"
    let ?te = "\<lparr>te_Scope = sc, te_ID = i, te_TS = ep_ts e,
        te_MemoryGate = (case ep_memory_gate e of None \<Rightarrow> [] | Some g \<Rightarrow> g), te_InputText = inp, te_OutputText = out,
        te_RetrievedRefs = ep_retrieved_refs e\<rparr>"
    have "sees (st_aead st) K (scope_keys d) d (traced (st_aead st) K (scope_keys d) d ?te ([] @ ep_retrieved_refs e))
       (foldM (trace_ref st) (ep_retrieved_refs e) \<lparr>tr_Episode = ?te, tr_Summaries = [], tr_Entities = [], tr_Episodes = []\<rparr>)"
      by (rule sees_foldM [where I = "traced (st_aead st) K (scope_keys d) d ?te"], rule sees_trace_ref, assumption)
        (simp add: traced_def of_kind_def)
    then show "sees (st_aead st) K (scope_keys d) d (told (st_aead st) K d sc i)
       (foldM (trace_ref st) (ep_retrieved_refs e) \<lparr>tr_Episode = ?te, tr_Summaries = [], tr_Entities = [], tr_Episodes = []\<rparr>)"
      by (rule sees_mono) (use e p in \<open>auto simp: told_def traced_def\<close>)
  qed
qed

text \<open>
  C35. A trace tells what a turn saw. When \<open>Trace\<close> succeeds, the episode is one of the scope it was asked
  for, its texts are what its row decrypts to, and the sections list, in the order of the recorded
  references and without a gap, the summaries, entities and episodes they name, each with the text its own
  row decrypts to under the key of its own scope and version. The audit log has one record more, that this actor
  traced this episode, and nothing else of the database has changed.
\<close>

theorem Trace_tells_the_turn:
  assumes "holds (key_inv (st_aead st) (kek w) (scope_keys (db w))) None w"
    and "Trace st sc i actor w = (Inr tr, w')"
  shows "told (st_aead st) (kek w) (db w) sc i tr
    \<and> leaves_trace sc actor \<lparr>ref_kind = RefKindEpisode, ref_scope = sc, ref_id = i\<rparr> (db w) (db w')"
proof
  show "told (st_aead st) (kek w) (db w) sc i tr" by (rule sees_result [OF sees_Trace assms])
  have "session w = None" using assms(1) by (simp add: holds_def)
  from leaves_first [OF this assms(2) [unfolded Trace_def] audit_leaves(2) [OF this refl]]
  show "leaves_trace sc actor \<lparr>ref_kind = RefKindEpisode, ref_scope = sc, ref_id = i\<rparr> (db w) (db w')"
    by (elim meta_mp) (rule trace_reads)
qed

section \<open>The export of a scope\<close>

definition exported_entity :: "aead \<Rightarrow> bytes \<Rightarrow> scope_key list \<Rightarrow> scope \<Rightarrow> entity \<Rightarrow> ExportedEntity \<Rightarrow> bool" where
  "exported_entity A K rows sc e x \<longleftrightarrow> xn_ID x = en_id e \<and> xn_Kind x = en_kind e \<and> xn_Name x = en_name e
     \<and> plain A K rows sc (en_key_version e) (en_attributes e) (xn_Attributes x)"

definition exported_summary :: "aead \<Rightarrow> bytes \<Rightarrow> scope_key list \<Rightarrow> database \<Rightarrow> scope \<Rightarrow> summary \<Rightarrow> ExportedSummary \<Rightarrow> bool" where
  "exported_summary A K rows d sc s x \<longleftrightarrow> xs_ID x = sum_id s \<and> xs_Period x = sum_period s \<and> xs_Level x = sum_level s
     \<and> xs_GroundingChecked x = sum_grounding_checked s \<and> plain A K rows sc (sum_key_version s) (sum_summary s) (xs_Text x)
     \<and> list_all2 (\<lambda>f y. xf_Grounded y = kf_grounded f \<and> plain A K rows sc (sum_key_version s) (Some (kf_fact f)) (xf_Fact y))
         (sort_key kf_id (filter (\<lambda>f. kf_summary_id f = sum_id s \<and> kf_scope f = sc) (summary_key_facts d))) (xs_KeyFacts x)"

text \<open>The current summaries of a scope, seen from it.\<close>

definition current_of :: "scope \<Rightarrow> database \<Rightarrow> summary list" where
  "current_of sc d = filter (\<lambda>s. sum_scope s = sc \<and> \<not> (\<exists>n \<in> set (summaries d). sum_scope n = sc \<and> sum_supersedes n = Some (sum_id s))) (summaries d)"

definition whole_memory :: "aead \<Rightarrow> bytes \<Rightarrow> database \<Rightarrow> scope \<Rightarrow> MemoryExport \<Rightarrow> bool" where
  "whole_memory A K d sc x \<longleftrightarrow> mx_Scope x = sc
     \<and> list_all2 (exported_entity A K (scope_keys d) sc) (sort_key en_id (filter (\<lambda>e. en_scope e = sc) (entities d))) (mx_Entities x)
     \<and> list_all2 (exported_summary A K (scope_keys d) d sc) (sort_key sum_period (current_of sc d)) (mx_Summaries x)
     \<and> mx_Relationships x = map export_relationship (sort_key rel_id (filter (\<lambda>e. rel_scope e = sc) (entity_relationships d)))"

lemma visible_reading:
  assumes "holds (reading A K rows d) (Some (sc, sc)) t"
  shows "visible t f xs = filter (\<lambda>x. f x = sc) xs"
  using assms by (auto simp: holds_def visible_def rls_visible_def session_def intro!: filter_cong split: option.splits)

lemma sees_entities:
  "sees (st_aead st) K rows d (list_all2 (exported_entity (st_aead st) K rows sc) (sort_key en_id (filter (\<lambda>e. en_scope e = sc) (entities d))))
     (store_exportEntities st sc)"
  unfolding store_exportEntities_def
proof (rule sees_bind [OF sees_rows [where Q = "\<lambda>es. es = sort_key en_id (filter (\<lambda>e. en_scope e = sc) (entities d))"]])
  show "sort_key en_id (filter (\<lambda>e. en_scope e = sc) (visible t en_scope (entities (db t)))) = sort_key en_id (filter (\<lambda>e. en_scope e = sc) (entities d))"
    if "holds (reading (st_aead st) K rows d) (Some (sc, sc)) t" for t
    using readingD(5) [OF that] by (simp add: visible_reading [OF that])
qed (clarsimp, rule sees_mapM, simp add: export_entity_def, rule sees_bind [OF sees_open_field], rule sees_ret, simp add: exported_entity_def)

lemma sees_facts:
  assumes "dek_in (st_aead st) K rows sc v = Some (dek_of enc)"
  shows "sees (st_aead st) K rows d
     (list_all2 (\<lambda>f y. xf_Grounded y = kf_grounded f \<and> plain (st_aead st) K rows sc v (Some (kf_fact f)) (xf_Fact y))
        (sort_key kf_id (filter (\<lambda>f. kf_summary_id f = i \<and> kf_scope f = sc) (summary_key_facts d))))
     (store_exportKeyFacts st sc i enc)"
  unfolding store_exportKeyFacts_def
proof (rule sees_bind [OF sees_rows [where Q = "\<lambda>fs. fs = sort_key kf_id (filter (\<lambda>f. kf_summary_id f = i \<and> kf_scope f = sc) (summary_key_facts d))"]])
  show "sort_key kf_id (filter (\<lambda>f. kf_summary_id f = i) (visible t kf_scope (summary_key_facts (db t))))
      = sort_key kf_id (filter (\<lambda>f. kf_summary_id f = i \<and> kf_scope f = sc) (summary_key_facts d))"
    if "holds (reading (st_aead st) K rows d) (Some (sc, sc)) t" for t
    using readingD(4) [OF that] by (simp add: visible_reading [OF that] conj_commute)
qed (clarsimp, rule sees_mapM, rule sees_bind [where R = "\<lambda>t. plain (st_aead st) K rows sc v _ t"], rule sees_lift,
    rule plain_dek [OF assms], assumption, rule sees_ret, simp)

lemma sees_summaries:
  "sees (st_aead st) K rows d (list_all2 (exported_summary (st_aead st) K rows d sc) (sort_key sum_period (current_of sc d)))
     (store_exportSummaries st sc)"
  unfolding store_exportSummaries_def
proof (rule sees_bind [OF sees_rows [where Q = "\<lambda>ss. ss = sort_key sum_period (current_of sc d)"]])
  show "sort_key sum_period (current_summaries sc t) = sort_key sum_period (current_of sc d)"
    if "holds (reading (st_aead st) K rows d) (Some (sc, sc)) t" for t
    using readingD(3) [OF that]
    by (simp add: current_summaries_def current_of_def current_def visible_reading [OF that] list_ex_iff)
      (intro arg_cong [where f = "sort_key sum_period"] filter_cong; auto)
  fix ss
  assume "ss = sort_key sum_period (current_of sc d)"
  have "sees (st_aead st) K rows d (exported_summary (st_aead st) K rows d sc s) (export_summary st sc s)" for s
    unfolding export_summary_def
    by (rule sees_bind [OF sees_GetVersion], rule sees_bind [where R = "plain (st_aead st) K rows sc (sum_key_version s) (sum_summary s)"],
      rule sees_lift, rule plain_dek, assumption, assumption, rule sees_bind [OF sees_facts], assumption, rule sees_ret)
      (simp add: exported_summary_def)
  then show "sees (st_aead st) K rows d (list_all2 (exported_summary (st_aead st) K rows d sc) (sort_key sum_period (current_of sc d)))
     (mapM (export_summary st sc) ss)"
    using \<open>ss = _\<close> by (simp add: sees_mapM)
qed

lemma sees_relationships:
  "sees A K rows d (\<lambda>x. x = map export_relationship (sort_key rel_id (filter (\<lambda>e. rel_scope e = sc) (entity_relationships d)))) (exportRelationships sc)"
  unfolding exportRelationships_def
proof (rule sees_rows)
  show "map export_relationship (sort_key rel_id (filter (\<lambda>e. rel_scope e = sc) (visible t rel_scope (entity_relationships (db t)))))
      = map export_relationship (sort_key rel_id (filter (\<lambda>e. rel_scope e = sc) (entity_relationships d)))"
    if "holds (reading A K rows d) (Some (sc, sc)) t" for t
    using readingD(6) [OF that] by (simp add: visible_reading [OF that])
qed

text \<open>
  C36. An export is everything the scope knows and nothing else. When \<open>ExportMemory\<close> succeeds, it holds every
  entity, every current summary with every one of its facts, and every relationship of the scope, once and
  in order, with the texts their rows decrypt to under the keys of the scope; nothing of another scope is in it. The
  audit log has one record more, that this actor read the whole scope, and nothing else of the database has changed.
\<close>

theorem ExportMemory_whole:
  assumes "holds (key_inv (st_aead st) (kek w) (scope_keys (db w))) None w"
    and "ExportMemory st sc actor w = (Inr x, w')"
  shows "whole_memory (st_aead st) (kek w) (db w) sc x
    \<and> leaves_trace sc actor \<lparr>ref_kind = RefKindEntity, ref_scope = sc, ref_id = ''*''\<rparr> (db w) (db w')"
proof
  have "sees (st_aead st) (kek w) (scope_keys (db w)) (db w) (whole_memory (st_aead st) (kek w) (db w) sc) (ExportMemory st sc actor)"
    unfolding ExportMemory_def
    by (intro sees_bind [OF sees_audit] sees_bind [OF sees_entities] sees_bind [OF sees_summaries] sees_bind [OF sees_relationships] sees_ret)
      (simp add: whole_memory_def)
  from sees_result [OF this assms] show "whole_memory (st_aead st) (kek w) (db w) sc x" .
  have "session w = None" using assms(1) by (simp add: holds_def)
  from leaves_first [OF this assms(2) [unfolded ExportMemory_def] audit_leaves(1) [OF this refl]]
  show "leaves_trace sc actor \<lparr>ref_kind = RefKindEntity, ref_scope = sc, ref_id = ''*''\<rparr> (db w) (db w')"
    by (elim meta_mp) (rule export_reads)
qed

section \<open>A sample memory\<close>

text \<open>
  A turn of the default scope that recalled an entity and a summary of it; the summary corrects an older one and has
  one fact.
\<close>

definition entity_row :: entity where
  "entity_row = \<lparr>en_id = ''person:ana'', en_scope = DefaultScope, en_kind = ''person'', en_name = ''Ana'', en_first_seen = ''2024-01-01'',
     en_last_updated = ''2024-01-02'', en_attributes = sealed ''{}'', en_key_version = 1, en_embedding = None, en_embedding_model = None\<rparr>"

definition summary_row :: "string \<Rightarrow> string option \<Rightarrow> string \<Rightarrow> summary" where
  "summary_row i old t = \<lparr>sum_id = i, sum_scope = DefaultScope, sum_period = ''2024-01-01'', sum_level = ''day'', sum_status = ''final'',
     sum_vendor = None, sum_model = None, sum_source_episode_ids = [], sum_source_summary_periods = [], sum_summary = sealed t,
     sum_entities_touched = [], sum_grounding_checked = True, sum_supersedes = old, sum_correction_reason = None, sum_created_at = 0, sum_key_version = 1, sum_embedding = None, sum_embedding_model = None\<rparr>"

definition recalled :: "ref list" where
  "recalled = [\<lparr>ref_kind = RefKindEntity, ref_scope = DefaultScope, ref_id = ''person:ana''\<rparr>,
     \<lparr>ref_kind = RefKindSummary, ref_scope = DefaultScope, ref_id = ''sum_2''\<rparr>]"

definition view_world :: world where
  "view_world = source_world\<lparr>db := source_db\<lparr>episodes := [source_row\<lparr>ep_retrieved_refs := recalled\<rparr>],
     entities := [entity_row],
     summaries := [summary_row ''sum_1'' None ''old'', summary_row ''sum_2'' (Some ''sum_1'') ''new''],
     summary_key_facts := [\<lparr>kf_id = 1, kf_scope = DefaultScope, kf_summary_id = ''sum_2'', kf_fact = the (sealed ''fact''),
       kf_source_episode_ids = [], kf_grounded = True, kf_key_version = 1, kf_embedding = None, kf_embedding_model = None\<rparr>],
     entity_relationships := [\<lparr>rel_id = ''r'', rel_scope = DefaultScope, rel_subject_id = ''person:ana'', rel_predicate = ''knows'',
       rel_object_id = ''person:ana'', rel_valid_from = None, rel_valid_until = Some ''2024-01-03'', rel_source_summary_id = None, rel_created_at = 0\<rparr>]\<rparr>\<rparr>"

lemma view_keys: "holds (key_inv (st_aead sample_store) (kek view_world) (scope_keys (db view_world))) None view_world"
  using source_keys
  by (simp add: holds_def key_inv_def keys_ok_def view_world_def source_world_def init_world_def source_db_def sample_store_def session_def)

lemma view_Trace:
  "wp (Trace sample_store DefaultScope ''ep_1'' ''op'') (\<lambda>tr _. te_InputText (tr_Episode tr) = ''hi''
     \<and> map tn_Name (tr_Entities tr) = [''Ana''] \<and> map ts_Text (tr_Summaries tr) = [''new'']) (\<lambda>_ _. False) view_world"
  by code_simp

lemma view_ExportMemory:
  "wp (ExportMemory sample_store DefaultScope ''op'') (\<lambda>x _. map xs_Text (mx_Summaries x) = [''new'']
     \<and> map (map xf_Fact \<circ> xs_KeyFacts) (mx_Summaries x) = [[''fact'']] \<and> map xn_Attributes (mx_Entities x) = [''{}'']
     \<and> map xr_ValidUntil (mx_Relationships x) = [''2024-01-03'']) (\<lambda>_ _. False) view_world"
  by code_simp

theorem Trace_tells_the_turn_witness:
  "\<exists>tr w'. Trace sample_store DefaultScope ''ep_1'' ''op'' view_world = (Inr tr, w') \<and> map ts_Text (tr_Summaries tr) = [''new'']
     \<and> told prefix_aead (kek view_world) (db view_world) DefaultScope ''ep_1'' tr
     \<and> leaves_trace DefaultScope ''op'' \<lparr>ref_kind = RefKindEpisode, ref_scope = DefaultScope, ref_id = ''ep_1''\<rparr> (db view_world) (db w')"
proof -
  obtain tr w' where run: "Trace sample_store DefaultScope ''ep_1'' ''op'' view_world = (Inr tr, w')" "map ts_Text (tr_Summaries tr) = [''new'']"
    using view_Trace by (auto simp: wp_def split: prod.splits sum.splits)
  show ?thesis using Trace_tells_the_turn [OF view_keys run(1)] run by (auto simp: sample_store_def)
qed

theorem ExportMemory_whole_witness:
  "\<exists>x w'. ExportMemory sample_store DefaultScope ''op'' view_world = (Inr x, w')
     \<and> map xs_Text (mx_Summaries x) = [''new''] \<and> map (map xf_Fact \<circ> xs_KeyFacts) (mx_Summaries x) = [[''fact'']]
     \<and> whole_memory prefix_aead (kek view_world) (db view_world) DefaultScope x
     \<and> leaves_trace DefaultScope ''op'' \<lparr>ref_kind = RefKindEntity, ref_scope = DefaultScope, ref_id = ''*''\<rparr> (db view_world) (db w')"
proof -
  obtain x w' where run: "ExportMemory sample_store DefaultScope ''op'' view_world = (Inr x, w')"
    "map xs_Text (mx_Summaries x) = [''new'']" "map (map xf_Fact \<circ> xs_KeyFacts) (mx_Summaries x) = [[''fact'']]"
    using view_ExportMemory by (auto simp: wp_def split: prod.splits sum.splits)
  show ?thesis using ExportMemory_whole [OF view_keys run(1)] run by (auto simp: sample_store_def)
qed

end
