(* ===== verification/Spec2Isabelle.thy ===== *)
theory Spec2Isabelle
  imports Rotate_Run Versions Cluster_Correct Grounding Entities_Correct Retrieve_Correct Periods Capture_Correct
    Reembed_Correct Demo_Correct Providers_Correct Gateway_Correct Hpmf_Correct Admin_Correct Views_Correct
begin

text \<open>
  HUPI: a memory gateway for language models, and the verification of its core.

  The program.  A gateway captures conversations as encrypted episodes, per scope (a private user
  or a shared team), and retrieves from that memory the context of the next question.  A
  consolidation engine turns the episodes of a day into a summary with key facts, entities and relationships, rolls summaries up into weeks, months and years, and lets a
  summary be corrected by a new version.  Content is encrypted under a data key per scope and key
  version, which an operator can rotate and prune.  All of it lives in one Postgres database whose
  row-level security separates the scopes.

  Effects.  Code that talks to the database is a state transformer of type \<^typ>\<open>'a proc\<close> over a
  \<^typ>\<open>world\<close>: the database, the open transaction, the key cache of the process, the clock, the
  random source and the model answers still to come.  Every statement, commit and model call
  consults a fault schedule and may fail before or after it took effect, so a theorem about every
  world is a theorem about every crash and error.  A Go error is the left value of a sum.

  Theories.
  \<^item> \<open>Hupi_Prelude\<close>: the state and error monad, collections of facts, lists, maps and words.
  \<^item> \<open>Hupi_Db\<close>: internal/identity, internal/dbscope, internal/audit and the tables of schema/.
  \<^item> \<open>Key_Store\<close>: internal/crypto (field encryption, key store, cache, concurrent processes).
  \<^item> \<open>Pgfmt\<close>, \<open>Extract_Json\<close>, \<open>Go_Text\<close>: internal/pgfmt, extractJSON, and the text helpers of
    internal/consolidation over Go's UTF-8 decoding.
  \<^item> \<open>Content\<close>, \<open>Rotate\<close>, \<open>Rotate_Rows\<close>, \<open>Rotate_Correct\<close>, \<open>Rotate_Run\<close>: internal/rotate and
    cmd/hupi-rotate-key: the state machine over the encrypted tables, that a row says the same
    before and after it moves, the progress invariant, completion and pruning.
  \<^item> \<open>Calendar\<close>: periods, ISO weeks and the schedule of cmd/hupi-consolidate.
  \<^item> \<open>Consolidation\<close>, \<open>Entities\<close>, \<open>Summaries\<close>, \<open>Cluster\<close>, \<open>Runner\<close>: internal/consolidation, in
    the order of its files: prompts, grounding and per-episode facts; entities and relationships;
    storing and loading summaries; topic clustering; daily runs, rollups and corrections.
  \<^item> \<open>Db_Frame\<close>, \<open>Runner_Frame\<close>: the interfaces.  A relation that is reflexive, transitive and
    kept by the row writes a component performs is kept by every operation of the runner; the
    locales state this once and \<open>Runner_Correct\<close> and \<open>Versions\<close> interpret them for isolation,
    append-only history, the entity graph and version chains.
  \<^item> \<open>Cluster_Correct\<close>, \<open>Grounding\<close>, \<open>Rollups\<close>, \<open>Entities_Correct\<close>: the functional properties
    of clustering, grounding, rollups and entity updates.
  \<^item> \<open>Ranking\<close>, \<open>Temporal\<close>, \<open>Retrieve\<close>: internal/store. BM25, key-fact ranking, maximal marginal
    relevance and excerpts (bm25.go, retrieve.go); timeframes, periods and date labels
    (temporal.go); the searches, \<open>Retrieve\<close> and \<open>Capture\<close> (retrieve.go, capture.go).
  \<^item> \<open>Ranking_Correct\<close>, \<open>Periods\<close>, \<open>Capture_Correct\<close>, \<open>Retrieve_Correct\<close>: that the selection is
    greedy and keyword search exact, that retrieval and consolidation read the same days from a
    period, that a capture is a round trip, and what the references of a retrieval name.
  \<^item> \<open>Views\<close>, \<open>Views_Correct\<close>: the trace of a turn and the export of a scope's memory (trace.go, export.go).  Both return
    what the rows decrypt to, all of them and in order, and write one audit record.
  \<^item> \<open>Scope_View\<close>, \<open>Retrieve_Isolated\<close>: runs on two databases that agree on some scopes; retrieval
    sees nothing of any other scope and writes nothing but its audit record.
  \<^item> \<open>Reembed\<close>, \<open>Reembed_Correct\<close>: internal/reembed and cmd/hupi-reembed: the tables of embeddings
    share one contract, a locale interpreted three times, and the loop of the command empties them.
    Its fuel is the number of rounds; one more than the pending rows is enough.
  \<^item> \<open>Demo\<close>, \<open>Demo_Correct\<close>: internal/demo: guest sessions, their
    meters (a locale interpreted for messages and consolidations), the sweep, and the caps over
    every history, a step relation with its invariant.
  \<^item> \<open>Providers\<close>, \<open>Providers_Correct\<close>: internal/provider and \<open>VerifyEmbedding\<close> of internal/bootstrap: the
    registry, the wrappers that bring vectors to the length of the columns, retries over a sequence of
    outcomes, and the two stream parsers; a billed request is not repeated and padding is exact.
  \<^item> \<open>Ingest\<close>: internal/ingest: the text of an attached file, over the parsers of its format.
  \<^item> \<open>Gateway\<close>, \<open>Gateway_Correct\<close>: internal/gateway: a chat turn from the request to the capture and the
    reply, attachments, attribution, the aggregation hint and feedback.  What is captured is what the
    client read; a locale carries any relation that allows a scope's new rows through every handler.
  \<^item> \<open>Hpmf\<close>, \<open>Hpmf_Correct\<close>: internal/hpmf and \<open>importOne\<close> of cmd/hupi-import: the portable memory format.  A
    directory is the records of its files, and a file operation fails as a statement does.  Export followed by
    import is a round trip of the episodes, an import adds each new hash once or nothing, and neither touches
    another scope.
  \<^item> \<open>Auth\<close>, \<open>Admin\<close>, \<open>Admin_Correct\<close>: internal/auth, internal/audit/query.go, cmd/hupi-admin, cmd/hupi-audit and
    cmd/hupi-admin-ui: users, teams, passwords and operators, the command, and the web interface from its
    middlewares to the rows.  Two relations on the database interpret one locale of what an administrator
    writes, and every history of commands and requests keeps them: a revoked credential is dead.

  Parameters.  AES-GCM, encoding/json, the Unicode tables, the decimal form of a float,
  math.Log, pgvector's distance, the environment, the language models and the embedding models are
  arguments of the definitions; the laws assumed of them are hypotheses by name (such as \<^const>\<open>aead_correct\<close>), and every witness instantiates them.

  Not modelled.  The bytes of HTTP requests and responses, flag parsing and HTML; log lines and metrics; the tar, gzip and age
  packing of a bundle; the read-only dashboard (cmd/hupi-dashboard).  One
  process runs at a time except in \<open>Key_Store\<close> and \<open>Demo_Correct\<close>, so advisory and row locks are
  no-ops.
\<close>

end
